(* ===== verification/Prelude.thy ===== *)
theory Prelude
  imports Main "HOL-Library.Word"
begin

text \<open>
  Shared vocabulary of the development: instants and clocks of the Go runtime, the Go reading
  of a map with a missing key, relational tables with the SQL statements the stores issue, and
  the lemmas about them that the component theories reuse.  Nothing here models a file of the
  repository on its own.
\<close>

named_theorems table_simps "rewrites for the SQL statements over tables"
named_theorems inv_intros "one lemma per operation: the operation keeps the component's invariant"

section \<open>Time\<close>

text \<open>
  A Go \<open>time.Time\<close> is an instant in nanoseconds since the Unix epoch and a
  \<open>time.Duration\<close> a number of nanoseconds; both are unbounded integers here.
  \<open>unix_milli\<close> is \<open>Time.UnixMilli\<close>, which rounds towards minus infinity.
  \<open>zero_time\<close> is the zero \<open>time.Time\<close> (1 January of year 1).
\<close>

type_synonym instant = int
type_synonym duration = int
type_synonym millis = int

abbreviation millisecond :: duration where "millisecond \<equiv> 1000000"
abbreviation second :: duration where "second \<equiv> 1000000000"
abbreviation minute :: duration where "minute \<equiv> 60 * second"

definition unix_milli :: "instant \<Rightarrow> millis" where
  "unix_milli t = t div millisecond"

definition zero_time :: instant where
  "zero_time = - 62135596800 * second"

lemma unix_milli_mono: "s \<le> t \<Longrightarrow> unix_milli s \<le> unix_milli t"
  by (simp add: unix_milli_def zdiv_mono1)

lemma unix_milli_zero_time: "unix_milli zero_time = - 62135596800000"
  by (simp add: unix_milli_def zero_time_def)

section \<open>Go maps with integer values\<close>

text \<open>Reading a missing key of a Go map of integers gives 0.\<close>

definition at0 :: "('k \<Rightarrow> int option) \<Rightarrow> 'k \<Rightarrow> int" where
  "at0 m k = (case m k of None \<Rightarrow> 0 | Some v \<Rightarrow> v)"

lemma at0_upd [simp]: "at0 (m(k \<mapsto> v)) k' = (if k' = k then v else at0 m k')"
  by (simp add: at0_def)

lemma at0_del [simp]: "at0 (m(k := None)) k' = (if k' = k then 0 else at0 m k')"
  by (simp add: at0_def)

lemma at0_empty [simp]: "at0 Map.empty k = 0"
  by (simp add: at0_def)

text \<open>A counter map: finitely many keys, every stored value positive.\<close>

definition counter_map :: "('k \<Rightarrow> int option) \<Rightarrow> bool" where
  "counter_map m \<longleftrightarrow> finite (dom m) \<and> (\<forall>k v. m k = Some v \<longrightarrow> 0 < v)"

definition map_total :: "('k \<Rightarrow> int option) \<Rightarrow> int" where
  "map_total m = (\<Sum>k\<in>dom m. at0 m k)"

lemma counter_map_empty [simp]: "counter_map Map.empty"
  by (simp add: counter_map_def)

lemma counter_map_upd: "counter_map m \<Longrightarrow> 0 < v \<Longrightarrow> counter_map (m(k \<mapsto> v))"
  by (auto simp: counter_map_def)

lemma counter_map_del: "counter_map m \<Longrightarrow> counter_map (m(k := None))"
  by (auto simp: counter_map_def)

lemma counter_map_nonneg: "counter_map m \<Longrightarrow> 0 \<le> at0 m k"
  by (force simp: counter_map_def at0_def split: option.splits)

lemma counter_map_none: "counter_map m \<Longrightarrow> at0 m k \<le> 0 \<Longrightarrow> m k = None"
  by (force simp: counter_map_def at0_def split: option.splits)

lemma counter_map_some: "at0 m k \<noteq> 0 \<Longrightarrow> m k = Some (at0 m k)"
  by (auto simp: at0_def split: option.splits)

lemma map_total_empty [simp]: "map_total Map.empty = 0"
  by (simp add: map_total_def)

lemma map_total_del:
  assumes "finite (dom m)"
  shows "map_total (m(k := None)) = map_total m - at0 m k"
proof -
  have "map_total (m(k := None)) = (\<Sum>j\<in>dom m - {k}. at0 m j)"
    by (simp add: map_total_def)
  also have "\<dots> = map_total m - at0 m k"
    using assms
    by (cases "k \<in> dom m") (auto simp: map_total_def sum_diff1 at0_def domIff)
  finally show ?thesis .
qed

lemma map_total_upd:
  assumes "finite (dom m)"
  shows "map_total (m(k \<mapsto> v)) = map_total m - at0 m k + v"
proof -
  have "map_total (m(k \<mapsto> v)) = (\<Sum>j\<in>insert k (dom m - {k}). at0 (m(k \<mapsto> v)) j)"
    unfolding map_total_def by (rule sum.cong) auto
  also have "\<dots> = v + (\<Sum>j\<in>dom m - {k}. at0 m j)"
    using assms by (subst sum.insert) auto
  also have "(\<Sum>j\<in>dom m - {k}. at0 m j) = map_total (m(k := None))"
    by (simp add: map_total_def)
  also have "\<dots> = map_total m - at0 m k"
    using assms by (rule map_total_del)
  finally show ?thesis by (simp del: fun_upd_apply)
qed

lemma counter_map_le_total:
  assumes "counter_map m"
  shows "at0 m k \<le> map_total m"
proof -
  have "map_total (m(k := None)) \<ge> 0"
    unfolding map_total_def
    by (rule sum_nonneg) (rule counter_map_nonneg [OF counter_map_del [OF assms]])
  then show ?thesis
    using assms by (simp add: map_total_del counter_map_def)
qed

end
