(* ===== verification/Tables.thy ===== *)
theory Tables
  imports Prelude
begin

text \<open>
  Relational tables and the statements the stores issue against them.  A table is the list of
  its rows in the order they were inserted; a statement is a function on that list.  Every
  statement runs inside one transaction of the database, so an operation of a store is one
  function from tables to tables.
\<close>

section \<open>Statements\<close>

text \<open>\<open>UPDATE t SET f WHERE P\<close>: the assignments read the old row.\<close>

definition sql_update :: "('r \<Rightarrow> bool) \<Rightarrow> ('r \<Rightarrow> 'r) \<Rightarrow> 'r list \<Rightarrow> 'r list" where
  "sql_update P f t = map (\<lambda>r. if P r then f r else r) t"

text \<open>The number of rows a statement with \<open>WHERE P\<close> affects.\<close>

definition sql_count :: "('r \<Rightarrow> bool) \<Rightarrow> 'r list \<Rightarrow> nat" where
  "sql_count P t = length (filter P t)"

text \<open>\<open>DELETE FROM t WHERE P\<close>\<close>

definition sql_delete :: "('r \<Rightarrow> bool) \<Rightarrow> 'r list \<Rightarrow> 'r list" where
  "sql_delete P t = filter (\<lambda>r. \<not> P r) t"

text \<open>\<open>SELECT ... WHERE P\<close> read as a single row; \<open>None\<close> is \<open>sql.ErrNoRows\<close>.\<close>

definition sql_row :: "('r \<Rightarrow> bool) \<Rightarrow> 'r list \<Rightarrow> 'r option" where
  "sql_row P t = find P t"

text \<open>\<open>SELECT ... WHERE P ORDER BY key\<close>, ascending, rows with equal keys in table order.\<close>

definition sql_select :: "('r \<Rightarrow> bool) \<Rightarrow> ('r \<Rightarrow> 'k :: linorder) \<Rightarrow> 'r list \<Rightarrow> 'r list" where
  "sql_select P key t = sort_key key (filter P t)"

text \<open>\<open>ORDER BY key LIMIT 1\<close> read as a single row.\<close>

definition sql_first :: "('r \<Rightarrow> bool) \<Rightarrow> ('r \<Rightarrow> 'k :: linorder) \<Rightarrow> 'r list \<Rightarrow> 'r option" where
  "sql_first P key t = (case sql_select P key t of [] \<Rightarrow> None | r # _ \<Rightarrow> Some r)"

text \<open>A (partial) unique index on \<open>key\<close> over the rows that satisfy \<open>P\<close>.\<close>

definition unique_index :: "('r \<Rightarrow> bool) \<Rightarrow> ('r \<Rightarrow> 'k) \<Rightarrow> 'r list \<Rightarrow> bool" where
  "unique_index P key t \<longleftrightarrow> distinct (map key (filter P t))"

section \<open>Rewrites\<close>

lemma length_sql_update [simp]: "length (sql_update P f t) = length t"
  by (simp add: sql_update_def)

lemma sql_update_Nil [simp]: "sql_update P f [] = []"
  by (simp add: sql_update_def)

lemma sql_update_append [table_simps]: "sql_update P f (t @ u) = sql_update P f t @ sql_update P f u"
  by (simp add: sql_update_def)

lemma set_sql_update: "set (sql_update P f t) = (\<lambda>r. if P r then f r else r) ` set t"
  by (simp add: sql_update_def)

lemma sql_update_elim:
  assumes "r \<in> set (sql_update P f t)"
  obtains r0 where "r0 \<in> set t" "r = (if P r0 then f r0 else r0)"
  using assms by (auto simp: set_sql_update)

lemma sql_count_0_iff: "sql_count P t = 0 \<longleftrightarrow> (\<forall>r\<in>set t. \<not> P r)"
  by (auto simp: sql_count_def filter_empty_conv)

lemma sql_update_none: "sql_count P t = 0 \<Longrightarrow> sql_update P f t = t"
  unfolding sql_update_def sql_count_0_iff by (rule map_idI) auto

lemma map_sql_update:
  "(\<And>r. P r \<Longrightarrow> key (f r) = key r) \<Longrightarrow> map key (sql_update P f t) = map key t"
  by (simp add: sql_update_def)

lemma map_filter_sql_update:
  assumes "\<And>r. P r \<Longrightarrow> Q (f r) = Q r" "\<And>r. P r \<Longrightarrow> key (f r) = key r"
  shows "map key (filter Q (sql_update P f t)) = map key (filter Q t)"
  by (induction t) (auto simp: sql_update_def assms)

lemma sql_row_Some: "sql_row P t = Some r \<Longrightarrow> r \<in> set t \<and> P r"
  by (auto simp: sql_row_def find_Some_iff)

lemma sql_row_None: "sql_row P t = None \<longleftrightarrow> (\<forall>r\<in>set t. \<not> P r)"
  by (auto simp: sql_row_def find_None_iff)

lemma sql_row_Nil [simp]: "sql_row P [] = None"
  by (simp add: sql_row_def)

lemma sql_row_append:
  "sql_row P (t @ u) = (case sql_row P t of Some r \<Rightarrow> Some r | None \<Rightarrow> sql_row P u)"
  by (induction t) (auto simp: sql_row_def)

text \<open>A row looked up by a key that an update keeps is the updated row.\<close>

lemma sql_row_update:
  assumes "\<And>r. P r \<Longrightarrow> Q (f r) = Q r"
  shows "sql_row Q (sql_update P f t) = map_option (\<lambda>r. if P r then f r else r) (sql_row Q t)"
  by (induction t) (auto simp: sql_update_def sql_row_def assms)

lemma sql_row_delete_other:
  assumes "\<And>r. Q r \<Longrightarrow> \<not> P r"
  shows "sql_row Q (sql_delete P t) = sql_row Q t"
  by (induction t) (auto simp: sql_delete_def sql_row_def dest: assms)

lemma set_sql_delete [simp]: "set (sql_delete P t) = {r \<in> set t. \<not> P r}"
  by (auto simp: sql_delete_def)

lemma set_sql_select [simp]: "set (sql_select P key t) = {r \<in> set t. P r}"
  by (auto simp: sql_select_def)

lemma sql_first_None: "sql_first P key t = None \<longleftrightarrow> (\<forall>r\<in>set t. \<not> P r)"
proof -
  have "sql_first P key t = None \<longleftrightarrow> set (sql_select P key t) = {}"
    unfolding sql_first_def by (cases "sql_select P key t") (simp_all del: set_sql_select)
  then show ?thesis by auto
qed

lemma sql_first_Some:
  assumes "sql_first P key t = Some r"
  shows "r \<in> set t" "P r" "\<forall>r'\<in>set t. P r' \<longrightarrow> key r \<le> key r'"
proof -
  obtain rs where rs: "sql_select P key t = r # rs"
    using assms by (auto simp: sql_first_def split: list.splits)
  then have "r \<in> set (sql_select P key t)" by simp
  then show "r \<in> set t" "P r" by auto
  have "sorted (map key (r # rs))"
    unfolding rs [symmetric] sql_select_def by simp
  then have least: "\<forall>r'\<in>set (r # rs). key r \<le> key r'" by auto
  have "set (r # rs) = {r \<in> set t. P r}" by (simp flip: rs)
  with least show "\<forall>r'\<in>set t. P r' \<longrightarrow> key r \<le> key r'" by blast
qed

section \<open>Unique indexes\<close>

lemma unique_index_update:
  assumes "unique_index Q key t"
    and "\<And>r. P r \<Longrightarrow> Q (f r) \<Longrightarrow> Q r" and "\<And>r. P r \<Longrightarrow> key (f r) = key r"
  shows "unique_index Q key (sql_update P f t)"
  using assms(1) unfolding unique_index_def
proof (induction t)
  case (Cons r t)
  have sub: "set (map key (filter Q (sql_update P f t))) \<subseteq> set (map key (filter Q t))"
    using assms(2,3) by (fastforce simp: sql_update_def)
  let ?r = "if P r then f r else r"
  have r: "Q ?r \<Longrightarrow> Q r" "key ?r = key r"
    using assms(2,3) by (auto split: if_splits)
  have "sql_update P f (r # t) = ?r # sql_update P f t"
    by (simp add: sql_update_def)
  moreover have "distinct (map key (filter Q (sql_update P f t)))"
    using Cons by (auto split: if_splits)
  moreover have "key ?r \<notin> set (map key (filter Q (sql_update P f t)))" if "Q ?r"
    using Cons.prems sub r that by (auto split: if_splits)
  ultimately show ?case
    by (metis distinct.simps(2) filter.simps(2) list.simps(9))
qed (simp add: sql_update_def)

lemma sql_update_cong:
  "(\<And>r. r \<in> set t \<Longrightarrow> P r = P' r) \<Longrightarrow> (\<And>r. r \<in> set t \<Longrightarrow> P' r \<Longrightarrow> f r = g r) \<Longrightarrow>
     sql_update P f t = sql_update P' g t"
  by (simp add: sql_update_def)

text \<open>The same for facts that hold of the rows of the table only.\<close>

lemma unique_index_update_in:
  assumes "unique_index Q key t"
    and "\<And>r. r \<in> set t \<Longrightarrow> P r \<Longrightarrow> Q (f r) \<Longrightarrow> Q r"
    and "\<And>r. r \<in> set t \<Longrightarrow> P r \<Longrightarrow> key (f r) = key r"
  shows "unique_index Q key (sql_update P f t)"
proof -
  have "sql_update P f t = sql_update (\<lambda>r. r \<in> set t \<and> P r) f t"
    by (rule sql_update_cong) auto
  also have "unique_index Q key \<dots>"
    by (rule unique_index_update [OF assms(1)]) (use assms(2,3) in auto)
  finally show ?thesis .
qed

lemma unique_index_snoc:
  "unique_index Q key (t @ [r]) \<longleftrightarrow>
     unique_index Q key t \<and> (Q r \<longrightarrow> (\<forall>r'\<in>set t. Q r' \<longrightarrow> key r' \<noteq> key r))"
  unfolding unique_index_def by (cases "Q r") (simp_all add: image_iff, metis)

lemma unique_index_delete: "unique_index Q key t \<Longrightarrow> unique_index Q key (sql_delete P t)"
  unfolding unique_index_def sql_delete_def
  by (induction t) auto

lemma unique_index_eq:
  assumes "unique_index Q key t" "r \<in> set t" "s \<in> set t" "Q r" "Q s" "key r = key s"
  shows "r = s"
  using assms unfolding unique_index_def
  by (auto simp: distinct_map inj_on_def)

lemma unique_index_iff:
  assumes "distinct t"
  shows "unique_index Q key t \<longleftrightarrow>
    (\<forall>r \<in> set t. \<forall>s \<in> set t. Q r \<longrightarrow> Q s \<longrightarrow> key r = key s \<longrightarrow> r = s)"
  using assms by (auto simp: unique_index_def distinct_map inj_on_def)

lemma unique_index_distinct: "unique_index (\<lambda>_. True) key t \<Longrightarrow> distinct t"
  by (simp add: unique_index_def distinct_map)

lemma map_sql_delete_key:
  "map key (sql_delete (\<lambda>r. key r = k) t) = filter (\<lambda>j. j \<noteq> k) (map key t)"
  by (induction t) (auto simp: sql_delete_def)

text \<open>
  With a unique key, the row found by the key is the row that holds it.
\<close>

lemma sql_row_unique:
  assumes "unique_index (\<lambda>_. True) key t" "r \<in> set t"
  shows "sql_row (\<lambda>x. key x = key r) t = Some r"
proof (cases "sql_row (\<lambda>x. key x = key r) t")
  case None
  with assms(2) show ?thesis by (auto simp: sql_row_None)
next
  case (Some r')
  then have "r' \<in> set t \<and> key r' = key r" by (rule sql_row_Some)
  with assms Some show ?thesis using unique_index_eq [OF assms(1)] by auto
qed

end
