(* ===== verification/ExecStore.thy ===== *)
theory ExecStore
  imports Tables "HOL-Library.List_Lexorder" "HOL-Library.Char_ord" "HOL-Library.Product_Lexorder"
begin

text \<open>
  The durable execution ledger, \<open>internal/execution/store.go\<close> and \<open>sql_store.go\<close>: one row per
  accepted user input, its delivery status, its runtime status, the owner's lease and the fence.
  The tables and their unique indexes are those of \<open>internal/session/sql/migrations\<close> 026 to 045.
  A statement that fails in the driver leaves the tables as they were and is not an operation
  here; \<open>now\<close> is the gateway's clock, \<open>dbnow\<close> the database's (\<open>dbNowMillisExpr\<close>), and an id that
  the code draws from \<open>uuid.NewString\<close> is an argument.
\<close>

section \<open>Rows\<close>

datatype delivery_status = StAccepted | StDelivered | StUnknown | StFailed

datatype runtime_status =
    RtQueued | RtPending | RtRunning | RtCompleted | RtFailed | RtUnknown

text \<open>A fence decision is a string; \<open>DecisionOther\<close> is any string but the two constants.\<close>

datatype fence_decision = DecisionResolve | DecisionAbandon | DecisionOther string

definition lease_ttl :: int where
  "lease_ttl = 60"

definition operator_abandoned :: string where
  "operator_abandoned = ''OPERATOR_ABANDONED''"

type_synonym execution_id = string
type_synonym session_id = string

text \<open>One row of \<open>execution_inputs\<close>; a nullable column is an option.\<close>

record exec_row =
  x_id :: execution_id
  x_session :: session_id
  x_client :: string
  x_hash :: string
  x_status :: delivery_status
  x_error :: string
  x_created :: millis
  x_updated :: millis
  x_delivered :: "millis option"
  x_owner :: string
  x_run :: string
  x_lease :: millis
  x_runtime :: runtime_status
  x_runtime_error :: string
  x_started :: "millis option"
  x_finished :: "millis option"
  x_fence :: string
  x_fence_version :: int
  x_fence_created :: "millis option"
  x_turn_started :: "millis option"
  x_turn_deadline :: "millis option"
  x_turn_revision :: string
  x_facts_retention :: "int option"
  x_retention_revision :: string

text \<open>Rows of \<open>execution_queue\<close> and \<open>execution_queue_payloads\<close>.\<close>

record queue_row =
  q_id :: execution_id
  q_session :: session_id
  q_seq :: int
  q_enqueued :: millis
  q_expires :: millis
  q_revision :: int
  q_payload_ref :: string
  q_payload_bytes :: int

record payload_row =
  y_payload_id :: string
  y_id :: execution_id
  y_session :: session_id
  y_content :: string
  y_invocation :: string
  y_bytes :: int
  y_sha256 :: string
  y_created :: millis

text \<open>The columns of \<open>sessions\<close> that \<open>lockAcceptableSession\<close> reads.\<close>

record session_view =
  sv_state :: string
  sv_policy :: string
  sv_deleted_at :: "instant option"
  sv_conversation_expires :: "instant option"

record exec_db =
  t_exec :: "exec_row list"
  t_queue :: "queue_row list"
  t_payload :: "payload_row list"
  t_counter :: "session_id \<Rightarrow> int option"
  t_budget :: int
  t_sessions :: "session_id \<Rightarrow> session_view option"

text \<open>What \<open>SetRetentionPolicy\<close> configures.\<close>

record store_config =
  sc_facts_ms :: int
  sc_revision :: string

definition set_retention_policy :: "duration \<Rightarrow> string \<Rightarrow> store_config" where
  "set_retention_policy facts revision =
     \<lparr>sc_facts_ms = max 0 (facts div millisecond), sc_revision = revision\<rparr>"

datatype fence_conflict = FenceCleared | FenceMoved int int | FenceRuntime runtime_status

datatype exec_error =
    ErrRequired
  | ErrInvalidStatus
  | ErrNotFound
  | ErrPayloadConflict
  | ErrSessionExpired
  | ErrSessionBusy
  | ErrOwnerMismatch
  | ErrRunMismatch
  | ErrTurnDeadlineConflict
  | ErrFenceConflict fence_conflict
  | ErrFenceReason string string
  | ErrRuntimeStatus runtime_status
  | ErrQueueFull
  | ErrQueuePayloadTooLarge
  | ErrQueueNotQueued
  | ErrQueueLifecycleStale
  | ErrQueueHeadMoved
  | ErrPayloadContentUnavailable
  | ErrDecodeInvocation
  | ErrInsert

section \<open>Indexes and look-ups\<close>

definition live_runtime :: "runtime_status \<Rightarrow> bool" where
  "live_runtime s \<longleftrightarrow> s = RtPending \<or> s = RtRunning"

text \<open>
  The predicate of \<open>idx_execution_one_active_per_session\<close>: rows that occupy the single active
  slot of their session.
\<close>

definition occupies :: "exec_row \<Rightarrow> bool" where
  "occupies r \<longleftrightarrow> live_runtime (x_runtime r) \<or> x_fence r \<noteq> []"

definition client_key :: "exec_row \<Rightarrow> session_id \<times> string" where
  "client_key r = (x_session r, x_client r)"

definition get_by_id :: "execution_id \<Rightarrow> exec_db \<Rightarrow> exec_row option" where
  "get_by_id i db = sql_row (\<lambda>r. x_id r = i) (t_exec db)"

definition get_by_client :: "session_id \<Rightarrow> string \<Rightarrow> exec_db \<Rightarrow> exec_row option" where
  "get_by_client s c db = sql_row (\<lambda>r. client_key r = (s, c)) (t_exec db)"

definition update_exec ::
    "(exec_row \<Rightarrow> bool) \<Rightarrow> (exec_row \<Rightarrow> exec_row) \<Rightarrow> exec_db \<Rightarrow> exec_db \<times> nat" where
  "update_exec P f db =
     (db\<lparr>t_exec := sql_update P f (t_exec db)\<rparr>, sql_count P (t_exec db))"

text \<open>
  \<open>fenceEntryBump(true)\<close>: the version is bumped and the fence stamped only when the row was not
  fenced.  It reads the old row, so it is applied before the assignment of \<open>fence_reason\<close>.
\<close>

definition fence_entry_bump :: "millis \<Rightarrow> exec_row \<Rightarrow> exec_row" where
  "fence_entry_bump dbnow r =
     (if x_fence r = []
      then r\<lparr>x_fence_version := x_fence_version r + 1, x_fence_created := Some dbnow\<rparr> else r)"

section \<open>Accepting an input\<close>

text \<open>
  \<open>lockAcceptableSession\<close>: the session row must exist, not be deleted, and under policy v2 its
  conversation deadline must lie in the future.
\<close>

definition lock_acceptable_session :: "instant \<Rightarrow> session_id \<Rightarrow> exec_db \<Rightarrow> exec_error option" where
  "lock_acceptable_session now s db =
     (case t_sessions db s of
        None \<Rightarrow> Some ErrSessionExpired
      | Some v \<Rightarrow>
          if sv_state v = ''deleted'' \<or> sv_deleted_at v \<noteq> None then Some ErrSessionExpired
          else if sv_policy v = ''v2'' \<and>
                  (\<exists>e \<in> set_option (sv_conversation_expires v). e \<le> now)
          then Some ErrSessionExpired
          else None)"

record accept_request =
  ar_session :: session_id
  ar_client :: string
  ar_hash :: string
  ar_owner :: string
  ar_run :: string

definition null_if_zero :: "int \<Rightarrow> int option" where
  "null_if_zero n = (if n = 0 then None else Some n)"

definition accept_row ::
    "store_config \<Rightarrow> accept_request \<Rightarrow> millis \<Rightarrow> millis \<Rightarrow> execution_id \<Rightarrow> exec_row" where
  "accept_row cfg q now dbnow i =
     \<lparr>x_id = i, x_session = ar_session q, x_client = ar_client q, x_hash = ar_hash q,
      x_status = StAccepted, x_error = [], x_created = now, x_updated = now,
      x_delivered = None, x_owner = ar_owner q, x_run = ar_run q,
      x_lease = dbnow + lease_ttl * 1000, x_runtime = RtPending, x_runtime_error = [],
      x_started = None, x_finished = None, x_fence = [], x_fence_version = 0,
      x_fence_created = None, x_turn_started = None, x_turn_deadline = None,
      x_turn_revision = [], x_facts_retention = null_if_zero (sc_facts_ms cfg),
      x_retention_revision = sc_revision cfg\<rparr>"

text \<open>
  \<open>INSERT INTO execution_inputs ... ON CONFLICT(session_id, client_message_id) DO NOTHING\<close>: the
  conflict target is looked at first; another unique violation (the primary key or the
  one-active index) is an error.
\<close>

datatype insert_outcome = Inserted | ConflictIgnored | UniqueViolation

definition violates_unique :: "exec_row \<Rightarrow> exec_db \<Rightarrow> bool" where
  "violates_unique r db \<longleftrightarrow>
     (\<exists>r' \<in> set (t_exec db). x_id r' = x_id r) \<or>
     (occupies r \<and> (\<exists>r' \<in> set (t_exec db). occupies r' \<and> x_session r' = x_session r))"

definition insert_ignoring :: "exec_row \<Rightarrow> exec_db \<Rightarrow> exec_db \<times> insert_outcome" where
  "insert_ignoring r db =
     (if \<exists>r' \<in> set (t_exec db). client_key r' = client_key r then (db, ConflictIgnored)
      else if violates_unique r db then (db, UniqueViolation)
      else (db\<lparr>t_exec := t_exec db @ [r]\<rparr>, Inserted))"

definition accept_valid :: "accept_request \<Rightarrow> bool" where
  "accept_valid q \<longleftrightarrow> ar_session q \<noteq> [] \<and> ar_client q \<noteq> [] \<and> ar_hash q \<noteq> [] \<and>
     ar_owner q \<noteq> [] \<and> ar_run q \<noteq> []"

text \<open>The first read: a known key is answered without a write.\<close>

definition accept_read ::
    "accept_request \<Rightarrow> exec_db \<Rightarrow> (exec_row option \<times> bool \<times> exec_error option) option" where
  "accept_read q db =
     (case get_by_client (ar_session q) (ar_client q) db of
        None \<Rightarrow> None
      | Some r \<Rightarrow> Some (Some r, True, if x_hash r \<noteq> ar_hash q then Some ErrPayloadConflict else None))"

text \<open>The transaction; \<open>tnow\<close> is the clock reading of the session check inside it.\<close>

definition accept_tx ::
    "store_config \<Rightarrow> accept_request \<Rightarrow> millis \<Rightarrow> instant \<Rightarrow> millis \<Rightarrow> execution_id \<Rightarrow> exec_db \<Rightarrow>
       exec_db \<times> (exec_error + bool)" where
  "accept_tx cfg q now tnow dbnow i db =
     (case lock_acceptable_session tnow (ar_session q) db of
        Some e \<Rightarrow> (db, Inl e)
      | None \<Rightarrow>
          (case insert_ignoring (accept_row cfg q now dbnow i) db of
             (db', UniqueViolation) \<Rightarrow> (db, Inl ErrSessionBusy)
           | (db', Inserted) \<Rightarrow> (db', Inr True)
           | (db', ConflictIgnored) \<Rightarrow> (db', Inr False)))"

text \<open>The read after the commit.\<close>

definition accept_reread ::
    "accept_request \<Rightarrow> execution_id \<Rightarrow> bool \<Rightarrow> exec_db \<Rightarrow> exec_row option \<times> bool \<times> exec_error option" where
  "accept_reread q i inserted db =
     (if inserted then
        (case get_by_id i db of
           None \<Rightarrow> (None, False, Some ErrNotFound)
         | Some r \<Rightarrow> (Some r, False, None))
      else
        (case get_by_client (ar_session q) (ar_client q) db of
           None \<Rightarrow> (None, False, Some ErrNotFound)
         | Some r \<Rightarrow> if x_hash r \<noteq> ar_hash q then (None, True, Some ErrPayloadConflict)
                     else (Some r, True, None)))"

definition accept ::
    "store_config \<Rightarrow> accept_request \<Rightarrow> millis \<Rightarrow> instant \<Rightarrow> millis \<Rightarrow> execution_id \<Rightarrow> exec_db \<Rightarrow>
       exec_db \<times> exec_row option \<times> bool \<times> exec_error option" where
  "accept cfg q now tnow dbnow i db =
     (if \<not> accept_valid q then (db, None, False, Some ErrRequired)
      else
        (case accept_read q db of
           Some answer \<Rightarrow> (db, answer)
         | None \<Rightarrow>
             (case accept_tx cfg q now tnow dbnow i db of
                (db', Inl e) \<Rightarrow> (db', None, False, Some e)
              | (db', Inr inserted) \<Rightarrow> (db', accept_reread q i inserted db'))))"

section \<open>Delivery\<close>

definition terminal_delivery :: "delivery_status \<Rightarrow> bool" where
  "terminal_delivery s \<longleftrightarrow> s \<noteq> StAccepted"

definition stamp_delivery :: "delivery_status \<Rightarrow> string \<Rightarrow> millis \<Rightarrow> exec_row \<Rightarrow> exec_row" where
  "stamp_delivery s code now r = r\<lparr>x_status := s, x_error := code, x_updated := now,
     x_delivered := (if s = StDelivered then Some now else None)\<rparr>"

definition set_status ::
    "execution_id \<Rightarrow> delivery_status \<Rightarrow> string \<Rightarrow> millis \<Rightarrow> exec_db \<Rightarrow> exec_db \<times> exec_error option" where
  "set_status i s code now db =
     (if i = [] then (db, Some ErrRequired)
      else if \<not> terminal_delivery s then (db, Some ErrInvalidStatus)
      else
        (case update_exec (\<lambda>r. x_id r = i \<and> x_status r = StAccepted)
                (stamp_delivery s code now) db of
           (db', 0) \<Rightarrow>
             (case get_by_id i db' of
                None \<Rightarrow> (db', Some ErrNotFound)
              | Some r \<Rightarrow> (db', if x_status r = s then None else Some ErrNotFound))
         | (db', _) \<Rightarrow> (db', None)))"

definition set_delivery ::
    "execution_id \<Rightarrow> string \<Rightarrow> delivery_status \<Rightarrow> string \<Rightarrow> millis \<Rightarrow> exec_db \<Rightarrow>
       exec_db \<times> exec_error option" where
  "set_delivery i owner s code now db =
     (if i = [] \<or> owner = [] then (db, Some ErrRequired)
      else if \<not> terminal_delivery s then (db, Some ErrInvalidStatus)
      else
        (case update_exec (\<lambda>r. x_id r = i \<and> x_owner r = owner \<and> x_status r = StAccepted)
                (stamp_delivery s code now) db of
           (db', 0) \<Rightarrow>
             (case get_by_id i db' of
                None \<Rightarrow> (db', Some ErrNotFound)
              | Some r \<Rightarrow>
                  (db', if x_status r = s then None
                        else if x_owner r \<noteq> owner then Some ErrOwnerMismatch
                        else Some ErrNotFound))
         | (db', _) \<Rightarrow> (db', None)))"

definition converge_delivery_failed ::
    "execution_id \<Rightarrow> string \<Rightarrow> millis \<Rightarrow> exec_db \<Rightarrow> exec_db \<times> exec_error option" where
  "converge_delivery_failed i run now db =
     (if i = [] \<or> run = [] then (db, Some ErrRequired)
      else
        (fst (update_exec
           (\<lambda>r. x_id r = i \<and> x_run r = run \<and> x_status r = StFailed \<and> x_runtime r = RtCompleted)
           (\<lambda>r. r\<lparr>x_status := StUnknown, x_updated := now\<rparr>) db), None))"

section \<open>Runtime\<close>

definition mark_running ::
    "execution_id \<Rightarrow> string \<Rightarrow> string \<Rightarrow> millis \<Rightarrow> exec_db \<Rightarrow> exec_db \<times> exec_error option" where
  "mark_running i owner run now db =
     (if i = [] \<or> owner = [] \<or> run = [] then (db, Some ErrRequired)
      else
        (case update_exec (\<lambda>r. x_id r = i \<and> x_owner r = owner \<and> x_runtime r = RtPending)
                (\<lambda>r. r\<lparr>x_runtime := RtRunning, x_run := run, x_started := Some now,
                        x_updated := now\<rparr>) db of
           (db', 0) \<Rightarrow>
             (case get_by_id i db' of
                None \<Rightarrow> (db', Some ErrNotFound)
              | Some r \<Rightarrow>
                  (db', if x_owner r \<noteq> owner then Some ErrOwnerMismatch
                        else if x_runtime r = RtRunning \<and> x_run r = run then None
                        else Some (ErrRuntimeStatus (x_runtime r))))
         | (db', _) \<Rightarrow> (db', None)))"

text \<open>\<open>COALESCE(column, v)\<close>\<close>

definition coalesce :: "'a option \<Rightarrow> 'a \<Rightarrow> 'a option" where
  "coalesce c v = (case c of None \<Rightarrow> Some v | Some w \<Rightarrow> Some w)"

definition set_turn_deadline ::
    "execution_id \<Rightarrow> string \<Rightarrow> millis \<Rightarrow> millis \<Rightarrow> string \<Rightarrow> millis \<Rightarrow> exec_db \<Rightarrow>
       exec_db \<times> exec_error option" where
  "set_turn_deadline i owner started deadline revision now db =
     (if i = [] \<or> owner = [] \<or> started \<le> 0 \<or> deadline \<le> started \<or> revision = []
      then (db, Some ErrRequired)
      else
        (case update_exec
                (\<lambda>r. x_id r = i \<and> x_owner r = owner \<and> x_runtime r = RtRunning \<and>
                     (x_turn_deadline r = None \<or>
                      (x_turn_started r = Some started \<and> x_turn_deadline r = Some deadline \<and>
                       x_turn_revision r = revision)))
                (\<lambda>r. r\<lparr>x_turn_started := coalesce (x_turn_started r) started,
                        x_turn_deadline := coalesce (x_turn_deadline r) deadline,
                        x_turn_revision :=
                          (if x_turn_revision r = [] then revision else x_turn_revision r),
                        x_updated := now\<rparr>) db of
           (db', 0) \<Rightarrow>
             (case get_by_id i db' of
                None \<Rightarrow> (db', Some ErrNotFound)
              | Some r \<Rightarrow>
                  (db', if x_owner r \<noteq> owner then Some ErrOwnerMismatch
                        else if x_turn_started r = Some started \<and>
                                x_turn_deadline r = Some deadline \<and>
                                x_turn_revision r = revision then None
                        else if x_turn_deadline r \<noteq> None then Some ErrTurnDeadlineConflict
                        else Some (ErrRuntimeStatus (x_runtime r))))
         | (db', _) \<Rightarrow> (db', None)))"

definition terminal_runtime :: "runtime_status \<Rightarrow> bool" where
  "terminal_runtime s \<longleftrightarrow> s = RtCompleted \<or> s = RtFailed"

definition finish_runtime ::
    "execution_id \<Rightarrow> string \<Rightarrow> runtime_status \<Rightarrow> string \<Rightarrow> millis \<Rightarrow> millis \<Rightarrow> exec_db \<Rightarrow>
       exec_db \<times> exec_error option" where
  "finish_runtime i run s code now dbnow db =
     (if i = [] \<or> run = [] then (db, Some ErrRequired)
      else if s \<noteq> RtCompleted \<and> s \<noteq> RtFailed \<and> s \<noteq> RtUnknown then (db, Some ErrInvalidStatus)
      else
        let fence = (if s = RtUnknown then ''RUNTIME_AMBIGUOUS'' else []);
            from = (if s = RtCompleted \<or> s = RtFailed
                    then {RtPending, RtRunning, RtUnknown} else {RtPending, RtRunning})
        in (case update_exec (\<lambda>r. x_id r = i \<and> x_run r = run \<and> x_runtime r \<in> from)
                   (\<lambda>r. (if fence \<noteq> [] then fence_entry_bump dbnow r else r)
                          \<lparr>x_runtime := s, x_runtime_error := code, x_finished := Some now,
                           x_fence := fence, x_updated := now\<rparr>) db of
              (db', 0) \<Rightarrow>
                (case get_by_id i db' of
                   None \<Rightarrow> (db', Some ErrNotFound)
                 | Some r \<Rightarrow>
                     (db', if x_runtime r = s \<and> x_run r = run then None
                           else if x_run r \<noteq> run then Some ErrRunMismatch
                           else Some (ErrRuntimeStatus (x_runtime r))))
            | (db', _) \<Rightarrow> (db', None)))"

section \<open>Reads\<close>

definition newest :: "(exec_row \<Rightarrow> bool) \<Rightarrow> exec_db \<Rightarrow> exec_error + exec_row" where
  "newest P db = (case sql_first P (\<lambda>r. - x_created r) (t_exec db) of
                    None \<Rightarrow> Inl ErrNotFound | Some r \<Rightarrow> Inr r)"

definition active_by_session :: "session_id \<Rightarrow> exec_db \<Rightarrow> exec_error + exec_row" where
  "active_by_session s db =
     (if s = [] then Inl ErrRequired
      else newest (\<lambda>r. x_session r = s \<and> live_runtime (x_runtime r)) db)"

definition open_by_session :: "session_id \<Rightarrow> exec_db \<Rightarrow> exec_error + exec_row" where
  "open_by_session s db =
     (if s = [] then Inl ErrRequired
      else newest (\<lambda>r. x_session r = s \<and>
                        (live_runtime (x_runtime r) \<or> x_runtime r = RtUnknown)) db)"

definition latest_by_session :: "session_id \<Rightarrow> exec_db \<Rightarrow> exec_error + exec_row" where
  "latest_by_session s db =
     (if s = [] then Inl ErrRequired else newest (\<lambda>r. x_session r = s) db)"

definition fence_by_session :: "session_id \<Rightarrow> exec_db \<Rightarrow> exec_error + exec_row" where
  "fence_by_session s db =
     (if s = [] then Inl ErrRequired
      else newest (\<lambda>r. x_session r = s \<and> x_fence r \<noteq> []) db)"

definition by_id :: "execution_id \<Rightarrow> exec_db \<Rightarrow> exec_error + exec_row" where
  "by_id i db =
     (if i = [] then Inl ErrRequired
      else (case get_by_id i db of None \<Rightarrow> Inl ErrNotFound | Some r \<Rightarrow> Inr r))"

text \<open>An empty string or a time that is not positive switches a filter off.\<close>

record list_filter =
  lf_session :: session_id
  lf_delivery :: "delivery_status option"
  lf_runtime :: "runtime_status option"
  lf_since :: millis
  lf_until :: millis
  lf_before_created :: millis
  lf_before_id :: execution_id
  lf_limit :: int

definition default_list_limit :: int where "default_list_limit = 50"
definition max_list_limit :: int where "max_list_limit = 200"

definition list_limit :: "int \<Rightarrow> nat" where
  "list_limit n =
     (let l = (if n \<le> 0 then default_list_limit else n)
      in nat (if l > max_list_limit then max_list_limit else l))"

definition matches_filter :: "list_filter \<Rightarrow> exec_row \<Rightarrow> bool" where
  "matches_filter f r \<longleftrightarrow>
     (lf_session f \<noteq> [] \<longrightarrow> x_session r = lf_session f) \<and>
     (lf_delivery f \<noteq> None \<longrightarrow> lf_delivery f = Some (x_status r)) \<and>
     (lf_runtime f \<noteq> None \<longrightarrow> lf_runtime f = Some (x_runtime r)) \<and>
     (lf_since f > 0 \<longrightarrow> x_created r \<ge> lf_since f) \<and>
     (lf_until f > 0 \<longrightarrow> x_created r < lf_until f)"

text \<open>The keyset cursor.\<close>

definition before_cursor :: "list_filter \<Rightarrow> exec_row \<Rightarrow> bool" where
  "before_cursor f r \<longleftrightarrow>
     (lf_before_created f > 0 \<longrightarrow>
        x_created r < lf_before_created f \<or>
        (x_created r = lf_before_created f \<and> x_id r < lf_before_id f))"

definition list_order :: "exec_row \<Rightarrow> millis \<times> execution_id" where
  "list_order r = (x_created r, x_id r)"

definition list_recent :: "list_filter \<Rightarrow> exec_db \<Rightarrow> exec_row list" where
  "list_recent f db =
     take (list_limit (lf_limit f))
       (rev (sql_select (\<lambda>r. matches_filter f r \<and> before_cursor f r) list_order (t_exec db)))"

section \<open>Fences\<close>

definition clear_fence_after_fresh_start ::
    "execution_id \<Rightarrow> string \<Rightarrow> string \<Rightarrow> millis \<Rightarrow> exec_db \<Rightarrow> exec_db \<times> exec_error option" where
  "clear_fence_after_fresh_start i reason run now db =
     (if i = [] \<or> reason = [] \<or> run = [] then (db, Some ErrRequired)
      else
        (case update_exec (\<lambda>r. x_id r = i \<and> x_fence r = reason)
                (\<lambda>r. r\<lparr>x_fence := [], x_run := run, x_updated := now\<rparr>) db of
           (db', 0) \<Rightarrow>
             (case get_by_id i db' of
                None \<Rightarrow> (db', Some ErrNotFound)
              | Some r \<Rightarrow>
                  (db', if x_fence r = [] then None else Some (ErrFenceReason (x_fence r) reason)))
         | (db', _) \<Rightarrow> (db', None)))"

definition fence_conflict_for :: "exec_row \<Rightarrow> int \<Rightarrow> exec_error" where
  "fence_conflict_for r v =
     ErrFenceConflict
       (if x_fence r = [] then FenceCleared
        else if x_fence_version r \<noteq> v then FenceMoved (x_fence_version r) v
        else FenceRuntime (x_runtime r))"

definition apply_fence_decision ::
    "execution_id \<Rightarrow> int \<Rightarrow> fence_decision \<Rightarrow> millis \<Rightarrow> exec_db \<Rightarrow>
       exec_db \<times> (exec_error + exec_row)" where
  "apply_fence_decision i v d now db =
     (if i = [] then (db, Inl ErrRequired)
      else if d \<noteq> DecisionResolve \<and> d \<noteq> DecisionAbandon then (db, Inl ErrInvalidStatus)
      else
        (case (if d = DecisionResolve then
                 update_exec (\<lambda>r. x_id r = i \<and> x_fence r \<noteq> [] \<and> x_fence_version r = v)
                   (\<lambda>r. r\<lparr>x_fence := [], x_updated := now\<rparr>) db
               else
                 update_exec
                   (\<lambda>r. x_id r = i \<and> x_fence r \<noteq> [] \<and> x_fence_version r = v \<and>
                        x_runtime r = RtUnknown)
                   (\<lambda>r. r\<lparr>x_fence := [], x_runtime := RtFailed,
                           x_runtime_error := operator_abandoned, x_finished := Some now,
                           x_updated := now\<rparr>) db) of
           (db', n) \<Rightarrow>
             (case get_by_id i db' of
                None \<Rightarrow> (db', Inl ErrNotFound)
              | Some r \<Rightarrow> (db', if n = 0 then Inl (fence_conflict_for r v) else Inr r))))"

definition list_fences_default_limit :: int where "list_fences_default_limit = 100"

text \<open>Newest fence first, rows without a stamp last, then newest execution first.\<close>

definition fence_order :: "exec_row \<Rightarrow> millis \<times> millis" where
  "fence_order r = (- (case x_fence_created r of None \<Rightarrow> 0 | Some t \<Rightarrow> t), - x_created r)"

definition list_fences :: "session_id \<Rightarrow> int \<Rightarrow> int \<Rightarrow> exec_db \<Rightarrow> exec_row list" where
  "list_fences s limit offset db =
     (let lim = (if limit \<le> 0 then list_fences_default_limit else limit);
          off = (if offset < 0 then 0 else offset)
      in take (nat lim) (drop (nat off)
           (sql_select (\<lambda>r. x_fence r \<noteq> [] \<and> (s \<noteq> [] \<longrightarrow> x_session r = s)) fence_order (t_exec db))))"

section \<open>Leases\<close>

definition sql_id_batch_size :: nat where "sql_id_batch_size = 500"

text \<open>The \<open>for start := 0; start < len; start += 500\<close> loop over id batches.\<close>

function batches :: "'a list \<Rightarrow> 'a list list" where
  "batches xs = (if xs = [] then []
                 else take sql_id_batch_size xs # batches (drop sql_id_batch_size xs))"
  by pat_completeness auto
termination
  by (relation "measure length") (auto simp: sql_id_batch_size_def)

declare batches.simps [simp del]

definition renew_row :: "millis \<Rightarrow> int \<Rightarrow> exec_row \<Rightarrow> exec_row" where
  "renew_row dbnow ttl r = r\<lparr>x_lease := dbnow + ttl * 1000, x_updated := dbnow\<rparr>"

definition renewable :: "string \<Rightarrow> exec_row \<Rightarrow> bool" where
  "renewable owner r \<longleftrightarrow> x_owner r = owner \<and> live_runtime (x_runtime r)"

text \<open>
  \<open>renewLeasesExcluding\<close>: read the owner's live rows, drop the excluded ids, then renew them in
  batches.
\<close>

definition renew_batch ::
    "string \<Rightarrow> int \<Rightarrow> millis \<Rightarrow> execution_id list \<Rightarrow> exec_db \<times> nat \<Rightarrow> exec_db \<times> nat" where
  "renew_batch owner ttl dbnow batch acc =
     (case update_exec (\<lambda>r. renewable owner r \<and> x_id r \<in> set batch) (renew_row dbnow ttl)
             (fst acc) of
        (db', n) \<Rightarrow> (db', snd acc + n))"

definition renew_leases_excluding ::
    "string \<Rightarrow> int \<Rightarrow> execution_id list \<Rightarrow> millis \<Rightarrow> exec_db \<Rightarrow> exec_db \<times> nat" where
  "renew_leases_excluding owner ttl excluded dbnow db =
     (let ids = filter (\<lambda>i. i \<notin> set excluded) (map x_id (filter (renewable owner) (t_exec db)))
      in fold (renew_batch owner ttl dbnow) (batches ids) (db, 0))"

definition renew_leases ::
    "string \<Rightarrow> int \<Rightarrow> execution_id list \<Rightarrow> millis \<Rightarrow> exec_db \<Rightarrow> exec_db \<times> (exec_error + nat)" where
  "renew_leases owner ttl excluded dbnow db =
     (if owner = [] then (db, Inl ErrRequired)
      else if excluded \<noteq> [] then map_prod id Inr (renew_leases_excluding owner ttl excluded dbnow db)
      else map_prod id Inr (update_exec (renewable owner) (renew_row dbnow ttl) db))"

definition lease_expired_reason :: string where
  "lease_expired_reason = ''GATEWAY_LEASE_EXPIRED''"

text \<open>The assignments shared by recovery and shutdown.\<close>

definition fence_row :: "string \<Rightarrow> millis \<Rightarrow> millis \<Rightarrow> exec_row \<Rightarrow> exec_row" where
  "fence_row reason now dbnow r =
     (fence_entry_bump dbnow r)
       \<lparr>x_status := (if x_status r = StAccepted then StUnknown else x_status r),
        x_error := (if x_status r = StAccepted then reason else x_error r),
        x_runtime := RtUnknown, x_runtime_error := reason, x_fence := reason,
        x_finished := Some now, x_updated := now\<rparr>"

definition active_execution_ids :: "execution_id list \<Rightarrow> exec_db \<Rightarrow> execution_id list" where
  "active_execution_ids ids db =
     concat (map (\<lambda>batch. map x_id
       (filter (\<lambda>r. live_runtime (x_runtime r) \<and> x_id r \<in> set batch) (t_exec db))) (batches ids))"

definition recover_expired_leases ::
    "execution_id list \<Rightarrow> millis \<Rightarrow> exec_db \<Rightarrow> exec_db \<times> nat \<times> execution_id list" where
  "recover_expired_leases tracked dbnow db =
     (case update_exec (\<lambda>r. live_runtime (x_runtime r) \<and> x_lease r \<le> dbnow)
             (fence_row lease_expired_reason dbnow dbnow) db of
        (db', n) \<Rightarrow>
          let active = active_execution_ids tracked db'
          in (db', n, filter (\<lambda>i. i \<notin> set active) tracked))"

definition terminate_owner_leases ::
    "string \<Rightarrow> string \<Rightarrow> millis \<Rightarrow> millis \<Rightarrow> exec_db \<Rightarrow> exec_db \<times> (exec_error + nat)" where
  "terminate_owner_leases owner reason now dbnow db =
     (if owner = [] then (db, Inl ErrRequired)
      else
        let why = (if reason = [] then ''GATEWAY_SHUTDOWN'' else reason)
        in map_prod id Inr (update_exec (renewable owner) (fence_row why now dbnow) db))"

section \<open>Compaction of settled rows\<close>

definition compactable :: "millis \<Rightarrow> exec_db \<Rightarrow> exec_row \<Rightarrow> bool" where
  "compactable cutoff db r \<longleftrightarrow>
     (x_status r = StDelivered \<or> x_status r = StFailed) \<and>
     terminal_runtime (x_runtime r) \<and>
     (case (x_finished r, x_facts_retention r) of
        (Some t, Some d) \<Rightarrow> t + d \<le> cutoff
      | _ \<Rightarrow> False) \<and>
     x_fence r = [] \<and>
     \<not> (x_status r = StFailed \<and> x_runtime r = RtCompleted) \<and>
     (\<forall>q \<in> set (t_queue db). q_id q \<noteq> x_id r) \<and>
     (x_error r \<noteq> [] \<or> x_owner r \<noteq> [] \<or> x_lease r \<noteq> 0 \<or> x_runtime_error r \<noteq> [] \<or>
      x_started r \<noteq> None \<or> x_fence_created r \<noteq> None \<or> x_turn_started r \<noteq> None \<or>
      x_turn_deadline r \<noteq> None \<or> x_turn_revision r \<noteq> [])"

definition compact_row :: "exec_row \<Rightarrow> exec_row" where
  "compact_row r = r
     \<lparr>x_error := [], x_owner := [], x_lease := 0, x_runtime_error := [], x_started := None,
      x_fence_created := None, x_turn_started := None, x_turn_deadline := None,
      x_turn_revision := []\<rparr>"

definition compact_order :: "exec_row \<Rightarrow> millis \<times> execution_id" where
  "compact_order r = (case x_finished r of None \<Rightarrow> 0 | Some t \<Rightarrow> t, x_id r)"

definition compact_settled_facts :: "millis \<Rightarrow> int \<Rightarrow> exec_db \<Rightarrow> exec_db \<times> nat" where
  "compact_settled_facts cutoff limit db =
     (if limit \<le> 0 then (db, 0)
      else
        let victims = take (nat limit) (sql_select (compactable cutoff db) compact_order (t_exec db))
        in update_exec (\<lambda>r. x_id r \<in> set (map x_id victims)) compact_row db)"

end
