(* ===== verification/ExecQueue.thy ===== *)
theory ExecQueue
  imports ExecStore
begin

text \<open>
  The bounded durable input queue, \<open>internal/execution/queue.go\<close>, \<open>sql_queue.go\<close> and
  \<open>sql_queue_dispatch.go\<close>: inputs accepted while the session is busy, claimed in order for
  dispatch, or settled without ever being sent.  \<open>json.Marshal\<close> and \<open>json.Unmarshal\<close> of a native
  invocation are the arguments \<open>enc\<close> and \<open>dec\<close>.
\<close>

section \<open>Limits and requests\<close>

record queue_limits =
  ql_session :: int
  ql_global :: int
  ql_bytes :: int
  ql_ttl :: duration

definition default_queue_limits :: queue_limits where
  "default_queue_limits =
     \<lparr>ql_session = 20, ql_global = 1000, ql_bytes = 64 * 1024, ql_ttl = 24 * 60 * minute\<rparr>"

definition with_defaults :: "queue_limits \<Rightarrow> queue_limits" where
  "with_defaults l =
     \<lparr>ql_session = (if ql_session l \<le> 0 then ql_session default_queue_limits else ql_session l),
      ql_global = (if ql_global l \<le> 0 then ql_global default_queue_limits else ql_global l),
      ql_bytes = (if ql_bytes l \<le> 0 then ql_bytes default_queue_limits else ql_bytes l),
      ql_ttl = (if ql_ttl l \<le> 0 then ql_ttl default_queue_limits else ql_ttl l)\<rparr>"

definition max_invocation_json_bytes :: int where
  "max_invocation_json_bytes = 8 * 1024"

record queued_invocation =
  qi_name :: string
  qi_args :: string
  qi_path :: string
  qi_mode :: string

record queued_payload =
  qp_content :: string
  qp_invocation :: "queued_invocation option"

type_synonym encoder = "queued_invocation \<Rightarrow> string"
type_synonym decoder = "string \<Rightarrow> queued_invocation option"

definition payload_size :: "encoder \<Rightarrow> queued_payload \<Rightarrow> int" where
  "payload_size enc p =
     (case qp_invocation p of
        None \<Rightarrow> int (length (qp_content p))
      | Some v \<Rightarrow> int (length (qp_content p)) + int (length (enc v)))"

record queued_request =
  qr_session :: session_id
  qr_client :: string
  qr_hash :: string
  qr_payload :: queued_payload
  qr_owner :: string
  qr_revision :: int

definition encode_invocation :: "encoder \<Rightarrow> queued_invocation option \<Rightarrow> exec_error + string" where
  "encode_invocation enc v =
     (case v of
        None \<Rightarrow> Inr []
      | Some w \<Rightarrow> if int (length (enc w)) > max_invocation_json_bytes
                  then Inl ErrQueuePayloadTooLarge else Inr (enc w))"

definition is_queued :: "exec_row \<Rightarrow> bool" where
  "is_queued r \<longleftrightarrow> x_runtime r = RtQueued \<and> x_status r = StAccepted"

definition queue_entry :: "execution_id \<Rightarrow> exec_db \<Rightarrow> queue_row option" where
  "queue_entry i db = sql_row (\<lambda>q. q_id q = i) (t_queue db)"

section \<open>Enqueueing\<close>

definition queued_row ::
    "store_config \<Rightarrow> queued_request \<Rightarrow> millis \<Rightarrow> execution_id \<Rightarrow> exec_row" where
  "queued_row cfg q now i =
     \<lparr>x_id = i, x_session = qr_session q, x_client = qr_client q, x_hash = qr_hash q,
      x_status = StAccepted, x_error = [], x_created = now, x_updated = now,
      x_delivered = None, x_owner = qr_owner q, x_run = [], x_lease = 0,
      x_runtime = RtQueued, x_runtime_error = [], x_started = None, x_finished = None,
      x_fence = [], x_fence_version = 0, x_fence_created = None, x_turn_started = None,
      x_turn_deadline = None, x_turn_revision = [],
      x_facts_retention = null_if_zero (sc_facts_ms cfg),
      x_retention_revision = sc_revision cfg\<rparr>"

text \<open>
  The outcome of the transaction: rolled back with an error (and whether the key was a
  duplicate), rolled back because another transaction took a unique key, or committed.
\<close>

datatype queue_tx =
    TxFail exec_error bool
  | TxRace
  | TxDone exec_row "queue_row option" bool

definition counter_value :: "session_id \<Rightarrow> exec_db \<Rightarrow> int" where
  "counter_value s db = (case t_counter db s of None \<Rightarrow> 1 | Some n \<Rightarrow> n)"

definition session_depth :: "session_id \<Rightarrow> exec_db \<Rightarrow> nat" where
  "session_depth s db = sql_count (\<lambda>e. q_session e = s) (t_queue db)"

definition queue_insert ::
    "encoder \<Rightarrow> store_config \<Rightarrow> queued_request \<Rightarrow> queue_limits \<Rightarrow> millis \<Rightarrow> execution_id \<Rightarrow> string \<Rightarrow>
       exec_db \<Rightarrow> exec_db \<times> queue_tx" where
  "queue_insert enc cfg q l now i pid db =
     (let s = qr_session q;
          n = counter_value s db;
          r = queued_row cfg q now i;
          bytes = payload_size enc (qr_payload q);
          e = \<lparr>q_id = i, q_session = s, q_seq = n, q_enqueued = now,
               q_expires = now + ql_ttl l div millisecond, q_revision = qr_revision q,
               q_payload_ref = pid, q_payload_bytes = bytes\<rparr>
      in if violates_unique r db \<or> (\<exists>r' \<in> set (t_exec db). client_key r' = client_key r)
         then (db, TxRace)
         else
           (case encode_invocation enc (qp_invocation (qr_payload q)) of
              Inl err \<Rightarrow> (db, TxFail err False)
            | Inr json \<Rightarrow>
                if (\<exists>e' \<in> set (t_queue db). q_id e' = i \<or> (q_session e' = s \<and> q_seq e' = n)) \<or>
                   (\<exists>y \<in> set (t_payload db). y_payload_id y = pid)
                then (db, TxFail ErrInsert False)
                else
                  (db\<lparr>t_exec := t_exec db @ [r],
                      t_queue := t_queue db @ [e],
                      t_payload := t_payload db @
                        [\<lparr>y_payload_id = pid, y_id = i, y_session = s,
                          y_content = qp_content (qr_payload q), y_invocation = json,
                          y_bytes = bytes, y_sha256 = qr_hash q, y_created = now\<rparr>],
                      t_counter := (t_counter db)(s \<mapsto> n + 1),
                      t_budget := int (length (t_queue db)) + 1\<rparr>,
                   TxDone r (Some e) False)))"

definition accept_queued_tx ::
    "encoder \<Rightarrow> store_config \<Rightarrow> queued_request \<Rightarrow> queue_limits \<Rightarrow> instant \<Rightarrow> millis \<Rightarrow> execution_id \<Rightarrow>
       string \<Rightarrow> exec_db \<Rightarrow> exec_db \<times> queue_tx" where
  "accept_queued_tx enc cfg q l tnow now i pid db =
     (case lock_acceptable_session tnow (qr_session q) db of
        Some err \<Rightarrow> (db, TxFail err False)
      | None \<Rightarrow>
          (case get_by_client (qr_session q) (qr_client q) db of
             Some r \<Rightarrow>
               if x_hash r \<noteq> qr_hash q then (db, TxFail ErrPayloadConflict True)
               else (db, TxDone r (queue_entry (x_id r) db) True)
           | None \<Rightarrow>
               if int (length (t_queue db)) \<ge> ql_global l then (db, TxFail ErrQueueFull False)
               else if int (session_depth (qr_session q) db) \<ge> ql_session l
               then (db, TxFail ErrQueueFull False)
               else queue_insert enc cfg q l now i pid db))"

text \<open>The answer: record, queue entry, duplicate flag and error.\<close>

type_synonym queue_answer = "exec_row option \<times> queue_row option \<times> bool \<times> exec_error option"

definition queue_reread :: "queued_request \<Rightarrow> exec_db \<Rightarrow> queue_answer" where
  "queue_reread q db =
     (case get_by_client (qr_session q) (qr_client q) db of
        None \<Rightarrow> (None, None, False, Some ErrNotFound)
      | Some r \<Rightarrow>
          if x_hash r \<noteq> qr_hash q then (None, None, True, Some ErrPayloadConflict)
          else (Some r, queue_entry (x_id r) db, True, None))"

definition accept_queued ::
    "encoder \<Rightarrow> store_config \<Rightarrow> queued_request \<Rightarrow> queue_limits \<Rightarrow> instant \<Rightarrow> millis \<Rightarrow> execution_id \<Rightarrow>
       string \<Rightarrow> exec_db \<Rightarrow> exec_db \<times> queue_answer" where
  "accept_queued enc cfg q limits tnow now i pid db =
     (if qr_session q = [] \<or> qr_client q = [] \<or> qr_hash q = []
      then (db, None, None, False, Some ErrRequired)
      else if payload_size enc (qr_payload q) > ql_bytes (with_defaults limits)
      then (db, None, None, False, Some ErrQueuePayloadTooLarge)
      else
        (case get_by_client (qr_session q) (qr_client q) db of
           Some r \<Rightarrow>
             if x_hash r \<noteq> qr_hash q then (db, Some r, None, True, Some ErrPayloadConflict)
             else (db, Some r, queue_entry (x_id r) db, True, None)
         | None \<Rightarrow>
             (case accept_queued_tx enc cfg q (with_defaults limits) tnow now i pid db of
                (db', TxDone r e dup) \<Rightarrow> (db', Some r, e, dup, None)
              | (db', TxFail err dup) \<Rightarrow> (db', None, None, dup, Some err)
              | (db', TxRace) \<Rightarrow> (db', queue_reread q db'))))"

section \<open>Reads\<close>

definition queue_payload ::
    "decoder \<Rightarrow> execution_id \<Rightarrow> exec_db \<Rightarrow> exec_error + queued_payload" where
  "queue_payload dec i db =
     (if i = [] then Inl ErrRequired
      else
        (case sql_row (\<lambda>y. y_id y = i) (t_payload db) of
           None \<Rightarrow> (case queue_entry i db of
                      None \<Rightarrow> Inl ErrNotFound | Some _ \<Rightarrow> Inl ErrPayloadContentUnavailable)
         | Some y \<Rightarrow>
             if y_invocation y = [] then Inr \<lparr>qp_content = y_content y, qp_invocation = None\<rparr>
             else (case dec (y_invocation y) of
                     None \<Rightarrow> Inl ErrDecodeInvocation
                   | Some v \<Rightarrow> Inr \<lparr>qp_content = y_content y, qp_invocation = Some v\<rparr>)))"

definition queue_by_execution :: "execution_id \<Rightarrow> exec_db \<Rightarrow> exec_error + queue_row" where
  "queue_by_execution i db =
     (if i = [] then Inl ErrRequired
      else (case queue_entry i db of None \<Rightarrow> Inl ErrNotFound | Some e \<Rightarrow> Inr e))"

definition queued_by_client_message ::
    "session_id \<Rightarrow> string \<Rightarrow> exec_db \<Rightarrow> exec_error + exec_row" where
  "queued_by_client_message s c db =
     (if s = [] \<or> c = [] then Inl ErrRequired
      else (case get_by_client s c db of
              None \<Rightarrow> Inl ErrNotFound
            | Some r \<Rightarrow> if is_queued r then Inr r else Inl ErrNotFound))"

definition default_queue_list_limit :: int where "default_queue_list_limit = 100"

definition queue_by_session :: "session_id \<Rightarrow> int \<Rightarrow> exec_db \<Rightarrow> exec_error + queue_row list" where
  "queue_by_session s limit db =
     (if s = [] then Inl ErrRequired
      else Inr (take (nat (if limit \<le> 0 then default_queue_list_limit else limit))
                  (sql_select (\<lambda>e. q_session e = s) q_seq (t_queue db))))"

definition queue_depth :: "exec_db \<Rightarrow> nat" where
  "queue_depth db = length (t_queue db)"

definition queue_depth_by_session :: "session_id \<Rightarrow> exec_db \<Rightarrow> exec_error + nat" where
  "queue_depth_by_session s db = (if s = [] then Inl ErrRequired else Inr (session_depth s db))"

section \<open>Dispatch and settlement\<close>

text \<open>Deleting a queue row removes its payload through the foreign key.\<close>

definition remove_queue_row :: "execution_id \<Rightarrow> exec_db \<Rightarrow> exec_db" where
  "remove_queue_row i db =
     db\<lparr>t_queue := sql_delete (\<lambda>e. q_id e = i) (t_queue db),
        t_payload := (if \<exists>e \<in> set (t_queue db). q_id e = i
                      then sql_delete (\<lambda>y. y_id y = i) (t_payload db) else t_payload db)\<rparr>"

definition settle_queued_row :: "string \<Rightarrow> millis \<Rightarrow> exec_row \<Rightarrow> exec_row" where
  "settle_queued_row reason now r = r
     \<lparr>x_status := StFailed, x_error := reason, x_runtime := RtFailed, x_runtime_error := reason,
      x_finished := Some now, x_updated := now\<rparr>"

definition settle_queued_tx ::
    "execution_id \<Rightarrow> string \<Rightarrow> millis \<Rightarrow> exec_db \<Rightarrow> exec_db \<times> bool" where
  "settle_queued_tx i reason now db =
     (case update_exec (\<lambda>r. x_id r = i \<and> x_runtime r = RtQueued)
             (settle_queued_row reason now) db of
        (db', 0) \<Rightarrow> (db, False)
      | (db', _) \<Rightarrow> (remove_queue_row i db', True))"

record claim_request =
  cq_session :: session_id
  cq_owner :: string
  cq_run :: string
  cq_revision :: int
  cq_expected :: execution_id
  cq_ttl :: int

definition claim_row :: "claim_request \<Rightarrow> millis \<Rightarrow> exec_row \<Rightarrow> exec_row" where
  "claim_row q now r = r
     \<lparr>x_runtime := RtPending, x_owner := cq_owner q, x_run := cq_run q,
      x_lease := now + (if cq_ttl q \<le> 0 then lease_ttl else cq_ttl q) * 1000,
      x_updated := now\<rparr>"

text \<open>The one-active index refuses the promotion when another row holds the session's slot.\<close>

definition slot_taken :: "execution_id \<Rightarrow> exec_db \<Rightarrow> bool" where
  "slot_taken i db \<longleftrightarrow>
     (\<exists>r \<in> set (t_exec db). x_id r = i \<and> x_runtime r = RtQueued \<and>
        (\<exists>r' \<in> set (t_exec db). x_id r' \<noteq> i \<and> occupies r' \<and> x_session r' = x_session r))"

definition queue_head :: "session_id \<Rightarrow> exec_db \<Rightarrow> queue_row option" where
  "queue_head s db = sql_first (\<lambda>e. q_session e = s) q_seq (t_queue db)"

definition claim_queued ::
    "claim_request \<Rightarrow> millis \<Rightarrow> exec_db \<Rightarrow> exec_db \<times> (exec_error + exec_row \<times> queue_row)" where
  "claim_queued q now db =
     (if cq_session q = [] \<or> cq_owner q = [] \<or> cq_run q = [] then (db, Inl ErrRequired)
      else
        (case queue_head (cq_session q) db of
           None \<Rightarrow> (db, Inl ErrNotFound)
         | Some h \<Rightarrow>
             if cq_expected q \<noteq> [] \<and> q_id h \<noteq> cq_expected q then (db, Inl ErrQueueHeadMoved)
             else if cq_revision q > 0 \<and> q_revision h \<noteq> cq_revision q
             then (db, Inl ErrQueueLifecycleStale)
             else if slot_taken (q_id h) db then (db, Inl ErrSessionBusy)
             else
               (case update_exec (\<lambda>r. x_id r = q_id h \<and> x_runtime r = RtQueued)
                       (claim_row q now) db of
                  (db', 0) \<Rightarrow> (db, Inl ErrNotFound)
                | (db', _) \<Rightarrow>
                    let db'' = remove_queue_row (q_id h) db'
                    in (case get_by_id (q_id h) db'' of
                          None \<Rightarrow> (db'', Inl ErrNotFound)
                        | Some r \<Rightarrow> (db'', Inr (r, h))))))"

definition queue_reason_cancelled :: string where
  "queue_reason_cancelled = ''QUEUE_CANCELLED''"

definition queue_reason_expired :: string where
  "queue_reason_expired = ''QUEUE_EXPIRED''"

definition cancel_queued ::
    "execution_id \<Rightarrow> string \<Rightarrow> millis \<Rightarrow> exec_db \<Rightarrow> exec_db \<times> (exec_error + exec_row)" where
  "cancel_queued i reason now db =
     (if i = [] then (db, Inl ErrRequired)
      else
        (case settle_queued_tx i (if reason = [] then queue_reason_cancelled else reason) now db of
           (db', False) \<Rightarrow> (db', Inl ErrQueueNotQueued)
         | (db', True) \<Rightarrow>
             (case get_by_id i db' of None \<Rightarrow> (db', Inl ErrNotFound) | Some r \<Rightarrow> (db', Inr r))))"

text \<open>The settle loop of \<open>ClearQueue\<close> and \<open>ExpireQueued\<close>; it collects the ids it settled.\<close>

fun settle_all ::
    "string \<Rightarrow> millis \<Rightarrow> execution_id list \<Rightarrow> exec_db \<Rightarrow> exec_db \<times> execution_id list" where
  "settle_all reason now [] db = (db, [])"
| "settle_all reason now (i # is) db =
     (case settle_queued_tx i reason now db of
        (db1, ok) \<Rightarrow>
          (case settle_all reason now is db1 of
             (db2, done_ids) \<Rightarrow> (db2, if ok then i # done_ids else done_ids)))"

definition queue_execution_ids :: "session_id \<Rightarrow> exec_db \<Rightarrow> execution_id list" where
  "queue_execution_ids s db = map q_id (sql_select (\<lambda>e. q_session e = s) q_seq (t_queue db))"

definition clear_queue ::
    "session_id \<Rightarrow> string \<Rightarrow> millis \<Rightarrow> exec_db \<Rightarrow> exec_db \<times> (exec_error + nat)" where
  "clear_queue s reason now db =
     (if s = [] then (db, Inl ErrRequired)
      else map_prod id (Inr \<circ> length)
             (settle_all (if reason = [] then queue_reason_cancelled else reason) now
                (queue_execution_ids s db) db))"

definition expired_ids :: "millis \<Rightarrow> int \<Rightarrow> exec_db \<Rightarrow> execution_id list" where
  "expired_ids now limit db =
     map q_id (take (nat (if limit \<le> 0 then default_queue_list_limit else limit))
       (sql_select (\<lambda>e. q_expires e \<le> now) q_expires (t_queue db)))"

definition expire_queued :: "millis \<Rightarrow> int \<Rightarrow> exec_db \<Rightarrow> exec_db \<times> exec_row list" where
  "expire_queued now limit db =
     (case settle_all queue_reason_expired now (expired_ids now limit db) db of
        (db', ids) \<Rightarrow> (db', List.map_filter (\<lambda>i. get_by_id i db') ids))"

end
