(* ===== verification/Interfaces.thy ===== *)
theory Interfaces
  imports Prelude
begin

text \<open>
  The contracts components rely on, as locales.  Each is interpreted in the theory of the
  component that provides it, on the model's own definitions.
\<close>

section \<open>A machine with an invariant\<close>

text \<open>
  Operations are applied one after the other; the operation list is any interleaving of the
  calls of all clients, because each operation is one critical section or one transaction.
\<close>

locale invariant_machine =
  fixes step :: "'op \<Rightarrow> 's \<Rightarrow> 's"
    and inv :: "'s \<Rightarrow> bool"
  assumes step_inv: "inv s \<Longrightarrow> inv (step op s)"
begin

lemma run_inv: "inv s \<Longrightarrow> inv (fold step ops s)"
  by (induction ops arbitrary: s) (auto intro: step_inv)

lemma run_prefix_inv: "inv s \<Longrightarrow> inv (fold step (take n ops) s)"
  by (rule run_inv)

end

text \<open>A machine in which, besides, every step moves up a preorder that reads the state.\<close>

locale monotone_machine = invariant_machine step inv
  for step :: "'op \<Rightarrow> 's \<Rightarrow> 's" and inv :: "'s \<Rightarrow> bool" +
  fixes le :: "'s \<Rightarrow> 's \<Rightarrow> bool"
  assumes le_refl: "le s s"
    and le_trans: "le s t \<Longrightarrow> le t u \<Longrightarrow> le s u"
    and step_le: "inv s \<Longrightarrow> le s (step op s)"
begin

lemma run_le: "inv s \<Longrightarrow> le s (fold step ops s)"
proof (induction ops arbitrary: s)
  case Nil
  show ?case by (simp add: le_refl)
next
  case (Cons op ops)
  then have "le (step op s) (fold step ops (step op s))"
    by (simp add: step_inv)
  with Cons.prems show ?case
    by (auto intro: le_trans step_le)
qed

end

section \<open>A ledger keyed by a business identity\<close>

text \<open>
  \<open>claim r s\<close> records \<open>r\<close> unless its key is taken; a successful call answers with the stored row
  and whether this call created it.  Between two claims the machine takes any steps, which may
  change the row but not its identity.  The clients (a planned delivery, a cron firing) rely on
  these laws for "one run per trigger".
\<close>

locale claim_ledger = invariant_machine step inv
  for step :: "'op \<Rightarrow> 's \<Rightarrow> 's" and inv :: "'s \<Rightarrow> bool" +
  fixes claim :: "'req \<Rightarrow> 's \<Rightarrow> 's \<times> ('err + 'row \<times> bool)"
    and lookup :: "'key \<Rightarrow> 's \<Rightarrow> 'id option"
    and key :: "'req \<Rightarrow> 'key"
    and ident :: "'row \<Rightarrow> 'id"
  assumes claim_inv: "inv s \<Longrightarrow> inv (fst (claim r s))"
    and claim_stored:
      "inv s \<Longrightarrow> claim r s = (s', Inr (row, created)) \<Longrightarrow> lookup (key r) s' = Some (ident row)"
    and claim_created:
      "inv s \<Longrightarrow> claim r s = (s', Inr (row, created)) \<Longrightarrow> created \<longleftrightarrow> lookup (key r) s = None"
    and claim_taken:
      "inv s \<Longrightarrow> lookup (key r) s = Some i \<Longrightarrow> claim r s = (s', Inr (row, created)) \<Longrightarrow> ident row = i"
    and step_keeps: "inv s \<Longrightarrow> lookup k s = Some i \<Longrightarrow> lookup k (step op s) = Some i"
begin

lemma run_keeps: "inv s \<Longrightarrow> lookup k s = Some i \<Longrightarrow> lookup k (fold step ops s) = Some i"
  by (induction ops arbitrary: s) (simp_all add: step_keeps step_inv)

text \<open>
  Whatever happened in between, a later claim of the key that succeeds answers with the row of
  the first and creates nothing.
\<close>

lemma claim_after_run:
  assumes "inv s" "claim r s = (s', Inr (row, created))" "key r' = key r"
    and "claim r' (fold step ops s') = (s'', Inr (row', created'))"
  shows "ident row' = ident row \<and> \<not> created'"
proof -
  have i: "inv s'" using claim_inv [OF assms(1), of r] assms(2) by simp
  have "lookup (key r') (fold step ops s') = Some (ident row)"
    using run_keeps [OF i claim_stored [OF assms(1,2)]] assms(3) by simp
  then show ?thesis
    using claim_taken [OF run_inv [OF i] _ assms(4)] claim_created [OF run_inv [OF i] assms(4)]
    by simp
qed

end

end
