(* ===== verification/ExecMachine.thy ===== *)
theory ExecMachine
  imports ExecQueue Interfaces
begin

text \<open>
  The execution ledger as a machine: every transaction of \<open>SQLStore\<close> is a step, a run is any
  interleaving of the transactions of all gateways.  This theory holds the invariant of the
  tables, the order in which a row can only move up, and the properties that rest on them.
\<close>

section \<open>Steps\<close>

datatype exec_op =
    OpAccept store_config accept_request millis instant millis execution_id
  | OpSetStatus execution_id delivery_status string millis
  | OpSetDelivery execution_id string delivery_status string millis
  | OpMarkRunning execution_id string string millis
  | OpSetTurnDeadline execution_id string millis millis string millis
  | OpFinishRuntime execution_id string runtime_status string millis millis
  | OpConvergeDelivery execution_id string millis
  | OpClearFence execution_id string string millis
  | OpApplyFence execution_id int fence_decision millis
  | OpRenew string int "execution_id list" millis
  | OpRecover "execution_id list" millis
  | OpTerminate string string millis millis
  | OpCompact millis int
  | OpAcceptQueued encoder store_config queued_request queue_limits instant millis execution_id string
  | OpClaim claim_request millis
  | OpCancel execution_id string millis
  | OpClear session_id string millis
  | OpExpire millis int
  | OpSessionSet session_id session_view
  | OpSessionDelete session_id

text \<open>
  Deleting a session row removes its executions, queue rows and payloads through the foreign
  keys; the counter table has none.
\<close>

definition session_delete :: "session_id \<Rightarrow> exec_db \<Rightarrow> exec_db" where
  "session_delete s db =
     (let gone = set (map q_id (filter (\<lambda>e. q_session e = s) (t_queue db)))
      in db\<lparr>t_exec := sql_delete (\<lambda>r. x_session r = s) (t_exec db),
            t_queue := sql_delete (\<lambda>e. q_session e = s) (t_queue db),
            t_payload := sql_delete (\<lambda>y. y_id y \<in> gone) (t_payload db),
            t_sessions := (t_sessions db)(s := None)\<rparr>)"

fun exec_step :: "exec_op \<Rightarrow> exec_db \<Rightarrow> exec_db" where
  "exec_step (OpAccept cfg q now tnow dbnow i) db = fst (accept cfg q now tnow dbnow i db)"
| "exec_step (OpSetStatus i s code now) db = fst (set_status i s code now db)"
| "exec_step (OpSetDelivery i owner s code now) db = fst (set_delivery i owner s code now db)"
| "exec_step (OpMarkRunning i owner run now) db = fst (mark_running i owner run now db)"
| "exec_step (OpSetTurnDeadline i owner st dl rv now) db =
     fst (set_turn_deadline i owner st dl rv now db)"
| "exec_step (OpFinishRuntime i run s code now dbnow) db =
     fst (finish_runtime i run s code now dbnow db)"
| "exec_step (OpConvergeDelivery i run now) db = fst (converge_delivery_failed i run now db)"
| "exec_step (OpClearFence i reason run now) db =
     fst (clear_fence_after_fresh_start i reason run now db)"
| "exec_step (OpApplyFence i v d now) db = fst (apply_fence_decision i v d now db)"
| "exec_step (OpRenew owner ttl ids dbnow) db = fst (renew_leases owner ttl ids dbnow db)"
| "exec_step (OpRecover tracked dbnow) db = fst (recover_expired_leases tracked dbnow db)"
| "exec_step (OpTerminate owner reason now dbnow) db =
     fst (terminate_owner_leases owner reason now dbnow db)"
| "exec_step (OpCompact cutoff limit) db = fst (compact_settled_facts cutoff limit db)"
| "exec_step (OpAcceptQueued enc cfg q l tnow now i pid) db =
     fst (accept_queued enc cfg q l tnow now i pid db)"
| "exec_step (OpClaim q now) db = fst (claim_queued q now db)"
| "exec_step (OpCancel i reason now) db = fst (cancel_queued i reason now db)"
| "exec_step (OpClear s reason now) db = fst (clear_queue s reason now db)"
| "exec_step (OpExpire now limit) db = fst (expire_queued now limit db)"
| "exec_step (OpSessionSet s v) db = db\<lparr>t_sessions := (t_sessions db)(s \<mapsto> v)\<rparr>"
| "exec_step (OpSessionDelete s) db = session_delete s db"

section \<open>The order of a row's life\<close>

fun runtime_rank :: "runtime_status \<Rightarrow> nat" where
  "runtime_rank RtQueued = 0"
| "runtime_rank RtPending = 1"
| "runtime_rank RtRunning = 2"
| "runtime_rank RtUnknown = 3"
| "runtime_rank RtCompleted = 4"
| "runtime_rank RtFailed = 4"

definition runtime_le :: "runtime_status \<Rightarrow> runtime_status \<Rightarrow> bool" where
  "runtime_le s s' \<longleftrightarrow> s = s' \<or> runtime_rank s < runtime_rank s'"

text \<open>The only way out of a terminal delivery is \<open>failed\<close> to \<open>unknown\<close>.\<close>

definition delivery_le :: "delivery_status \<Rightarrow> delivery_status \<Rightarrow> bool" where
  "delivery_le s s' \<longleftrightarrow> s = s' \<or> s = StAccepted \<or> (s = StFailed \<and> s' = StUnknown)"

text \<open>
  Raising a fence bumps the version, lowering it does not: the clock advances with both.
\<close>

definition fence_clock :: "exec_row \<Rightarrow> int" where
  "fence_clock r = 2 * x_fence_version r + (if x_fence r = [] then 1 else 0)"

definition same_input :: "exec_row \<Rightarrow> exec_row \<Rightarrow> bool" where
  "same_input r r' \<longleftrightarrow> x_id r' = x_id r \<and> x_session r' = x_session r \<and> x_client r' = x_client r \<and>
     x_hash r' = x_hash r \<and> x_created r' = x_created r"

text \<open>
  Settling an input that is still queued marks its delivery failed whatever it was: the store
  does not refuse a delivery outcome for a queued row.
\<close>

definition row_le :: "exec_row \<Rightarrow> exec_row \<Rightarrow> bool" where
  "row_le r r' \<longleftrightarrow> same_input r r' \<and>
     (delivery_le (x_status r) (x_status r') \<or>
      (x_runtime r = RtQueued \<and> x_status r' \<in> {StFailed, StUnknown})) \<and>
     runtime_le (x_runtime r) (x_runtime r') \<and> fence_clock r \<le> fence_clock r' \<and>
     (\<forall>d. x_turn_deadline r = Some d \<longrightarrow>
        x_turn_deadline r' = Some d \<or> terminal_runtime (x_runtime r'))"

text \<open>What every single row satisfies.\<close>

definition row_inv :: "exec_row \<Rightarrow> bool" where
  "row_inv r \<longleftrightarrow> (x_fence r \<noteq> [] \<longrightarrow> x_runtime r = RtUnknown) \<and>
     (x_runtime r = RtQueued \<longrightarrow> x_run r = [] \<and> x_lease r = 0)"

text \<open>An update that leaves the queue alone.\<close>

definition row_step :: "exec_row \<Rightarrow> exec_row \<Rightarrow> bool" where
  "row_step r r' \<longleftrightarrow> row_le r r' \<and> row_inv r' \<and> (occupies r' \<longrightarrow> occupies r) \<and>
     (x_runtime r' = RtQueued \<longleftrightarrow> x_runtime r = RtQueued)"

lemmas row_defs = row_step_def row_le_def row_inv_def same_input_def delivery_le_def
  runtime_le_def fence_clock_def occupies_def live_runtime_def terminal_runtime_def

lemma runtime_le_trans: "runtime_le a b \<Longrightarrow> runtime_le b c \<Longrightarrow> runtime_le a c"
  by (auto simp: runtime_le_def)

lemma delivery_le_trans: "delivery_le a b \<Longrightarrow> delivery_le b c \<Longrightarrow> delivery_le a c"
  by (auto simp: delivery_le_def)

lemma terminal_runtime_up: "terminal_runtime s \<Longrightarrow> runtime_le s s' \<Longrightarrow> s' = s"
  by (cases s'; auto simp: terminal_runtime_def runtime_le_def)

lemma row_le_refl [simp]: "row_le r r"
  by (simp add: row_le_def same_input_def delivery_le_def runtime_le_def)

lemma runtime_le_queued: "runtime_le s RtQueued \<Longrightarrow> s = RtQueued"
  by (simp add: runtime_le_def)

lemma row_le_trans:
  assumes "row_le r s" "row_le s t"
  shows "row_le r t"
proof -
  have "delivery_le (x_status r) (x_status t) \<or>
      (x_runtime r = RtQueued \<and> x_status t \<in> {StFailed, StUnknown})"
    using assms runtime_le_queued [of "x_runtime r"]
    by (cases "x_runtime s = RtQueued")
       (auto simp: row_le_def delivery_le_def)
  then show ?thesis
    using assms terminal_runtime_up [of "x_runtime s" "x_runtime t"]
    by (auto simp: row_le_def same_input_def intro: runtime_le_trans)
qed

section \<open>The invariant of the tables\<close>

definition exec_inv :: "exec_db \<Rightarrow> bool" where
  "exec_inv db \<longleftrightarrow>
     unique_index (\<lambda>_. True) x_id (t_exec db) \<and>
     unique_index (\<lambda>_. True) client_key (t_exec db) \<and>
     unique_index occupies x_session (t_exec db) \<and>
     (\<forall>r \<in> set (t_exec db). row_inv r)"

text \<open>Queue rows and queued executions are the same inputs; payloads follow the queue rows.\<close>

definition queue_inv :: "exec_db \<Rightarrow> bool" where
  "queue_inv db \<longleftrightarrow>
     unique_index (\<lambda>_. True) q_id (t_queue db) \<and>
     unique_index (\<lambda>_. True) (\<lambda>e. (q_session e, q_seq e)) (t_queue db) \<and>
     (\<forall>e \<in> set (t_queue db). q_seq e < counter_value (q_session e) db) \<and>
     (\<forall>e \<in> set (t_queue db). \<exists>r \<in> set (t_exec db).
        x_id r = q_id e \<and> x_session r = q_session e \<and> x_runtime r = RtQueued) \<and>
     (\<forall>r \<in> set (t_exec db). x_runtime r = RtQueued \<longrightarrow> (\<exists>e \<in> set (t_queue db). q_id e = x_id r)) \<and>
     map y_id (t_payload db) = map q_id (t_queue db)"

definition db_le :: "exec_db \<Rightarrow> exec_db \<Rightarrow> bool" where
  "db_le db db' \<longleftrightarrow> (\<forall>r \<in> set (t_exec db). \<exists>r' \<in> set (t_exec db'). row_le r r')"

lemma db_le_refl [simp]: "db_le db db"
  by (auto simp: db_le_def intro: row_le_refl)

lemma db_le_trans: "db_le a b \<Longrightarrow> db_le b c \<Longrightarrow> db_le a c"
  unfolding db_le_def by (meson row_le_trans)

definition good :: "exec_db \<Rightarrow> exec_db \<Rightarrow> bool" where
  "good db db' \<longleftrightarrow> exec_inv db' \<and> queue_inv db' \<and> db_le db db'"

text \<open>Every update of execution rows that moves each row by a \<open>row_step\<close> is fine.\<close>

lemma update_exec_sel [simp]:
  "t_exec (fst (update_exec P f db)) = sql_update P f (t_exec db)"
  "t_queue (fst (update_exec P f db)) = t_queue db"
  "t_payload (fst (update_exec P f db)) = t_payload db"
  "t_counter (fst (update_exec P f db)) = t_counter db"
  "t_sessions (fst (update_exec P f db)) = t_sessions db"
  "snd (update_exec P f db) = sql_count P (t_exec db)"
  by (simp_all add: update_exec_def)

lemma update_exec_inv:
  assumes inv: "exec_inv db"
    and step: "\<And>r. r \<in> set (t_exec db) \<Longrightarrow> row_inv r \<Longrightarrow> P r \<Longrightarrow> row_step r (f r)"
  shows "exec_inv (fst (update_exec P f db))"
proof -
  have s: "row_step r (f r)" if "r \<in> set (t_exec db)" "P r" for r
    using step inv that by (auto simp: exec_inv_def)
  have keys: "x_id (f r) = x_id r" "client_key (f r) = client_key r"
    "x_session (f r) = x_session r" "occupies (f r) \<Longrightarrow> occupies r" "row_inv (f r)"
    if "r \<in> set (t_exec db)" "P r" for r
    using s [OF that] by (simp_all add: row_step_def row_le_def same_input_def client_key_def)
  show ?thesis
    using inv unfolding exec_inv_def
    by (auto intro!: unique_index_update_in keys elim!: sql_update_elim)
qed

lemma update_exec_le:
  assumes "\<And>r. r \<in> set (t_exec db) \<Longrightarrow> P r \<Longrightarrow> row_le r (f r)"
  shows "db_le db (fst (update_exec P f db))"
  unfolding db_le_def
proof
  fix r assume r: "r \<in> set (t_exec db)"
  have "(if P r then f r else r) \<in> set (t_exec (fst (update_exec P f db)))"
    using r by (auto simp: set_sql_update)
  moreover have "row_le r (if P r then f r else r)"
    using assms r by auto
  ultimately show "\<exists>r' \<in> set (t_exec (fst (update_exec P f db))). row_le r r'" ..
qed

lemma update_exec_queue_inv:
  assumes "queue_inv db"
    and "\<And>r. r \<in> set (t_exec db) \<Longrightarrow> P r \<Longrightarrow>
           x_id (f r) = x_id r \<and> x_session (f r) = x_session r \<and>
           (x_runtime (f r) = RtQueued \<longleftrightarrow> x_runtime r = RtQueued)"
  shows "queue_inv (fst (update_exec P f db))"
proof -
  let ?g = "\<lambda>r. if P r then f r else r"
  have g: "x_id (?g r) = x_id r" "x_session (?g r) = x_session r"
    "x_runtime (?g r) = RtQueued \<longleftrightarrow> x_runtime r = RtQueued" if "r \<in> set (t_exec db)" for r
    using assms(2) that by auto
  have "\<exists>r \<in> ?g ` set (t_exec db).
          x_id r = q_id e \<and> x_session r = q_session e \<and> x_runtime r = RtQueued"
    if "e \<in> set (t_queue db)" for e
  proof -
    obtain r where "r \<in> set (t_exec db)" "x_id r = q_id e" "x_session r = q_session e"
      "x_runtime r = RtQueued"
      using assms(1) \<open>e \<in> set (t_queue db)\<close> by (auto simp: queue_inv_def)
    then show ?thesis using g by (intro bexI [of _ "?g r"]) auto
  qed
  moreover have "\<exists>e \<in> set (t_queue db). q_id e = x_id r"
    if r: "r \<in> ?g ` set (t_exec db)" "x_runtime r = RtQueued" for r
  proof -
    obtain r0 where r0: "r0 \<in> set (t_exec db)" "r = ?g r0"
      using r(1) by (rule imageE)
    then have "x_runtime r0 = RtQueued" "x_id r = x_id r0"
      using g [OF r0(1)] r(2) by simp_all
    then show ?thesis
      using assms(1) r0(1) by (simp add: queue_inv_def)
  qed
  ultimately show ?thesis
    using assms(1) by (auto simp: queue_inv_def counter_value_def set_sql_update)
qed

lemma update_exec_good:
  assumes "exec_inv db" "queue_inv db"
    and step: "\<And>r. r \<in> set (t_exec db) \<Longrightarrow> row_inv r \<Longrightarrow> P r \<Longrightarrow> row_step r (f r)"
  shows "good db (fst (update_exec P f db))"
proof -
  have "row_step r (f r)" if "r \<in> set (t_exec db)" "P r" for r
    using step assms(1) that by (auto simp: exec_inv_def)
  then show ?thesis
    using assms unfolding good_def
    by (auto intro!: update_exec_inv update_exec_le update_exec_queue_inv
        simp: row_step_def row_le_def same_input_def)
qed

lemma good_refl: "exec_inv db \<Longrightarrow> queue_inv db \<Longrightarrow> good db db"
  by (simp add: good_def)

section \<open>The updates, one by one\<close>

text \<open>
  An operation that runs one update and reads the result back leaves the tables of the update.
\<close>

lemma set_status_good [inv_intros]:
  assumes "exec_inv db" "queue_inv db"
  shows "good db (fst (set_status i s code now db))"
proof -
  have "good db (fst (update_exec (\<lambda>r. x_id r = i \<and> x_status r = StAccepted)
          (stamp_delivery s code now) db))"
    by (rule update_exec_good [OF assms])
       (simp add: row_defs stamp_delivery_def)
  then show ?thesis
    using good_refl [OF assms]
    by (auto simp: set_status_def update_exec_def split: nat.split option.split)
qed

lemma set_delivery_good [inv_intros]:
  assumes "exec_inv db" "queue_inv db"
  shows "good db (fst (set_delivery i owner s code now db))"
proof -
  have "good db (fst (update_exec (\<lambda>r. x_id r = i \<and> x_owner r = owner \<and> x_status r = StAccepted)
          (stamp_delivery s code now) db))"
    by (rule update_exec_good [OF assms])
       (simp add: row_defs stamp_delivery_def)
  then show ?thesis
    using good_refl [OF assms]
    by (auto simp: set_delivery_def update_exec_def split: nat.split option.split)
qed

lemma converge_delivery_good [inv_intros]:
  assumes "exec_inv db" "queue_inv db"
  shows "good db (fst (converge_delivery_failed i run now db))"
  using good_refl [OF assms]
  by (simp add: converge_delivery_failed_def)
     (intro impI update_exec_good [OF assms], simp add: row_defs)

lemma mark_running_good [inv_intros]:
  assumes "exec_inv db" "queue_inv db"
  shows "good db (fst (mark_running i owner run now db))"
proof -
  have "good db (fst (update_exec
          (\<lambda>r. x_id r = i \<and> x_owner r = owner \<and> x_runtime r = RtPending)
          (\<lambda>r. r\<lparr>x_runtime := RtRunning, x_run := run, x_started := Some now,
                  x_updated := now\<rparr>) db))"
    by (rule update_exec_good [OF assms]) (simp add: row_defs)
  then show ?thesis
    using good_refl [OF assms]
    by (auto simp: mark_running_def update_exec_def split: nat.split option.split)
qed

lemma set_turn_deadline_good [inv_intros]:
  assumes "exec_inv db" "queue_inv db"
  shows "good db (fst (set_turn_deadline i owner started deadline revision now db))"
proof -
  have "good db (fst (update_exec
          (\<lambda>r. x_id r = i \<and> x_owner r = owner \<and> x_runtime r = RtRunning \<and>
               (x_turn_deadline r = None \<or>
                (x_turn_started r = Some started \<and> x_turn_deadline r = Some deadline \<and>
                 x_turn_revision r = revision)))
          (\<lambda>r. r\<lparr>x_turn_started := coalesce (x_turn_started r) started,
                  x_turn_deadline := coalesce (x_turn_deadline r) deadline,
                  x_turn_revision :=
                    (if x_turn_revision r = [] then revision else x_turn_revision r),
                  x_updated := now\<rparr>) db))"
    by (rule update_exec_good [OF assms]) (auto simp: row_defs coalesce_def)
  then show ?thesis
    using good_refl [OF assms]
    by (auto simp: set_turn_deadline_def update_exec_def split: nat.split option.split)
qed

lemma finish_runtime_good [inv_intros]:
  assumes "exec_inv db" "queue_inv db"
  shows "good db (fst (finish_runtime i run s code now dbnow db))"
proof -
  let ?P = "\<lambda>r. x_id r = i \<and> x_run r = run \<and>
    x_runtime r \<in> (if s = RtCompleted \<or> s = RtFailed
                   then {RtPending, RtRunning, RtUnknown} else {RtPending, RtRunning})"
  let ?fence = "if s = RtUnknown then ''RUNTIME_AMBIGUOUS'' else []"
  let ?f = "\<lambda>r. (if ?fence \<noteq> [] then fence_entry_bump dbnow r else r)
      \<lparr>x_runtime := s, x_runtime_error := code, x_finished := Some now,
       x_fence := ?fence, x_updated := now\<rparr>"
  have "good db (fst (update_exec ?P ?f db))" if "s = RtCompleted \<or> s = RtFailed \<or> s = RtUnknown"
    by (rule update_exec_good [OF assms])
       (use that in \<open>auto simp: row_defs fence_entry_bump_def split: if_splits\<close>)
  then show ?thesis
    using good_refl [OF assms]
    by (auto simp: finish_runtime_def Let_def update_exec_def split: nat.split option.split)
qed

lemma clear_fence_good [inv_intros]:
  assumes "exec_inv db" "queue_inv db"
  shows "good db (fst (clear_fence_after_fresh_start i reason run now db))"
proof -
  have "good db (fst (update_exec (\<lambda>r. x_id r = i \<and> x_fence r = reason)
          (\<lambda>r. r\<lparr>x_fence := [], x_run := run, x_updated := now\<rparr>) db))" if "reason \<noteq> []"
    by (rule update_exec_good [OF assms]) (use that in \<open>auto simp: row_defs\<close>)
  then show ?thesis
    using good_refl [OF assms]
    by (auto simp: clear_fence_after_fresh_start_def update_exec_def split: nat.split option.split)
qed

lemma apply_fence_good [inv_intros]:
  assumes "exec_inv db" "queue_inv db"
  shows "good db (fst (apply_fence_decision i v d now db))"
proof -
  have "good db (fst (update_exec (\<lambda>r. x_id r = i \<and> x_fence r \<noteq> [] \<and> x_fence_version r = v)
          (\<lambda>r. r\<lparr>x_fence := [], x_updated := now\<rparr>) db))"
    by (rule update_exec_good [OF assms]) (auto simp: row_defs)
  moreover have "good db (fst (update_exec
          (\<lambda>r. x_id r = i \<and> x_fence r \<noteq> [] \<and> x_fence_version r = v \<and> x_runtime r = RtUnknown)
          (\<lambda>r. r\<lparr>x_fence := [], x_runtime := RtFailed, x_runtime_error := operator_abandoned,
                  x_finished := Some now, x_updated := now\<rparr>) db))"
    by (rule update_exec_good [OF assms]) (auto simp: row_defs)
  ultimately show ?thesis
    using good_refl [OF assms]
    by (auto simp: apply_fence_decision_def update_exec_def split: option.split)
qed

lemma fence_row_step: "row_inv r \<Longrightarrow> live_runtime (x_runtime r) \<Longrightarrow> reason \<noteq> [] \<Longrightarrow>
    row_step r (fence_row reason now dbnow r)"
  by (auto simp: row_defs fence_row_def fence_entry_bump_def)

lemma recover_good [inv_intros]:
  assumes "exec_inv db" "queue_inv db"
  shows "good db (fst (recover_expired_leases tracked dbnow db))"
proof -
  have "good db (fst (update_exec (\<lambda>r. live_runtime (x_runtime r) \<and> x_lease r \<le> dbnow)
          (fence_row lease_expired_reason dbnow dbnow) db))"
    by (rule update_exec_good [OF assms])
       (simp add: fence_row_step lease_expired_reason_def)
  then show ?thesis
    by (simp add: recover_expired_leases_def update_exec_def Let_def)
qed

lemma terminate_good [inv_intros]:
  assumes "exec_inv db" "queue_inv db"
  shows "good db (fst (terminate_owner_leases owner reason now dbnow db))"
proof -
  have "good db (fst (update_exec (renewable owner) (fence_row why now dbnow) db))"
    if "why \<noteq> []" for why
    by (rule update_exec_good [OF assms]) (simp add: fence_row_step renewable_def that)
  then show ?thesis
    using good_refl [OF assms] by (simp add: terminate_owner_leases_def Let_def)
qed

lemma compact_good [inv_intros]:
  assumes "exec_inv db" "queue_inv db"
  shows "good db (fst (compact_settled_facts cutoff limit db))"
proof (cases "limit \<le> 0")
  case True
  then show ?thesis using good_refl [OF assms] by (simp add: compact_settled_facts_def)
next
  case False
  define victims where
    "victims = take (nat limit) (sql_select (compactable cutoff db) compact_order (t_exec db))"
  have v: "r \<in> set (t_exec db) \<and> compactable cutoff db r" if "r \<in> set victims" for r
    using that set_take_subset [of "nat limit" "sql_select (compactable cutoff db) compact_order (t_exec db)"]
    by (auto simp: victims_def)
  have "good db (fst (update_exec (\<lambda>r. x_id r \<in> set (map x_id victims)) compact_row db))"
  proof (rule update_exec_good [OF assms])
    fix r assume r: "r \<in> set (t_exec db)" "row_inv r" "x_id r \<in> set (map x_id victims)"
    then obtain r' where "r' \<in> set victims" "x_id r' = x_id r" by auto
    with r(1) v [of r'] assms(1) have "compactable cutoff db r"
      unfolding exec_inv_def by (metis unique_index_eq)
    then show "row_step r (compact_row r)"
      using r(2) by (auto simp: row_defs compact_row_def compactable_def)
  qed
  then show ?thesis
    using False by (simp add: compact_settled_facts_def victims_def Let_def)
qed

section \<open>Lease renewal in batches\<close>

lemma good_trans: "good a b \<Longrightarrow> good b c \<Longrightarrow> good a c"
  unfolding good_def by (blast intro: db_le_trans)

lemma good_inv: "good a b \<Longrightarrow> exec_inv b" "good a b \<Longrightarrow> queue_inv b"
  by (simp_all add: good_def)

lemma renew_row_step: "row_inv r \<Longrightarrow> renewable owner r \<Longrightarrow> row_step r (renew_row dbnow ttl r)"
  by (auto simp: row_defs renew_row_def renewable_def)

lemma renew_batch_good:
  assumes "exec_inv (fst acc)" "queue_inv (fst acc)"
  shows "good (fst acc) (fst (renew_batch owner ttl dbnow batch acc))"
proof -
  have "good (fst acc) (fst (update_exec (\<lambda>r. renewable owner r \<and> x_id r \<in> set batch)
          (renew_row dbnow ttl) (fst acc)))"
    by (rule update_exec_good [OF assms]) (blast intro: renew_row_step)
  then show ?thesis by (simp add: renew_batch_def update_exec_def)
qed

lemma renew_batches_good:
  "exec_inv (fst acc) \<Longrightarrow> queue_inv (fst acc) \<Longrightarrow>
     good (fst acc) (fst (fold (renew_batch owner ttl dbnow) bs acc))"
proof (induction bs arbitrary: acc)
  case Nil
  then show ?case by (simp add: good_refl)
next
  case (Cons b bs)
  have g: "good (fst acc) (fst (renew_batch owner ttl dbnow b acc))"
    by (rule renew_batch_good [OF Cons.prems])
  show ?case
    using good_trans [OF g Cons.IH [OF good_inv [OF g]]] by simp
qed

lemma renew_leases_good [inv_intros]:
  assumes "exec_inv db" "queue_inv db"
  shows "good db (fst (renew_leases owner ttl excluded dbnow db))"
proof -
  have "good db (fst (update_exec (renewable owner) (renew_row dbnow ttl) db))"
    by (rule update_exec_good [OF assms]) (simp add: renew_row_step)
  moreover have "good db (fst (renew_leases_excluding owner ttl excluded dbnow db))"
    using renew_batches_good [of "(db, 0)"] assms
    by (simp add: renew_leases_excluding_def Let_def)
  ultimately show ?thesis
    using good_refl [OF assms] by (simp add: renew_leases_def)
qed

section \<open>Inserting\<close>

lemma insert_exec_inv:
  assumes "exec_inv db" "row_inv r" "\<not> violates_unique r db"
    and "\<not> (\<exists>r' \<in> set (t_exec db). client_key r' = client_key r)"
    and "t_exec db' = t_exec db @ [r]"
  shows "exec_inv db'"
  using assms unfolding exec_inv_def violates_unique_def
  by (auto simp: unique_index_snoc)

lemma insert_db_le: "t_exec db' = t_exec db @ rs \<Longrightarrow> db_le db db'"
  unfolding db_le_def by (auto intro: row_le_refl)

lemma accept_row_inv: "row_inv (accept_row cfg q now dbnow i)"
  by (simp add: row_inv_def accept_row_def)

lemma insert_ignoring_good:
  assumes "exec_inv db" "queue_inv db" "row_inv r" "x_runtime r \<noteq> RtQueued"
  shows "good db (fst (insert_ignoring r db))"
proof -
  have "queue_inv (db\<lparr>t_exec := t_exec db @ [r]\<rparr>)"
    using assms(2,4) by (auto simp: queue_inv_def counter_value_def)
  then show ?thesis
    using good_refl [OF assms(1,2)] insert_exec_inv [OF assms(1,3)] insert_db_le
    by (auto simp: insert_ignoring_def good_def)
qed

lemma accept_tx_good:
  assumes "exec_inv db" "queue_inv db"
  shows "good db (fst (accept_tx cfg q now tnow dbnow i db))"
  using good_refl [OF assms] insert_ignoring_good [OF assms accept_row_inv, of cfg q now dbnow i]
  by (auto simp: accept_tx_def accept_row_def split: option.split prod.splits insert_outcome.split)

lemma accept_good [inv_intros]:
  assumes "exec_inv db" "queue_inv db"
  shows "good db (fst (accept cfg q now tnow dbnow i db))"
  using good_refl [OF assms] accept_tx_good [OF assms, of cfg q now tnow dbnow i]
  by (auto simp: accept_def split: option.split prod.splits sum.split)

lemma queue_insert_good:
  assumes "exec_inv db" "queue_inv db"
  shows "good db (fst (queue_insert enc cfg q l now i pid db))"
proof (cases "queue_insert enc cfg q l now i pid db")
  case (Pair db' res)
  let ?r = "queued_row cfg q now i"
  show ?thesis
  proof (cases "db' = db")
    case True
    then show ?thesis using Pair good_refl [OF assms] by simp
  next
    case False
    define s where "s = qr_session q"
    define n where "n = counter_value s db"
    obtain e y where new: "t_exec db' = t_exec db @ [?r]" "t_queue db' = t_queue db @ [e]"
        "t_payload db' = t_payload db @ [y]" "t_counter db' = (t_counter db)(s \<mapsto> n + 1)"
        "q_id e = i" "q_session e = s" "q_seq e = n" "y_id y = i"
      and uniq: "\<not> violates_unique ?r db"
        "\<not> (\<exists>r' \<in> set (t_exec db). client_key r' = client_key ?r)"
        "\<not> (\<exists>e' \<in> set (t_queue db). q_id e' = i \<or> (q_session e' = s \<and> q_seq e' = n))"
      using Pair False unfolding queue_insert_def Let_def s_def n_def
      by (auto split: if_splits sum.splits)
    have rinv: "row_inv ?r" by (simp add: row_inv_def queued_row_def)
    have ei: "exec_inv db'"
      by (rule insert_exec_inv [OF assms(1) rinv uniq(1,2) new(1)])
    have r: "x_id ?r = i" "x_session ?r = s" "x_runtime ?r = RtQueued"
      by (simp_all add: queued_row_def s_def)
    have cnt: "counter_value t db' = (if t = s then n + 1 else counter_value t db)" for t
      by (simp add: counter_value_def new(4))
    have old: "unique_index (\<lambda>_. True) q_id (t_queue db)"
      "unique_index (\<lambda>_. True) (\<lambda>e. (q_session e, q_seq e)) (t_queue db)"
      "\<And>e. e \<in> set (t_queue db) \<Longrightarrow> q_seq e < counter_value (q_session e) db"
      "\<And>e. e \<in> set (t_queue db) \<Longrightarrow> \<exists>r \<in> set (t_exec db).
        x_id r = q_id e \<and> x_session r = q_session e \<and> x_runtime r = RtQueued"
      "\<And>r. r \<in> set (t_exec db) \<Longrightarrow> x_runtime r = RtQueued \<Longrightarrow> \<exists>e \<in> set (t_queue db). q_id e = x_id r"
      "map y_id (t_payload db) = map q_id (t_queue db)"
      using assms(2) by (simp_all add: queue_inv_def)
    have "queue_inv db'"
      unfolding queue_inv_def new(1,2,3) cnt
      using old(1,2,6) uniq(3) old(3) old(4) old(5) r new(5,6,7,8)
      by (force simp: unique_index_snoc n_def)
    then show ?thesis
      using ei insert_db_le [OF new(1)] Pair by (simp add: good_def)
  qed
qed

lemma accept_queued_tx_good:
  assumes "exec_inv db" "queue_inv db"
  shows "good db (fst (accept_queued_tx enc cfg q l tnow now i pid db))"
  using good_refl [OF assms] queue_insert_good [OF assms]
  by (simp add: accept_queued_tx_def split: option.split)

lemma accept_queued_good [inv_intros]:
  assumes "exec_inv db" "queue_inv db"
  shows "good db (fst (accept_queued enc cfg q l tnow now i pid db))"
  using good_refl [OF assms]
    accept_queued_tx_good [OF assms, of enc cfg q "with_defaults l" tnow now i pid]
  by (auto simp: accept_queued_def split: option.split prod.splits queue_tx.split)

section \<open>Leaving the queue\<close>

text \<open>
  A queued row is moved on and its queue row removed in one transaction; the update may put the
  row into the session's active slot only when the slot is free.
\<close>

lemma leave_queue_good:
  assumes inv: "exec_inv db" "queue_inv db"
    and f: "\<And>r. r \<in> set (t_exec db) \<Longrightarrow> x_id r = i \<Longrightarrow> x_runtime r = RtQueued \<Longrightarrow> row_inv r \<Longrightarrow>
        row_le r (f r) \<and> row_inv (f r) \<and> x_runtime (f r) \<noteq> RtQueued"
    and slot: "\<And>r r'. r \<in> set (t_exec db) \<Longrightarrow> x_id r = i \<Longrightarrow> x_runtime r = RtQueued \<Longrightarrow>
        occupies (f r) \<Longrightarrow> r' \<in> set (t_exec db) \<Longrightarrow> occupies r' \<Longrightarrow> x_id r' \<noteq> i \<Longrightarrow>
        x_session r' \<noteq> x_session r"
  shows "good db (remove_queue_row i
           (fst (update_exec (\<lambda>r. x_id r = i \<and> x_runtime r = RtQueued) f db)))"
    (is "good db ?db'")
proof -
  let ?P = "\<lambda>r. x_id r = i \<and> x_runtime r = RtQueued"
  have rinv: "\<And>r. r \<in> set (t_exec db) \<Longrightarrow> row_inv r"
    using inv(1) by (simp add: exec_inv_def)
  have fr: "row_le r (f r)" "row_inv (f r)" "x_runtime (f r) \<noteq> RtQueued"
      "x_id (f r) = x_id r" "x_session (f r) = x_session r" "client_key (f r) = client_key r"
    if "r \<in> set (t_exec db)" "?P r" for r
    using f [of r] rinv [OF that(1)] that
    by (simp_all add: row_le_def same_input_def client_key_def)
  have te: "t_exec ?db' = sql_update ?P f (t_exec db)"
    by (simp add: remove_queue_row_def)
  have ids: "unique_index (\<lambda>_. True) x_id (t_exec db)"
    using inv(1) by (simp add: exec_inv_def)
  have ids': "unique_index (\<lambda>_. True) x_id (sql_update ?P f (t_exec db))"
    by (rule unique_index_update_in [OF ids]) (simp_all add: fr)
  have keep: "r \<in> set (t_exec ?db')" if "r \<in> set (t_exec db)" "x_id r \<noteq> i" for r
    using that by (force simp: te set_sql_update)
  have clash: False
    if r: "r \<in> set (t_exec db)" "?P r" "occupies (f r)" and s: "s \<in> set (t_exec db)" "occupies s"
      and eq: "x_session s = x_session (f r)" and ne: "r \<noteq> s" for r s
  proof -
    have "x_id s \<noteq> i"
      using unique_index_eq [OF ids r(1) s(1)] r(2) ne by auto
    with slot [OF r(1) _ _ r(3) s] r(2) eq fr(5) [OF r(1,2)] show False by simp
  qed
  have "unique_index occupies x_session (sql_update ?P f (t_exec db))"
    unfolding unique_index_iff [OF unique_index_distinct [OF ids']]
  proof (intro ballI impI)
    fix a b assume ab: "a \<in> set (sql_update ?P f (t_exec db))" "b \<in> set (sql_update ?P f (t_exec db))"
      "occupies a" "occupies b" "x_session a = x_session b"
    obtain r where r: "r \<in> set (t_exec db)" "a = (if ?P r then f r else r)"
      by (rule sql_update_elim [OF ab(1)])
    obtain s where s: "s \<in> set (t_exec db)" "b = (if ?P s then f s else s)"
      by (rule sql_update_elim [OF ab(2)])
    consider "?P r" "?P s" | "?P r" "\<not> ?P s" | "\<not> ?P r" "?P s" | "\<not> ?P r" "\<not> ?P s" by blast
    then show "a = b"
    proof cases
      case 1
      then have "r = s" using unique_index_eq [OF ids r(1) s(1)] by simp
      then show ?thesis using r(2) s(2) by simp
    next
      case 2
      then have a: "a = f r" and b: "b = s" and "r \<noteq> s" using r(2) s(2) by auto
      show ?thesis
        using clash [OF r(1) 2(1) _ s(1) _ _ \<open>r \<noteq> s\<close>] ab(3,4,5) unfolding a b by simp
    next
      case 3
      then have a: "a = r" and b: "b = f s" and "s \<noteq> r" using r(2) s(2) by auto
      show ?thesis
        using clash [OF s(1) 3(2) _ r(1) _ _ \<open>s \<noteq> r\<close>] ab(3,4,5) unfolding a b by simp
    next
      case 4
      then have "a = r" "b = s" using r(2) s(2) by auto
      then show ?thesis
        using r(1) s(1) ab(3,4,5) inv(1) unique_index_eq [of occupies x_session "t_exec db" r s]
        by (simp add: exec_inv_def)
    qed
  qed
  then have ei: "exec_inv ?db'"
    using inv(1) ids' unfolding exec_inv_def te
    by (auto intro!: unique_index_update_in fr elim!: sql_update_elim)
  have pay: "map y_id (t_payload ?db') = map q_id (t_queue ?db')"
  proof -
    have eq: "map y_id (t_payload db) = map q_id (t_queue db)"
      using inv(2) by (simp add: queue_inv_def)
    have "t_payload ?db' = sql_delete (\<lambda>y. y_id y = i) (t_payload db)"
    proof (cases "\<exists>e \<in> set (t_queue db). q_id e = i")
      case False
      then have "i \<notin> set (map y_id (t_payload db))" unfolding eq by auto
      then show ?thesis
        using False by (auto simp: remove_queue_row_def sql_delete_def intro!: filter_True [symmetric])
    qed (simp add: remove_queue_row_def)
    then show ?thesis
      using eq map_sql_delete_key [of y_id i "t_payload db"]
        map_sql_delete_key [of q_id i "t_queue db"]
      by (simp add: remove_queue_row_def)
  qed
  have qs: "t_queue ?db' = sql_delete (\<lambda>e. q_id e = i) (t_queue db)"
    and cnt: "\<And>t. counter_value t ?db' = counter_value t db"
    by (simp_all add: remove_queue_row_def counter_value_def)
  have old: "unique_index (\<lambda>_. True) q_id (t_queue db)"
    "unique_index (\<lambda>_. True) (\<lambda>e. (q_session e, q_seq e)) (t_queue db)"
    "\<And>e. e \<in> set (t_queue db) \<Longrightarrow> q_seq e < counter_value (q_session e) db"
    "\<And>e. e \<in> set (t_queue db) \<Longrightarrow> \<exists>r \<in> set (t_exec db).
      x_id r = q_id e \<and> x_session r = q_session e \<and> x_runtime r = RtQueued"
    "\<And>r. r \<in> set (t_exec db) \<Longrightarrow> x_runtime r = RtQueued \<Longrightarrow> \<exists>e \<in> set (t_queue db). q_id e = x_id r"
    using inv(2) by (simp_all add: queue_inv_def)
  have fwd: "\<exists>r \<in> set (t_exec ?db').
      x_id r = q_id e \<and> x_session r = q_session e \<and> x_runtime r = RtQueued"
    if "e \<in> set (t_queue ?db')" for e
    using that old(4) [of e] keep unfolding qs by auto
  have bwd: "\<exists>e \<in> set (t_queue ?db'). q_id e = x_id r"
    if r: "r \<in> set (t_exec ?db')" "x_runtime r = RtQueued" for r
  proof -
    obtain r0 where r0: "r0 \<in> set (t_exec db)" "r = (if ?P r0 then f r0 else r0)"
      using r(1) unfolding te by (rule sql_update_elim)
    then have "\<not> ?P r0" using r(2) fr(3) [OF r0(1)] by auto
    then have "r = r0" "x_id r0 \<noteq> i" using r0(2) r(2) by auto
    moreover obtain e where "e \<in> set (t_queue db)" "q_id e = x_id r0"
      using old(5) [of r0] r0(1) r(2) \<open>r = r0\<close> by auto
    ultimately show ?thesis unfolding qs by (intro bexI [of _ e]) auto
  qed
  have "queue_inv ?db'"
    unfolding queue_inv_def cnt
    using fwd bwd pay old(3) unique_index_delete [OF old(1)] unique_index_delete [OF old(2)]
    by (auto simp: qs)
  moreover have "db_le db ?db'"
    using update_exec_le [of db ?P f] fr(1) unfolding db_le_def te by simp
  ultimately show ?thesis
    using ei by (simp add: good_def)
qed

lemma claim_row_props:
  assumes "cq_run q \<noteq> []" "x_runtime r = RtQueued" "row_inv r"
  shows "row_le r (claim_row q now r) \<and> row_inv (claim_row q now r) \<and>
         x_runtime (claim_row q now r) \<noteq> RtQueued"
  using assms by (simp add: row_defs claim_row_def)

lemma claim_good [inv_intros]:
  assumes "exec_inv db" "queue_inv db"
  shows "good db (fst (claim_queued q now db))"
proof -
  have *: "good db (remove_queue_row i
      (fst (update_exec (\<lambda>r. x_id r = i \<and> x_runtime r = RtQueued) (claim_row q now) db)))"
    if "cq_run q \<noteq> []" "\<not> slot_taken i db" for i
    by (rule leave_queue_good [OF assms])
       (use that in \<open>auto simp: claim_row_props slot_taken_def\<close>)
  then show ?thesis
    using good_refl [OF assms]
    by (simp add: claim_queued_def update_exec_def Let_def split: option.split nat.split)
qed

lemma settle_row_props:
  assumes "x_runtime r = RtQueued" "row_inv r"
  shows "row_inv (settle_queued_row reason now r)"
    "x_runtime (settle_queued_row reason now r) \<noteq> RtQueued"
    "\<not> occupies (settle_queued_row reason now r)"
    "row_le r (settle_queued_row reason now r)"
  using assms by (simp_all add: row_defs settle_queued_row_def)

lemma settle_good:
  assumes "exec_inv db" "queue_inv db"
  shows "good db (fst (settle_queued_tx i reason now db))"
proof -
  have "good db (remove_queue_row i (fst (update_exec (\<lambda>r. x_id r = i \<and> x_runtime r = RtQueued)
          (settle_queued_row reason now) db)))"
    by (rule leave_queue_good [OF assms])
       (use assms(1) in \<open>simp_all add: settle_row_props exec_inv_def\<close>)
  then show ?thesis
    using good_refl [OF assms]
    by (simp add: settle_queued_tx_def update_exec_def split: nat.split)
qed

lemma settle_all_good:
  "exec_inv db \<Longrightarrow> queue_inv db \<Longrightarrow> good db (fst (settle_all reason now is db))"
proof (induction "is" arbitrary: db)
  case Nil
  then show ?case by (simp add: good_refl)
next
  case (Cons i "is")
  have g: "good db (fst (settle_queued_tx i reason now db))"
    by (rule settle_good [OF Cons.prems])
  show ?case
    using good_trans [OF g Cons.IH [OF good_inv [OF g]]] by (auto split: prod.splits)
qed

lemma cancel_good [inv_intros]:
  assumes "exec_inv db" "queue_inv db"
  shows "good db (fst (cancel_queued i reason now db))"
  using good_refl [OF assms] settle_good [OF assms, of i]
  by (auto simp: cancel_queued_def split: prod.split bool.split option.split) (metis fst_conv)+

lemma clear_good [inv_intros]:
  assumes "exec_inv db" "queue_inv db"
  shows "good db (fst (clear_queue s reason now db))"
  using good_refl [OF assms] settle_all_good [OF assms] by (simp add: clear_queue_def)

lemma expire_good [inv_intros]:
  assumes "exec_inv db" "queue_inv db"
  shows "good db (fst (expire_queued now limit db))"
  using settle_all_good [OF assms] by (simp add: expire_queued_def split: prod.split) (metis fst_conv)

section \<open>Sessions\<close>

lemma session_set_good [inv_intros]:
  "exec_inv db \<Longrightarrow> queue_inv db \<Longrightarrow> good db (db\<lparr>t_sessions := m\<rparr>)"
  by (auto simp: good_def exec_inv_def queue_inv_def counter_value_def db_le_def intro: row_le_refl)

lemma session_delete_inv:
  assumes "exec_inv db" "queue_inv db"
  shows "exec_inv (session_delete s db)" "queue_inv (session_delete s db)"
proof -
  show "exec_inv (session_delete s db)"
    using assms(1) by (auto simp: exec_inv_def session_delete_def Let_def unique_index_delete)
  have ids: "unique_index (\<lambda>_. True) x_id (t_exec db)"
    using assms(1) by (simp add: exec_inv_def)
  have q: "unique_index (\<lambda>_. True) q_id (t_queue db)"
    "\<And>e. e \<in> set (t_queue db) \<Longrightarrow> \<exists>r \<in> set (t_exec db).
      x_id r = q_id e \<and> x_session r = q_session e \<and> x_runtime r = RtQueued"
    "\<And>r. r \<in> set (t_exec db) \<Longrightarrow> x_runtime r = RtQueued \<Longrightarrow> \<exists>e \<in> set (t_queue db). q_id e = x_id r"
    "map y_id (t_payload db) = map q_id (t_queue db)"
    using assms(2) by (simp_all add: queue_inv_def)
  define gone where "gone = set (map q_id (filter (\<lambda>e. q_session e = s) (t_queue db)))"
  have gone: "q_id e \<in> gone \<longleftrightarrow> q_session e = s" if "e \<in> set (t_queue db)" for e
    using that unique_index_eq [OF q(1)] by (auto simp: gone_def)
  have "map y_id (sql_delete (\<lambda>y. y_id y \<in> gone) (t_payload db)) =
        filter (\<lambda>j. j \<notin> gone) (map y_id (t_payload db))"
    by (simp add: sql_delete_def filter_map comp_def)
  also have "\<dots> = map q_id (filter (\<lambda>e. q_id e \<notin> gone) (t_queue db))"
    by (simp add: q(4) filter_map comp_def)
  also have "filter (\<lambda>e. q_id e \<notin> gone) (t_queue db) = sql_delete (\<lambda>e. q_session e = s) (t_queue db)"
    unfolding sql_delete_def by (rule filter_cong) (simp_all add: gone)
  finally have pay: "map y_id (sql_delete (\<lambda>y. y_id y \<in> gone) (t_payload db)) =
        map q_id (sql_delete (\<lambda>e. q_session e = s) (t_queue db))" .
  have rest: "\<exists>e \<in> set (t_queue db). q_session e \<noteq> s \<and> q_id e = x_id r"
    if r: "r \<in> set (t_exec db)" "x_session r \<noteq> s" "x_runtime r = RtQueued" for r
  proof -
    obtain e where e: "e \<in> set (t_queue db)" "q_id e = x_id r"
      using q(3) [OF r(1,3)] by auto
    then obtain r' where "r' \<in> set (t_exec db)" "x_id r' = x_id r" "x_session r' = q_session e"
      using q(2) [OF e(1)] by auto
    then have "q_session e = x_session r"
      using unique_index_eq [OF ids _ r(1), of r'] by simp
    with e r(2) show ?thesis by (intro bexI [of _ e]) simp_all
  qed
  have fwd: "\<exists>r \<in> set (t_exec db). x_session r \<noteq> s \<and>
      x_id r = q_id e \<and> x_session r = q_session e \<and> x_runtime r = RtQueued"
    if e: "e \<in> set (t_queue db)" "q_session e \<noteq> s" for e
    using q(2) [OF e(1)] e(2) by metis
  let ?db' = "session_delete s db"
  have sel: "t_exec ?db' = sql_delete (\<lambda>r. x_session r = s) (t_exec db)"
    "t_queue ?db' = sql_delete (\<lambda>e. q_session e = s) (t_queue db)"
    "t_payload ?db' = sql_delete (\<lambda>y. y_id y \<in> gone) (t_payload db)"
    "\<And>t. counter_value t ?db' = counter_value t db"
    by (simp_all add: session_delete_def Let_def gone_def counter_value_def)
  show "queue_inv ?db'"
    unfolding queue_inv_def sel
  proof (intro conjI)
    show "unique_index (\<lambda>_. True) q_id (sql_delete (\<lambda>e. q_session e = s) (t_queue db))"
      by (rule unique_index_delete [OF q(1)])
    show "unique_index (\<lambda>_. True) (\<lambda>e. (q_session e, q_seq e))
            (sql_delete (\<lambda>e. q_session e = s) (t_queue db))"
      using assms(2) by (intro unique_index_delete) (simp add: queue_inv_def)
    show "\<forall>e \<in> set (sql_delete (\<lambda>e. q_session e = s) (t_queue db)).
            q_seq e < counter_value (q_session e) db"
      using assms(2) by (simp add: queue_inv_def)
    show "\<forall>e \<in> set (sql_delete (\<lambda>e. q_session e = s) (t_queue db)).
            \<exists>r \<in> set (sql_delete (\<lambda>r. x_session r = s) (t_exec db)).
              x_id r = q_id e \<and> x_session r = q_session e \<and> x_runtime r = RtQueued"
      using fwd by fastforce
    show "\<forall>r \<in> set (sql_delete (\<lambda>r. x_session r = s) (t_exec db)). x_runtime r = RtQueued \<longrightarrow>
            (\<exists>e \<in> set (sql_delete (\<lambda>e. q_session e = s) (t_queue db)). q_id e = x_id r)"
      using rest by fastforce
  qed (rule pay)
qed

section \<open>Runs\<close>

lemma exec_step_good:
  assumes "exec_inv db" "queue_inv db" "\<And>s. op \<noteq> OpSessionDelete s"
  shows "good db (exec_step op db)"
  using assms(3) by (cases op) (auto simp: inv_intros assms(1,2))

lemma exec_step_inv:
  assumes "exec_inv db \<and> queue_inv db"
  shows "exec_inv (exec_step op db) \<and> queue_inv (exec_step op db)"
proof (cases "\<exists>s. op = OpSessionDelete s")
  case True
  then show ?thesis using assms session_delete_inv by auto
next
  case False
  then show ?thesis using exec_step_good [of db op] assms by (simp add: good_def)
qed

text \<open>
  The deletion of a session takes its rows with it and leaves the rows of the others.  Relative to
  one session every run that does not delete it is monotone.
\<close>

fun deletes :: "session_id \<Rightarrow> exec_op \<Rightarrow> bool" where
  "deletes s (OpSessionDelete s') \<longleftrightarrow> s' = s"
| "deletes s _ \<longleftrightarrow> False"

definition rows_le :: "session_id \<Rightarrow> exec_db \<Rightarrow> exec_db \<Rightarrow> bool" where
  "rows_le s db db' \<longleftrightarrow> (\<forall>r \<in> set (t_exec db). x_session r = s \<longrightarrow> (\<exists>r' \<in> set (t_exec db'). row_le r r'))"

lemma db_le_rows_le: "db_le db db' \<Longrightarrow> rows_le s db db'"
  by (simp add: db_le_def rows_le_def)

lemma rows_le_trans:
  assumes "rows_le s a b" "rows_le s b c"
  shows "rows_le s a c"
  unfolding rows_le_def
proof (intro ballI impI)
  fix r assume r: "r \<in> set (t_exec a)" "x_session r = s"
  obtain r1 where r1: "r1 \<in> set (t_exec b)" "row_le r r1" using assms(1) r by (auto simp: rows_le_def)
  then have "x_session r1 = s" using r(2) by (simp add: row_le_def same_input_def)
  then obtain r2 where "r2 \<in> set (t_exec c)" "row_le r1 r2" using assms(2) r1(1) by (auto simp: rows_le_def)
  then show "\<exists>r' \<in> set (t_exec c). row_le r r'" using row_le_trans [OF r1(2)] by blast
qed

definition exec_step_but :: "session_id \<Rightarrow> exec_op \<Rightarrow> exec_db \<Rightarrow> exec_db" where
  "exec_step_but s op db = (if deletes s op then db else exec_step op db)"

interpretation exec_machine: invariant_machine exec_step "\<lambda>db. exec_inv db \<and> queue_inv db"
  by unfold_locales (rule exec_step_inv)

lemma exec_step_rows:
  assumes "exec_inv db" "queue_inv db" "\<not> deletes s op"
  shows "rows_le s db (exec_step op db)"
proof (cases "\<exists>s'. op = OpSessionDelete s'")
  case True
  then obtain s' where o: "op = OpSessionDelete s'" by blast
  then have ne: "s' \<noteq> s" using assms(3) by simp
  have "set (t_exec (exec_step op db)) = {r \<in> set (t_exec db). x_session r \<noteq> s'}"
    by (simp add: o session_delete_def Let_def sql_delete_def)
  then show ?thesis unfolding rows_le_def using ne row_le_refl by blast
next
  case False
  then show ?thesis using exec_step_good [OF assms(1,2), of op] db_le_rows_le by (auto simp: good_def)
qed

interpretation exec_but: monotone_machine "exec_step_but s" "\<lambda>db. exec_inv db \<and> queue_inv db" "rows_le s"
proof unfold_locales
  show "exec_inv (exec_step_but s op db) \<and> queue_inv (exec_step_but s op db)" if "exec_inv db \<and> queue_inv db" for op db
    using exec_step_inv [OF that, of op] that by (simp add: exec_step_but_def)
  show "rows_le s db (exec_step_but s op db)" if "exec_inv db \<and> queue_inv db" for op db
    using exec_step_rows [of db s op] that by (simp add: exec_step_but_def db_le_rows_le)
qed (auto intro: rows_le_trans simp: db_le_rows_le)

lemma fold_exec_but:
  "list_all (\<lambda>op. \<not> deletes s op) ops \<Longrightarrow> fold (exec_step_but s) ops db = fold exec_step ops db"
  by (induction ops arbitrary: db) (simp_all add: exec_step_but_def)

text \<open>A gateway database with no executions yet.\<close>

definition empty_db :: "(session_id \<Rightarrow> session_view option) \<Rightarrow> exec_db" where
  "empty_db sessions =
     \<lparr>t_exec = [], t_queue = [], t_payload = [], t_counter = Map.empty, t_budget = 0,
      t_sessions = sessions\<rparr>"

lemma empty_db_inv: "exec_inv (empty_db m) \<and> queue_inv (empty_db m)"
  by (simp add: exec_inv_def queue_inv_def empty_db_def unique_index_def)

end
