(* ===== verification/ExecProps.thy ===== *)
theory ExecProps
  imports ExecMachine
begin

text \<open>
  What the execution ledger promises its clients, \<open>internal/execution\<close>: the properties of
  ingress, dispatch, fences, leases and the bounded queue, over any run of the machine of
  \<open>ExecMachine\<close>.
\<close>

abbreviation run_db :: "exec_op list \<Rightarrow> (session_id \<Rightarrow> session_view option) \<Rightarrow> exec_db" where
  "run_db ops m \<equiv> fold exec_step ops (empty_db m)"

abbreviation keeps :: "session_id \<Rightarrow> exec_op list \<Rightarrow> bool" where
  "keeps s ops \<equiv> list_all (\<lambda>op. \<not> deletes s op) ops"

lemma run_db_inv: "exec_inv (run_db ops m) \<and> queue_inv (run_db ops m)"
  by (rule exec_machine.run_inv) (rule empty_db_inv)

lemma run_kept:
  assumes "exec_inv db" "queue_inv db" "keeps s ops"
  shows "exec_inv (fold exec_step ops db)" "queue_inv (fold exec_step ops db)" "rows_le s db (fold exec_step ops db)"
  using exec_but.run_le [of db s ops] exec_but.run_inv [of db s ops] assms
  by (simp_all add: fold_exec_but)

section \<open>Rows by id\<close>

lemma get_by_id_iff:
  assumes "exec_inv db"
  shows "get_by_id i db = Some r \<longleftrightarrow> r \<in> set (t_exec db) \<and> x_id r = i"
proof
  show "get_by_id i db = Some r \<Longrightarrow> r \<in> set (t_exec db) \<and> x_id r = i"
    by (auto simp: get_by_id_def dest: sql_row_Some)
  show "r \<in> set (t_exec db) \<and> x_id r = i \<Longrightarrow> get_by_id i db = Some r"
    using assms sql_row_unique [of x_id "t_exec db" r]
    by (auto simp: get_by_id_def exec_inv_def)
qed

lemma get_by_client_iff:
  assumes "exec_inv db"
  shows "get_by_client s c db = Some r \<longleftrightarrow>
           r \<in> set (t_exec db) \<and> x_session r = s \<and> x_client r = c"
proof
  show "get_by_client s c db = Some r \<Longrightarrow> r \<in> set (t_exec db) \<and> x_session r = s \<and> x_client r = c"
    by (auto simp: get_by_client_def client_key_def dest: sql_row_Some)
  show "r \<in> set (t_exec db) \<and> x_session r = s \<and> x_client r = c \<Longrightarrow> get_by_client s c db = Some r"
    using assms sql_row_unique [of client_key "t_exec db" r]
    by (auto simp: get_by_client_def client_key_def exec_inv_def)
qed

lemma rows_eq:
  "exec_inv db \<Longrightarrow> r \<in> set (t_exec db) \<Longrightarrow> s \<in> set (t_exec db) \<Longrightarrow> x_id r = x_id s \<Longrightarrow> r = s"
  unfolding exec_inv_def by (metis unique_index_eq)

lemma later_row:
  assumes "exec_inv db'" "rows_le (x_session r) db db'" "r \<in> set (t_exec db)"
  obtains r' where "get_by_id (x_id r) db' = Some r'" "row_le r r'" "r' \<in> set (t_exec db')"
proof -
  obtain r' where "r' \<in> set (t_exec db')" "row_le r r'"
    using assms(2,3) by (auto simp: rows_le_def)
  then show ?thesis
    using that get_by_id_iff [OF assms(1), of "x_id r" r']
    by (auto simp: row_le_def same_input_def)
qed

section \<open>Acceptance\<close>

text \<open>A record that \<open>Accept\<close> returns is stored and carries the request.\<close>

lemma accept_stored:
  assumes "exec_inv db" "queue_inv db"
    and "accept cfg q now tnow dbnow i db = (db1, Some r, dup, None)"
  shows "r \<in> set (t_exec db1) \<and> x_session r = ar_session q \<and> x_client r = ar_client q \<and>
         x_hash r = ar_hash q"
proof -
  have inv1: "exec_inv db1"
    using accept_good [OF assms(1,2), of cfg q now tnow dbnow i] assms(3) by (simp add: good_def)
  have new: "x_session r = ar_session q \<and> x_client r = ar_client q \<and> x_hash r = ar_hash q"
    if ins: "insert_ignoring (accept_row cfg q now dbnow i) db = (db1, Inserted)"
      and get: "get_by_id i db1 = Some r"
  proof -
    have "accept_row cfg q now dbnow i \<in> set (t_exec db1)"
      using ins by (auto simp: insert_ignoring_def split: if_splits)
    then have "r = accept_row cfg q now dbnow i"
      using get rows_eq [OF inv1] by (simp add: get_by_id_iff [OF inv1] accept_row_def)
    then show ?thesis by (simp add: accept_row_def)
  qed
  show ?thesis
    using assms(3) inv1 new
    by (auto simp: accept_def accept_read_def accept_tx_def accept_reread_def
        get_by_id_iff get_by_client_iff insert_ignoring_def
        split: if_splits option.splits prod.splits sum.splits insert_outcome.splits
        dest!: get_by_client_iff [OF assms(1), THEN iffD1])
qed

section \<open>The claim\<close>

lemma claim_queued_ok:
  assumes "claim_queued q now db = (db', Inr (r, h))"
  shows "queue_head (cq_session q) db = Some h"
    and "\<exists>r0 \<in> set (t_exec db). x_id r0 = q_id h \<and> x_runtime r0 = RtQueued"
    and "db' = remove_queue_row (q_id h)
           (fst (update_exec (\<lambda>r. x_id r = q_id h \<and> x_runtime r = RtQueued) (claim_row q now) db))"
    and "get_by_id (q_id h) db' = Some r"
    and "\<not> slot_taken (q_id h) db"
    and "cq_expected q \<noteq> [] \<Longrightarrow> q_id h = cq_expected q"
    and "cq_revision q > 0 \<Longrightarrow> q_revision h = cq_revision q"
proof -
  let ?P = "\<lambda>h r. x_id r = q_id h \<and> x_runtime r = RtQueued"
  have "queue_head (cq_session q) db = Some h \<and> sql_count (?P h) (t_exec db) \<noteq> 0 \<and>
      db' = remove_queue_row (q_id h) (fst (update_exec (?P h) (claim_row q now) db)) \<and>
      get_by_id (q_id h) db' = Some r \<and> \<not> slot_taken (q_id h) db \<and>
      (cq_expected q \<noteq> [] \<longrightarrow> q_id h = cq_expected q) \<and>
      (cq_revision q > 0 \<longrightarrow> q_revision h = cq_revision q)"
    using assms unfolding claim_queued_def Let_def
    by (auto simp: update_exec_def split: if_splits option.splits nat.splits)
  then show "queue_head (cq_session q) db = Some h"
    and "\<exists>r0 \<in> set (t_exec db). x_id r0 = q_id h \<and> x_runtime r0 = RtQueued"
    and "db' = remove_queue_row (q_id h) (fst (update_exec (?P h) (claim_row q now) db))"
    and "get_by_id (q_id h) db' = Some r"
    and "\<not> slot_taken (q_id h) db"
    and "cq_expected q \<noteq> [] \<Longrightarrow> q_id h = cq_expected q"
    and "cq_revision q > 0 \<Longrightarrow> q_revision h = cq_revision q"
    by (auto simp: sql_count_0_iff)
qed

lemma claim_queued_row:
  assumes "exec_inv db" "queue_inv db" "claim_queued q now db = (db', Inr (r, h))"
  obtains r0 where "r0 \<in> set (t_exec db)" "x_id r0 = q_id h" "x_runtime r0 = RtQueued"
    "r = claim_row q now r0" "r \<in> set (t_exec db')"
proof -
  note ok = claim_queued_ok [OF assms(3)]
  obtain r0 where r0: "r0 \<in> set (t_exec db)" "x_id r0 = q_id h" "x_runtime r0 = RtQueued"
    using ok(2) by auto
  have te: "t_exec db' = sql_update (\<lambda>r. x_id r = q_id h \<and> x_runtime r = RtQueued)
              (claim_row q now) (t_exec db)"
    by (simp add: ok(3) remove_queue_row_def)
  have new: "claim_row q now r0 \<in> set (t_exec db')"
    using r0 by (auto simp: te set_sql_update intro!: rev_image_eqI [OF r0(1)])
  have "exec_inv db'"
    using claim_good [OF assms(1,2), of q now] assms(3) by (simp add: good_def)
  then have "r \<in> set (t_exec db')" "x_id r = q_id h"
    using ok(4) get_by_id_iff by simp_all
  then have "r = claim_row q now r0"
    using rows_eq [OF \<open>exec_inv db'\<close> _ new] r0(2) by (simp add: claim_row_def)
  then show ?thesis using that r0 new by simp
qed

section \<open>Dispatch at most once\<close>

fun claimed :: "exec_op \<Rightarrow> exec_db \<Rightarrow> (session_id \<times> execution_id) option" where
  "claimed (OpClaim q now) db =
     (case snd (claim_queued q now db) of Inl e \<Rightarrow> None | Inr (r, h) \<Rightarrow> Some (x_session r, x_id r))"
| "claimed _ db = None"

text \<open>How often a run hands execution \<open>i\<close> of session \<open>s\<close> to a worker.\<close>

fun dispatch_count :: "session_id \<Rightarrow> execution_id \<Rightarrow> exec_op list \<Rightarrow> exec_db \<Rightarrow> nat" where
  "dispatch_count s i [] db = 0"
| "dispatch_count s i (op # ops) db =
     (if claimed op db = Some (s, i) then 1 else 0) + dispatch_count s i ops (exec_step op db)"

definition past_queue :: "session_id \<Rightarrow> execution_id \<Rightarrow> exec_db \<Rightarrow> bool" where
  "past_queue s i db \<longleftrightarrow> (\<exists>r \<in> set (t_exec db). x_session r = s \<and> x_id r = i \<and> x_runtime r \<noteq> RtQueued)"

lemma past_queue_kept:
  assumes "rows_le s db db'" "past_queue s i db"
  shows "past_queue s i db'"
proof -
  obtain r where r: "r \<in> set (t_exec db)" "x_session r = s" "x_id r = i" "x_runtime r \<noteq> RtQueued"
    using assms(2) by (auto simp: past_queue_def)
  obtain r' where "r' \<in> set (t_exec db')" "row_le r r'"
    using assms(1) r(1,2) by (auto simp: rows_le_def)
  then show ?thesis
    using r runtime_le_queued by (auto simp: past_queue_def row_le_def same_input_def)
qed

lemma claimed_cases:
  assumes "exec_inv db" "queue_inv db" "claimed op db = Some (s, i)"
  shows "\<not> past_queue s i db" "past_queue s i (exec_step op db)"
proof -
  obtain q now where op: "op = OpClaim q now"
    using assms(3) by (cases op) auto
  obtain db' r h where c: "claim_queued q now db = (db', Inr (r, h))" "x_session r = s" "x_id r = i"
    using assms(3) by (cases "claim_queued q now db") (auto simp: op split: sum.splits prod.splits)
  obtain r0 where r0: "r0 \<in> set (t_exec db)" "x_id r0 = q_id h" "x_runtime r0 = RtQueued"
      "r = claim_row q now r0" "r \<in> set (t_exec db')"
    by (rule claim_queued_row [OF assms(1,2) c(1)])
  then have i: "x_id r0 = i" using c(3) by (simp add: claim_row_def)
  show "\<not> past_queue s i db"
    using rows_eq [OF assms(1) r0(1)] r0(3) i unfolding past_queue_def by metis
  show "past_queue s i (exec_step op db)"
    using r0(4,5) c by (auto simp: op past_queue_def claim_row_def intro!: bexI [of _ r])
qed

lemma dispatch_count_past:
  assumes "exec_inv db" "queue_inv db" "keeps s ops" "past_queue s i db"
  shows "dispatch_count s i ops db = 0"
  using assms
proof (induction ops arbitrary: db)
  case (Cons op ops)
  then have "rows_le s db (exec_step op db)" "exec_inv (exec_step op db)" "queue_inv (exec_step op db)"
    using exec_step_rows [of db s op] exec_step_inv [of db op] by simp_all
  moreover have "claimed op db \<noteq> Some (s, i)"
    using claimed_cases(1) [OF Cons.prems(1,2)] Cons.prems(4) by blast
  ultimately show ?case
    using Cons past_queue_kept [of s db "exec_step op db"] by simp
qed simp

lemma dispatch_count_le:
  assumes "exec_inv db" "queue_inv db" "keeps s ops"
  shows "dispatch_count s i ops db \<le> 1"
  using assms
proof (induction ops arbitrary: db)
  case (Cons op ops)
  then have g: "exec_inv (exec_step op db)" "queue_inv (exec_step op db)"
    using exec_step_inv by blast+
  show ?case
  proof (cases "claimed op db = Some (s, i)")
    case True
    then show ?thesis
      using dispatch_count_past [OF g, of s ops i] claimed_cases(2) [OF Cons.prems(1,2) True]
        Cons.prems(3) by simp
  next
    case False
    then show ?thesis using Cons.IH [OF g] Cons.prems(3) by simp
  qed
qed simp

section \<open>Properties of ingress and dispatch\<close>

text \<open>
  C8. The tables stay well formed.  Whatever transactions all gateways run, in any order,
  execution ids and client keys are unique, a session has at most one execution that is
  pending, running or fenced, a fenced execution has runtime unknown, a queued execution has
  neither run nor lease, and the queue rows are exactly the queued executions, each with its
  payload.
\<close>

theorem exec_tables_inv:
  "exec_inv (fold exec_step ops (empty_db m)) \<and> queue_inv (fold exec_step ops (empty_db m))"
  by (rule run_db_inv)

text \<open>
  C9. Facts never regress.  As long as its session is not deleted - other sessions may be - an
  execution row keeps its input (session, client key, payload hash, creation time), its runtime
  status only moves up to a terminal one, and its fence clock never goes back.  Its delivery
  status leaves a terminal value only from failed to unknown, or to failed (and then unknown) when
  the row had one while it was still queued.  A stored turn deadline stays as it is until the
  row is completed or failed.
\<close>

theorem exec_facts_never_regress:
  assumes "r \<in> set (t_exec (fold exec_step ops (empty_db m)))"
    and "list_all (\<lambda>op. \<not> deletes (x_session r) op) ops'"
  shows "\<exists>r' \<in> set (t_exec (fold exec_step (ops @ ops') (empty_db m))). row_le r r'"
  using run_kept(3) [OF conjunct1 [OF run_db_inv] conjunct2 [OF run_db_inv] assms(2)] assms(1)
  by (simp add: rows_le_def)

text \<open>
  C1. At most one dispatch.  Over any run that does not delete its session - other sessions may be
  deleted at any time - a queued input is handed to a worker by at most one successful claim,
  whichever gateways race for it.
\<close>

theorem dispatched_at_most_once:
  assumes "list_all (\<lambda>op. \<not> deletes s op) ops'"
  shows "dispatch_count s i ops' (fold exec_step ops (empty_db m)) \<le> 1"
  using dispatch_count_le [OF conjunct1 [OF run_db_inv] conjunct2 [OF run_db_inv] assms] .

text \<open>
  C3. Idempotent acceptance.  An accepted input is answered with its own record as long as its
  session is not deleted: whatever else happens in between (its session marked deleted or expired,
  other sessions deleted, the input delivered, fenced or failed, its facts compacted),
  the same client key with the same payload hash returns the stored execution as a duplicate
  and writes nothing; with another hash it is refused as a conflict and writes nothing.
\<close>

theorem accept_idempotent:
  assumes "accept cfg q now tnow dbnow i (fold exec_step ops (empty_db m)) = (db1, Some r, dup, None)"
    and "list_all (\<lambda>op. \<not> deletes (ar_session q) op) ops'"
    and "db2 = fold exec_step ops' db1"
    and "accept_valid q'" "ar_session q' = ar_session q" "ar_client q' = ar_client q"
  shows "\<exists>r'. x_id r' = x_id r \<and> accept cfg' q' now' tnow' dbnow' i' db2 =
           (db2, Some r', True,
            if ar_hash q' = ar_hash q then None else Some ErrPayloadConflict)"
proof -
  let ?db = "fold exec_step ops (empty_db m)"
  have g0: "good ?db db1"
    using accept_good [of ?db cfg q now tnow dbnow i] run_db_inv assms(1) by simp
  then have inv1: "exec_inv db1" "queue_inv db1" by (simp_all add: good_def)
  have r: "r \<in> set (t_exec db1)" "x_session r = ar_session q" "x_client r = ar_client q"
    "x_hash r = ar_hash q"
    using accept_stored [OF conjunct1 [OF run_db_inv] conjunct2 [OF run_db_inv] assms(1)] by simp_all
  have g2: "exec_inv db2" "rows_le (x_session r) db1 db2"
    unfolding assms(3) r(2) by (rule run_kept [OF inv1 assms(2)])+
  obtain r' where r': "row_le r r'" "r' \<in> set (t_exec db2)"
    by (rule later_row [OF g2 r(1)])
  then have "get_by_client (ar_session q') (ar_client q') db2 = Some r'"
    using r g2(1) assms(5,6) by (simp add: get_by_client_iff row_le_def same_input_def)
  then show ?thesis
    using r' r(4) assms(4)
    by (intro exI [of _ r']) (auto simp: accept_def accept_read_def row_le_def same_input_def)
qed

section \<open>Admission\<close>

text \<open>
  Single active slot.  A valid request with a fresh key and a fresh execution id is
  accepted exactly when its session is acceptable and holds no pending, running or fenced
  execution; otherwise it is refused as expired or busy and nothing is written.
\<close>

theorem accept_fresh_input:
  assumes "accept_valid q" "get_by_client (ar_session q) (ar_client q) db = None"
    and "get_by_id i db = None"
  shows "accept cfg q now tnow dbnow i db =
    (if lock_acceptable_session tnow (ar_session q) db \<noteq> None
     then (db, None, False, Some ErrSessionExpired)
     else if \<exists>r \<in> set (t_exec db). occupies r \<and> x_session r = ar_session q
     then (db, None, False, Some ErrSessionBusy)
     else (db\<lparr>t_exec := t_exec db @ [accept_row cfg q now dbnow i]\<rparr>,
           Some (accept_row cfg q now dbnow i), False, None))"
proof -
  let ?r = "accept_row cfg q now dbnow i"
  have "\<not> (\<exists>r' \<in> set (t_exec db). client_key r' = client_key ?r)"
    using assms(2) by (simp add: get_by_client_def sql_row_None client_key_def accept_row_def)
  moreover have "violates_unique ?r db \<longleftrightarrow>
      (\<exists>r \<in> set (t_exec db). occupies r \<and> x_session r = ar_session q)"
    using assms(3) by (auto simp: violates_unique_def get_by_id_def sql_row_None accept_row_def
        occupies_def live_runtime_def)
  moreover have "lock_acceptable_session tnow (ar_session q) db \<in> {None, Some ErrSessionExpired}"
    by (auto simp: lock_acceptable_session_def split: option.split)
  moreover have "get_by_id i (db\<lparr>t_exec := t_exec db @ [?r]\<rparr>) = Some ?r"
    using assms(3) by (simp add: get_by_id_def sql_row_append) (simp add: sql_row_def accept_row_def)
  ultimately show ?thesis
    using assms(1,2)
    by (auto simp: accept_def accept_read_def accept_tx_def insert_ignoring_def accept_reread_def)
qed

section \<open>Fences\<close>

lemma apply_fence_ok:
  assumes "apply_fence_decision i v d now db = (db', Inr r)" "exec_inv db" "queue_inv db"
  obtains r0 where "r0 \<in> set (t_exec db)" "x_id r0 = i" "x_fence r0 \<noteq> []" "x_fence_version r0 = v"
    "get_by_id i db' = Some r" "x_fence r = []" "x_fence_version r = v" "x_status r = x_status r0"
    "x_runtime r = (if d = DecisionResolve then x_runtime r0 else RtFailed)"
proof -
  have d: "d = DecisionResolve \<or> d = DecisionAbandon" and get: "get_by_id i db' = Some r"
    using assms(1) by (auto simp: apply_fence_decision_def split: if_splits prod.splits option.splits)
  let ?P = "\<lambda>r. x_id r = i \<and> x_fence r \<noteq> [] \<and> x_fence_version r = v \<and>
               (d = DecisionAbandon \<longrightarrow> x_runtime r = RtUnknown)"
  let ?f = "\<lambda>r. if d = DecisionResolve then r\<lparr>x_fence := [], x_updated := now\<rparr>
      else r\<lparr>x_fence := [], x_runtime := RtFailed, x_runtime_error := operator_abandoned,
             x_finished := Some now, x_updated := now\<rparr>"
  have upd: "db' = fst (update_exec ?P ?f db)" "sql_count ?P (t_exec db) \<noteq> 0"
    using assms(1) d
    by (auto simp: apply_fence_decision_def update_exec_def conj_assoc
        split: if_splits option.splits)
  obtain r0 where r0: "r0 \<in> set (t_exec db)" "?P r0"
    using upd(2) by (auto simp: sql_count_0_iff)
  have inv': "exec_inv db'"
    using apply_fence_good [OF assms(2,3), of i v d now] assms(1) by (simp add: good_def)
  have "?f r0 \<in> set (t_exec db')"
    using r0 by (auto simp: upd(1) set_sql_update intro!: rev_image_eqI [OF r0(1)])
  moreover have "r \<in> set (t_exec db')" "x_id r = i"
    using get get_by_id_iff [OF inv'] by simp_all
  ultimately have "r = ?f r0"
    using rows_eq [OF inv', of r "?f r0"] r0(2) by simp
  then show ?thesis
    using that [OF r0(1) _ _ _ get] r0(2) by simp
qed

text \<open>
  C34. Fences are resolved at most once per version.  An operator decision that applied with a
  fence version is the only one for it: after any later transactions that do not delete the
  session of the execution a second decision with the same version is refused and changes nothing.  The decision itself clears the fence, never
  touches the delivery status, and leaves the runtime unknown (resolve) or failed (abandon).
\<close>

theorem fence_decision_once:
  assumes "apply_fence_decision i v d now (fold exec_step ops (empty_db m)) = (db1, Inr r)"
    and "list_all (\<lambda>op. \<not> deletes (x_session r) op) ops'"
    and "db2 = fold exec_step ops' db1"
  shows "x_fence r = [] \<and> x_runtime r = (if d = DecisionResolve then RtUnknown else RtFailed) \<and>
         (\<exists>r0. get_by_id i (fold exec_step ops (empty_db m)) = Some r0 \<and> x_status r = x_status r0) \<and>
         fst (apply_fence_decision i v d' now' db2) = db2 \<and>
         (\<exists>e. snd (apply_fence_decision i v d' now' db2) = Inl e)"
proof -
  let ?db = "fold exec_step ops (empty_db m)"
  have inv: "exec_inv ?db" "queue_inv ?db" using run_db_inv by blast+
  obtain r0 where r0: "r0 \<in> set (t_exec ?db)" "x_id r0 = i" "x_fence r0 \<noteq> []"
      "x_fence_version r0 = v" "get_by_id i db1 = Some r" "x_fence r = []" "x_fence_version r = v"
      "x_status r = x_status r0" "x_runtime r = (if d = DecisionResolve then x_runtime r0 else RtFailed)"
    by (rule apply_fence_ok [OF assms(1) inv])
  have g1: "good ?db db1"
    using apply_fence_good [OF inv, of i v d now] assms(1) by simp
  have inv1: "exec_inv db1" "queue_inv db1" by (rule good_inv [OF g1])+
  have inv2: "exec_inv db2" and g2: "rows_le (x_session r) db1 db2"
    unfolding assms(3) by (rule run_kept [OF inv1 assms(2)])+
  have rin: "r \<in> set (t_exec db1)" "x_id r = i"
    using r0(5) by (simp_all add: get_by_id_iff [OF inv1(1)])
  obtain r2 where r2: "get_by_id i db2 = Some r2" "row_le r r2"
    using later_row [OF inv2 g2 rin(1)] rin(2) by metis
  have clock: "2 * v + 1 \<le> fence_clock r2"
    using r2(2) r0(6,7) by (simp add: row_le_def fence_clock_def)
  have none: "\<not> (x_id s = i \<and> x_fence s \<noteq> [] \<and> x_fence_version s = v)"
    if "s \<in> set (t_exec db2)" for s
  proof
    assume s: "x_id s = i \<and> x_fence s \<noteq> [] \<and> x_fence_version s = v"
    then have "s = r2"
      using that r2(1) rows_eq [OF inv2] by (simp add: get_by_id_iff [OF inv2])
    then show False using clock s by (simp add: fence_clock_def)
  qed
  have "sql_update P f (t_exec db2) = t_exec db2 \<and> sql_count P (t_exec db2) = 0"
    if "\<And>s. P s \<Longrightarrow> x_id s = i \<and> x_fence s \<noteq> [] \<and> x_fence_version s = v" for P f
    using none that sql_count_0_iff [of P "t_exec db2"] sql_update_none by blast
  then have again: "update_exec P f db2 = (db2, 0)"
    if "\<And>s. P s \<Longrightarrow> x_id s = i \<and> x_fence s \<noteq> [] \<and> x_fence_version s = v" for P f
    using that by (simp add: update_exec_def)
  have refused:
    "update_exec (\<lambda>r. x_id r = i \<and> x_fence r \<noteq> [] \<and> x_fence_version r = v) f db2 = (db2, 0)"
    "update_exec (\<lambda>r. x_id r = i \<and> x_fence r \<noteq> [] \<and> x_fence_version r = v \<and>
                      x_runtime r = RtUnknown) f db2 = (db2, 0)" for f
    by (rule again, blast)+
  have second: "fst (apply_fence_decision i v d' now' db2) = db2 \<and>
      (\<exists>e. snd (apply_fence_decision i v d' now' db2) = Inl e)"
    by (simp add: apply_fence_decision_def refused r2(1))
  have "x_runtime r0 = RtUnknown"
    using inv(1) r0(1,3) by (simp add: exec_inv_def row_inv_def)
  moreover have "get_by_id i ?db = Some r0"
    using r0(1,2) get_by_id_iff [OF inv(1)] by simp
  ultimately show ?thesis
    using r0(6,8,9) second by simp
qed

section \<open>First in, first out\<close>

text \<open>
  FIFO dispatch.  A successful claim takes the undispatched input of its session with the
  least queue ordinal, binds it to the claiming gateway and run with a lease, and removes it
  from the queue together with its payload; the session's slot was free.
\<close>

theorem claim_takes_the_head:
  assumes "claim_queued q now (fold exec_step ops (empty_db m)) = (db', Inr (r, h))"
  shows "h \<in> set (t_queue (fold exec_step ops (empty_db m))) \<and> q_session h = cq_session q \<and>
    (\<forall>e \<in> set (t_queue (fold exec_step ops (empty_db m))).
       q_session e = cq_session q \<longrightarrow> q_seq h \<le> q_seq e) \<and>
    x_id r = q_id h \<and> x_session r = cq_session q \<and> x_runtime r = RtPending \<and>
    x_owner r = cq_owner q \<and> x_run r = cq_run q \<and>
    x_lease r = now + (if cq_ttl q \<le> 0 then lease_ttl else cq_ttl q) * 1000 \<and>
    r \<in> set (t_exec db') \<and> (\<forall>e \<in> set (t_queue db'). q_id e \<noteq> q_id h) \<and>
    (\<forall>y \<in> set (t_payload db'). y_id y \<noteq> q_id h) \<and>
    (\<forall>s \<in> set (t_exec db'). occupies s \<and> x_session s = cq_session q \<longrightarrow> s = r)"
proof -
  let ?db = "fold exec_step ops (empty_db m)"
  have inv: "exec_inv ?db" "queue_inv ?db" using run_db_inv by blast+
  note ok = claim_queued_ok [OF assms]
  obtain r0 where r0: "r0 \<in> set (t_exec ?db)" "x_id r0 = q_id h" "x_runtime r0 = RtQueued"
      "r = claim_row q now r0" "r \<in> set (t_exec db')"
    by (rule claim_queued_row [OF inv assms])
  have head: "h \<in> set (t_queue ?db)" "q_session h = cq_session q"
      "\<forall>e \<in> set (t_queue ?db). q_session e = cq_session q \<longrightarrow> q_seq h \<le> q_seq e"
    using ok(1) sql_first_Some [of "\<lambda>e. q_session e = cq_session q" q_seq "t_queue ?db" h]
    by (simp_all add: queue_head_def)
  have inv': "exec_inv db'" "queue_inv db'"
    using claim_good [OF inv, of q now] assms by (simp_all add: good_def)
  have sess: "x_session r0 = cq_session q"
  proof -
    obtain r1 where "r1 \<in> set (t_exec ?db)" "x_id r1 = q_id h" "x_session r1 = q_session h"
      using inv(2) head(1) by (auto simp: queue_inv_def)
    then show ?thesis using rows_eq [OF inv(1) r0(1)] r0(2) head(2) by auto
  qed
  have gone: "q_id h \<notin> set (map q_id (t_queue db'))"
    by (auto simp: ok(3) remove_queue_row_def)
  have pay: "map y_id (t_payload db') = map q_id (t_queue db')"
    using inv'(2) by (simp add: queue_inv_def)
  have gone': "\<forall>e \<in> set (t_queue db'). q_id e \<noteq> q_id h" "\<forall>y \<in> set (t_payload db'). y_id y \<noteq> q_id h"
    using gone gone [folded pay] by (metis image_eqI list.set_map)+
  have r: "x_id r = q_id h" "x_session r = cq_session q" "x_runtime r = RtPending"
    "x_owner r = cq_owner q" "x_run r = cq_run q"
    "x_lease r = now + (if cq_ttl q \<le> 0 then lease_ttl else cq_ttl q) * 1000" "occupies r"
    by (simp_all add: r0(2,4) sess claim_row_def occupies_def live_runtime_def)
  have one: "\<forall>s \<in> set (t_exec db'). occupies s \<and> x_session s = cq_session q \<longrightarrow> s = r"
  proof (intro ballI impI)
    fix s assume s: "s \<in> set (t_exec db')" "occupies s \<and> x_session s = cq_session q"
    have "unique_index occupies x_session (t_exec db')"
      using inv'(1) by (simp add: exec_inv_def)
    then show "s = r"
      by (rule unique_index_eq) (use s r(2,7) r0(5) in simp_all)
  qed
  show ?thesis
    using head r r0(5) gone' one by blast
qed

section \<open>Queue bounds\<close>

text \<open>The operations on execution rows leave the queue table alone.\<close>

lemma t_queue_accept [simp]: "t_queue (fst (accept cfg q now tnow dbnow i db)) = t_queue db"
  by (simp add: accept_def accept_tx_def insert_ignoring_def split: option.split)

lemma t_queue_set_status [simp]: "t_queue (fst (set_status i s code now db)) = t_queue db"
  by (simp add: set_status_def update_exec_def split: nat.split option.split)

lemma t_queue_set_delivery [simp]: "t_queue (fst (set_delivery i owner s code now db)) = t_queue db"
  by (simp add: set_delivery_def update_exec_def split: nat.split option.split)

lemma t_queue_mark_running [simp]: "t_queue (fst (mark_running i owner run now db)) = t_queue db"
  by (simp add: mark_running_def update_exec_def split: nat.split option.split)

lemma t_queue_set_turn_deadline [simp]: "t_queue (fst (set_turn_deadline i owner st dl rv now db)) = t_queue db"
  by (simp add: set_turn_deadline_def update_exec_def split: nat.split option.split)

lemma t_queue_converge [simp]: "t_queue (fst (converge_delivery_failed i run now db)) = t_queue db"
  by (simp add: converge_delivery_failed_def)

lemma t_queue_clear_fence [simp]: "t_queue (fst (clear_fence_after_fresh_start i reason run now db)) = t_queue db"
  by (simp add: clear_fence_after_fresh_start_def update_exec_def split: nat.split option.split)

lemma t_queue_apply_fence [simp]: "t_queue (fst (apply_fence_decision i v d now db)) = t_queue db"
  by (simp add: apply_fence_decision_def update_exec_def split: option.split)

lemma t_queue_recover [simp]: "t_queue (fst (recover_expired_leases tracked dbnow db)) = t_queue db"
  by (simp add: recover_expired_leases_def update_exec_def Let_def)

lemma t_queue_terminate [simp]: "t_queue (fst (terminate_owner_leases owner reason now dbnow db)) = t_queue db"
  by (simp add: terminate_owner_leases_def Let_def)

lemma t_queue_compact [simp]: "t_queue (fst (compact_settled_facts cutoff limit db)) = t_queue db"
  by (simp add: compact_settled_facts_def Let_def)

lemma t_queue_finish [simp]: "t_queue (fst (finish_runtime i run s code now dbnow db)) = t_queue db"
  by (simp add: finish_runtime_def Let_def update_exec_def split: option.split nat.split)

lemma t_queue_renew_batches: "t_queue (fst (fold (renew_batch owner ttl dbnow) bs acc)) = t_queue (fst acc)"
  by (induction bs arbitrary: acc) (simp_all add: renew_batch_def update_exec_def)

lemma t_queue_renew [simp]: "t_queue (fst (renew_leases owner ttl ids dbnow db)) = t_queue db"
  by (simp add: renew_leases_def renew_leases_excluding_def Let_def t_queue_renew_batches)

text \<open>Dispatch, settlement and session deletion only take rows out of it.\<close>

definition queue_sub :: "exec_db \<Rightarrow> exec_db \<Rightarrow> bool" where
  "queue_sub db db' \<longleftrightarrow> (\<exists>P. t_queue db' = filter P (t_queue db))"

lemma queue_sub_same: "t_queue db' = t_queue db \<Longrightarrow> queue_sub db db'"
  unfolding queue_sub_def by (rule exI [of _ "\<lambda>_. True"]) simp

lemma queue_sub_trans: "queue_sub a b \<Longrightarrow> queue_sub b c \<Longrightarrow> queue_sub a c"
  unfolding queue_sub_def by (auto simp: filter_filter)

lemma remove_queue_row_sub: "t_queue db1 = t_queue db \<Longrightarrow> queue_sub db (remove_queue_row i db1)"
  by (auto simp: queue_sub_def remove_queue_row_def sql_delete_def)

lemma settle_sub: "queue_sub db (fst (settle_queued_tx i reason now db))"
  by (simp add: settle_queued_tx_def update_exec_def queue_sub_same remove_queue_row_sub
      split: nat.split)

lemma settle_all_sub: "queue_sub db (fst (settle_all reason now is db))"
proof (induction "is" arbitrary: db)
  case (Cons i "is")
  show ?case
    using queue_sub_trans [OF settle_sub [of db i reason now] Cons]
    by (simp add: prod.case_eq_if)
qed (simp add: queue_sub_same)

lemma claim_sub: "queue_sub db (fst (claim_queued q now db))"
  by (simp add: claim_queued_def update_exec_def Let_def queue_sub_same remove_queue_row_sub
      split: option.split nat.split)

fun enqueues :: "exec_op \<Rightarrow> bool" where
  "enqueues (OpAcceptQueued enc cfg q l tnow now i pid) = True"
| "enqueues _ = False"

lemma cancel_sub: "queue_sub db (fst (cancel_queued i reason now db))"
  using settle_sub [of db i "if reason = [] then queue_reason_cancelled else reason" now]
  by (auto simp: cancel_queued_def queue_sub_same split: prod.splits bool.splits option.splits)

lemma clear_expire_sub:
  "queue_sub db (fst (clear_queue s reason now db))"
  "queue_sub db (fst (expire_queued now limit db))"
  by (simp_all add: clear_queue_def expire_queued_def queue_sub_same settle_all_sub prod.case_eq_if)

lemma session_delete_sub: "queue_sub db (session_delete s db)"
  by (auto simp: queue_sub_def session_delete_def Let_def sql_delete_def)

lemma exec_step_queue_sub: "\<not> enqueues op \<Longrightarrow> queue_sub db (exec_step op db)"
  by (cases op) (simp_all add: queue_sub_same claim_sub cancel_sub clear_expire_sub session_delete_sub)

definition queue_bounded :: "int \<Rightarrow> int \<Rightarrow> exec_db \<Rightarrow> bool" where
  "queue_bounded G S db \<longleftrightarrow> int (length (t_queue db)) \<le> G \<and> (\<forall>s. int (session_depth s db) \<le> S)"

lemma sql_count_filter_le: "sql_count Q (filter P t) \<le> sql_count Q t"
  by (induction t) (auto simp: sql_count_def)

lemma queue_bounded_sub:
  assumes "queue_sub db db'" "queue_bounded G S db"
  shows "queue_bounded G S db'"
proof -
  obtain P where P: "t_queue db' = filter P (t_queue db)"
    using assms(1) by (auto simp: queue_sub_def)
  have "int (length (t_queue db')) \<le> int (length (t_queue db))"
    by (simp add: P)
  moreover have "int (session_depth s db') \<le> int (session_depth s db)" for s
    by (simp add: session_depth_def P sql_count_filter_le)
  ultimately show ?thesis
    using assms(2) unfolding queue_bounded_def by (meson order_trans)
qed

fun within_queue_limits :: "int \<Rightarrow> int \<Rightarrow> exec_op \<Rightarrow> bool" where
  "within_queue_limits G S (OpAcceptQueued enc cfg q l tnow now i pid) \<longleftrightarrow>
     ql_global (with_defaults l) \<le> G \<and> ql_session (with_defaults l) \<le> S"
| "within_queue_limits G S _ = True"

lemma with_defaults_pos:
  "0 < ql_session (with_defaults l)" "0 < ql_global (with_defaults l)"
  "0 < ql_bytes (with_defaults l)" "0 < ql_ttl (with_defaults l)"
  by (simp_all add: with_defaults_def default_queue_limits_def)

lemma queue_bounded_same: "t_queue db' = t_queue db \<Longrightarrow> queue_bounded G S db' = queue_bounded G S db"
  by (simp add: queue_bounded_def session_depth_def)

lemma queue_insert_queue:
  "t_queue (fst (queue_insert enc cfg q l now i pid db)) = t_queue db \<or>
   (\<exists>e. q_session e = qr_session q \<and>
        t_queue (fst (queue_insert enc cfg q l now i pid db)) = t_queue db @ [e])"
  by (auto simp: queue_insert_def Let_def split: sum.split)

lemma accept_queued_bounded:
  assumes "queue_bounded G S db" "ql_global (with_defaults l) \<le> G" "ql_session (with_defaults l) \<le> S"
  shows "queue_bounded G S (fst (accept_queued enc cfg q l tnow now i pid db))"
proof -
  let ?l = "with_defaults l"
  have "queue_bounded G S (fst (queue_insert enc cfg q ?l now i pid db))"
    if "int (length (t_queue db)) < ql_global ?l" "int (session_depth (qr_session q) db) < ql_session ?l"
    using queue_insert_queue [of enc cfg q ?l now i pid db]
  proof (elim disjE exE conjE)
    assume "t_queue (fst (queue_insert enc cfg q ?l now i pid db)) = t_queue db"
    then show ?thesis using assms(1) queue_bounded_same by blast
  next
    fix e assume e: "q_session e = qr_session q"
      and t: "t_queue (fst (queue_insert enc cfg q ?l now i pid db)) = t_queue db @ [e]"
    have "session_depth s (fst (queue_insert enc cfg q ?l now i pid db)) =
        session_depth s db + (if s = qr_session q then 1 else 0)" for s
      using e by (simp add: session_depth_def sql_count_def t)
    moreover have "int (session_depth s db) \<le> S" for s
      using assms(1) by (simp add: queue_bounded_def)
    ultimately show ?thesis
      using assms(2,3) that by (simp add: queue_bounded_def t)
  qed
  then have "queue_bounded G S (fst (accept_queued_tx enc cfg q ?l tnow now i pid db))"
    using assms(1) by (simp add: accept_queued_tx_def split: option.split)
  then show ?thesis
    using assms(1) by (simp add: accept_queued_def prod.case_eq_if split: option.split queue_tx.split)
qed

lemma exec_step_bounded:
  assumes "queue_bounded G S db" "within_queue_limits G S op"
  shows "queue_bounded G S (exec_step op db)"
proof (cases "enqueues op")
  case True
  then show ?thesis using assms by (cases op) (simp_all add: accept_queued_bounded)
next
  case False
  then show ?thesis using queue_bounded_sub [OF exec_step_queue_sub assms(1)] by simp
qed

definition exec_step_bounded_by :: "int \<Rightarrow> int \<Rightarrow> exec_op \<Rightarrow> exec_db \<Rightarrow> exec_db" where
  "exec_step_bounded_by G S op db = (if within_queue_limits G S op then exec_step op db else db)"

interpretation exec_bounded: invariant_machine "exec_step_bounded_by G S" "queue_bounded G S" for G S
  by unfold_locales (simp add: exec_step_bounded_by_def exec_step_bounded)

lemma fold_exec_bounded:
  "list_all (within_queue_limits G S) ops \<Longrightarrow>
     fold (exec_step_bounded_by G S) ops db = fold exec_step ops db"
  by (induction ops arbitrary: db) (simp_all add: exec_step_bounded_by_def)

text \<open>
  The queue is bounded.  If every gateway enqueues under limits of at most \<open>G\<close> inputs for
  the instance and \<open>S\<close> per session (unset limits count as the defaults), then no run ever has
  more than \<open>G\<close> undispatched inputs, nor more than \<open>S\<close> in one session.
\<close>

theorem queue_never_over_capacity:
  assumes "list_all (within_queue_limits G S) ops" "0 \<le> G" "0 \<le> S"
  shows "int (queue_depth (fold exec_step ops (empty_db m))) \<le> G \<and>
         (\<forall>s. int (session_depth s (fold exec_step ops (empty_db m))) \<le> S)"
  using exec_bounded.run_inv [of G S "empty_db m" ops] fold_exec_bounded [OF assms(1)] assms(2,3)
  by (simp add: queue_bounded_def queue_depth_def empty_db_def session_depth_def sql_count_def)

section \<open>Leases\<close>

lemma concat_batches: "concat (batches xs) = xs"
proof (induction xs rule: batches.induct)
  case (1 xs)
  then show ?case by (cases "xs = []") (simp_all add: batches.simps [of xs] batches.simps [of "[]"])
qed

lemma active_ids_spec:
  "i \<in> set (active_execution_ids ids db) \<longleftrightarrow>
     i \<in> set ids \<and> (\<exists>r \<in> set (t_exec db). x_id r = i \<and> live_runtime (x_runtime r))"
proof -
  have "set ids = (\<Union>b \<in> set (batches ids). set b)"
    using concat_batches [of ids] by (metis set_concat)
  then show ?thesis by (auto simp: active_execution_ids_def)
qed

text \<open>
  Lease recovery.  A sweep at database time \<open>t\<close> leaves no pending or running execution
  whose lease has run out; each row it took is unknown and fenced, one whose delivery was still
  open has delivery unknown; rows with a live lease are untouched; and a tracked id is reported
  as converged exactly when it is no longer pending or running.
\<close>

theorem recover_expired_spec:
  assumes "recover_expired_leases tracked t db = (db', n, converged)"
  shows "(\<forall>r \<in> set (t_exec db'). live_runtime (x_runtime r) \<longrightarrow> t < x_lease r \<and> r \<in> set (t_exec db)) \<and>
    (\<forall>r \<in> set (t_exec db).
       if live_runtime (x_runtime r) \<and> x_lease r \<le> t
       then fence_row lease_expired_reason t t r \<in> set (t_exec db')
       else r \<in> set (t_exec db')) \<and>
    (\<forall>i. i \<in> set converged \<longleftrightarrow>
       i \<in> set tracked \<and> \<not> (\<exists>r \<in> set (t_exec db'). x_id r = i \<and> live_runtime (x_runtime r)))"
proof -
  let ?P = "\<lambda>r. live_runtime (x_runtime r) \<and> x_lease r \<le> t"
  have te: "t_exec db' = sql_update ?P (fence_row lease_expired_reason t t) (t_exec db)"
    and conv: "converged = filter (\<lambda>i. i \<notin> set (active_execution_ids tracked db')) tracked"
    using assms by (auto simp: recover_expired_leases_def update_exec_def Let_def)
  have dead: "\<not> live_runtime (x_runtime (fence_row lease_expired_reason t t r))" for r
    by (simp add: fence_row_def live_runtime_def)
  have "\<forall>r \<in> set (t_exec db'). live_runtime (x_runtime r) \<longrightarrow> t < x_lease r \<and> r \<in> set (t_exec db)"
    unfolding te by (auto simp: dead elim!: sql_update_elim split: if_splits)
  moreover have "if ?P r then fence_row lease_expired_reason t t r \<in> set (t_exec db')
      else r \<in> set (t_exec db')" if "r \<in> set (t_exec db)" for r
    unfolding te set_sql_update using that by (auto intro!: rev_image_eqI [OF that])
  ultimately show ?thesis
    using active_ids_spec [of _ tracked db'] by (auto simp: conv)
qed

lemma update_exec_empty: "(\<And>r. r \<in> set (t_exec db) \<Longrightarrow> \<not> P r) \<Longrightarrow> update_exec P f db = (db, 0)"
  by (auto simp: update_exec_def sql_update_none sql_count_0_iff)

text \<open>
  Batches over distinct ids add up to one update: a row is renewed by the batch that holds its id.
\<close>

lemma renew_batches_fold:
  assumes "distinct (concat bs)"
  shows "fold (renew_batch owner ttl dbnow) bs (db, n) =
    (fst (update_exec (\<lambda>r. renewable owner r \<and> x_id r \<in> set (concat bs)) (renew_row dbnow ttl) db),
     n + sql_count (\<lambda>r. renewable owner r \<and> x_id r \<in> set (concat bs)) (t_exec db))"
  using assms
proof (induction bs arbitrary: db n)
  case Nil
  then show ?case by (simp add: update_exec_empty sql_count_def)
next
  case (Cons b bs)
  let ?f = "renew_row dbnow ttl"
  let ?P = "\<lambda>B r. renewable owner r \<and> x_id r \<in> set B"
  have f: "renewable owner (?f r) = renewable owner r" "x_id (?f r) = x_id r" for r
    by (simp_all add: renewable_def renew_row_def)
  have two: "sql_update (?P (concat bs)) ?f (sql_update (?P b) ?f t) =
      sql_update (?P (b @ concat bs)) ?f t" for t
    using Cons.prems by (auto simp: sql_update_def f)
  have count: "sql_count (?P b) t + sql_count (?P (concat bs)) (sql_update (?P b) ?f t) =
      sql_count (?P (b @ concat bs)) t" for t
    using Cons.prems by (induction t) (auto simp: sql_update_def sql_count_def f)
  show ?case
    using Cons count [of "t_exec db"] two [of "t_exec db"]
    by (simp add: renew_batch_def update_exec_def)
qed

text \<open>
  C35. Renewal skips exactly the abandoned executions.  Renewing an owner's leases with excluded
  ids, which the code does in batches of 500 ids read beforehand, has the effect and the count
  of one update over the owner's live rows that are not excluded.
\<close>

theorem renew_leases_spec:
  assumes "owner \<noteq> []"
  shows "renew_leases owner ttl excluded dbnow (fold exec_step ops (empty_db m)) =
    (let P = (\<lambda>r. renewable owner r \<and> x_id r \<notin> set excluded);
         db = fold exec_step ops (empty_db m)
     in (fst (update_exec P (renew_row dbnow ttl) db), Inr (sql_count P (t_exec db))))"
proof -
  let ?db = "fold exec_step ops (empty_db m)"
  define ids where
    "ids = filter (\<lambda>i. i \<notin> set excluded) (map x_id (filter (renewable owner) (t_exec ?db)))"
  have "distinct (map x_id (t_exec ?db))"
    using conjunct1 [OF run_db_inv] by (simp add: exec_inv_def unique_index_def)
  then have "distinct ids"
    by (simp add: ids_def distinct_map inj_on_def)
  then have d: "distinct (concat (batches ids))" by (simp add: concat_batches)
  have P: "renewable owner r \<and> x_id r \<in> set ids \<longleftrightarrow> renewable owner r \<and> x_id r \<notin> set excluded"
    if "r \<in> set (t_exec ?db)" for r
    using that by (auto simp: ids_def)
  have "sql_update (\<lambda>r. renewable owner r \<and> x_id r \<in> set ids) (renew_row dbnow ttl) (t_exec ?db) =
      sql_update (\<lambda>r. renewable owner r \<and> x_id r \<notin> set excluded) (renew_row dbnow ttl) (t_exec ?db)"
    by (rule sql_update_cong) (simp_all add: P)
  moreover have "sql_count (\<lambda>r. renewable owner r \<and> x_id r \<in> set ids) (t_exec ?db) =
      sql_count (\<lambda>r. renewable owner r \<and> x_id r \<notin> set excluded) (t_exec ?db)"
    unfolding sql_count_def by (rule arg_cong [of _ _ length], rule filter_cong) (simp_all add: P)
  ultimately show ?thesis
    using assms renew_batches_fold [OF d, of owner ttl dbnow ?db 0]
    by (simp add: renew_leases_def renew_leases_excluding_def Let_def ids_def [symmetric]
        concat_batches update_exec_def)
qed

section \<open>Queued content\<close>

lemma queue_insert_done:
  assumes "queue_insert enc cfg q l now i pid db = (db', TxDone r e dup)"
  obtains y json where "r = queued_row cfg q now i" "t_payload db' = t_payload db @ [y]"
    "y_id y = i" "y_content y = qp_content (qr_payload q)" "y_invocation y = json"
    "encode_invocation enc (qp_invocation (qr_payload q)) = Inr json"
    "\<forall>e' \<in> set (t_queue db). q_id e' \<noteq> i"
  using assms by (auto simp: queue_insert_def Let_def split: if_splits sum.splits)

lemma queue_insert_fresh: "queue_insert enc cfg q l now i pid db = (db', TxDone r e dup) \<Longrightarrow> \<not> dup"
  by (auto simp: queue_insert_def Let_def split: if_splits sum.splits)

lemma accept_queued_tx_new:
  assumes "accept_queued_tx enc cfg q l tnow now i pid db = (db', TxDone r e False)"
  shows "queue_insert enc cfg q l now i pid db = (db', TxDone r e False)"
  using assms by (simp add: accept_queued_tx_def split: option.splits if_splits)

lemma accept_queued_new:
  assumes "accept_queued enc cfg q limits tnow now i pid db = (db', Some r, e, False, None)"
  shows "queue_insert enc cfg q (with_defaults limits) now i pid db = (db', TxDone r e False)"
proof -
  obtain db1 res where tx: "accept_queued_tx enc cfg q (with_defaults limits) tnow now i pid db = (db1, res)"
    by (cases "accept_queued_tx enc cfg q (with_defaults limits) tnow now i pid db")
  have "res = TxDone r e False \<and> db1 = db'"
    using assms
    by (cases res) (simp_all add: accept_queued_def tx queue_reread_def split: if_splits option.splits)
  with tx show ?thesis by (simp add: accept_queued_tx_new)
qed

text \<open>
  C36. Queued content survives.  An input that was newly enqueued is found again by its
  execution id with the content and the native invocation it was sent with, provided the JSON
  decoder inverts the encoder on it.
\<close>

theorem queued_payload_roundtrip:
  assumes "accept_queued enc cfg q limits tnow now i pid (fold exec_step ops (empty_db m)) =
            (db', Some r, e, False, None)"
    and "i \<noteq> []"
    and "\<And>v. qp_invocation (qr_payload q) = Some v \<Longrightarrow> dec (enc v) = Some v \<and> enc v \<noteq> []"
  shows "x_id r = i \<and> is_queued r \<and> queue_payload dec i db' = Inr (qr_payload q)"
proof -
  let ?db = "fold exec_step ops (empty_db m)"
  obtain y json where new: "r = queued_row cfg q now i" "t_payload db' = t_payload ?db @ [y]"
      "y_id y = i" "y_content y = qp_content (qr_payload q)" "y_invocation y = json"
      "encode_invocation enc (qp_invocation (qr_payload q)) = Inr json"
      "\<forall>e' \<in> set (t_queue ?db). q_id e' \<noteq> i"
    by (rule queue_insert_done [OF accept_queued_new [OF assms(1)]])
  have "map y_id (t_payload ?db) = map q_id (t_queue ?db)"
    using conjunct2 [OF run_db_inv, of ops m] by (simp add: queue_inv_def)
  moreover have "i \<notin> set (map q_id (t_queue ?db))" using new(7) by auto
  ultimately have none: "sql_row (\<lambda>y. y_id y = i) (t_payload ?db) = None"
    unfolding sql_row_None by (metis image_eqI list.set_map)
  have "sql_row (\<lambda>y. y_id y = i) (t_payload db') = Some y"
    unfolding new(2) sql_row_append none by (simp add: sql_row_def new(3))
  then show ?thesis
    using new(1,4,5,6) assms(2,3)
    by (cases "qp_invocation (qr_payload q)")
       (auto simp: queue_payload_def encode_invocation_def queued_row_def is_queued_def split: if_splits)
qed

section \<open>Concrete runs\<close>

definition open_session :: "session_id \<Rightarrow> session_view option" where
  "open_session s = (if s = ''s'' then
     Some \<lparr>sv_state = ''running'', sv_policy = ''legacy'', sv_deleted_at = None,
           sv_conversation_expires = None\<rparr> else None)"

abbreviation demo_config :: store_config where
  "demo_config \<equiv> \<lparr>sc_facts_ms = 0, sc_revision = ''''\<rparr>"

abbreviation demo_accept :: accept_request where
  "demo_accept \<equiv> \<lparr>ar_session = ''s'', ar_client = ''m1'', ar_hash = ''h'', ar_owner = ''gw'',
                   ar_run = ''run''\<rparr>"

abbreviation demo_queued :: queued_request where
  "demo_queued \<equiv> \<lparr>qr_session = ''s'', qr_client = ''m2'', qr_hash = ''h2'',
     qr_payload = \<lparr>qp_content = ''hello'', qp_invocation = None\<rparr>, qr_owner = ''gw'',
     qr_revision = 0\<rparr>"

abbreviation demo_claim :: claim_request where
  "demo_claim \<equiv> \<lparr>cq_session = ''s'', cq_owner = ''gw'', cq_run = ''run2'', cq_revision = 0,
                  cq_expected = '''', cq_ttl = 0\<rparr>"

lemmas run_simps = accept_def accept_valid_def accept_read_def accept_tx_def accept_reread_def
  accept_row_def lock_acceptable_session_def open_session_def insert_ignoring_def
  violates_unique_def get_by_client_def get_by_id_def sql_row_def client_key_def occupies_def
  live_runtime_def empty_db_def null_if_zero_def lease_ttl_def accept_queued_def
  accept_queued_tx_def queue_insert_def queued_row_def payload_size_def encode_invocation_def
  with_defaults_def default_queue_limits_def counter_value_def session_depth_def sql_count_def
  queue_entry_def claim_queued_def queue_head_def sql_first_def sql_select_def slot_taken_def
  update_exec_def sql_update_def sql_delete_def remove_queue_row_def claim_row_def Let_def

lemma demo_accepts:
  "accept demo_config demo_accept 1 1 1 ''e1'' (empty_db open_session) =
     ((empty_db open_session)\<lparr>t_exec := [accept_row demo_config demo_accept 1 1 ''e1'']\<rparr>,
      Some (accept_row demo_config demo_accept 1 1 ''e1''), False, None)"
  by (simp add: run_simps)

lemma t_empty_db [simp]:
  "t_exec (empty_db m) = []" "t_queue (empty_db m) = []" "t_payload (empty_db m) = []"
  "t_counter (empty_db m) = Map.empty" "t_sessions (empty_db m) = m"
  by (simp_all add: empty_db_def)

definition demo_entry :: queue_row where
  "demo_entry = \<lparr>q_id = ''e2'', q_session = ''s'', q_seq = 1, q_enqueued = 1,
     q_expires = 86400001, q_revision = 0, q_payload_ref = ''p2'', q_payload_bytes = 5\<rparr>"

definition demo_queue_db :: exec_db where
  "demo_queue_db = (empty_db open_session)
     \<lparr>t_exec := [queued_row demo_config demo_queued 1 ''e2''],
      t_queue := [demo_entry],
      t_payload := [\<lparr>y_payload_id = ''p2'', y_id = ''e2'', y_session = ''s'',
                     y_content = ''hello'', y_invocation = '''', y_bytes = 5,
                     y_sha256 = ''h2'', y_created = 1\<rparr>],
      t_counter := [''s'' \<mapsto> 2], t_budget := 1\<rparr>"

lemma demo_inserts:
  "queue_insert (\<lambda>_. '''') demo_config demo_queued default_queue_limits 1 ''e2'' ''p2''
     (empty_db open_session) =
   (demo_queue_db, TxDone (queued_row demo_config demo_queued 1 ''e2'') (Some demo_entry) False)"
  unfolding queue_insert_def
  by (simp add: violates_unique_def payload_size_def encode_invocation_def
      counter_value_def demo_entry_def demo_queue_db_def default_queue_limits_def)
    (simp add: Let_def)

lemma demo_enqueues:
  "accept_queued (\<lambda>_. '''') demo_config demo_queued default_queue_limits 1 1 ''e2'' ''p2''
     (empty_db open_session) =
   (demo_queue_db, Some (queued_row demo_config demo_queued 1 ''e2''), Some demo_entry, False, None)"
proof -
  have "with_defaults default_queue_limits = default_queue_limits"
    by (simp add: with_defaults_def default_queue_limits_def)
  then show ?thesis
    by (simp add: accept_queued_def accept_queued_tx_def demo_inserts payload_size_def
        get_by_client_def lock_acceptable_session_def open_session_def
        session_depth_def sql_count_def) (simp add: default_queue_limits_def)
qed

abbreviation demo_enqueue_op :: exec_op where
  "demo_enqueue_op \<equiv> OpAcceptQueued (\<lambda>_. '''') demo_config demo_queued default_queue_limits 1 1
     ''e2'' ''p2''"

abbreviation demo_accept_op :: exec_op where
  "demo_accept_op \<equiv> OpAccept demo_config demo_accept 1 1 1 ''e1''"

definition demo_accept_db :: exec_db where
  "demo_accept_db = (empty_db open_session)
     \<lparr>t_exec := [accept_row demo_config demo_accept 1 1 ''e1'']\<rparr>"

lemma demo_runs:
  "fold exec_step [demo_enqueue_op] (empty_db open_session) = demo_queue_db"
  "fold exec_step [demo_accept_op] (empty_db open_session) = demo_accept_db"
  by (simp_all add: demo_enqueues demo_accepts demo_accept_db_def)

text \<open>The single row of the run: accepted, recovered as unknown and fenced, then resolved.\<close>

abbreviation demo_fence_ops :: "exec_op list" where
  "demo_fence_ops \<equiv> [demo_accept_op, OpRecover [] 100000]"

definition demo_fenced_row :: exec_row where
  "demo_fenced_row = fence_row lease_expired_reason 100000 100000
     (accept_row demo_config demo_accept 1 1 ''e1'')"

definition demo_fence_db :: exec_db where
  "demo_fence_db = (empty_db open_session)\<lparr>t_exec := [demo_fenced_row]\<rparr>"

lemma demo_fence_run: "fold exec_step demo_fence_ops (empty_db open_session) = demo_fence_db"
  by (simp add: demo_accepts recover_expired_leases_def update_exec_def sql_update_def
      demo_fence_db_def demo_fenced_row_def)
     (simp add: accept_row_def live_runtime_def lease_ttl_def)

theorem exec_facts_never_regress_witness:
  "\<exists>r' \<in> set (t_exec (fold exec_step ([demo_accept_op] @ [OpRecover [] 100000])
       (empty_db open_session))). row_le (accept_row demo_config demo_accept 1 1 ''e1'') r'"
  by (rule exec_facts_never_regress)
     (unfold demo_runs, simp_all add: demo_accept_db_def)

theorem dispatched_at_most_once_witness:
  "dispatch_count ''s'' ''e2'' [OpClaim demo_claim 5, OpSessionDelete ''t'', OpClaim demo_claim 6]
     (fold exec_step [demo_enqueue_op] (empty_db open_session)) \<le> 1"
  by (rule dispatched_at_most_once) simp

theorem accept_idempotent_witness:
  "\<exists>r'. x_id r' = ''e1'' \<and>
     accept demo_config demo_accept 9 9 9 ''e9'' demo_fence_db = (demo_fence_db, Some r', True, None)"
proof -
  have acc: "accept demo_config demo_accept 1 1 1 ''e1'' (fold exec_step [] (empty_db open_session)) =
      (demo_accept_db, Some (accept_row demo_config demo_accept 1 1 ''e1''), False, None)"
    by (simp add: demo_accepts demo_accept_db_def)
  have run: "demo_fence_db = fold exec_step [OpRecover [] 100000] demo_accept_db"
    using demo_fence_run by (simp add: demo_accepts demo_accept_db_def)
  have i: "x_id (accept_row demo_config demo_accept 1 1 ''e1'') = ''e1''"
    by (simp add: accept_row_def)
  from accept_idempotent [OF acc _ run, of demo_accept demo_config 9 9 9 "''e9''", unfolded i]
  show ?thesis by (simp add: accept_valid_def)
qed

theorem accept_fresh_input_witness:
  "accept demo_config demo_accept 1 1 1 ''e1'' (empty_db open_session) =
     (demo_accept_db, Some (accept_row demo_config demo_accept 1 1 ''e1''), False, None)"
  by (subst accept_fresh_input)
     (simp_all add: accept_valid_def get_by_client_def get_by_id_def lock_acceptable_session_def
       open_session_def demo_accept_db_def)

lemma demo_resolve:
  "apply_fence_decision ''e1'' 1 DecisionResolve 200000 demo_fence_db =
     ((empty_db open_session)\<lparr>t_exec := [demo_fenced_row\<lparr>x_fence := '''', x_updated := 200000\<rparr>]\<rparr>,
      Inr (demo_fenced_row\<lparr>x_fence := '''', x_updated := 200000\<rparr>))"
  by (simp add: apply_fence_decision_def update_exec_def sql_update_def sql_count_def
      demo_fence_db_def get_by_id_def sql_row_def demo_fenced_row_def fence_row_def
      fence_entry_bump_def accept_row_def lease_expired_reason_def)

theorem fence_decision_once_witness:
  "fst (apply_fence_decision ''e1'' 1 DecisionAbandon 300000
     (fst (apply_fence_decision ''e1'' 1 DecisionResolve 200000 demo_fence_db))) =
   fst (apply_fence_decision ''e1'' 1 DecisionResolve 200000 demo_fence_db)"
  using fence_decision_once [OF demo_resolve [folded demo_fence_run], of "[]" _ DecisionAbandon 300000]
  by (simp add: demo_resolve)

lemma demo_claims:
  "\<exists>db'. claim_queued demo_claim 5 demo_queue_db =
     (db', Inr (claim_row demo_claim 5 (queued_row demo_config demo_queued 1 ''e2''), demo_entry))"
  by (simp add: claim_queued_def demo_queue_db_def queue_head_def sql_first_def sql_select_def
      demo_entry_def slot_taken_def update_exec_def sql_update_def sql_count_def remove_queue_row_def
      get_by_id_def sql_row_def)
     (simp add: queued_row_def claim_row_def)

theorem claim_takes_the_head_witness:
  "x_lease (claim_row demo_claim 5 (queued_row demo_config demo_queued 1 ''e2'')) = 60005"
proof -
  obtain db' where "claim_queued demo_claim 5 demo_queue_db =
     (db', Inr (claim_row demo_claim 5 (queued_row demo_config demo_queued 1 ''e2''), demo_entry))"
    using demo_claims by blast
  from claim_takes_the_head [OF this [folded demo_runs(1)]] show ?thesis
    by (simp add: lease_ttl_def)
qed

theorem queue_never_over_capacity_witness:
  "int (queue_depth (fold exec_step [demo_enqueue_op] (empty_db open_session))) \<le> 1000"
  using queue_never_over_capacity [of 1000 20 "[demo_enqueue_op]" open_session]
  by (simp add: with_defaults_def default_queue_limits_def del: fold.simps)

theorem recover_expired_spec_witness:
  "''e1'' \<in> set (snd (snd (recover_expired_leases [''e1''] 100000 demo_accept_db)))"
proof -
  obtain db' n c where r: "recover_expired_leases [''e1''] 100000 demo_accept_db = (db', n, c)"
    by (metis prod_cases3)
  have "x_lease s = 60001" if "s \<in> set (t_exec demo_accept_db)" for s
    using that by (simp add: demo_accept_db_def accept_row_def lease_ttl_def)
  with recover_expired_spec [OF r] have "''e1'' \<in> set c" by fastforce
  with r show ?thesis by simp
qed

theorem renew_leases_spec_witness:
  "snd (renew_leases ''gw'' 60 [''e1''] 7 (fold exec_step [demo_accept_op] (empty_db open_session)))
     = Inr 0"
  by (subst renew_leases_spec)
     (simp, unfold demo_runs, simp add: Let_def demo_accept_db_def sql_count_def accept_row_def)

text \<open>A concrete codec: one line per field.\<close>

definition lines_enc :: encoder where
  "lines_enc v = qi_name v @ CHR 0x0A # qi_args v @ CHR 0x0A # qi_path v @ CHR 0x0A # qi_mode v"

definition first_line :: "string \<Rightarrow> string \<times> string" where
  "first_line s = (takeWhile (\<lambda>c. c \<noteq> CHR 0x0A) s, tl (dropWhile (\<lambda>c. c \<noteq> CHR 0x0A) s))"

definition lines_dec :: decoder where
  "lines_dec s = (case first_line s of (n, s1) \<Rightarrow> case first_line s1 of (a, s2) \<Rightarrow> case first_line s2 of (p, m) \<Rightarrow>
     Some \<lparr>qi_name = n, qi_args = a, qi_path = p, qi_mode = m\<rparr>)"

definition demo_skill :: queued_invocation where
  "demo_skill = \<lparr>qi_name = ''deploy'', qi_args = ''prod'', qi_path = ''/skills/deploy'', qi_mode = ''prompt''\<rparr>"

definition demo_skill_request :: queued_request where
  "demo_skill_request = \<lparr>qr_session = ''s'', qr_client = ''m3'', qr_hash = ''h3'',
     qr_payload = \<lparr>qp_content = ''/deploy prod'', qp_invocation = Some demo_skill\<rparr>, qr_owner = ''gw'', qr_revision = 0\<rparr>"

definition demo_limits :: queue_limits where
  "demo_limits = \<lparr>ql_session = 20, ql_global = 1000, ql_bytes = 65536, ql_ttl = 3000000\<rparr>"

definition demo_skill_answer :: "exec_db \<times> queue_answer" where
  "demo_skill_answer = accept_queued lines_enc demo_config demo_skill_request demo_limits 1 1 ''e3'' ''p3''
     (fold exec_step [demo_accept_op] (empty_db open_session))"

theorem queued_payload_roundtrip_witness:
  "queue_payload lines_dec ''e3'' (fst demo_skill_answer) =
     Inr \<lparr>qp_content = ''/deploy prod'', qp_invocation = Some demo_skill\<rparr>"
proof -
  have f: "map_option x_id (fst (snd demo_skill_answer)) = Some ''e3''" by code_simp
  have g: "fst (snd (snd (snd demo_skill_answer))) = False" by code_simp
  have h: "snd (snd (snd (snd demo_skill_answer))) = None" by code_simp
  obtain r where "fst (snd demo_skill_answer) = Some r" using f by (cases "fst (snd demo_skill_answer)") simp_all
  then have t: "demo_skill_answer = (fst demo_skill_answer, Some r, fst (snd (snd demo_skill_answer)), False, None)"
    using g h by (simp add: prod_eq_iff)
  have d: "lines_dec (lines_enc demo_skill) = Some demo_skill" by code_simp
  have e: "lines_enc demo_skill \<noteq> []" by code_simp
  show ?thesis
    using queued_payload_roundtrip [OF t [unfolded demo_skill_answer_def], of lines_dec, folded demo_skill_answer_def] d e
    by (simp add: demo_skill_request_def)
qed

text \<open>
  The store does not refuse a delivery outcome for an input that is still queued, so settling it
  afterwards rewrites a terminal delivery.
\<close>

lemma queued_delivery_regresses:
  "map x_status (t_exec (fold exec_step [OpSetDelivery ''e2'' ''gw'' StDelivered '''' 2] demo_queue_db))
     = [StDelivered] \<and>
   map x_status (t_exec (fold exec_step
     [OpSetDelivery ''e2'' ''gw'' StDelivered '''' 2, OpCancel ''e2'' '''' 3] demo_queue_db))
     = [StFailed]"
  by (simp add: demo_queue_db_def set_delivery_def terminal_delivery_def update_exec_def
      sql_update_def sql_count_def queued_row_def stamp_delivery_def cancel_queued_def
      settle_queued_tx_def remove_queue_row_def settle_queued_row_def get_by_id_def sql_row_def)

section \<open>Console pages\<close>

lemma sorted_list_order:
  assumes "distinct (map x_id t)"
  shows "sorted_wrt (\<lambda>r s. list_order r < list_order s) (sort_key list_order t)"
proof -
  have "distinct (map list_order (sort_key list_order t))"
    using assms by (auto simp: distinct_map inj_on_def list_order_def)
  then have "sorted_wrt (<) (map list_order (sort_key list_order t))"
    by (simp add: strict_sorted_iff)
  then show ?thesis by (simp add: sorted_wrt_map)
qed

lemma filter_below_sorted:
  assumes "sorted_wrt (\<lambda>r s. k s < (k r :: 'k :: linorder)) xs" "n < length xs"
  shows "filter (\<lambda>r. k r < k (xs ! n)) xs = drop (Suc n) xs"
  using assms
proof (induction xs arbitrary: n)
  case (Cons x xs)
  show ?case
  proof (cases n)
    case 0
    then show ?thesis using Cons.prems(1) by simp
  next
    case (Suc j)
    then have "k (xs ! j) < k x" using Cons.prems by auto
    then have "\<not> k x < k (xs ! j)" by (rule less_not_sym)
    then show ?thesis using Cons Suc by simp
  qed
qed simp

text \<open>All rows a filter selects, newest first.\<close>

definition console_rows :: "list_filter \<Rightarrow> exec_db \<Rightarrow> exec_row list" where
  "console_rows f db = rev (sort_key list_order (filter (matches_filter f) (t_exec db)))"

definition next_page :: "list_filter \<Rightarrow> exec_row \<Rightarrow> list_filter" where
  "next_page f r = f\<lparr>lf_before_created := x_created r, lf_before_id := x_id r\<rparr>"

text \<open>
  Pages neither skip nor repeat.  A listing with no cursor is the start of all selected
  rows, newest first; a listing whose cursor is any row of that order (created after the epoch)
  is the stretch of at most a page that follows that row.
\<close>

theorem list_recent_pages:
  assumes "lf_before_created f = 0"
    and "j < length (console_rows f (fold exec_step ops (empty_db m)))"
    and "0 < x_created (console_rows f (fold exec_step ops (empty_db m)) ! j)"
  shows "list_recent f (fold exec_step ops (empty_db m)) =
           take (list_limit (lf_limit f)) (console_rows f (fold exec_step ops (empty_db m))) \<and>
         list_recent (next_page f (console_rows f (fold exec_step ops (empty_db m)) ! j))
             (fold exec_step ops (empty_db m)) =
           take (list_limit (lf_limit f))
             (drop (Suc j) (console_rows f (fold exec_step ops (empty_db m))))"
proof -
  let ?db = "fold exec_step ops (empty_db m)"
  let ?all = "console_rows f ?db"
  define c where "c = ?all ! j"
  have "distinct (map x_id (filter (matches_filter f) (t_exec ?db)))"
    using conjunct1 [OF run_db_inv] by (simp add: exec_inv_def unique_index_def distinct_map_filter)
  from sorted_list_order [OF this]
  have desc: "sorted_wrt (\<lambda>r s. list_order s < list_order r) ?all"
    by (simp add: console_rows_def sorted_wrt_rev)
  have below: "matches_filter (next_page f c) r \<and> before_cursor (next_page f c) r \<longleftrightarrow>
      list_order r < list_order c \<and> matches_filter f r" for r
    using assms(3) unfolding c_def [symmetric]
    by (auto simp: next_page_def matches_filter_def before_cursor_def list_order_def less_prod_def)
  have "rev (sql_select (\<lambda>r. matches_filter (next_page f c) r \<and> before_cursor (next_page f c) r)
      list_order (t_exec ?db)) = filter (\<lambda>r. list_order r < list_order c) ?all"
    unfolding below sql_select_def console_rows_def
    by (simp add: filter_sort rev_filter [symmetric] filter_filter conj_commute)
  also have "\<dots> = drop (Suc j) ?all"
    unfolding c_def by (rule filter_below_sorted [OF desc assms(2)])
  finally have page: "rev (sql_select (\<lambda>r. matches_filter (next_page f c) r \<and>
      before_cursor (next_page f c) r) list_order (t_exec ?db)) = drop (Suc j) ?all" .
  have first: "list_recent f ?db = take (list_limit (lf_limit f)) ?all"
    using assms(1) by (simp add: list_recent_def console_rows_def before_cursor_def sql_select_def)
  have "lf_limit (next_page f c) = lf_limit f" by (simp add: next_page_def)
  with first page show ?thesis unfolding c_def [symmetric] by (simp add: list_recent_def)
qed

theorem list_recent_pages_witness:
  "list_recent (next_page \<lparr>lf_session = '''', lf_delivery = None, lf_runtime = None, lf_since = 0,
       lf_until = 0, lf_before_created = 0, lf_before_id = '''', lf_limit = 1\<rparr>
       (accept_row demo_config demo_accept 1 1 ''e1''))
     (fold exec_step [demo_accept_op] (empty_db open_session)) = []"
proof -
  let ?f = "\<lparr>lf_session = '''', lf_delivery = None, lf_runtime = None, lf_since = 0,
       lf_until = 0, lf_before_created = 0, lf_before_id = '''', lf_limit = 1\<rparr>"
  have all: "console_rows ?f (fold exec_step [demo_accept_op] (empty_db open_session)) =
      [accept_row demo_config demo_accept 1 1 ''e1'']"
    unfolding demo_runs by (simp add: console_rows_def demo_accept_db_def matches_filter_def)
  have "0 < x_created (accept_row demo_config demo_accept 1 1 ''e1'')"
    by (simp add: accept_row_def)
  with list_recent_pages [of ?f 0 "[demo_accept_op]" open_session, unfolded all]
  show ?thesis by simp
qed

end
