(* ===== verification/Effects.thy ===== *)
theory Effects
  imports Tables "HOL-Library.List_Lexorder" "HOL-Library.Char_ord" "HOL-Library.Product_Lexorder"
begin

text \<open>
  The external-delivery ledger, \<open>internal/effect\<close>: one effect per planned delivery, one attempt
  row per send, one content snapshot per execution.  The SQLite and PostgreSQL stores run the
  same statements, each operation in one transaction.  The SHA-256 fingerprint is the argument
  \<open>sha\<close>; ids and lease tokens drawn from a random source are arguments.
\<close>

section \<open>Rows\<close>

datatype effect_status =
    EfPlanned | EfStarted | EfDelivered | EfFailed | EfUnknown
  | EfReconciledSucceeded | EfReconciledFailed | EfFenced

datatype attempt_outcome =
    AtAccepted | AtRejected | AtUnknown | AtNotSent | AtOther string

text \<open>The empty class, the three the schema admits, and any other string.\<close>

datatype rejection_class = RcNone | RcSafeRetry | RcPermanent | RcUnspecified | RcOther string

type_synonym effect_id = string

record delivery_payload =
  d_id :: string
  d_occurrence :: string
  d_execution :: string
  d_run :: string
  d_content :: string
  d_bytes :: int
  d_sha :: string
  d_created :: millis

record effect_row =
  e_id :: effect_id
  e_occurrence :: string
  e_ordinal :: int
  e_target_revision :: string
  e_attempt :: int
  e_session :: string
  e_execution :: string
  e_run :: string
  e_payload :: string
  e_sha :: string
  e_target_kind :: string
  e_target_ref :: string
  e_status :: effect_status
  e_error :: string
  e_reason :: string
  e_owner :: string
  e_lease :: "millis option"
  e_version :: int
  e_next :: "millis option"
  e_provider :: string
  e_evidence :: string
  e_created :: millis
  e_updated :: millis
  e_settled :: "millis option"
  e_payload_retention :: "int option"
  e_facts_retention :: "int option"
  e_retention_revision :: string

text \<open>An empty outcome column (an attempt in flight) is \<open>None\<close>.\<close>

record attempt_row =
  a_id :: string
  a_effect :: effect_id
  a_attempt :: int
  a_owner :: string
  a_version :: int
  a_token :: string
  a_started :: millis
  a_finished :: "millis option"
  a_outcome :: "attempt_outcome option"
  a_class :: rejection_class
  a_provider :: string
  a_evidence :: string
  a_error :: string
  a_reason :: string

record effect_db =
  t_effects :: "effect_row list"
  t_attempts :: "attempt_row list"
  t_deliveries :: "delivery_payload list"

definition in_flight :: "attempt_row \<Rightarrow> bool" where
  "in_flight a \<longleftrightarrow> a_finished a = None"

datatype effect_error =
    EErrMissingIdentity
  | EErrMissingTarget
  | EErrEmptyContent
  | EErrPayloadTooLarge
  | EErrPayloadMismatch
  | EErrPayloadNotFound
  | EErrEffectNotFound
  | EErrLeaseLost
  | EErrNotClaimable
  | EErrConstraint

definition business_key :: "effect_row \<Rightarrow> string \<times> int \<times> string" where
  "business_key e = (e_occurrence e, e_ordinal e, e_target_revision e)"

definition effect_by_key :: "string \<times> int \<times> string \<Rightarrow> effect_db \<Rightarrow> effect_row option" where
  "effect_by_key k db = sql_row (\<lambda>e. business_key e = k) (t_effects db)"

definition effect_by_id :: "effect_id \<Rightarrow> effect_db \<Rightarrow> effect_row option" where
  "effect_by_id i db = sql_row (\<lambda>e. e_id e = i) (t_effects db)"

text \<open>\<open>scanPayload\<close>: a blanked body reads as absent.\<close>

definition scan_payload :: "delivery_payload option \<Rightarrow> effect_error + delivery_payload" where
  "scan_payload p =
     (case p of
        None \<Rightarrow> Inl EErrPayloadNotFound
      | Some d \<Rightarrow> if d_bytes d = 0 then Inl EErrPayloadNotFound else Inr d)"

definition get_payload :: "string \<Rightarrow> effect_db \<Rightarrow> effect_error + delivery_payload" where
  "get_payload i db = scan_payload (sql_row (\<lambda>d. d_id d = i) (t_deliveries db))"

definition payload_for_execution :: "string \<Rightarrow> string \<Rightarrow> effect_db \<Rightarrow> delivery_payload option" where
  "payload_for_execution occ ex db =
     sql_row (\<lambda>d. (d_occurrence d, d_execution d) = (occ, ex)) (t_deliveries db)"

definition get_payload_for_execution ::
    "string \<Rightarrow> string \<Rightarrow> effect_db \<Rightarrow> effect_error + delivery_payload" where
  "get_payload_for_execution occ ex db = scan_payload (payload_for_execution occ ex db)"

section \<open>Planning\<close>

definition max_payload_bytes :: int where
  "max_payload_bytes = 64 * 1024"

record delivery_plan =
  dp_occurrence :: string
  dp_ordinal :: int
  dp_target_revision :: string
  dp_session :: string
  dp_execution :: string
  dp_run :: string
  dp_content :: string
  dp_target_kind :: string
  dp_target_ref :: string

definition plan_key :: "delivery_plan \<Rightarrow> string \<times> int \<times> string" where
  "plan_key p = (dp_occurrence p, dp_ordinal p, dp_target_revision p)"

definition validate_plan :: "delivery_plan \<Rightarrow> effect_error option" where
  "validate_plan p =
     (if dp_occurrence p = [] then Some EErrMissingIdentity
      else if dp_target_revision p = [] then Some EErrMissingIdentity
      else if dp_target_kind p = [] then Some EErrMissingTarget
      else if dp_content p = [] then Some EErrEmptyContent
      else if int (length (dp_content p)) > max_payload_bytes then Some EErrPayloadTooLarge
      else None)"

record planner_config =
  pl_payload_ms :: int
  pl_facts_ms :: int
  pl_revision :: string

definition planner_retention :: "duration \<Rightarrow> duration \<Rightarrow> string \<Rightarrow> planner_config" where
  "planner_retention payload facts revision =
     \<lparr>pl_payload_ms = max 0 (payload div millisecond), pl_facts_ms = max 0 (facts div millisecond),
      pl_revision = revision\<rparr>"

definition retention_column :: "int \<Rightarrow> int option" where
  "retention_column ms = (if ms = 0 then None else Some ms)"

definition planned_payload ::
    "(string \<Rightarrow> string) \<Rightarrow> delivery_plan \<Rightarrow> millis \<Rightarrow> string \<Rightarrow> delivery_payload" where
  "planned_payload sha p at pid =
     \<lparr>d_id = pid, d_occurrence = dp_occurrence p, d_execution = dp_execution p,
      d_run = dp_run p, d_content = dp_content p, d_bytes = int (length (dp_content p)),
      d_sha = sha (dp_content p), d_created = at\<rparr>"

definition planned_effect ::
    "(string \<Rightarrow> string) \<Rightarrow> planner_config \<Rightarrow> delivery_plan \<Rightarrow> millis \<Rightarrow> effect_id \<Rightarrow> string \<Rightarrow> effect_row" where
  "planned_effect sha cfg p at eid pid =
     \<lparr>e_id = eid, e_occurrence = dp_occurrence p, e_ordinal = dp_ordinal p,
      e_target_revision = dp_target_revision p, e_attempt = 0, e_session = dp_session p,
      e_execution = dp_execution p, e_run = dp_run p, e_payload = pid,
      e_sha = sha (dp_content p), e_target_kind = dp_target_kind p,
      e_target_ref = dp_target_ref p, e_status = EfPlanned, e_error = [], e_reason = [],
      e_owner = [], e_lease = None, e_version = 0, e_next = None, e_provider = [],
      e_evidence = [], e_created = at, e_updated = at, e_settled = None,
      e_payload_retention = retention_column (pl_payload_ms cfg),
      e_facts_retention = retention_column (pl_facts_ms cfg),
      e_retention_revision = pl_revision cfg\<rparr>"

text \<open>
  The payload step of \<open>PlanWithPayload\<close>: insert the snapshot, or find the one already committed
  for the execution and check that it is the same content.  The result names the payload row the
  effect refers to.
\<close>

definition settle_payload ::
    "(string \<Rightarrow> string) \<Rightarrow> delivery_plan \<Rightarrow> millis \<Rightarrow> string \<Rightarrow> effect_db \<Rightarrow>
       effect_error + effect_db \<times> string" where
  "settle_payload sha p at pid db =
     (case payload_for_execution (dp_occurrence p) (dp_execution p) db of
        None \<Rightarrow>
          if \<exists>d \<in> set (t_deliveries db). d_id d = pid then Inl EErrConstraint
          else Inr (db\<lparr>t_deliveries := t_deliveries db @ [planned_payload sha p at pid]\<rparr>, pid)
      | Some d \<Rightarrow>
          if d_bytes d = 0 then Inl EErrPayloadNotFound
          else if d_sha d \<noteq> sha (dp_content p) then Inl EErrPayloadMismatch
          else Inr (db, d_id d))"

text \<open>\<open>PlanWithPayload\<close> inside its transaction; an error rolls everything back.\<close>

definition plan_with_payload ::
    "(string \<Rightarrow> string) \<Rightarrow> planner_config \<Rightarrow> delivery_plan \<Rightarrow> instant \<Rightarrow> effect_id \<Rightarrow> string \<Rightarrow> effect_db \<Rightarrow>
       effect_error + effect_db \<times> effect_row \<times> bool" where
  "plan_with_payload sha cfg p now eid pid db =
     (case validate_plan p of
        Some err \<Rightarrow> Inl err
      | None \<Rightarrow>
          (case settle_payload sha p (unix_milli now) pid db of
             Inl err \<Rightarrow> Inl err
           | Inr (db1, ref) \<Rightarrow>
               let e = planned_effect sha cfg p (unix_milli now) eid ref
               in if \<exists>e' \<in> set (t_effects db). business_key e' = business_key e
                  then Inr (db1, e, False)
                  else if \<exists>e' \<in> set (t_effects db). e_id e' = eid then Inl EErrConstraint
                  else Inr (db1\<lparr>t_effects := t_effects db1 @ [e]\<rparr>, e, True)))"

definition plan_once ::
    "(string \<Rightarrow> string) \<Rightarrow> planner_config \<Rightarrow> delivery_plan \<Rightarrow> instant \<Rightarrow> effect_id \<Rightarrow> string \<Rightarrow> effect_db \<Rightarrow>
       effect_db \<times> (effect_error + effect_row \<times> bool)" where
  "plan_once sha cfg p now eid pid db =
     (case plan_with_payload sha cfg p now eid pid db of
        Inl err \<Rightarrow> (db, Inl err)
      | Inr (db', e, True) \<Rightarrow> (db', Inr (e, True))
      | Inr (db', e, False) \<Rightarrow>
          (case effect_by_key (plan_key p) db' of
             None \<Rightarrow> (db', Inl EErrEffectNotFound)
           | Some e' \<Rightarrow> (db', Inr (e', False))))"

section \<open>Sending\<close>

text \<open>\<open>effectStatusFor\<close>\<close>

definition effect_status_for :: "attempt_outcome \<Rightarrow> rejection_class \<Rightarrow> effect_error + effect_status" where
  "effect_status_for out c =
     (case out of
        AtAccepted \<Rightarrow> Inr EfDelivered
      | AtUnknown \<Rightarrow> Inr EfUnknown
      | AtNotSent \<Rightarrow> Inr EfPlanned
      | AtRejected \<Rightarrow>
          (case c of
             RcSafeRetry \<Rightarrow> Inr EfStarted
           | RcPermanent \<Rightarrow> Inr EfFailed
           | RcUnspecified \<Rightarrow> Inr EfFailed
           | RcNone \<Rightarrow> Inr EfFailed
           | RcOther s \<Rightarrow> Inl EErrNotClaimable)
      | AtOther s \<Rightarrow> Inl EErrNotClaimable)"

definition validate_claim :: "effect_id \<Rightarrow> string \<Rightarrow> instant \<Rightarrow> instant \<Rightarrow> bool" where
  "validate_claim i owner lease_until now \<longleftrightarrow>
     i \<noteq> [] \<and> owner \<noteq> [] \<and> lease_until \<noteq> zero_time \<and> now < lease_until"

text \<open>\<open>insertAttemptSQL\<close>: the other columns take their defaults.\<close>

definition opened_attempt ::
    "string \<Rightarrow> effect_id \<Rightarrow> int \<Rightarrow> string \<Rightarrow> int \<Rightarrow> string \<Rightarrow> millis \<Rightarrow> attempt_row" where
  "opened_attempt aid i n owner version token at =
     \<lparr>a_id = aid, a_effect = i, a_attempt = n, a_owner = owner, a_version = version,
      a_token = token, a_started = at, a_finished = None, a_outcome = None,
      a_class = RcNone, a_provider = [], a_evidence = [], a_error = [], a_reason = []\<rparr>"

text \<open>
  \<open>openAttempt\<close>; \<open>UNIQUE(effect_id, attempt)\<close> and the primary key refuse a second row.
\<close>

definition open_attempt ::
    "string \<Rightarrow> effect_id \<Rightarrow> int \<Rightarrow> string \<Rightarrow> int \<Rightarrow> string \<Rightarrow> millis \<Rightarrow> effect_db \<Rightarrow> effect_db option" where
  "open_attempt aid i n owner version token at db =
     (if \<exists>a \<in> set (t_attempts db). a_id a = aid \<or> (a_effect a = i \<and> a_attempt a = n) then None
      else Some (db\<lparr>t_attempts := t_attempts db @ [opened_attempt aid i n owner version token at]\<rparr>))"

record effect_claim =
  ec_effect :: effect_row
  ec_attempt :: int
  ec_version :: int
  ec_token :: string

definition update_effect ::
    "(effect_row \<Rightarrow> bool) \<Rightarrow> (effect_row \<Rightarrow> effect_row) \<Rightarrow> effect_db \<Rightarrow> effect_db \<times> nat" where
  "update_effect P f db =
     (db\<lparr>t_effects := sql_update P f (t_effects db)\<rparr>, sql_count P (t_effects db))"

definition update_attempt ::
    "(attempt_row \<Rightarrow> bool) \<Rightarrow> (attempt_row \<Rightarrow> attempt_row) \<Rightarrow> effect_db \<Rightarrow> effect_db \<times> nat" where
  "update_attempt P f db =
     (db\<lparr>t_attempts := sql_update P f (t_attempts db)\<rparr>, sql_count P (t_attempts db))"

text \<open>The tail of both claims: read the effect back and open the attempt row.\<close>

definition open_claim ::
    "string \<Rightarrow> string \<Rightarrow> effect_id \<Rightarrow> int \<Rightarrow> string \<Rightarrow> millis \<Rightarrow> effect_db \<Rightarrow> effect_db \<Rightarrow>
       effect_db \<times> (effect_error + effect_claim)" where
  "open_claim aid token i n owner at db db1 =
     (case effect_by_id i db1 of
        None \<Rightarrow> (db, Inl EErrEffectNotFound)
      | Some e \<Rightarrow>
          (case open_attempt aid i n owner (e_version e) token at db1 of
             None \<Rightarrow> (db, Inl EErrConstraint)
           | Some db2 \<Rightarrow>
               (db2, Inr \<lparr>ec_effect = e, ec_attempt = n, ec_version = e_version e, ec_token = token\<rparr>)))"

definition claim_send ::
    "effect_id \<Rightarrow> string \<Rightarrow> instant \<Rightarrow> int \<Rightarrow> instant \<Rightarrow> string \<Rightarrow> string \<Rightarrow> effect_db \<Rightarrow>
       effect_db \<times> (effect_error + effect_claim)" where
  "claim_send i owner lease_until expected now aid token db =
     (if \<not> validate_claim i owner lease_until now then (db, Inl EErrNotClaimable)
      else
        (case update_effect
                (\<lambda>e. e_id e = i \<and> e_status e = EfPlanned \<and> e_attempt e = expected)
                (\<lambda>e. e\<lparr>e_status := EfStarted, e_owner := owner,
                        e_lease := Some (unix_milli lease_until), e_settled := None,
                        e_version := e_version e + 1, e_updated := unix_milli now\<rparr>) db of
           (db1, n) \<Rightarrow>
             if n = 0 then (db, Inl EErrLeaseLost)
             else open_claim aid token i expected owner (unix_milli now) db db1))"

definition claim_retry ::
    "effect_id \<Rightarrow> string \<Rightarrow> instant \<Rightarrow> int \<Rightarrow> int \<Rightarrow> instant \<Rightarrow> string \<Rightarrow> string \<Rightarrow> effect_db \<Rightarrow>
       effect_db \<times> (effect_error + effect_claim)" where
  "claim_retry i owner lease_until expected max_attempts now aid token db =
     (if \<not> validate_claim i owner lease_until now then (db, Inl EErrNotClaimable)
      else if max_attempts \<le> 0 then (db, Inl EErrNotClaimable)
      else
        (case update_effect
                (\<lambda>e. e_id e = i \<and> e_status e = EfStarted \<and> e_attempt e = expected \<and>
                     (\<exists>t \<in> set_option (e_next e). t \<le> unix_milli now) \<and>
                     e_attempt e + 1 < max_attempts)
                (\<lambda>e. e\<lparr>e_attempt := e_attempt e + 1, e_owner := owner,
                        e_lease := Some (unix_milli lease_until), e_version := e_version e + 1,
                        e_next := None, e_settled := None, e_updated := unix_milli now\<rparr>) db of
           (db1, n) \<Rightarrow>
             if n = 0 then (db, Inl EErrLeaseLost)
             else open_claim aid token i (expected + 1) owner (unix_milli now) db db1))"

record effect_completion =
  co_effect :: effect_id
  co_attempt :: int
  co_token :: string
  co_version :: int
  co_outcome :: attempt_outcome
  co_class :: rejection_class
  co_error :: string
  co_reason :: string
  co_provider :: string
  co_evidence :: string
  co_retry_after :: duration
  co_now :: instant

definition finish_attempt :: "effect_completion \<Rightarrow> attempt_row \<Rightarrow> attempt_row" where
  "finish_attempt c a = a\<lparr>a_finished := Some (unix_milli (co_now c)), a_outcome := Some (co_outcome c),
     a_class := co_class c, a_provider := co_provider c, a_evidence := co_evidence c,
     a_error := co_error c, a_reason := co_reason c, a_version := co_version c\<rparr>"

definition settled_status :: "effect_status \<Rightarrow> bool" where
  "settled_status s \<longleftrightarrow> s \<in> {EfDelivered, EfFailed, EfReconciledSucceeded, EfReconciledFailed, EfFenced}"

definition apply_completion :: "effect_completion \<Rightarrow> effect_status \<Rightarrow> effect_row \<Rightarrow> effect_row" where
  "apply_completion c s e = e\<lparr>e_status := s, e_error := co_error c, e_reason := co_reason c,
     e_provider := co_provider c, e_evidence := co_evidence c, e_owner := [], e_lease := None,
     e_settled := (if settled_status s then Some (unix_milli (co_now c)) else None),
     e_next := (if s = EfStarted then Some (unix_milli (co_now c + co_retry_after c)) else None),
     e_updated := unix_milli (co_now c)\<rparr>"

primrec foreign_class :: "rejection_class \<Rightarrow> bool" where
  "foreign_class RcNone = False"
| "foreign_class RcSafeRetry = False"
| "foreign_class RcPermanent = False"
| "foreign_class RcUnspecified = False"
| "foreign_class (RcOther x) = True"

text \<open>
  \<open>completeSend\<close>; the check constraint of \<open>rejection_class\<close> refuses a class outside the schema
  for the outcomes whose status does not depend on it.
\<close>

definition complete_send :: "effect_completion \<Rightarrow> effect_db \<Rightarrow> effect_db \<times> effect_error option" where
  "complete_send c db =
     (if co_effect c = [] \<or> co_attempt c < 0 \<or> co_token c = [] then (db, Some EErrNotClaimable)
      else
        (case effect_status_for (co_outcome c) (co_class c) of
           Inl err \<Rightarrow> (db, Some err)
         | Inr s \<Rightarrow>
             (case update_attempt
                     (\<lambda>a. a_effect a = co_effect c \<and> a_attempt a = co_attempt c \<and>
                          a_token a = co_token c \<and> in_flight a) (finish_attempt c) db of
                (db1, n1) \<Rightarrow>
                  if n1 = 0 then (db, Some EErrLeaseLost)
                  else if foreign_class (co_class c) then (db, Some EErrConstraint)
                  else
                    (case update_effect
                            (\<lambda>e. e_id e = co_effect c \<and> e_status e = EfStarted \<and>
                                 e_attempt e = co_attempt c) (apply_completion c s) db1 of
                       (db2, n2) \<Rightarrow>
                         if n2 = 0 then (db, Some EErrLeaseLost) else (db2, None)))))"

section \<open>Lease expiry\<close>

definition lease_lapsed :: "millis \<Rightarrow> effect_row \<Rightarrow> bool" where
  "lease_lapsed at e \<longleftrightarrow> e_status e = EfStarted \<and> (\<exists>l \<in> set_option (e_lease e). l < at)"

definition lease_key :: "effect_row \<Rightarrow> millis" where
  "lease_key e = (case e_lease e of None \<Rightarrow> 0 | Some l \<Rightarrow> l)"

definition lease_expired_code :: string where
  "lease_expired_code = ''lease_expired''"

definition lease_expired_text :: string where
  "lease_expired_text = ''send lease expired; the commit is unproven''"

definition expire_attempt :: "millis \<Rightarrow> attempt_row \<Rightarrow> attempt_row" where
  "expire_attempt at a = a\<lparr>a_finished := Some at, a_outcome := Some AtUnknown,
     a_error := lease_expired_code, a_reason := lease_expired_text\<rparr>"

definition expire_effect :: "millis \<Rightarrow> effect_row \<Rightarrow> effect_row" where
  "expire_effect at e = e\<lparr>e_status := EfUnknown, e_error := lease_expired_code,
     e_reason := lease_expired_text, e_owner := [], e_lease := None, e_settled := None,
     e_updated := at\<rparr>"

text \<open>One iteration of the loop over the effects the query returned.\<close>

definition expire_one :: "millis \<Rightarrow> effect_row \<Rightarrow> effect_db \<Rightarrow> effect_db" where
  "expire_one at e db =
     fst (update_effect (\<lambda>r. e_id r = e_id e \<and> lease_lapsed at r) (expire_effect at)
       (fst (update_attempt
          (\<lambda>a. a_effect a = e_id e \<and> a_attempt a = e_attempt e \<and> in_flight a)
          (expire_attempt at) db)))"

definition expire_leases :: "instant \<Rightarrow> int \<Rightarrow> effect_db \<Rightarrow> effect_db \<times> effect_row list" where
  "expire_leases now limit db =
     (if limit \<le> 0 then (db, [])
      else
        let expired = take (nat limit)
              (sql_select (lease_lapsed (unix_milli now)) lease_key (t_effects db))
        in (fold (expire_one (unix_milli now)) expired db, expired))"

section \<open>Work lists\<close>

definition list_recoverable :: "int \<Rightarrow> effect_db \<Rightarrow> effect_row list" where
  "list_recoverable limit db =
     (if limit \<le> 0 then []
      else take (nat limit) (sql_select (\<lambda>e. e_status e = EfPlanned) e_created (t_effects db)))"

definition next_key :: "effect_row \<Rightarrow> millis" where
  "next_key e = (case e_next e of None \<Rightarrow> 0 | Some t \<Rightarrow> t)"

definition list_due_retries :: "instant \<Rightarrow> int \<Rightarrow> int \<Rightarrow> effect_db \<Rightarrow> effect_row list" where
  "list_due_retries now max_attempts limit db =
     (if limit \<le> 0 \<or> max_attempts \<le> 0 then []
      else take (nat limit)
        (sql_select (\<lambda>e. e_status e = EfStarted \<and> (\<exists>t \<in> set_option (e_next e). t \<le> unix_milli now) \<and>
                         e_attempt e + 1 < max_attempts) next_key (t_effects db)))"

definition list_attempts :: "effect_id \<Rightarrow> effect_db \<Rightarrow> attempt_row list" where
  "list_attempts i db = sql_select (\<lambda>a. a_effect a = i) a_attempt (t_attempts db)"

record retry_budget =
  rb_max_attempts :: int
  rb_initial :: duration
  rb_max :: duration

definition default_retry_budget :: retry_budget where
  "default_retry_budget = \<lparr>rb_max_attempts = 3, rb_initial = 30 * second, rb_max = 5 * minute\<rparr>"

text \<open>The doubling loop, for the iterations \<open>i = 1 .. attempt - 1\<close>.\<close>

fun double_below :: "nat \<Rightarrow> duration \<Rightarrow> duration \<Rightarrow> duration" where
  "double_below 0 m w = w"
| "double_below (Suc n) m w = (if w < m then double_below n m (w * 2) else w)"

definition retry_backoff :: "retry_budget \<Rightarrow> int \<Rightarrow> duration \<Rightarrow> duration" where
  "retry_backoff b attempt hint =
     (let w = double_below (nat (attempt - 1)) (rb_max b) (rb_initial b);
          w' = (if w > rb_max b then rb_max b else w)
      in if hint > w' then hint else w')"

section \<open>Operator decisions, reconciliation, fences\<close>

datatype operator_decision = OdAbandon | OdMarkDelivered | OdRequeue | OdOther string

definition operator_reason_max :: nat where "operator_reason_max = 512"
definition operator_evidence_max :: nat where "operator_evidence_max = 256"
definition operator_default_limit :: int where "operator_default_limit = 100"
definition operator_max_limit :: int where "operator_max_limit = 500"

definition operator_valid ::
    "effect_id \<Rightarrow> operator_decision \<Rightarrow> effect_status \<Rightarrow> string \<Rightarrow> string \<Rightarrow> bool" where
  "operator_valid i d expected reason evidence \<longleftrightarrow>
     i \<noteq> [] \<and> expected = EfUnknown \<and> d \<in> {OdAbandon, OdMarkDelivered, OdRequeue} \<and>
     reason \<noteq> [] \<and> length reason \<le> operator_reason_max \<and>
     length evidence \<le> operator_evidence_max"

definition target_status_for_decision :: "operator_decision \<Rightarrow> effect_status" where
  "target_status_for_decision d = (if d = OdRequeue then EfPlanned else EfFailed)"

definition operator_error_code :: "operator_decision \<Rightarrow> string" where
  "operator_error_code d =
     (if d = OdMarkDelivered then ''operator_confirmed_delivered''
      else if d = OdRequeue then ''operator_requeued'' else ''operator_abandoned'')"

definition apply_operator_action ::
    "effect_id \<Rightarrow> operator_decision \<Rightarrow> effect_status \<Rightarrow> string \<Rightarrow> string \<Rightarrow> instant \<Rightarrow> effect_db \<Rightarrow>
       effect_db \<times> (effect_error + effect_row)" where
  "apply_operator_action i d expected reason evidence now db =
     (if \<not> operator_valid i d expected reason evidence then (db, Inl EErrNotClaimable)
      else
        let target = target_status_for_decision d
        in (case update_effect (\<lambda>e. e_id e = i \<and> e_status e = expected)
                   (\<lambda>e. e\<lparr>e_status := target, e_error := operator_error_code d,
                           e_reason := ''operator: '' @ reason, e_evidence := evidence,
                           e_owner := [], e_lease := None, e_next := None,
                           e_settled := (if target = EfPlanned then None else Some (unix_milli now)),
                           e_updated := unix_milli now\<rparr>) db of
              (db', n) \<Rightarrow>
                if n = 0 then (db, Inl EErrLeaseLost)
                else (case effect_by_id i db' of
                        None \<Rightarrow> (db', Inl EErrEffectNotFound) | Some e \<Rightarrow> (db', Inr e))))"

definition list_for_operator ::
    "effect_status option \<Rightarrow> string \<Rightarrow> int \<Rightarrow> int \<Rightarrow> effect_db \<Rightarrow> effect_row list" where
  "list_for_operator status execution limit offset db =
     (let lim = (if limit \<le> 0 then operator_default_limit else limit);
          lim' = (if lim > operator_max_limit then operator_max_limit else lim);
          off = (if offset < 0 then 0 else offset)
      in take (nat lim') (drop (nat off)
           (sql_select (\<lambda>e. (status \<noteq> None \<longrightarrow> status = Some (e_status e)) \<and>
                            (execution \<noteq> [] \<longrightarrow> e_execution e = execution))
              (\<lambda>e. (- e_created e, e_id e)) (t_effects db))))"

datatype reconcile_outcome = RoSucceeded | RoFailed | RoOther string

definition reconcile_status_for :: "reconcile_outcome \<Rightarrow> effect_error + effect_status" where
  "reconcile_status_for o1 =
     (case o1 of RoSucceeded \<Rightarrow> Inr EfReconciledSucceeded | RoFailed \<Rightarrow> Inr EfReconciledFailed
      | RoOther s \<Rightarrow> Inl EErrNotClaimable)"

definition reconcile_error_code :: "reconcile_outcome \<Rightarrow> string" where
  "reconcile_error_code o1 = ''reconciled_'' @
     (case o1 of RoSucceeded \<Rightarrow> ''succeeded'' | RoFailed \<Rightarrow> ''failed'' | RoOther s \<Rightarrow> s)"

definition reconcile_valid ::
    "effect_id \<Rightarrow> reconcile_outcome \<Rightarrow> effect_status \<Rightarrow> string \<Rightarrow> string \<Rightarrow> string \<Rightarrow> bool" where
  "reconcile_valid i o1 expected provider evidence reason \<longleftrightarrow>
     i \<noteq> [] \<and> expected = EfUnknown \<and> \<not> isl (reconcile_status_for o1) \<and>
     length provider \<le> 256 \<and> length evidence \<le> 256 \<and> length reason \<le> 512"

definition reconcile_unknown ::
    "effect_id \<Rightarrow> reconcile_outcome \<Rightarrow> effect_status \<Rightarrow> string \<Rightarrow> string \<Rightarrow> string \<Rightarrow> instant \<Rightarrow> effect_db \<Rightarrow>
       effect_db \<times> (effect_error + effect_row)" where
  "reconcile_unknown i o1 expected provider evidence reason now db =
     (if \<not> reconcile_valid i o1 expected provider evidence reason then (db, Inl EErrNotClaimable)
      else
        (case reconcile_status_for o1 of
           Inl err \<Rightarrow> (db, Inl err)
         | Inr target \<Rightarrow>
             (case update_effect (\<lambda>e. e_id e = i \<and> e_status e = expected)
                     (\<lambda>e. e\<lparr>e_status := target, e_error := reconcile_error_code o1,
                             e_reason := reason, e_provider := provider, e_evidence := evidence,
                             e_owner := [], e_lease := None, e_next := None,
                             e_settled := Some (unix_milli now), e_updated := unix_milli now\<rparr>) db of
                (db', n) \<Rightarrow>
                  if n \<noteq> 1 then (db', Inl EErrLeaseLost)
                  else (case effect_by_id i db' of
                          None \<Rightarrow> (db', Inl EErrEffectNotFound) | Some e \<Rightarrow> (db', Inr e)))))"

definition fence_valid :: "effect_id \<Rightarrow> effect_status \<Rightarrow> string \<Rightarrow> bool" where
  "fence_valid i expected reason \<longleftrightarrow>
     i \<noteq> [] \<and> (expected = EfUnknown \<or> expected = EfFailed) \<and> reason \<noteq> [] \<and> length reason \<le> 512"

definition fence_effect ::
    "effect_id \<Rightarrow> effect_status \<Rightarrow> string \<Rightarrow> instant \<Rightarrow> effect_db \<Rightarrow> effect_db \<times> (effect_error + effect_row)" where
  "fence_effect i expected reason now db =
     (if \<not> fence_valid i expected reason then (db, Inl EErrNotClaimable)
      else
        (case update_effect (\<lambda>e. e_id e = i \<and> e_status e = expected)
                (\<lambda>e. e\<lparr>e_status := EfFenced, e_error := ''fenced'',
                        e_reason := ''fenced: '' @ reason, e_owner := [], e_lease := None,
                        e_next := None,
                        e_settled := (case e_settled e of None \<Rightarrow> Some (unix_milli now)
                                      | Some t \<Rightarrow> Some t),
                        e_updated := unix_milli now\<rparr>) db of
           (db', n) \<Rightarrow>
             if n \<noteq> 1 then (db', Inl EErrLeaseLost)
             else (case effect_by_id i db' of
                     None \<Rightarrow> (db', Inl EErrEffectNotFound) | Some e \<Rightarrow> (db', Inr e))))"

section \<open>Retention\<close>

text \<open>
  \<open>deleteExpiredPayloadsSQL\<close>: a body is blanked when some effect refers to it and every one that
  does is settled, unowned and past its own window.
\<close>

definition body_released :: "millis \<Rightarrow> effect_row \<Rightarrow> bool" where
  "body_released cutoff e \<longleftrightarrow>
     e_status e \<notin> {EfPlanned, EfStarted, EfUnknown} \<and> e_lease e = None \<and> e_next e = None \<and>
     (case (e_settled e, e_payload_retention e) of
        (Some t, Some d) \<Rightarrow> t + d \<le> cutoff
      | _ \<Rightarrow> False)"

definition body_expired :: "millis \<Rightarrow> effect_db \<Rightarrow> delivery_payload \<Rightarrow> bool" where
  "body_expired cutoff db d \<longleftrightarrow> d_bytes d > 0 \<and>
     (\<exists>e \<in> set (t_effects db). e_payload e = d_id d) \<and>
     (\<forall>e \<in> set (t_effects db). e_payload e = d_id d \<longrightarrow> body_released cutoff e)"

definition delete_expired_payloads :: "instant \<Rightarrow> int \<Rightarrow> effect_db \<Rightarrow> effect_db \<times> nat" where
  "delete_expired_payloads now limit db =
     (if limit \<le> 0 then (db, 0)
      else
        let victims = map d_id (take (nat limit)
              (sql_select (body_expired (unix_milli now) db) (\<lambda>d. (d_created d, d_id d))
                 (t_deliveries db)));
            P = (\<lambda>d. d_bytes d > 0 \<and> d_id d \<in> set victims)
        in (db\<lparr>t_deliveries := sql_update P (\<lambda>d. d\<lparr>d_content := [], d_bytes := 0\<rparr>) (t_deliveries db)\<rparr>,
            sql_count P (t_deliveries db)))"

text \<open>\<open>deleteSettledAttemptsSQL\<close>\<close>

definition attempts_released :: "millis \<Rightarrow> effect_db \<Rightarrow> attempt_row \<Rightarrow> bool" where
  "attempts_released cutoff db a \<longleftrightarrow> \<not> in_flight a \<and>
     (\<exists>e \<in> set (t_effects db). e_id e = a_effect a \<and> settled_status (e_status e) \<and>
        (case (e_settled e, e_facts_retention e) of
           (Some t, Some d) \<Rightarrow> t + d \<le> cutoff
         | _ \<Rightarrow> False) \<and>
        e_lease e = None \<and> e_owner e = [] \<and>
        (\<forall>p \<in> set (t_attempts db). a_effect p = e_id e \<longrightarrow> \<not> in_flight p))"

definition attempt_gc_key :: "attempt_row \<Rightarrow> millis \<times> string" where
  "attempt_gc_key a = (case a_finished a of None \<Rightarrow> 0 | Some t \<Rightarrow> t, a_id a)"

definition delete_settled_attempts :: "instant \<Rightarrow> int \<Rightarrow> effect_db \<Rightarrow> effect_db \<times> nat" where
  "delete_settled_attempts now limit db =
     (if limit \<le> 0 then (db, 0)
      else
        let victims = map a_id (take (nat limit)
              (sql_select (attempts_released (unix_milli now) db) attempt_gc_key (t_attempts db)));
            P = (\<lambda>a. a_id a \<in> set victims)
        in (db\<lparr>t_attempts := sql_delete P (t_attempts db)\<rparr>, sql_count P (t_attempts db)))"

end
