(* ===== verification/EffectMachine.thy ===== *)
theory EffectMachine
  imports Effects Interfaces
begin

text \<open>
  The delivery ledger as a machine.  The life of one effect, with the attempt rows that belong to
  it, is an abstract machine \<open>emove\<close>; every transaction of the stores moves each effect along it
  (a simulation), which is how the properties of the ledger are proved.
\<close>

section \<open>The life of one effect\<close>

definition safe_rejection :: "attempt_row \<Rightarrow> bool" where
  "safe_rejection a \<longleftrightarrow> \<not> in_flight a \<and> a_outcome a = Some AtRejected \<and> a_class a = RcSafeRetry"

definition fresh_attempt :: "effect_row \<Rightarrow> int \<Rightarrow> attempt_row \<Rightarrow> bool" where
  "fresh_attempt e n a \<longleftrightarrow> a_effect a = e_id e \<and> a_attempt a = n \<and> in_flight a"

definition decide :: "effect_status \<Rightarrow> effect_row \<Rightarrow> effect_row \<Rightarrow> bool" where
  "decide s e e' \<longleftrightarrow> e_id e' = e_id e \<and> business_key e' = business_key e \<and>
     e_execution e' = e_execution e \<and>
     e_payload e' = e_payload e \<and> e_sha e' = e_sha e \<and> e_attempt e' = e_attempt e \<and>
     e_version e' = e_version e \<and> e_status e' = s \<and> e_owner e' = [] \<and> e_lease e' = None \<and>
     e_next e' = None \<and> (e_settled e' \<noteq> None \<longleftrightarrow> settled_status s)"

inductive emove ::
    "attempt_row set \<times> effect_row \<Rightarrow> attempt_row set \<times> effect_row \<Rightarrow> bool" where
  send: "e_status e = EfPlanned \<Longrightarrow> \<forall>a \<in> A. a_attempt a \<noteq> e_attempt e \<Longrightarrow> owner \<noteq> [] \<Longrightarrow>
    fresh_attempt e (e_attempt e) a \<Longrightarrow>
    emove (A, e) (insert a A, e\<lparr>e_status := EfStarted, e_owner := owner, e_lease := Some l,
      e_settled := None, e_version := e_version e + 1, e_updated := at\<rparr>)"
| retry: "e_status e = EfStarted \<Longrightarrow> e_next e \<noteq> None \<Longrightarrow> \<forall>a \<in> A. a_attempt a \<noteq> e_attempt e + 1 \<Longrightarrow>
    owner \<noteq> [] \<Longrightarrow> fresh_attempt e (e_attempt e + 1) a \<Longrightarrow>
    emove (A, e) (insert a A, e\<lparr>e_attempt := e_attempt e + 1, e_owner := owner,
      e_lease := Some l, e_version := e_version e + 1, e_next := None, e_settled := None,
      e_updated := at\<rparr>)"
| complete: "e_status e = EfStarted \<Longrightarrow> a \<in> A \<Longrightarrow> in_flight a \<Longrightarrow> a_attempt a = e_attempt e \<Longrightarrow>
    effect_status_for (co_outcome c) (co_class c) = Inr s \<Longrightarrow>
    emove (A, e) (insert (finish_attempt c a) (A - {a}), apply_completion c s e)"
| expire: "e_status e = EfStarted \<Longrightarrow> e_lease e \<noteq> None \<Longrightarrow> a \<in> A \<Longrightarrow> in_flight a \<Longrightarrow>
    a_attempt a = e_attempt e \<Longrightarrow>
    emove (A, e) (insert (expire_attempt at a) (A - {a}), expire_effect at e)"
| operator: "e_status e = EfUnknown \<Longrightarrow> s = EfPlanned \<or> s = EfFailed \<Longrightarrow> decide s e e' \<Longrightarrow>
    emove (A, e) (A, e')"
| reconcile: "e_status e = EfUnknown \<Longrightarrow> s = EfReconciledSucceeded \<or> s = EfReconciledFailed \<Longrightarrow>
    decide s e e' \<Longrightarrow> emove (A, e) (A, e')"
| fence: "e_status e = EfUnknown \<or> e_status e = EfFailed \<Longrightarrow> decide EfFenced e e' \<Longrightarrow>
    emove (A, e) (A, e')"
| forget: "settled_status (e_status e) \<Longrightarrow> A' \<subseteq> A \<Longrightarrow> emove (A, e) (A', e)"

inductive_cases emove_inv: "emove (A, e) (A', e')"

lemmas emoveE = emove_inv [consumes 1, case_names send retry complete expire operator reconcile
  fence forget]

text \<open>What holds of an effect and its attempts at any time.\<close>

definition effect_ok :: "attempt_row set \<Rightarrow> effect_row \<Rightarrow> bool" where
  "effect_ok A e \<longleftrightarrow>
     (\<forall>a \<in> A. a_attempt a \<le> e_attempt e) \<and>
     (\<forall>a \<in> A. a_attempt a < e_attempt e \<longrightarrow> safe_rejection a) \<and>
     (\<forall>a \<in> A. in_flight a \<longrightarrow> e_lease e \<noteq> None \<and> a_attempt a = e_attempt e) \<and>
     inj_on a_attempt A \<and>
     (e_lease e \<noteq> None \<longrightarrow> e_status e = EfStarted \<and> (\<exists>a \<in> A. in_flight a)) \<and>
     (e_lease e = None \<longleftrightarrow> e_owner e = []) \<and>
     (e_status e = EfStarted \<longrightarrow> (e_lease e = None \<longleftrightarrow> e_next e \<noteq> None)) \<and>
     (e_next e \<noteq> None \<longrightarrow> e_status e = EfStarted \<and> (\<forall>a \<in> A. safe_rejection a)) \<and>
     (e_settled e \<noteq> None \<longleftrightarrow> settled_status (e_status e)) \<and>
     (e_status e = EfUnknown \<longrightarrow> (\<exists>a \<in> A. a_attempt a = e_attempt e))"

lemma effect_status_cases:
  assumes "effect_status_for out c = Inr s"
  shows "s \<in> {EfDelivered, EfUnknown, EfPlanned, EfStarted, EfFailed}"
    "s = EfStarted \<longleftrightarrow> out = AtRejected \<and> c = RcSafeRetry"
  using assms by (auto simp: effect_status_for_def split: attempt_outcome.splits rejection_class.splits)

lemma finish_attempt_sel [simp]:
  "a_attempt (finish_attempt c a) = a_attempt a" "a_effect (finish_attempt c a) = a_effect a"
  "a_id (finish_attempt c a) = a_id a" "\<not> in_flight (finish_attempt c a)"
  "safe_rejection (finish_attempt c a) \<longleftrightarrow> co_outcome c = AtRejected \<and> co_class c = RcSafeRetry"
  by (auto simp: finish_attempt_def in_flight_def safe_rejection_def)

lemma expire_attempt_sel [simp]:
  "a_attempt (expire_attempt at a) = a_attempt a" "a_effect (expire_attempt at a) = a_effect a"
  "a_id (expire_attempt at a) = a_id a" "\<not> in_flight (expire_attempt at a)"
  "\<not> safe_rejection (expire_attempt at a)"
  by (auto simp: expire_attempt_def in_flight_def safe_rejection_def)

lemma effect_okI:
  assumes "\<And>a. a \<in> A \<Longrightarrow> a_attempt a \<le> e_attempt e"
    and "\<And>a. a \<in> A \<Longrightarrow> a_attempt a < e_attempt e \<Longrightarrow> safe_rejection a"
    and "\<And>a. a \<in> A \<Longrightarrow> in_flight a \<Longrightarrow> e_lease e \<noteq> None \<and> a_attempt a = e_attempt e"
    and "inj_on a_attempt A"
    and "e_lease e \<noteq> None \<Longrightarrow> e_status e = EfStarted \<and> (\<exists>a \<in> A. in_flight a)"
    and "e_lease e = None \<longleftrightarrow> e_owner e = []"
    and "e_status e = EfStarted \<Longrightarrow> e_lease e = None \<longleftrightarrow> e_next e \<noteq> None"
    and "e_next e \<noteq> None \<Longrightarrow> e_status e = EfStarted \<and> (\<forall>a \<in> A. safe_rejection a)"
    and "e_settled e \<noteq> None \<longleftrightarrow> settled_status (e_status e)"
    and "e_status e = EfUnknown \<Longrightarrow> \<exists>a \<in> A. a_attempt a = e_attempt e"
  shows "effect_ok A e"
  unfolding effect_ok_def using assms by (intro conjI ballI impI) simp_all

lemma effect_okD:
  assumes "effect_ok A e"
  shows "a \<in> A \<Longrightarrow> a_attempt a \<le> e_attempt e"
    "a \<in> A \<Longrightarrow> a_attempt a < e_attempt e \<Longrightarrow> safe_rejection a"
    "a \<in> A \<Longrightarrow> in_flight a \<Longrightarrow> e_lease e \<noteq> None"
    "a \<in> A \<Longrightarrow> in_flight a \<Longrightarrow> a_attempt a = e_attempt e"
    "inj_on a_attempt A"
    "e_lease e \<noteq> None \<Longrightarrow> e_status e = EfStarted"
    "e_lease e \<noteq> None \<Longrightarrow> \<exists>a \<in> A. in_flight a"
    "e_lease e = None \<longleftrightarrow> e_owner e = []"
    "e_status e = EfStarted \<Longrightarrow> e_lease e = None \<longleftrightarrow> e_next e \<noteq> None"
    "e_next e \<noteq> None \<Longrightarrow> e_status e = EfStarted"
    "e_next e \<noteq> None \<Longrightarrow> a \<in> A \<Longrightarrow> safe_rejection a"
    "e_settled e \<noteq> None \<longleftrightarrow> settled_status (e_status e)"
    "e_status e = EfUnknown \<Longrightarrow> \<exists>a \<in> A. a_attempt a = e_attempt e"
  using assms unfolding effect_ok_def by (elim conjE, meson)+

text \<open>Of the attempts of an effect at most one is in flight, and the others are of lower number.\<close>

lemma effect_ok_other:
  assumes "effect_ok A e" "a \<in> A" "a_attempt a = e_attempt e" "b \<in> A" "b \<noteq> a"
  shows "safe_rejection b" "\<not> in_flight b" "a_attempt b < e_attempt e"
proof -
  have "a_attempt b \<noteq> a_attempt a"
    using effect_okD(5) [OF assms(1)] assms(2,4,5) by (auto dest: inj_onD)
  then show lt: "a_attempt b < e_attempt e"
    using effect_okD(1) [OF assms(1,4)] assms(3) by simp
  show "safe_rejection b" by (rule effect_okD(2) [OF assms(1,4) lt])
  then show "\<not> in_flight b" by (simp add: safe_rejection_def)
qed

lemma emove_ok_send:
  assumes "effect_ok A e" "e_status e = EfPlanned" "\<forall>a \<in> A. a_attempt a \<noteq> e_attempt e"
    "owner \<noteq> []" "fresh_attempt e (e_attempt e) a"
  shows "effect_ok (insert a A) (e\<lparr>e_status := EfStarted, e_owner := owner, e_lease := Some l,
      e_settled := None, e_version := e_version e + 1, e_updated := at\<rparr>)"
proof -
  have a: "in_flight a" "a_attempt a = e_attempt e" using assms(5) by (auto simp: fresh_attempt_def)
  have lt: "a_attempt b < e_attempt e" if "b \<in> A" for b
    using effect_okD(1) [OF assms(1) that] assms(3) that by force
  have safe: "safe_rejection b" "\<not> in_flight b" if "b \<in> A" for b
    using effect_okD(2) [OF assms(1) that lt [OF that]] by (auto simp: safe_rejection_def)
  have nx: "e_next e = None" using effect_okD(10) [OF assms(1)] assms(2) by (cases "e_next e") auto
  show ?thesis
  proof (rule effect_okI, goal_cases)
    case 4
    show ?case using effect_okD(5) [OF assms(1)] a lt by force
  qed (use a lt safe assms(4) nx in \<open>auto simp: settled_status_def less_imp_le\<close>)
qed

lemma emove_ok_retry:
  assumes "effect_ok A e" "e_status e = EfStarted" "e_next e \<noteq> None"
    "owner \<noteq> []" "fresh_attempt e (e_attempt e + 1) a"
  shows "effect_ok (insert a A) (e\<lparr>e_attempt := e_attempt e + 1, e_owner := owner,
      e_lease := Some l, e_version := e_version e + 1, e_next := None, e_settled := None,
      e_updated := at\<rparr>)"
proof -
  have a: "in_flight a" "a_attempt a = e_attempt e + 1"
    using assms(5) by (auto simp: fresh_attempt_def)
  have le: "a_attempt b \<le> e_attempt e" if "b \<in> A" for b
    using effect_okD(1) [OF assms(1) that] .
  have le': "a_attempt b \<le> e_attempt e + 1" if "b \<in> A" for b using le [OF that] by simp
  have safe: "safe_rejection b" "\<not> in_flight b" if "b \<in> A" for b
    using effect_okD(11) [OF assms(1,3) that] by (auto simp: safe_rejection_def)
  show ?thesis
  proof (rule effect_okI, goal_cases)
    case 4
    show ?case using effect_okD(5) [OF assms(1)] a le by force
  qed (use a le' safe assms in \<open>auto simp: settled_status_def\<close>)
qed

lemma emove_ok_finish:
  assumes "effect_ok A e" "a \<in> A" "in_flight a" "a_attempt a = e_attempt e"
    and b: "a_attempt b = a_attempt a" "\<not> in_flight b"
    and e': "e_attempt e' = e_attempt e" "e_lease e' = None" "e_owner e' = []"
      "e_next e' \<noteq> None \<longleftrightarrow> e_status e' = EfStarted"
      "e_status e' = EfStarted \<Longrightarrow> safe_rejection b"
      "e_settled e' \<noteq> None \<longleftrightarrow> settled_status (e_status e')"
  shows "effect_ok (insert b (A - {a})) e'"
proof -
  note other = effect_ok_other [OF assms(1,2,4)]
  show ?thesis
  proof (rule effect_okI, goal_cases)
    case 4
    show ?case using effect_okD(5) [OF assms(1)] assms(2) b by (auto simp: inj_on_def)
  next
    case (8)
    with e' show ?case using other by auto
  qed (use other assms b e' in \<open>auto simp: less_imp_le\<close>)
qed

lemma emove_ok_decide:
  assumes "effect_ok A e" "e_status e = EfUnknown \<or> settled_status (e_status e)" "decide s e e'"
    "s \<noteq> EfUnknown" "s \<noteq> EfStarted"
  shows "effect_ok A e'"
proof -
  have "e_status e \<noteq> EfStarted" using assms(2) by (auto simp: settled_status_def)
  then have l: "e_lease e = None" using effect_okD(6) [OF assms(1)] by (cases "e_lease e") auto
  note d = assms(3) [unfolded decide_def]
  show ?thesis
    by (rule effect_okI)
       (use d l assms(4,5) effect_okD(1-5) [OF assms(1)] in \<open>auto\<close>)
qed

lemma emove_ok:
  assumes "emove (A, e) (A', e')" "effect_ok A e"
  shows "effect_ok A' e'"
  using assms(1)
proof (cases rule: emoveE)
  case (send owner a l at)
  with assms(2) show ?thesis by (auto intro: emove_ok_send)
next
  case (retry owner a l at y)
  with assms(2) show ?thesis by (auto intro: emove_ok_retry)
next
  case (complete a c s)
  show ?thesis unfolding complete(6,7)
    by (rule emove_ok_finish [OF assms(2) complete(2,3,4)])
      (use effect_status_cases [OF complete(5)] in \<open>auto simp: apply_completion_def\<close>)
next
  case (expire a at y)
  show ?thesis unfolding expire(5,6)
    by (rule emove_ok_finish [OF assms(2) expire(2,3,4)])
      (use effect_okD(9) [OF assms(2)] expire in \<open>auto simp: expire_effect_def settled_status_def\<close>)
next
  case (operator s)
  with assms(2) show ?thesis by (auto intro: emove_ok_decide)
next
  case (reconcile s)
  with assms(2) show ?thesis by (auto intro: emove_ok_decide)
next
  case fence
  with assms(2) show ?thesis by (auto intro: emove_ok_decide simp: settled_status_def)
next
  case forget
  then have ns: "e_status e \<noteq> EfStarted" "e_status e \<noteq> EfUnknown" by (auto simp: settled_status_def)
  have l: "e_lease e = None" using effect_okD(6) [OF assms(2)] ns by (cases "e_lease e") auto
  have nx: "e_next e = None" using effect_okD(10) [OF assms(2)] ns by (cases "e_next e") auto
  have sub: "a \<in> A" if "a \<in> A'" for a using forget(3) that by auto
  have nf: "\<not> in_flight a" if "a \<in> A'" for a
    using effect_okD(3) [OF assms(2) sub [OF that]] l by auto
  show ?thesis unfolding forget(1)
  proof (rule effect_okI, goal_cases)
    case 4
    show ?case using effect_okD(5) [OF assms(2)] forget(3) by (rule inj_on_subset)
  qed (use ns l nx nf effect_okD(1,2) [OF assms(2) sub] effect_okD(8,12) [OF assms(2)] in auto)
qed

section \<open>The ledger as a family of effects\<close>

definition attempts_of :: "effect_id \<Rightarrow> effect_db \<Rightarrow> attempt_row set" where
  "attempts_of i db = {a \<in> set (t_attempts db). a_effect a = i}"

definition ledger_inv :: "effect_db \<Rightarrow> bool" where
  "ledger_inv db \<longleftrightarrow>
     unique_index (\<lambda>_. True) e_id (t_effects db) \<and>
     unique_index (\<lambda>_. True) business_key (t_effects db) \<and>
     unique_index (\<lambda>_. True) a_id (t_attempts db) \<and>
     a_effect ` set (t_attempts db) \<subseteq> e_id ` set (t_effects db) \<and>
     (\<forall>e \<in> set (t_effects db). effect_ok (attempts_of (e_id e) db) e)"

definition planned_row :: "effect_row \<Rightarrow> bool" where
  "planned_row e \<longleftrightarrow> e_status e = EfPlanned \<and> e_attempt e = 0 \<and> e_owner e = [] \<and>
     e_lease e = None \<and> e_next e = None \<and> e_settled e = None"

text \<open>
  One move of the ledger: every effect makes moves of its own machine, and effects may be added
  that have no attempt yet.
\<close>

definition ledger_move :: "effect_db \<Rightarrow> effect_db \<Rightarrow> bool" where
  "ledger_move db db' \<longleftrightarrow>
     (\<exists>g new. t_effects db' = map g (t_effects db) @ new \<and>
        (\<forall>e \<in> set (t_effects db).
           emove\<^sup>*\<^sup>* (attempts_of (e_id e) db, e) (attempts_of (e_id e) db', g e)) \<and>
        (\<forall>e \<in> set new. planned_row e \<and> attempts_of (e_id e) db' = {})) \<and>
     unique_index (\<lambda>_. True) e_id (t_effects db') \<and>
     unique_index (\<lambda>_. True) business_key (t_effects db') \<and>
     unique_index (\<lambda>_. True) a_id (t_attempts db') \<and>
     a_effect ` set (t_attempts db') \<subseteq> e_id ` set (t_effects db')"

lemma emove_keeps:
  assumes "emove (A, e) (A', e')"
  shows "e_id e' = e_id e" "business_key e' = business_key e" "e_execution e' = e_execution e"
    "e_payload e' = e_payload e" "e_sha e' = e_sha e"
    "settled_status (e_status e) \<Longrightarrow> settled_status (e_status e')"
  using assms
  by (cases rule: emoveE;
      auto simp: business_key_def apply_completion_def expire_effect_def decide_def settled_status_def)+

lemma emoves_keep:
  assumes "emove\<^sup>*\<^sup>* (A, e) (A', e')"
  shows "e_id e' = e_id e \<and> business_key e' = business_key e \<and> e_execution e' = e_execution e \<and>
     e_payload e' = e_payload e \<and> e_sha e' = e_sha e \<and>
     (settled_status (e_status e) \<longrightarrow> settled_status (e_status e'))"
  using assms
  by (induction rule: rtranclp_induct2) (auto dest: emove_keeps)

lemma emoves_ok: "emove\<^sup>*\<^sup>* (A, e) (A', e') \<Longrightarrow> effect_ok A e \<Longrightarrow> effect_ok A' e'"
  by (induction rule: rtranclp_induct2) (auto intro: emove_ok)

lemma planned_row_ok: "planned_row e \<Longrightarrow> effect_ok {} e"
  by (rule effect_okI) (auto simp: planned_row_def settled_status_def)

lemma ledger_move_inv:
  assumes "ledger_inv db" "ledger_move db db'"
  shows "ledger_inv db'"
proof -
  obtain g new where g: "t_effects db' = map g (t_effects db) @ new"
    "\<forall>e \<in> set (t_effects db).
       emove\<^sup>*\<^sup>* (attempts_of (e_id e) db, e) (attempts_of (e_id e) db', g e)"
    "\<forall>e \<in> set new. planned_row e \<and> attempts_of (e_id e) db' = {}"
    using assms(2) unfolding ledger_move_def by (elim conjE exE) (rule that; assumption)
  note moves = g(2) [rule_format]
  have "effect_ok (attempts_of (e_id (g e)) db') (g e)" if "e \<in> set (t_effects db)" for e
    using emoves_ok [OF moves [OF that]] emoves_keep [OF moves [OF that]] assms(1) that
    by (auto simp: ledger_inv_def)
  moreover have "effect_ok (attempts_of (e_id e) db') e" if "e \<in> set new" for e
    using planned_row_ok g(3) that by simp
  ultimately show ?thesis
    using assms(2) g(1) unfolding ledger_inv_def ledger_move_def by auto
qed

text \<open>The ledger is only ever extended: an effect keeps its identity and moves along its machine.\<close>

definition ledger_le :: "effect_db \<Rightarrow> effect_db \<Rightarrow> bool" where
  "ledger_le db db' \<longleftrightarrow>
     (\<forall>e \<in> set (t_effects db). \<exists>e' \<in> set (t_effects db').
        emove\<^sup>*\<^sup>* (attempts_of (e_id e) db, e) (attempts_of (e_id e) db', e'))"

lemma ledger_le_refl: "ledger_le db db"
  by (auto simp: ledger_le_def)

lemma ledger_le_trans:
  assumes "ledger_le db db1" "ledger_le db1 db2"
  shows "ledger_le db db2"
  unfolding ledger_le_def
proof
  fix e assume e: "e \<in> set (t_effects db)"
  obtain e1 where e1: "e1 \<in> set (t_effects db1)"
    "emove\<^sup>*\<^sup>* (attempts_of (e_id e) db, e) (attempts_of (e_id e) db1, e1)"
    using assms(1) e by (auto simp: ledger_le_def)
  moreover have "e_id e1 = e_id e" using emoves_keep [OF e1(2)] by simp
  ultimately show "\<exists>e'\<in>set (t_effects db2).
      emove\<^sup>*\<^sup>* (attempts_of (e_id e) db, e) (attempts_of (e_id e) db2, e')"
    using assms(2) unfolding ledger_le_def by (metis rtranclp_trans)
qed

lemma ledger_move_le: "ledger_move db db' \<Longrightarrow> ledger_le db db'"
  unfolding ledger_move_def ledger_le_def by auto

section \<open>The transactions move the ledger\<close>

lemma attempts_of_app [simp]:
  "attempts_of i (db\<lparr>t_attempts := t_attempts db @ [a], t_effects := es\<rparr>) =
     (if a_effect a = i then insert a (attempts_of i db) else attempts_of i db)"
  "attempts_of i (db\<lparr>t_effects := es, t_attempts := t_attempts db @ [a]\<rparr>) =
     (if a_effect a = i then insert a (attempts_of i db) else attempts_of i db)"
  by (auto simp: attempts_of_def)

lemma attempts_of_effects [simp]:
  "attempts_of i (db\<lparr>t_effects := es\<rparr>) = attempts_of i db"
  "attempts_of i (db\<lparr>t_deliveries := ds\<rparr>) = attempts_of i db"
  by (auto simp: attempts_of_def)

lemma ledger_move_same:
  assumes "ledger_inv db" "t_effects db' = t_effects db" "t_attempts db' = t_attempts db"
  shows "ledger_move db db'"
proof -
  have "\<And>i. attempts_of i db' = attempts_of i db" using assms(3) by (simp add: attempts_of_def)
  then show ?thesis
    using assms unfolding ledger_move_def ledger_inv_def
    by (intro conjI exI [of _ id] exI [of _ "[]"]) auto
qed

lemma ledger_move_single:
  assumes "ledger_inv db" "e0 \<in> set (t_effects db)" "P e0"
    and P: "\<And>e. P e \<Longrightarrow> e_id e = e_id e0"
    and es: "t_effects db' = sql_update P f (t_effects db)"
    and as: "\<And>j. j \<noteq> e_id e0 \<Longrightarrow> attempts_of j db' = attempts_of j db"
    and ids: "unique_index (\<lambda>_. True) a_id (t_attempts db')"
    and mv: "emove (attempts_of (e_id e0) db, e0) (attempts_of (e_id e0) db', f e0)"
  shows "ledger_move db db'"
proof -
  let ?g = "\<lambda>r. if P r then f r else r"
  have inv: "unique_index (\<lambda>_. True) e_id (t_effects db)"
      "unique_index (\<lambda>_. True) business_key (t_effects db)"
      "a_effect ` set (t_attempts db) \<subseteq> e_id ` set (t_effects db)"
    using assms(1) by (auto simp: ledger_inv_def)
  have one: "e = e0" if "e \<in> set (t_effects db)" "P e" for e
    using unique_index_eq [OF inv(1) that(1) assms(2)] P [OF that(2)] by simp
  have keep: "e_id (?g e) = e_id e" "business_key (?g e) = business_key e"
    if "e \<in> set (t_effects db)" for e
    using one [OF that] emove_keeps(1,2) [OF mv] by (cases "P e"; simp)+
  have fkeep: "e_id (f e) = e_id e" "business_key (f e) = business_key e"
    if "e \<in> set (t_effects db)" "P e" for e
    using keep [OF that(1)] that(2) by simp_all
  have moves: "emove\<^sup>*\<^sup>* (attempts_of (e_id e) db, e) (attempts_of (e_id e) db', ?g e)"
    if e: "e \<in> set (t_effects db)" for e
  proof (cases "e_id e = e_id e0")
    case True
    then have "e = e0" using unique_index_eq [OF inv(1) e assms(2)] by simp
    with mv assms(3) show ?thesis by auto
  next
    case False
    then have "\<not> P e" using P by auto
    with as [OF False] show ?thesis by simp
  qed
  have "a_effect a \<in> e_id ` set (t_effects db)" if "a \<in> set (t_attempts db')" for a
  proof (cases "a_effect a = e_id e0")
    case False
    have "a \<in> attempts_of (a_effect a) db'" using that by (simp add: attempts_of_def)
    then have "a \<in> attempts_of (a_effect a) db" using as [OF False] by simp
    then have "a \<in> set (t_attempts db)" by (simp add: attempts_of_def)
    with inv(3) show ?thesis by auto
  qed (use assms(2) in simp)
  moreover have "e_id ` set (t_effects db') = e_id ` set (t_effects db)"
    unfolding es set_sql_update image_image using keep(1) by (simp cong: image_cong)
  moreover have "unique_index (\<lambda>_. True) e_id (t_effects db')"
    unfolding es by (rule unique_index_update_in [OF inv(1)]) (auto simp: fkeep)
  moreover have "unique_index (\<lambda>_. True) business_key (t_effects db')"
    unfolding es by (rule unique_index_update_in [OF inv(2)]) (auto simp: fkeep)
  ultimately show ?thesis
    using ids moves unfolding ledger_move_def
    by (intro conjI exI [of _ ?g] exI [of _ "[]"]) (auto simp: es sql_update_def)
qed

lemma effect_by_id_unique:
  assumes "ledger_inv db" "e \<in> set (t_effects db)"
  shows "effect_by_id (e_id e) db = Some e"
  using assms unfolding effect_by_id_def ledger_inv_def by (blast intro: sql_row_unique)

lemma effect_by_id_update:
  assumes "effect_by_id i db = Some e" "\<And>r. P r \<Longrightarrow> e_id (f r) = e_id r"
  shows "effect_by_id i (db\<lparr>t_effects := sql_update P f (t_effects db)\<rparr>) =
    Some (if P e then f e else e)"
  using assms unfolding effect_by_id_def by (simp add: sql_row_update)

lemma sql_count_pos: "0 < sql_count P t \<Longrightarrow> \<exists>r \<in> set t. P r"
  using sql_count_0_iff [of P t] by auto

lemma open_claim_cases:
  assumes "open_claim aid token i n owner at db db1 = (db', r)"
  obtains (fail) err where "r = Inl err" "db' = db"
  | (opened) e where "effect_by_id i db1 = Some e"
      "\<forall>a \<in> set (t_attempts db1). a_id a \<noteq> aid \<and> \<not> (a_effect a = i \<and> a_attempt a = n)"
      "db' = db1\<lparr>t_attempts := t_attempts db1 @ [opened_attempt aid i n owner (e_version e) token at]\<rparr>"
      "r = Inr \<lparr>ec_effect = e, ec_attempt = n, ec_version = e_version e, ec_token = token\<rparr>"
  using assms
  by (auto simp: open_claim_def open_attempt_def split: option.splits if_splits)
text \<open>A successful claim opens a new attempt of an effect that its machine lets it open.\<close>

lemma opened_attempt_sel [simp]:
  "a_id (opened_attempt aid i n owner v tok at) = aid"
  "a_effect (opened_attempt aid i n owner v tok at) = i"
  "a_attempt (opened_attempt aid i n owner v tok at) = n"
  "a_token (opened_attempt aid i n owner v tok at) = tok"
  "in_flight (opened_attempt aid i n owner v tok at)"
  by (simp_all add: opened_attempt_def in_flight_def)

lemma claim_opens:
  assumes inv: "ledger_inv db" and e0: "e0 \<in> set (t_effects db)" "P e0"
    and P: "\<And>e. P e \<Longrightarrow> e_id e = e_id e0"
    and op: "effect_by_id (e_id e0) (db\<lparr>t_effects := sql_update P f (t_effects db)\<rparr>) = Some (f e0)"
    and free: "\<forall>a \<in> set (t_attempts db). a_id a \<noteq> aid \<and> \<not> (a_effect a = e_id e0 \<and> a_attempt a = n)"
    and db': "db' = db\<lparr>t_effects := sql_update P f (t_effects db),
       t_attempts := t_attempts db @ [opened_attempt aid (e_id e0) n owner v tok at]\<rparr>"
    and mv: "\<And>a. fresh_attempt e0 n a \<Longrightarrow> \<forall>b \<in> attempts_of (e_id e0) db. a_attempt b \<noteq> n \<Longrightarrow>
       emove (attempts_of (e_id e0) db, e0) (insert a (attempts_of (e_id e0) db), f e0)"
  shows "ledger_move db db'"
proof (rule ledger_move_single [where P = P and f = f, OF inv e0])
  show "e_id e = e_id e0" if "P e" for e by (rule P [OF that])
next
  let ?a = "opened_attempt aid (e_id e0) n owner v tok at"
  show "t_effects db' = sql_update P f (t_effects db)" by (simp add: db')
  show "attempts_of j db' = attempts_of j db" if "j \<noteq> e_id e0" for j
    using that by (simp add: db')
  show "unique_index (\<lambda>_. True) a_id (t_attempts db')"
    using inv free by (auto simp: db' ledger_inv_def unique_index_snoc)
  have "attempts_of (e_id e0) db' = insert ?a (attempts_of (e_id e0) db)"
    by (simp add: db')
  with free show "emove (attempts_of (e_id e0) db, e0) (attempts_of (e_id e0) db', f e0)"
    using mv [of ?a] by (auto simp: fresh_attempt_def attempts_of_def)
qed

lemma claim_send_cases:
  assumes "ledger_inv db" "claim_send i owner lu expected now aid tok db = (db', r)"
  obtains (fail) err where "r = Inl err" "db' = db"
  | (opened) e a where "e \<in> set (t_effects db)" "e_id e = i" "e_status e = EfPlanned"
      "e_attempt e = expected" "owner \<noteq> []" "unix_milli now \<le> unix_milli lu" "a \<notin> set (t_attempts db)"
      "attempts_of i db' = insert a (attempts_of i db)" "fresh_attempt e expected a" "a_token a = tok"
      "effect_by_id i db' = Some (e\<lparr>e_status := EfStarted, e_owner := owner,
         e_lease := Some (unix_milli lu), e_settled := None, e_version := e_version e + 1,
         e_updated := unix_milli now\<rparr>)"
      "\<exists>c. r = Inr c \<and> ec_attempt c = expected \<and> ec_token c = tok"
      "ledger_move db db'"
proof -
  let ?P = "\<lambda>e. e_id e = i \<and> e_status e = EfPlanned \<and> e_attempt e = expected"
  let ?f = "\<lambda>e. e\<lparr>e_status := EfStarted, e_owner := owner,
       e_lease := Some (unix_milli lu), e_settled := None,
       e_version := e_version e + 1, e_updated := unix_milli now\<rparr>"
  let ?db1 = "db\<lparr>t_effects := sql_update ?P ?f (t_effects db)\<rparr>"
  show thesis
  proof (cases "validate_claim i owner lu now \<and> sql_count ?P (t_effects db) \<noteq> 0")
    case False
    then have "db' = db \<and> (\<exists>err. r = Inl err)"
      using assms(2) by (auto simp: claim_send_def update_effect_def split: if_splits)
    then show thesis using fail by auto
  next
    case True
    then have v: "validate_claim i owner lu now" and n: "sql_count ?P (t_effects db) \<noteq> 0"
      by auto
    then obtain e where e: "e \<in> set (t_effects db)" "?P e" 
      using sql_count_pos [of ?P "t_effects db"] by blast
    have id: "effect_by_id i db = Some e" using effect_by_id_unique [OF assms(1) e(1)] e(2) by simp
    then have id1: "effect_by_id i ?db1 = Some (?f e)"
      using effect_by_id_update [OF id, of ?P ?f] e(2) by simp
    have oc: "open_claim aid tok i expected owner (unix_milli now) db ?db1 = (db', r)"
      using assms(2) v n by (simp add: claim_send_def update_effect_def)
    from oc show thesis
    proof (cases rule: open_claim_cases)
      case (fail err)
      then show thesis by (rule that(1))
    next
      case (opened e1)
      let ?a = "opened_attempt aid i expected owner (e_version e1) tok (unix_milli now)"
      have at: "attempts_of i db' = insert ?a (attempts_of i db)" using opened(3) by simp
      have free: "\<forall>a \<in> set (t_attempts db). a_id a \<noteq> aid \<and> \<not> (a_effect a = i \<and> a_attempt a = expected)"
        using opened(2) by simp
      have ow: "owner \<noteq> []" using v by (simp add: validate_claim_def)
      have id': "effect_by_id i db' = Some (?f e)"
        using id1 opened(3) by (simp add: effect_by_id_def)
      have "ledger_move db db'"
      proof (rule claim_opens [OF assms(1) e(1), where P = ?P and f = ?f and aid = aid and n = expected])
        show "db' = db\<lparr>t_effects := sql_update ?P ?f (t_effects db), t_attempts :=
           t_attempts db @ [opened_attempt aid (e_id e) expected owner (e_version e1) tok (unix_milli now)]\<rparr>"
          using opened(3) e(2) by simp
      qed (use e ow free id1 in \<open>auto intro: emove.send\<close>)
      with e ow at free id' opened(4) v show thesis
        by (intro that(2) [of e ?a])
          (auto simp: fresh_attempt_def validate_claim_def intro: unix_milli_mono)
    qed
  qed
qed

lemma claim_retry_cases:
  assumes "ledger_inv db" "claim_retry i owner lu expected m now aid tok db = (db', r)"
  obtains (fail) err where "r = Inl err" "db' = db"
  | (opened) e a where "e \<in> set (t_effects db)" "e_id e = i" "e_status e = EfStarted"
      "e_attempt e = expected" "\<exists>t. e_next e = Some t \<and> t \<le> unix_milli now" "expected + 1 < m"
      "owner \<noteq> []" "unix_milli now \<le> unix_milli lu" "a \<notin> set (t_attempts db)"
      "attempts_of i db' = insert a (attempts_of i db)"
      "fresh_attempt e (expected + 1) a" "a_token a = tok"
      "effect_by_id i db' = Some (e\<lparr>e_attempt := e_attempt e + 1, e_owner := owner,
         e_lease := Some (unix_milli lu), e_version := e_version e + 1, e_next := None,
         e_settled := None, e_updated := unix_milli now\<rparr>)"
      "\<exists>c. r = Inr c \<and> ec_attempt c = expected + 1 \<and> ec_token c = tok"
      "ledger_move db db'"
proof -
  let ?P = "\<lambda>e. e_id e = i \<and> e_status e = EfStarted \<and> e_attempt e = expected \<and>
       (\<exists>t \<in> set_option (e_next e). t \<le> unix_milli now) \<and> e_attempt e + 1 < m"
  let ?f = "\<lambda>e. e\<lparr>e_attempt := e_attempt e + 1, e_owner := owner,
       e_lease := Some (unix_milli lu), e_version := e_version e + 1,
       e_next := None, e_settled := None, e_updated := unix_milli now\<rparr>"
  let ?db1 = "db\<lparr>t_effects := sql_update ?P ?f (t_effects db)\<rparr>"
  show thesis
  proof (cases "validate_claim i owner lu now \<and> \<not> m \<le> 0 \<and> sql_count ?P (t_effects db) \<noteq> 0")
    case False
    then have "db' = db \<and> (\<exists>err. r = Inl err)"
      using assms(2) by (auto simp: claim_retry_def update_effect_def split: if_splits)
    then show thesis using fail by auto
  next
    case True
    then have v: "validate_claim i owner lu now" and n: "sql_count ?P (t_effects db) \<noteq> 0"
      by auto
    then obtain e where e: "e \<in> set (t_effects db)" "?P e" 
      using sql_count_pos [of ?P "t_effects db"] by blast
    have id: "effect_by_id i db = Some e" using effect_by_id_unique [OF assms(1) e(1)] e(2) by simp
    then have id1: "effect_by_id i ?db1 = Some (?f e)"
      using effect_by_id_update [OF id, of ?P ?f] e(2) by simp
    have oc: "open_claim aid tok i (expected + 1) owner (unix_milli now) db ?db1 = (db', r)"
      using assms(2) v n True by (simp add: claim_retry_def update_effect_def)
    from oc show thesis
    proof (cases rule: open_claim_cases)
      case (fail err)
      then show thesis by (rule that(1))
    next
      case (opened e1)
      let ?a = "opened_attempt aid i (expected + 1) owner (e_version e1) tok (unix_milli now)"
      have at: "attempts_of i db' = insert ?a (attempts_of i db)" using opened(3) by simp
      have free: "\<forall>a \<in> set (t_attempts db).
          a_id a \<noteq> aid \<and> \<not> (a_effect a = i \<and> a_attempt a = expected + 1)"
        using opened(2) by simp
      have ow: "owner \<noteq> []" using v by (simp add: validate_claim_def)
      have id': "effect_by_id i db' = Some (?f e)"
        using id1 opened(3) by (simp add: effect_by_id_def)
      have "ledger_move db db'"
      proof (rule claim_opens [OF assms(1) e(1), where P = ?P and f = ?f and aid = aid and n = "expected + 1"])
        show "db' = db\<lparr>t_effects := sql_update ?P ?f (t_effects db), t_attempts := t_attempts db @
           [opened_attempt aid (e_id e) (expected + 1) owner (e_version e1) tok (unix_milli now)]\<rparr>"
          using opened(3) e(2) by simp
      qed (use e ow free id1 in \<open>auto intro!: emove.retry\<close>)
      with e ow at free id' opened(4) v show thesis
        by (intro that(2) [of e ?a])
          (auto simp: fresh_attempt_def validate_claim_def intro: unix_milli_mono)
    qed
  qed
qed

lemma attempts_of_update:
  assumes "ledger_inv db" "a0 \<in> set (t_attempts db)" "P a0"
    and P: "\<And>a. a \<in> set (t_attempts db) \<Longrightarrow> P a \<Longrightarrow> a = a0"
    and f: "a_effect (f a0) = a_effect a0" "a_id (f a0) = a_id a0"
    and db': "t_attempts db' = sql_update P f (t_attempts db)"
  shows "attempts_of (a_effect a0) db' = insert (f a0) (attempts_of (a_effect a0) db - {a0})"
    "j \<noteq> a_effect a0 \<Longrightarrow> attempts_of j db' = attempts_of j db"
    "unique_index (\<lambda>_. True) a_id (t_attempts db')"
proof -
  have s: "set (t_attempts db') = insert (f a0) (set (t_attempts db) - {a0})"
  proof -
    have "(if P a then f a else a) = (if a = a0 then f a0 else a)" if "a \<in> set (t_attempts db)" for a
      using P [OF that] assms(3) by (cases "P a") auto
    then have "set (t_attempts db') = (\<lambda>a. if a = a0 then f a0 else a) ` set (t_attempts db)"
      unfolding db' set_sql_update by (rule image_cong [OF refl])
    with assms(2) show ?thesis by auto
  qed
  show "attempts_of (a_effect a0) db' = insert (f a0) (attempts_of (a_effect a0) db - {a0})"
    using f unfolding attempts_of_def s by auto
  show "attempts_of j db' = attempts_of j db" if "j \<noteq> a_effect a0"
    using f that assms(2) unfolding attempts_of_def s by auto
  show "unique_index (\<lambda>_. True) a_id (t_attempts db')"
    unfolding db' 
  proof (rule unique_index_update_in)
    show "a_id (f a) = a_id a" if "a \<in> set (t_attempts db)" "P a" for a
      unfolding P [OF that] by (rule f(2))
  qed (use assms(1) in \<open>auto simp: ledger_inv_def\<close>)
qed

lemma attempt_pair_unique:
  assumes "ledger_inv db" "a \<in> set (t_attempts db)" "b \<in> set (t_attempts db)"
    "a_effect a = a_effect b" "a_attempt a = a_attempt b"
  shows "a = b"
proof -
  obtain e where e: "e \<in> set (t_effects db)" "e_id e = a_effect a"
    using assms(1,2) by (auto simp: ledger_inv_def)
  then have "inj_on a_attempt (attempts_of (a_effect a) db)"
    using assms(1) effect_okD(5) by (fastforce simp: ledger_inv_def)
  then show ?thesis by (rule inj_onD) (use assms in \<open>auto simp: attempts_of_def\<close>)
qed

lemma complete_send_cases:
  assumes "ledger_inv db" "complete_send c db = (db', r)"
  obtains (fail) err where "r = Some err" "db' = db"
  | (finished) e a s where "e \<in> set (t_effects db)" "e_id e = co_effect c" "e_status e = EfStarted"
      "e_attempt e = co_attempt c" "a \<in> attempts_of (co_effect c) db" "in_flight a"
      "a_attempt a = co_attempt c" "a_token a = co_token c"
      "effect_status_for (co_outcome c) (co_class c) = Inr s" "r = None"
      "effect_by_id (co_effect c) db' = Some (apply_completion c s e)"
      "attempts_of (co_effect c) db' = insert (finish_attempt c a) (attempts_of (co_effect c) db - {a})"
      "ledger_move db db'"
proof -
  let ?Q = "\<lambda>a. a_effect a = co_effect c \<and> a_attempt a = co_attempt c \<and> a_token a = co_token c \<and> in_flight a"
  let ?P = "\<lambda>e. e_id e = co_effect c \<and> e_status e = EfStarted \<and> e_attempt e = co_attempt c"
  let ?db1 = "db\<lparr>t_attempts := sql_update ?Q (finish_attempt c) (t_attempts db)\<rparr>"
  show thesis
  proof (cases "\<exists>s. effect_status_for (co_outcome c) (co_class c) = Inr s \<and> r = None")
    case False
    then have "db' = db \<and> (\<exists>err. r = Some err)"
      using assms(2)
      by (auto simp: complete_send_def update_effect_def update_attempt_def split: if_splits sum.splits)
    then show thesis using fail by auto
  next
    case True
    then obtain s where s: "effect_status_for (co_outcome c) (co_class c) = Inr s" "r = None" by auto
    then have na: "sql_count ?Q (t_attempts db) \<noteq> 0" and ne: "sql_count ?P (t_effects db) \<noteq> 0"
      and db': "db' = ?db1\<lparr>t_effects := sql_update ?P (apply_completion c s) (t_effects db)\<rparr>"
      using assms(2)
      by (auto simp: complete_send_def update_effect_def update_attempt_def split: if_splits)
    obtain a where a: "a \<in> set (t_attempts db)" "?Q a"
      using na sql_count_pos [of ?Q "t_attempts db"] by blast
    obtain e where e: "e \<in> set (t_effects db)" "?P e"
      using ne sql_count_pos [of ?P "t_effects db"] by blast
    have one: "b = a" if "b \<in> set (t_attempts db)" "?Q b" for b
      using attempt_pair_unique [OF assms(1) that(1) a(1)] that(2) a(2) by simp
    have at: "t_attempts db' = sql_update ?Q (finish_attempt c) (t_attempts db)" by (simp add: db')
    note up = attempts_of_update [where P = ?Q and f = "finish_attempt c" and db' = db',
        OF assms(1) a one finish_attempt_sel(2,3) at]
    have eff: "a_effect a = co_effect c" using a(2) by simp
    have fin: "attempts_of (co_effect c) db' =
        insert (finish_attempt c a) (attempts_of (co_effect c) db - {a})"
      "\<And>j. j \<noteq> co_effect c \<Longrightarrow> attempts_of j db' = attempts_of j db"
      "unique_index (\<lambda>_. True) a_id (t_attempts db')"
      using up unfolding eff by blast+
    have in_a: "a \<in> attempts_of (co_effect c) db" using a by (simp add: attempts_of_def)
    have mv: "ledger_move db db'"
    proof (rule ledger_move_single [where P = ?P and f = "apply_completion c s", OF assms(1) e])
      show "emove (attempts_of (e_id e) db, e) (attempts_of (e_id e) db', apply_completion c s e)"
        using e(2) fin(1) a in_a s(1) by (auto intro: emove.complete)
    qed (use e(2) fin in \<open>auto simp: db'\<close>)
    have "effect_by_id (co_effect c) db = Some e"
      using effect_by_id_unique [OF assms(1) e(1)] e(2) by simp
    then have "effect_by_id (co_effect c) db' = Some (apply_completion c s e)"
      using e(2) by (simp add: db' effect_by_id_def sql_row_update apply_completion_def)
    then show thesis
      using e a in_a s fin(1) mv by (intro finished [of e a s]) auto
  qed
qed

lemma expire_one_move:
  assumes "ledger_inv db" "e \<in> set (t_effects db)" "lease_lapsed at e"
  shows "ledger_move db (expire_one at e db)"
    "\<And>e'. e' \<in> set (t_effects db) \<Longrightarrow> e' \<noteq> e \<Longrightarrow> e' \<in> set (t_effects (expire_one at e db))"
proof -
  let ?P = "\<lambda>r. e_id r = e_id e \<and> lease_lapsed at r"
  let ?Q = "\<lambda>a. a_effect a = e_id e \<and> a_attempt a = e_attempt e \<and> in_flight a"
  let ?db' = "expire_one at e db"
  have db': "t_effects ?db' = sql_update ?P (expire_effect at) (t_effects db)"
    "t_attempts ?db' = sql_update ?Q (expire_attempt at) (t_attempts db)"
    by (simp_all add: expire_one_def update_effect_def update_attempt_def)
  have ok: "effect_ok (attempts_of (e_id e) db) e"
    using assms(1,2) by (simp add: ledger_inv_def)
  have st: "e_status e = EfStarted" "e_lease e \<noteq> None"
    using assms(3) by (auto simp: lease_lapsed_def)
  obtain a where a: "a \<in> attempts_of (e_id e) db" "in_flight a" using effect_okD(7) [OF ok st(2)] by auto
  then have n: "a_attempt a = e_attempt e" using effect_okD(4) [OF ok] by simp
  have in_a: "a \<in> set (t_attempts db)" "?Q a" using a n by (auto simp: attempts_of_def)
  have one: "b = a" if "b \<in> set (t_attempts db)" "?Q b" for b
    using attempt_pair_unique [OF assms(1) that(1) in_a(1)] that(2) in_a(2) by simp
  note up = attempts_of_update [where P = ?Q and f = "expire_attempt at" and db' = ?db',
      OF assms(1) in_a one expire_attempt_sel(2,3) db'(2)]
  have eff: "a_effect a = e_id e" using in_a(2) by simp
  have fin: "attempts_of (e_id e) ?db' = insert (expire_attempt at a) (attempts_of (e_id e) db - {a})"
    "\<And>j. j \<noteq> e_id e \<Longrightarrow> attempts_of j ?db' = attempts_of j db"
    "unique_index (\<lambda>_. True) a_id (t_attempts ?db')"
    using up unfolding eff by blast+
  show "ledger_move db ?db'"
  proof (rule ledger_move_single [where P = ?P and f = "expire_effect at", OF assms(1,2)])
    show "emove (attempts_of (e_id e) db, e) (attempts_of (e_id e) ?db', expire_effect at e)"
      unfolding fin(1) using st a n by (intro emove.expire) auto
  qed (use assms(3) fin db' in auto)
  show "e' \<in> set (t_effects ?db')" if "e' \<in> set (t_effects db)" "e' \<noteq> e" for e'
  proof -
    have "e_id e' \<noteq> e_id e"
      using assms(1,2) that unique_index_eq [of "\<lambda>_. True" e_id "t_effects db" e' e]
      by (auto simp: ledger_inv_def)
    then show ?thesis using that(1) unfolding db' set_sql_update by (auto simp: image_iff)
  qed
qed

text \<open>The three statements that settle an effect share one shape.\<close>

lemma decide_move:
  assumes inv: "ledger_inv db" and e: "e \<in> set (t_effects db)" "e_id e = i" "e_status e = x"
    and f: "\<And>r. decide s r (f r) \<or> (e_settled r = None \<and> settled_status (e_status r))"
    and x: "x = EfUnknown \<and> s \<in> {EfPlanned, EfFailed, EfReconciledSucceeded, EfReconciledFailed} \<or>
      (x = EfUnknown \<or> x = EfFailed) \<and> s = EfFenced"
    and db': "db' = db\<lparr>t_effects := sql_update (\<lambda>r. e_id r = i \<and> e_status r = x) f (t_effects db)\<rparr>"
  shows "ledger_move db db'" "decide s e (f e)"
    "effect_by_id i db' = Some (f e)" "attempts_of j db' = attempts_of j db"
proof -
  let ?P = "\<lambda>r. e_id r = i \<and> e_status r = x"
  have ok: "effect_ok (attempts_of (e_id e) db) e" using inv e(1) by (simp add: ledger_inv_def)
  show d: "decide s e (f e)" using f [of e] effect_okD(12) [OF ok] by auto
  show at: "attempts_of j db' = attempts_of j db" for j by (simp add: db')
  have mv: "emove (attempts_of (e_id e) db, e) (attempts_of (e_id e) db', f e)"
    unfolding at using e(3) d x by (auto intro: emove.operator emove.reconcile emove.fence)
  show "ledger_move db db'"
    by (rule ledger_move_single [where P = ?P and f = f, OF inv e(1) _ _ _ _ _ mv])
      (use e at inv in \<open>auto simp: db' ledger_inv_def\<close>)
  have row: "sql_row (\<lambda>r. e_id r = i) (t_effects db) = Some e"
    using effect_by_id_unique [OF inv e(1)] e(2) by (simp add: effect_by_id_def)
  have one: "r = e" if "r \<in> set (t_effects db)" "?P r" for r
    using inv that e unique_index_eq [of "\<lambda>_. True" e_id "t_effects db" r e]
    by (auto simp: ledger_inv_def)
  have "sql_update ?P f (t_effects db) = sql_update (\<lambda>r. r = e) (\<lambda>r. f e) (t_effects db)"
  proof (rule sql_update_cong)
    show "?P r = (r = e)" if "r \<in> set (t_effects db)" for r
      using one [OF that] e(2,3) by blast
  qed simp
  then have "db' = db\<lparr>t_effects := sql_update (\<lambda>r. r = e) (\<lambda>r. f e) (t_effects db)\<rparr>"
    by (simp add: db')
  moreover have "e_id (f e) = i" using d e(2) by (simp add: decide_def)
  ultimately show "effect_by_id i db' = Some (f e)"
    using row e(2) sql_row_update [where P = "\<lambda>r. r = e" and f = "\<lambda>r. f e" and
      Q = "\<lambda>r. e_id r = i" and t = "t_effects db"] by (simp add: effect_by_id_def)
qed

lemma update_effect_guard:
  assumes "sql_count P (t_effects db) \<noteq> 0"
  obtains e where "e \<in> set (t_effects db)" "P e"
  using sql_count_pos [of P "t_effects db"] assms by blast

lemma unique_count:
  assumes "ledger_inv db" "e \<in> set (t_effects db)" "P e" "\<And>r. P r \<Longrightarrow> e_id r = e_id e"
  shows "sql_count P (t_effects db) = 1"
proof -
  have d: "distinct (map e_id (t_effects db))"
    using assms(1) by (simp add: ledger_inv_def unique_index_def)
  have one: "r = e" if "r \<in> set (t_effects db)" "P r" for r
    using d assms(2) assms(4) [OF that(2)] that(1) by (auto simp: distinct_map dest: inj_onD)
  have "set (filter P (t_effects db)) = {e}"
    unfolding set_filter using assms(2,3) one by blast
  moreover have "distinct (filter P (t_effects db))" using d by (simp add: distinct_map)
  ultimately show ?thesis
    unfolding sql_count_def using distinct_card [of "filter P (t_effects db)"] by simp
qed

lemma operator_cases:
  assumes "ledger_inv db" "apply_operator_action i d expected reason evidence now db = (db', r)"
  obtains (fail) err where "r = Inl err" "db' = db"
  | (decided) e e' where "e \<in> set (t_effects db)" "e_id e = i" "e_status e = EfUnknown"
      "decide (target_status_for_decision d) e e'" "effect_by_id i db' = Some e'" "r = Inr e'"
      "e_evidence e' = evidence" "e_reason e' = ''operator: '' @ reason"
      "e_error e' = operator_error_code d"
      "attempts_of i db' = attempts_of i db" "ledger_move db db'"
proof (cases "operator_valid i d expected reason evidence \<and>
    sql_count (\<lambda>e. e_id e = i \<and> e_status e = expected) (t_effects db) \<noteq> 0")
  case False
  then have "db' = db \<and> (\<exists>err. r = Inl err)"
    using assms(2) by (auto simp: apply_operator_action_def update_effect_def Let_def split: if_splits)
  then show ?thesis using fail by auto
next
  case True
  let ?t = "target_status_for_decision d"
  let ?f = "\<lambda>e. e\<lparr>e_status := ?t, e_error := operator_error_code d,
      e_reason := ''operator: '' @ reason, e_evidence := evidence, e_owner := [], e_lease := None,
      e_next := None, e_settled := (if ?t = EfPlanned then None else Some (unix_milli now)),
      e_updated := unix_milli now\<rparr>"
  let ?db' = "db\<lparr>t_effects := sql_update (\<lambda>r. e_id r = i \<and> e_status r = EfUnknown) ?f (t_effects db)\<rparr>"
  have v: "operator_valid i d EfUnknown reason evidence" "expected = EfUnknown"
    using True by (auto simp: operator_valid_def)
  then obtain e where e: "e \<in> set (t_effects db)" "e_id e = i" "e_status e = EfUnknown"
    using True update_effect_guard [of "\<lambda>e. e_id e = i \<and> e_status e = EfUnknown" db] by auto
  have f: "\<And>r. decide ?t r (?f r) \<or> (e_settled r = None \<and> settled_status (e_status r))"
    by (simp add: decide_def business_key_def target_status_for_decision_def settled_status_def)
  note dm = decide_move [where f = ?f and s = ?t and x = EfUnknown, OF assms(1) e f _ refl]
  have x: "EfUnknown = EfUnknown \<and> ?t \<in> {EfPlanned, EfFailed, EfReconciledSucceeded, EfReconciledFailed}
      \<or> (EfUnknown = EfUnknown \<or> EfUnknown = EfFailed) \<and> ?t = EfFenced"
    by (simp add: target_status_for_decision_def)
  have "(db', r) = (?db', Inr (?f e))"
    using assms(2) True v dm(3) [OF x]
    by (simp add: apply_operator_action_def update_effect_def Let_def)
  then show ?thesis using dm [OF x] e by (intro decided [of e "?f e"]) auto
qed

lemma reconcile_cases:
  assumes "ledger_inv db"
    "reconcile_unknown i o1 expected provider evidence reason now db = (db', r)"
  obtains (fail) err where "r = Inl err" "db' = db"
  | (decided) e e' s where "e \<in> set (t_effects db)" "e_id e = i" "e_status e = EfUnknown"
      "reconcile_status_for o1 = Inr s" "decide s e e'" "effect_by_id i db' = Some e'" "r = Inr e'"
      "attempts_of i db' = attempts_of i db" "ledger_move db db'"
proof (cases "reconcile_valid i o1 expected provider evidence reason \<and>
    sql_count (\<lambda>e. e_id e = i \<and> e_status e = expected) (t_effects db) \<noteq> 0")
  case False
  have none: "sql_update P f (t_effects db) = t_effects db" if "sql_count P (t_effects db) = 0" for P f
    using that by (rule sql_update_none)
  have "db' = db \<and> (\<exists>err. r = Inl err)"
    using assms(2) False
    by (auto simp: reconcile_unknown_def update_effect_def none split: if_splits sum.splits)
  then show ?thesis using fail by auto
next
  case True
  then obtain s where s: "reconcile_status_for o1 = Inr s"
      by (cases "reconcile_status_for o1") (auto simp: reconcile_valid_def)
  have sc: "s = EfReconciledSucceeded \<or> s = EfReconciledFailed"
    using s by (auto simp: reconcile_status_for_def split: reconcile_outcome.splits)
  let ?f = "\<lambda>e. e\<lparr>e_status := s, e_error := reconcile_error_code o1, e_reason := reason,
      e_provider := provider, e_evidence := evidence, e_owner := [], e_lease := None,
      e_next := None, e_settled := Some (unix_milli now), e_updated := unix_milli now\<rparr>"
  let ?P = "\<lambda>r. e_id r = i \<and> e_status r = EfUnknown"
  let ?db' = "db\<lparr>t_effects := sql_update ?P ?f (t_effects db)\<rparr>"
  have v: "reconcile_valid i o1 EfUnknown provider evidence reason" "expected = EfUnknown"
    using True by (auto simp: reconcile_valid_def)
  then obtain e where e: "e \<in> set (t_effects db)" "e_id e = i" "e_status e = EfUnknown"
    using True update_effect_guard [of ?P db] by auto
  have n: "sql_count ?P (t_effects db) = 1" using unique_count [where P = ?P, OF assms(1) e(1)] e by auto
  have f: "\<And>r. decide s r (?f r) \<or> (e_settled r = None \<and> settled_status (e_status r))"
    using sc by (auto simp: decide_def business_key_def settled_status_def)
  note dm = decide_move [where f = ?f and s = s and x = EfUnknown, OF assms(1) e f _ refl]
  have x: "EfUnknown = EfUnknown \<and> s \<in> {EfPlanned, EfFailed, EfReconciledSucceeded, EfReconciledFailed}
      \<or> (EfUnknown = EfUnknown \<or> EfUnknown = EfFailed) \<and> s = EfFenced"
    using sc by auto
  have "(db', r) = (?db', Inr (?f e))"
    using assms(2) s v n dm(3) [OF x] by (simp add: reconcile_unknown_def update_effect_def)
  then show ?thesis using dm [OF x] e s by (intro decided [of e s "?f e"]) auto
qed

lemma fence_cases:
  assumes "ledger_inv db" "fence_effect i expected reason now db = (db', r)"
  obtains (fail) err where "r = Inl err" "db' = db"
  | (decided) e e' where "e \<in> set (t_effects db)" "e_id e = i"
      "e_status e = EfUnknown \<or> e_status e = EfFailed"
      "decide EfFenced e e'" "effect_by_id i db' = Some e'" "r = Inr e'"
      "attempts_of i db' = attempts_of i db" "ledger_move db db'"
proof (cases "fence_valid i expected reason \<and>
    sql_count (\<lambda>e. e_id e = i \<and> e_status e = expected) (t_effects db) \<noteq> 0")
  case False
  have none: "sql_update P f (t_effects db) = t_effects db" if "sql_count P (t_effects db) = 0" for P f
    using that by (rule sql_update_none)
  have "db' = db \<and> (\<exists>err. r = Inl err)"
    using assms(2) False by (auto simp: fence_effect_def update_effect_def none split: if_splits)
  then show ?thesis using fail by auto
next
  case True
  let ?f = "\<lambda>e. e\<lparr>e_status := EfFenced, e_error := ''fenced'', e_reason := ''fenced: '' @ reason,
      e_owner := [], e_lease := None, e_next := None,
      e_settled := (case e_settled e of None \<Rightarrow> Some (unix_milli now) | Some t \<Rightarrow> Some t),
      e_updated := unix_milli now\<rparr>"
  let ?P = "\<lambda>r. e_id r = i \<and> e_status r = expected"
  let ?db' = "db\<lparr>t_effects := sql_update ?P ?f (t_effects db)\<rparr>"
  have v: "fence_valid i expected reason" "expected = EfUnknown \<or> expected = EfFailed"
    using True by (auto simp: fence_valid_def)
  obtain e where e: "e \<in> set (t_effects db)" "e_id e = i" "e_status e = expected"
    using True update_effect_guard [of ?P db] by auto
  have n: "sql_count ?P (t_effects db) = 1" using unique_count [where P = ?P, OF assms(1) e(1)] e by auto
  have f: "\<And>r. decide EfFenced r (?f r) \<or> (e_settled r = None \<and> settled_status (e_status r))"
    by (auto simp: decide_def business_key_def settled_status_def split: option.splits)
  note dm = decide_move [where f = ?f and s = EfFenced and x = expected, OF assms(1) e f _ refl]
  have x: "expected = EfUnknown \<and> EfFenced \<in> {EfPlanned, EfFailed, EfReconciledSucceeded, EfReconciledFailed}
      \<or> (expected = EfUnknown \<or> expected = EfFailed) \<and> EfFenced = EfFenced"
    using v by auto
  have "(db', r) = (?db', Inr (?f e))"
    using assms(2) v n dm(3) [OF x] by (simp add: fence_effect_def update_effect_def)
  then show ?thesis using dm [OF x] e v by (intro decided [of e "?f e"]) auto
qed

lemma attempt_gc_move:
  assumes "ledger_inv db" "delete_settled_attempts now limit db = (db', n)"
  shows "ledger_move db db'"
    "e \<in> set (t_effects db) \<Longrightarrow> \<not> settled_status (e_status e) \<Longrightarrow>
       attempts_of (e_id e) db' = attempts_of (e_id e) db"
proof -
  let ?V = "take (nat limit)
      (sql_select (attempts_released (unix_milli now) db) attempt_gc_key (t_attempts db))"
  have same: "t_effects db' = t_effects db"
    using assms(2) by (auto simp: delete_settled_attempts_def Let_def split: if_splits)
  have sub: "set (t_attempts db') \<subseteq> set (t_attempts db)"
    using assms(2) by (auto simp: delete_settled_attempts_def Let_def split: if_splits)
  have ids: "unique_index (\<lambda>_. True) a_id (t_attempts db)"
    "unique_index (\<lambda>_. True) e_id (t_effects db)"
    using assms(1) by (auto simp: ledger_inv_def)
  have gone: "\<exists>e \<in> set (t_effects db). e_id e = a_effect a \<and> settled_status (e_status e)"
    if a: "a \<in> set (t_attempts db)" "a \<notin> set (t_attempts db')" for a
  proof -
    have "a_id a \<in> a_id ` set ?V"
      using assms(2) a by (auto simp: delete_settled_attempts_def Let_def split: if_splits)
    then obtain b where b: "b \<in> set ?V" "a_id a = a_id b" by auto
    then have "b \<in> set (t_attempts db)" "attempts_released (unix_milli now) db b"
      by (auto dest: in_set_takeD)
    moreover from this have "b = a"
      using unique_index_eq [OF ids(1) _ a(1)] b(2) by simp
    ultimately show ?thesis by (auto simp: attempts_released_def)
  qed
  have keep: "attempts_of (e_id e) db' = attempts_of (e_id e) db"
    if e: "e \<in> set (t_effects db)" "\<not> settled_status (e_status e)" for e
  proof
    show "attempts_of (e_id e) db' \<subseteq> attempts_of (e_id e) db"
      using sub by (auto simp: attempts_of_def)
    show "attempts_of (e_id e) db \<subseteq> attempts_of (e_id e) db'"
    proof
      fix a assume a: "a \<in> attempts_of (e_id e) db"
      have "a \<in> set (t_attempts db')"
      proof (rule ccontr)
        assume "a \<notin> set (t_attempts db')"
        then obtain e1 where e1: "e1 \<in> set (t_effects db)" "e_id e1 = e_id e" "settled_status (e_status e1)"
          using gone [of a] a by (auto simp: attempts_of_def)
        then have "e1 = e" using unique_index_eq [OF ids(2) e1(1) e(1)] by simp
        with e1 e show False by simp
      qed
      with a show "a \<in> attempts_of (e_id e) db'" by (simp add: attempts_of_def)
    qed
  qed
  then show "e \<in> set (t_effects db) \<Longrightarrow> \<not> settled_status (e_status e) \<Longrightarrow>
       attempts_of (e_id e) db' = attempts_of (e_id e) db" .
  have "emove\<^sup>*\<^sup>* (attempts_of (e_id e) db, e) (attempts_of (e_id e) db', e)"
    if e: "e \<in> set (t_effects db)" for e
  proof (cases "settled_status (e_status e)")
    case True
    have "attempts_of (e_id e) db' \<subseteq> attempts_of (e_id e) db"
      using sub by (auto simp: attempts_of_def)
    with True show ?thesis by (blast intro: emove.forget)
  qed (use keep [OF e] in simp)
  moreover have "unique_index (\<lambda>_. True) a_id (t_attempts db')"
    using assms(2) ids(1)
    by (auto simp: delete_settled_attempts_def Let_def split: if_splits intro: unique_index_delete)
  moreover have "a_effect ` set (t_attempts db') \<subseteq> e_id ` set (t_effects db)"
    by (rule order_trans [OF image_mono [OF sub]]) (use assms(1) in \<open>simp add: ledger_inv_def\<close>)
  ultimately show "ledger_move db db'"
    using assms(1) same unfolding ledger_move_def ledger_inv_def
    by (intro conjI exI [of _ id] exI [of _ "[]"]) auto
qed

lemma payload_gc_same:
  assumes "delete_expired_payloads now limit db = (db', n)"
  shows "t_effects db' = t_effects db" "t_attempts db' = t_attempts db"
  using assms by (auto simp: delete_expired_payloads_def Let_def split: if_splits)

section \<open>The content an effect refers to\<close>

definition payload_of :: "effect_row \<Rightarrow> delivery_payload \<Rightarrow> bool" where
  "payload_of e d \<longleftrightarrow> d_id d = e_payload e \<and> d_sha d = e_sha e \<and>
     d_occurrence d = e_occurrence e \<and> d_execution d = e_execution e"

definition payload_inv :: "(string \<Rightarrow> string) \<Rightarrow> effect_db \<Rightarrow> bool" where
  "payload_inv sha db \<longleftrightarrow>
     unique_index (\<lambda>_. True) d_id (t_deliveries db) \<and>
     unique_index (\<lambda>_. True) (\<lambda>d. (d_occurrence d, d_execution d)) (t_deliveries db) \<and>
     (\<forall>d \<in> set (t_deliveries db). d_bytes d = int (length (d_content d)) \<and>
        (0 < d_bytes d \<longrightarrow> sha (d_content d) = d_sha d)) \<and>
     (\<forall>e \<in> set (t_effects db). \<exists>d \<in> set (t_deliveries db).
        payload_of e d \<and> (\<not> settled_status (e_status e) \<longrightarrow> 0 < d_bytes d))"

lemma payload_of_keep:
  assumes "payload_of e d" "business_key e' = business_key e" "e_execution e' = e_execution e"
    "e_payload e' = e_payload e" "e_sha e' = e_sha e"
  shows "payload_of e' d"
  using assms by (simp add: payload_of_def business_key_def)

lemma payload_inv_move:
  assumes "payload_inv sha db" "ledger_move db db'"
    "t_deliveries db' = t_deliveries db" "length (t_effects db') = length (t_effects db)"
  shows "payload_inv sha db'"
proof -
  obtain g new where g: "t_effects db' = map g (t_effects db) @ new"
    "\<forall>e \<in> set (t_effects db).
       emove\<^sup>*\<^sup>* (attempts_of (e_id e) db, e) (attempts_of (e_id e) db', g e)"
    using assms(2) unfolding ledger_move_def by (elim conjE exE) (rule that; assumption)
  have new: "new = []" using g(1) assms(4) by simp
  have "\<exists>d \<in> set (t_deliveries db). payload_of (g e) d \<and>
      (\<not> settled_status (e_status (g e)) \<longrightarrow> 0 < d_bytes d)"
    if e: "e \<in> set (t_effects db)" for e
  proof -
    obtain d where "d \<in> set (t_deliveries db)" "payload_of e d"
      "\<not> settled_status (e_status e) \<longrightarrow> 0 < d_bytes d"
      using assms(1) e unfolding payload_inv_def by blast
    then show ?thesis using emoves_keep [OF g(2) [rule_format, OF e]] payload_of_keep by blast
  qed
  then show ?thesis
    using assms(1) unfolding payload_inv_def assms(3) g(1) new by auto
qed

lemma payload_inv_gc:
  assumes "payload_inv sha db" "ledger_inv db" "delete_expired_payloads now limit db = (db', n)"
  shows "payload_inv sha db'"
proof (cases "limit \<le> 0")
  case True
  with assms show ?thesis by (simp add: delete_expired_payloads_def)
next
  case False
  let ?V = "take (nat limit) (sql_select (body_expired (unix_milli now) db)
      (\<lambda>d. (d_created d, d_id d)) (t_deliveries db))"
  let ?P = "\<lambda>d. 0 < d_bytes d \<and> d_id d \<in> set (map d_id ?V)"
  let ?f = "\<lambda>d. d\<lparr>d_content := [], d_bytes := 0\<rparr>"
  have db': "t_deliveries db' = sql_update ?P ?f (t_deliveries db)" "t_effects db' = t_effects db"
    using assms(3) False by (auto simp: delete_expired_payloads_def Let_def)
  note inv = assms(1) [unfolded payload_inv_def]
  have ids: "unique_index (\<lambda>_. True) d_id (t_deliveries db)" using inv by blast
  have settled: "settled_status (e_status e)"
    if d: "d \<in> set (t_deliveries db)" "?P d" and e: "e \<in> set (t_effects db)" "e_payload e = d_id d" for d e
  proof -
    obtain v where v: "v \<in> set ?V" "d_id v = d_id d" using d(2) by auto
    then have "v \<in> set (t_deliveries db)" "body_expired (unix_milli now) db v"
      by (auto dest: in_set_takeD)
    then have "body_released (unix_milli now) e" using e v(2) by (auto simp: body_expired_def)
    then show ?thesis
      using e(1) assms(2) effect_okD(12) [of "attempts_of (e_id e) db" e]
      by (auto simp: body_released_def ledger_inv_def split: option.splits)
  qed
  have pay: "\<exists>d \<in> set (t_deliveries db'). payload_of e d \<and> (\<not> settled_status (e_status e) \<longrightarrow> 0 < d_bytes d)"
    if e: "e \<in> set (t_effects db)" for e
  proof -
    obtain d where d: "d \<in> set (t_deliveries db)" "payload_of e d"
      "\<not> settled_status (e_status e) \<longrightarrow> 0 < d_bytes d" using inv e by blast
    let ?d = "if ?P d then ?f d else d"
    have "?d \<in> set (t_deliveries db')" unfolding db' set_sql_update using d(1) by (rule imageI)
    moreover have "payload_of e ?d" using d(2) by (simp add: payload_of_def)
    moreover have "0 < d_bytes ?d" if ns: "\<not> settled_status (e_status e)"
    proof -
      have "e_payload e = d_id d" using d(2) by (simp add: payload_of_def)
      then have "\<not> ?P d" using settled [OF d(1) _ e] ns by blast
      then show ?thesis using d(3) ns by (simp only: if_False not_False_eq_True simp_thms)
    qed
    ultimately show ?thesis by blast
  qed
  have "unique_index (\<lambda>_. True) d_id (t_deliveries db')"
    unfolding db' by (rule unique_index_update [OF ids]) simp_all
  moreover have "unique_index (\<lambda>_. True) (\<lambda>d. (d_occurrence d, d_execution d)) (t_deliveries db')"
    unfolding db' by (rule unique_index_update) (use inv in simp_all)
  moreover have "d_bytes d' = int (length (d_content d')) \<and>
      (0 < d_bytes d' \<longrightarrow> sha (d_content d') = d_sha d')" if "d' \<in> set (t_deliveries db')" for d'
  proof -
    obtain d where d: "d \<in> set (t_deliveries db)" "d' = (if ?P d then ?f d else d)"
      using \<open>d' \<in> _\<close> unfolding db' by (rule sql_update_elim)
    have "d_bytes d = int (length (d_content d)) \<and> (0 < d_bytes d \<longrightarrow> sha (d_content d) = d_sha d)"
      using inv d(1) by blast
    then show ?thesis unfolding d(2) by (cases "?P d") simp_all
  qed
  ultimately show ?thesis unfolding payload_inv_def using pay db'(2) by simp
qed
section \<open>Planning\<close>

lemma settle_payload_cases:
  assumes "settle_payload sha p at pid db = Inr (db1, ref)"
  obtains (fresh) "payload_for_execution (dp_occurrence p) (dp_execution p) db = None"
      "\<forall>d \<in> set (t_deliveries db). d_id d \<noteq> pid" "ref = pid"
      "db1 = db\<lparr>t_deliveries := t_deliveries db @ [planned_payload sha p at pid]\<rparr>"
  | (found) d where "payload_for_execution (dp_occurrence p) (dp_execution p) db = Some d"
      "d_bytes d \<noteq> 0" "d_sha d = sha (dp_content p)" "ref = d_id d" "db1 = db"
proof (cases "payload_for_execution (dp_occurrence p) (dp_execution p) db")
  case None
  then have "(\<forall>d \<in> set (t_deliveries db). d_id d \<noteq> pid) \<and> ref = pid \<and>
      db1 = db\<lparr>t_deliveries := t_deliveries db @ [planned_payload sha p at pid]\<rparr>"
    using assms by (auto simp: settle_payload_def split: if_splits)
  with None show ?thesis by (intro fresh) blast+
next
  case (Some d)
  then have "d_bytes d \<noteq> 0 \<and> d_sha d = sha (dp_content p) \<and> ref = d_id d \<and> db1 = db"
    using assms by (simp add: settle_payload_def split: if_splits)
  with Some show ?thesis by (intro found [of d]) blast+
qed

lemma settle_payload_same:
  assumes "settle_payload sha p at pid db = Inr (db1, ref)"
  shows "t_effects db1 = t_effects db" "t_attempts db1 = t_attempts db"
    "\<exists>xs. t_deliveries db1 = t_deliveries db @ xs"
  using assms by (cases rule: settle_payload_cases; simp)+

lemma settle_payload_inv:
  assumes "payload_inv sha db" "settle_payload sha p at pid db = Inr (db1, ref)" "dp_content p \<noteq> []"
  shows "payload_inv sha db1"
    "\<exists>d \<in> set (t_deliveries db1). d_id d = ref \<and> d_sha d = sha (dp_content p) \<and>
       d_occurrence d = dp_occurrence p \<and> d_execution d = dp_execution p \<and> 0 < d_bytes d"
proof -
  note inv = assms(1) [unfolded payload_inv_def]
  from assms(2) have "payload_inv sha db1 \<and>
     (\<exists>d \<in> set (t_deliveries db1). d_id d = ref \<and> d_sha d = sha (dp_content p) \<and>
       d_occurrence d = dp_occurrence p \<and> d_execution d = dp_execution p \<and> 0 < d_bytes d)"
  proof (cases rule: settle_payload_cases)
    case fresh
    let ?d = "planned_payload sha p at pid"
    have none: "\<forall>d \<in> set (t_deliveries db). (d_occurrence d, d_execution d) \<noteq> (d_occurrence ?d, d_execution ?d)"
      using fresh(1) by (simp add: payload_for_execution_def sql_row_None planned_payload_def)
    have d: "d_id ?d = pid" "d_bytes ?d = int (length (d_content ?d))" "sha (d_content ?d) = d_sha ?d"
      "d_sha ?d = sha (dp_content p)" "d_occurrence ?d = dp_occurrence p"
      "d_execution ?d = dp_execution p" "0 < d_bytes ?d"
      using assms(3) by (simp_all add: planned_payload_def)
    have ds: "t_deliveries db1 = t_deliveries db @ [?d]" "t_effects db1 = t_effects db"
      using fresh(4) by simp_all
    have "unique_index (\<lambda>_. True) d_id (t_deliveries db1)"
      unfolding ds unique_index_snoc using inv fresh(2) d(1) by simp
    moreover have "unique_index (\<lambda>_. True) (\<lambda>d. (d_occurrence d, d_execution d)) (t_deliveries db1)"
      unfolding ds unique_index_snoc using inv none by blast
    moreover have "\<forall>d \<in> set (t_deliveries db1). d_bytes d = int (length (d_content d)) \<and>
        (0 < d_bytes d \<longrightarrow> sha (d_content d) = d_sha d)"
      unfolding ds using inv d(2,3) by simp
    moreover have "\<forall>e \<in> set (t_effects db1). \<exists>d \<in> set (t_deliveries db1). payload_of e d \<and>
        (\<not> settled_status (e_status e) \<longrightarrow> 0 < d_bytes d)"
      unfolding ds set_append using inv by blast
    moreover have "\<exists>d \<in> set (t_deliveries db1). d_id d = ref \<and> d_sha d = sha (dp_content p) \<and>
       d_occurrence d = dp_occurrence p \<and> d_execution d = dp_execution p \<and> 0 < d_bytes d"
      unfolding ds(1) fresh(3) using d by (intro bexI [of _ ?d]) simp_all
    ultimately show ?thesis unfolding payload_inv_def by blast
  next
    case (found d)
    then have d: "d \<in> set (t_deliveries db)" "d_occurrence d = dp_occurrence p" "d_execution d = dp_execution p"
      using sql_row_Some [of _ "t_deliveries db" d] by (auto simp: payload_for_execution_def)
    then have "d_bytes d = int (length (d_content d))" using inv by blast
    with found(2) have "0 < d_bytes d" by simp
    with d found assms(1) show ?thesis by auto
  qed
  then show "payload_inv sha db1"
    "\<exists>d \<in> set (t_deliveries db1). d_id d = ref \<and> d_sha d = sha (dp_content p) \<and>
       d_occurrence d = dp_occurrence p \<and> d_execution d = dp_execution p \<and> 0 < d_bytes d" by auto
qed

lemma validate_plan_content: "validate_plan p = None \<Longrightarrow> dp_content p \<noteq> []"
  by (simp add: validate_plan_def split: if_splits)

lemma planned_effect_sel [simp]:
  "business_key (planned_effect sha cfg p at eid ref) = plan_key p"
  "e_id (planned_effect sha cfg p at eid ref) = eid"
  "e_status (planned_effect sha cfg p at eid ref) = EfPlanned"
  "planned_row (planned_effect sha cfg p at eid ref)"
  by (simp_all add: planned_effect_def business_key_def plan_key_def planned_row_def)

lemma planned_effect_payload:
  assumes "d_id d = ref" "d_sha d = sha (dp_content p)" "d_occurrence d = dp_occurrence p"
    "d_execution d = dp_execution p"
  shows "payload_of (planned_effect sha cfg p at eid ref) d"
  using assms by (simp add: payload_of_def planned_effect_def)

text \<open>The outcomes of \<open>PlanOnce\<close>.\<close>

lemma plan_once_cases:
  assumes "plan_once sha cfg p now eid pid db = (db', r)"
  obtains (fail) err where "r = Inl err" "db' = db"
  | (created) ref e db1 where "validate_plan p = None"
      "settle_payload sha p (unix_milli now) pid db = Inr (db1, ref)"
      "\<forall>e' \<in> set (t_effects db). business_key e' \<noteq> plan_key p \<and> e_id e' \<noteq> eid"
      "e = planned_effect sha cfg p (unix_milli now) eid ref" "r = Inr (e, True)"
      "db' = db1\<lparr>t_effects := t_effects db @ [e]\<rparr>"
  | (found) ref e where "validate_plan p = None"
      "settle_payload sha p (unix_milli now) pid db = Inr (db', ref)"
      "effect_by_key (plan_key p) db = Some e" "r = Inr (e, False)"
proof -
  let ?at = "unix_milli now"
  show thesis
  proof (cases "validate_plan p")
    case (Some err)
    then show thesis using assms
      by (intro fail [of err]) (auto simp: plan_once_def plan_with_payload_def)
  next
    case None
    show thesis
    proof (cases "settle_payload sha p ?at pid db")
      case (Inl err)
      then show thesis using assms None
        by (intro fail [of err]) (auto simp: plan_once_def plan_with_payload_def)
    next
      case (Inr x)
      obtain db1 ref where x: "x = (db1, ref)" by (cases x)
      then have s: "settle_payload sha p ?at pid db = Inr (db1, ref)" using Inr by simp
      note same = settle_payload_same [OF s]
      let ?e = "planned_effect sha cfg p ?at eid ref"
      show thesis
      proof (cases "effect_by_key (plan_key p) db")
        case None': None
        then have fresh: "\<forall>e' \<in> set (t_effects db). business_key e' \<noteq> plan_key p"
          by (simp add: effect_by_key_def sql_row_None)
        show thesis
        proof (cases "\<exists>e' \<in> set (t_effects db). e_id e' = eid")
          case True
          then show thesis using assms None s fresh
            by (intro fail [of EErrConstraint])
              (auto simp: plan_once_def plan_with_payload_def Let_def)
        next
          case False
          have "(db', r) = (db1\<lparr>t_effects := t_effects db @ [?e]\<rparr>, Inr (?e, True))"
            using assms None s fresh False same(1)
            by (simp add: plan_once_def plan_with_payload_def Let_def)
          then show thesis
            using None s fresh False by (intro created [of db1 ref ?e]) auto
        qed
      next
        case (Some e)
        then have "\<exists>e' \<in> set (t_effects db). business_key e' = plan_key p"
          using sql_row_Some by (fastforce simp: effect_by_key_def)
        then have "(db', r) = (db1, Inr (e, False))"
          using assms None s Some same(1)
          by (simp add: plan_once_def plan_with_payload_def Let_def effect_by_key_def)
        then show thesis using None s Some by (intro found [of ref e]) auto
      qed
    qed
  qed
qed

lemma plan_once_move:
  assumes "ledger_inv db" "payload_inv sha db" "plan_once sha cfg p now eid pid db = (db', r)"
  shows "ledger_move db db' \<and> payload_inv sha db'"
  using assms(3)
proof (cases rule: plan_once_cases)
  case (fail err)
  with assms show ?thesis by (auto intro: ledger_move_same)
next
  case (found ref e)
  note same = settle_payload_same [OF found(2)]
  show ?thesis
    using ledger_move_same [OF assms(1) same(1,2)] settle_payload_inv(1) [OF assms(2) found(2)]
      validate_plan_content [OF found(1)] by simp
next
  case (created ref e db1)
  note same = settle_payload_same [OF created(2)]
  note pi = settle_payload_inv [OF assms(2) created(2) validate_plan_content [OF created(1)]]
  have es: "t_effects db' = t_effects db @ [e]" "t_attempts db' = t_attempts db"
    using created(6) same(2) by simp_all
  have at: "attempts_of i db' = attempts_of i db" for i by (simp add: attempts_of_def es)
  note inv = assms(1) [unfolded ledger_inv_def]
  have none: "attempts_of (e_id e) db = {}"
    using inv created(3,4) by (fastforce simp: attempts_of_def)
  have "ledger_move db db'"
    unfolding ledger_move_def
  proof (intro conjI exI [of _ id] exI [of _ "[e]"])
    show "unique_index (\<lambda>_. True) e_id (t_effects db')"
      unfolding es unique_index_snoc using inv created(3,4) by simp
    show "unique_index (\<lambda>_. True) business_key (t_effects db')"
      unfolding es unique_index_snoc using inv created(3,4) by simp
  qed (use inv es at none created(4) in auto)
  moreover have "payload_inv sha db'"
  proof -
    obtain d where d: "d \<in> set (t_deliveries db1)" "d_id d = ref" "d_sha d = sha (dp_content p)"
       "d_occurrence d = dp_occurrence p" "d_execution d = dp_execution p" "0 < d_bytes d"
      using pi(2) by blast
    have "payload_of e d" unfolding created(4) by (rule planned_effect_payload) (rule d)+
    with d pi(1) same(1) show ?thesis unfolding payload_inv_def created(6) by auto
  qed
  ultimately show ?thesis by simp
qed

section \<open>The machine of the store\<close>

datatype effect_op =
    OpPlan planner_config delivery_plan instant effect_id string
  | OpClaimSend effect_id string instant int instant string string
  | OpClaimRetry effect_id string instant int int instant string string
  | OpComplete effect_completion
  | OpExpire instant int
  | OpOperator effect_id operator_decision effect_status string string instant
  | OpReconcile effect_id reconcile_outcome effect_status string string string instant
  | OpFence effect_id effect_status string instant
  | OpPayloadGc instant int
  | OpAttemptGc instant int

primrec effect_step :: "(string \<Rightarrow> string) \<Rightarrow> effect_op \<Rightarrow> effect_db \<Rightarrow> effect_db" where
  "effect_step sha (OpPlan cfg p now eid pid) db = fst (plan_once sha cfg p now eid pid db)"
| "effect_step sha (OpClaimSend i owner lu n now aid tok) db =
     fst (claim_send i owner lu n now aid tok db)"
| "effect_step sha (OpClaimRetry i owner lu n m now aid tok) db =
     fst (claim_retry i owner lu n m now aid tok db)"
| "effect_step sha (OpComplete c) db = fst (complete_send c db)"
| "effect_step sha (OpExpire now limit) db = fst (expire_leases now limit db)"
| "effect_step sha (OpOperator i d x reason evidence now) db =
     fst (apply_operator_action i d x reason evidence now db)"
| "effect_step sha (OpReconcile i o1 x provider evidence reason now) db =
     fst (reconcile_unknown i o1 x provider evidence reason now db)"
| "effect_step sha (OpFence i x reason now) db = fst (fence_effect i x reason now db)"
| "effect_step sha (OpPayloadGc now limit) db = fst (delete_expired_payloads now limit db)"
| "effect_step sha (OpAttemptGc now limit) db = fst (delete_settled_attempts now limit db)"

definition effect_inv :: "(string \<Rightarrow> string) \<Rightarrow> effect_db \<Rightarrow> bool" where
  "effect_inv sha db \<longleftrightarrow> ledger_inv db \<and> payload_inv sha db"

definition empty_ledger :: effect_db where
  "empty_ledger = \<lparr>t_effects = [], t_attempts = [], t_deliveries = []\<rparr>"

lemma empty_ledger_inv [simp]: "effect_inv sha empty_ledger"
  by (simp add: effect_inv_def empty_ledger_def ledger_inv_def payload_inv_def unique_index_def)

text \<open>Everything but planning and the retention of bodies leaves the contents alone.\<close>

definition same_shape :: "effect_db \<Rightarrow> effect_db \<Rightarrow> bool" where
  "same_shape db db' \<longleftrightarrow> t_deliveries db' = t_deliveries db \<and> length (t_effects db') = length (t_effects db)"

lemma same_shape_refl [simp]: "same_shape db db" by (simp add: same_shape_def)

lemma update_effect_shape: "same_shape db (fst (update_effect P f db))"
  by (simp add: same_shape_def update_effect_def)

lemma claim_shape:
  "same_shape db (fst (claim_send i owner lu n now aid tok db))"
  "same_shape db (fst (claim_retry i owner lu n m now aid tok db))"
  by (auto simp: claim_send_def claim_retry_def open_claim_def open_attempt_def same_shape_def
      update_effect_def split: option.splits)

lemma complete_shape: "same_shape db (fst (complete_send c db))"
  by (auto simp: complete_send_def same_shape_def update_effect_def update_attempt_def
      split: sum.splits)

lemma decide_shape:
  "same_shape db (fst (apply_operator_action i d x reason evidence now db))"
  "same_shape db (fst (reconcile_unknown i o1 x provider evidence reason now db))"
  "same_shape db (fst (fence_effect i x reason now db))"
  by (auto simp: apply_operator_action_def reconcile_unknown_def fence_effect_def same_shape_def
      update_effect_def Let_def split: option.splits sum.splits)

lemma expire_shape: "same_shape db (fst (expire_leases now limit db))"
proof -
  have "same_shape db (fold (expire_one at) es db)" for at es db
    by (induction es arbitrary: db)
      (auto simp: same_shape_def expire_one_def update_effect_def update_attempt_def)
  then show ?thesis by (simp add: expire_leases_def Let_def)
qed

lemma attempt_gc_shape: "same_shape db (fst (delete_settled_attempts now limit db))"
  by (auto simp: delete_settled_attempts_def same_shape_def Let_def)

lemma effect_move:
  assumes "effect_inv sha db" "ledger_move db db'" "same_shape db db'"
  shows "effect_inv sha db' \<and> ledger_le db db'"
  using assms
  by (auto simp: effect_inv_def same_shape_def intro: ledger_move_inv ledger_move_le payload_inv_move)

lemma expire_fold_inv:
  assumes "effect_inv sha db" "set es \<subseteq> set (t_effects db)" "\<forall>e \<in> set es. lease_lapsed at e" "distinct es"
  shows "effect_inv sha (fold (expire_one at) es db) \<and> ledger_le db (fold (expire_one at) es db)"
  using assms
proof (induction es arbitrary: db)
  case Nil
  then show ?case by (simp add: ledger_le_refl)
next
  case (Cons e es)
  let ?db1 = "expire_one at e db"
  have inv: "ledger_inv db" using Cons.prems(1) by (simp add: effect_inv_def)
  note step = expire_one_move [OF inv, of e at]
  have "same_shape db ?db1"
    by (simp add: expire_one_def update_effect_def update_attempt_def same_shape_def)
  then have mv: "effect_inv sha ?db1 \<and> ledger_le db ?db1"
    using effect_move [OF Cons.prems(1) step(1)] Cons.prems(2,3) by simp
  have sub: "set es \<subseteq> set (t_effects ?db1)"
    using Cons.prems(2-4) step(2) by auto
  have "effect_inv sha (fold (expire_one at) es ?db1) \<and> ledger_le ?db1 (fold (expire_one at) es ?db1)"
    by (rule Cons.IH) (use Cons.prems sub mv in auto)
  with mv show ?case by (auto intro: ledger_le_trans)
qed

lemma expire_leases_inv:
  assumes "effect_inv sha db"
  shows "effect_inv sha (fst (expire_leases now limit db)) \<and> ledger_le db (fst (expire_leases now limit db))"
proof (cases "limit \<le> 0")
  case False
  let ?L = "sql_select (lease_lapsed (unix_milli now)) lease_key (t_effects db)"
  have db': "fst (expire_leases now limit db) = fold (expire_one (unix_milli now)) (take (nat limit) ?L) db"
    using False by (simp add: expire_leases_def Let_def)
  have "distinct (t_effects db)"
    using assms by (auto simp: effect_inv_def ledger_inv_def intro: unique_index_distinct)
  then have "distinct ?L" by (simp add: sql_select_def)
  then show ?thesis unfolding db'
    by (intro expire_fold_inv [OF assms]) (auto dest!: in_set_takeD)
qed (use assms in \<open>simp add: expire_leases_def ledger_le_refl\<close>)

lemma effect_step_inv:
  assumes "effect_inv sha db"
  shows "effect_inv sha (effect_step sha op db) \<and> ledger_le db (effect_step sha op db)"
proof -
  have l: "ledger_inv db" using assms by (simp add: effect_inv_def)
  note same = ledger_move_same [OF l refl refl]
  show ?thesis
  proof (cases op)
    case (OpPlan cfg p now eid pid)
    obtain db' r where d: "plan_once sha cfg p now eid pid db = (db', r)" by fastforce
    then show ?thesis
      using plan_once_move [OF l _ d] assms OpPlan
      by (auto simp: effect_inv_def intro: ledger_move_inv ledger_move_le)
  next
    case (OpClaimSend i owner lu n now aid tok)
    obtain db' r where d: "claim_send i owner lu n now aid tok db = (db', r)" by fastforce
    have "ledger_move db db'" by (rule claim_send_cases [OF l d]) (use same in simp_all)
    then show ?thesis
      using effect_move [OF assms] claim_shape(1) [of db i owner lu n now aid tok] OpClaimSend d by simp
  next
    case (OpClaimRetry i owner lu n m now aid tok)
    obtain db' r where d: "claim_retry i owner lu n m now aid tok db = (db', r)" by fastforce
    have "ledger_move db db'" by (rule claim_retry_cases [OF l d]) (use same in simp_all)
    then show ?thesis
      using effect_move [OF assms] claim_shape(2) [of db i owner lu n m now aid tok] OpClaimRetry d by simp
  next
    case (OpComplete c)
    obtain db' r where d: "complete_send c db = (db', r)" by fastforce
    have "ledger_move db db'" by (rule complete_send_cases [OF l d]) (use same in simp_all)
    then show ?thesis
      using effect_move [OF assms] complete_shape [of db c] OpComplete d by simp
  next
    case (OpExpire now limit)
    then show ?thesis using expire_leases_inv [OF assms] by simp
  next
    case (OpOperator i d x reason evidence now)
    obtain db' r where e: "apply_operator_action i d x reason evidence now db = (db', r)" by fastforce
    have "ledger_move db db'" by (rule operator_cases [OF l e]) (use same in simp_all)
    then show ?thesis
      using effect_move [OF assms] decide_shape(1) [of db i d x reason evidence now] OpOperator e by simp
  next
    case (OpReconcile i o1 x provider evidence reason now)
    obtain db' r where e: "reconcile_unknown i o1 x provider evidence reason now db = (db', r)" by fastforce
    have "ledger_move db db'" by (rule reconcile_cases [OF l e]) (use same in simp_all)
    then show ?thesis
      using effect_move [OF assms] decide_shape(2) [of db i o1 x provider evidence reason now] OpReconcile e
      by simp
  next
    case (OpFence i x reason now)
    obtain db' r where e: "fence_effect i x reason now db = (db', r)" by fastforce
    have "ledger_move db db'" by (rule fence_cases [OF l e]) (use same in simp_all)
    then show ?thesis
      using effect_move [OF assms] decide_shape(3) [of db i x reason now] OpFence e by simp
  next
    case (OpPayloadGc now limit)
    obtain db' n where d: "delete_expired_payloads now limit db = (db', n)" by fastforce
    then show ?thesis
      using payload_inv_gc [OF _ l d] ledger_move_same [OF l payload_gc_same [OF d]] assms OpPayloadGc
      by (auto simp: effect_inv_def intro: ledger_move_inv ledger_move_le)
  next
    case (OpAttemptGc now limit)
    obtain db' n where d: "delete_settled_attempts now limit db = (db', n)" by fastforce
    then show ?thesis
      using effect_move [OF assms attempt_gc_move(1) [OF l d]] attempt_gc_shape [of db now limit] OpAttemptGc
      by simp
  qed
qed

interpretation effects: monotone_machine "effect_step sha" "effect_inv sha" ledger_le
  by unfold_locales (auto intro: ledger_le_refl ledger_le_trans dest: effect_step_inv)

text \<open>The identity a planned delivery gets.\<close>

definition planned_id :: "string \<times> int \<times> string \<Rightarrow> effect_db \<Rightarrow> effect_id option" where
  "planned_id k db = map_option e_id (effect_by_key k db)"

lemma effect_by_key_unique:
  assumes "ledger_inv db" "e \<in> set (t_effects db)"
  shows "effect_by_key (business_key e) db = Some e"
  using assms unfolding effect_by_key_def ledger_inv_def by (blast intro: sql_row_unique)

lemma planned_id_keeps:
  assumes "ledger_inv db'" "ledger_le db db'" "planned_id k db = Some i"
  shows "planned_id k db' = Some i"
proof -
  obtain e where e: "e \<in> set (t_effects db)" "business_key e = k" "e_id e = i"
    using assms(3) by (auto simp: planned_id_def effect_by_key_def dest: sql_row_Some)
  then obtain e' where e': "e' \<in> set (t_effects db')"
    "emove\<^sup>*\<^sup>* (attempts_of (e_id e) db, e) (attempts_of (e_id e) db', e')"
    using assms(2) by (auto simp: ledger_le_def)
  then show ?thesis
    using effect_by_key_unique [OF assms(1) e'(1)] emoves_keep [OF e'(2)] e
    by (auto simp: planned_id_def)
qed

interpretation planned: claim_ledger "effect_step sha" "effect_inv sha"
    "\<lambda>(cfg, p, now, eid, pid). plan_once sha cfg p now eid pid" planned_id
    "\<lambda>(cfg, p, now, eid, pid). plan_key p" e_id
proof (unfold_locales, goal_cases)
  case (1 db r)
  obtain cfg p now eid pid where r: "r = (cfg, p, now, eid, pid)" by (cases r)
  show ?case using effect_step_inv [OF 1, of "OpPlan cfg p now eid pid"] by (simp add: r)
next
  case (2 db r db' e created)
  obtain cfg p now eid pid where r: "r = (cfg, p, now, eid, pid)" by (cases r)
  with 2(2) have d: "plan_once sha cfg p now eid pid db = (db', Inr (e, created))" by simp
  have inv': "ledger_inv db'"
    using effect_step_inv [OF 2(1), of "OpPlan cfg p now eid pid"] d by (simp add: effect_inv_def)
  have "e \<in> set (t_effects db') \<and> business_key e = plan_key p"
    using d
  proof (cases rule: plan_once_cases)
    case (found ref e1)
    then show ?thesis
      using settle_payload_same [OF found(2)] sql_row_Some by (fastforce simp: effect_by_key_def)
  qed auto
  then show ?case using effect_by_key_unique [OF inv', of e] by (simp add: r planned_id_def)
next
  case (3 db r db' e created)
  obtain cfg p now eid pid where r: "r = (cfg, p, now, eid, pid)" by (cases r)
  with 3(2) have d: "plan_once sha cfg p now eid pid db = (db', Inr (e, created))" by simp
  then show ?case
    by (cases rule: plan_once_cases) (auto simp: r planned_id_def effect_by_key_def sql_row_None)
next
  case (4 db r i db' e created)
  obtain cfg p now eid pid where r: "r = (cfg, p, now, eid, pid)" by (cases r)
  with 4(3) have d: "plan_once sha cfg p now eid pid db = (db', Inr (e, created))" by simp
  then show ?case using 4(2)
    by (cases rule: plan_once_cases)
      (auto simp: r planned_id_def effect_by_key_def dest!: sql_row_Some)
next
  case (5 db k i op)
  then show ?case
    using effect_step_inv [OF 5(1), of op] planned_id_keeps [of "effect_step sha op db" db k i]
    by (simp add: effect_inv_def)
qed

end
