(* ===== verification/EffectProps.thy ===== *)
theory EffectProps
  imports EffectMachine
begin

text \<open>
  The properties of the delivery ledger: no blind resend, one send in flight, attempt caps,
  content kept while it is owed, idempotent planning, late completions, lease expiry, the work
  lists, and what becomes of a delivery that is put back to planned.
\<close>

section \<open>Effects that must not be sent again\<close>

text \<open>
  An effect is spent when it is settled or when one of its attempts ended in anything but an
  explicit "not done, try again".
\<close>

definition spent :: "attempt_row set \<Rightarrow> effect_row \<Rightarrow> bool" where
  "spent A e \<longleftrightarrow> settled_status (e_status e) \<or> (\<exists>a \<in> A. \<not> in_flight a \<and> \<not> safe_rejection a)"

lemma spent_attempt:
  assumes "effect_ok A e" "a \<in> A" "\<not> in_flight a" "\<not> safe_rejection a"
  shows "a_attempt a = e_attempt e" "b \<in> A \<Longrightarrow> \<not> in_flight b" "e_next e = None"
proof -
  show n: "a_attempt a = e_attempt e"
    using effect_okD(1,2) [OF assms(1,2)] assms(4) by fastforce
  show "\<not> in_flight b" if "b \<in> A"
    using effect_ok_other(2) [OF assms(1,2) n that] assms(3) by auto
  show "e_next e = None"
    using effect_okD(11) [OF assms(1) _ assms(2)] assms(4) by blast
qed

lemma spent_move:
  assumes "emove (A, e) (A', e')" "effect_ok A e" "spent A e"
  shows "spent A' e' \<and> A' \<subseteq> A"
proof (cases "settled_status (e_status e)")
  case True
  then have ns: "e_status e \<noteq> EfStarted" "e_status e \<noteq> EfPlanned" "e_status e \<noteq> EfUnknown"
    by (auto simp: settled_status_def)
  from assms(1) show ?thesis
    by (cases rule: emoveE) (use ns True in \<open>auto simp: spent_def decide_def settled_status_def\<close>)
next
  case False
  then obtain a where a: "a \<in> A" "\<not> in_flight a" "\<not> safe_rejection a"
    using assms(3) by (auto simp: spent_def)
  note sa = spent_attempt [OF assms(2) a]
  from assms(1) show ?thesis
  proof (cases rule: emoveE)
    case (send owner b l at)
    with sa(1) a(1) show ?thesis by blast
  next
    case (retry owner b l at y)
    with sa(3) show ?thesis by simp
  next
    case (complete b c s)
    with sa(2) show ?thesis by blast
  next
    case (expire b at y)
    with sa(2) show ?thesis by blast
  qed (use a False in \<open>auto simp: spent_def\<close>)
qed

lemma spent_moves:
  assumes "emove\<^sup>*\<^sup>* (A, e) (A', e')" "effect_ok A e" "spent A e"
  shows "spent A' e' \<and> A' \<subseteq> A"
proof -
  have "effect_ok A' e' \<and> spent A' e' \<and> A' \<subseteq> A"
    using assms
  proof (induction rule: rtranclp_induct2)
    case (step A1 e1 A2 e2)
    then show ?case using emove_ok [of A1 e1 A2 e2] spent_move [of A1 e1 A2 e2] by auto
  qed simp
  then show ?thesis by simp
qed

lemma run_effect_inv: "effect_inv sha (fold (effect_step sha) ops empty_ledger)"
  by (rule effects.run_inv) simp

lemma run_ledger_inv: "ledger_inv (fold (effect_step sha) ops empty_ledger)"
  using run_effect_inv [of sha ops] by (simp add: effect_inv_def)

lemma ledger_effect_ok: "ledger_inv db \<Longrightarrow> e \<in> set (t_effects db) \<Longrightarrow> effect_ok (attempts_of (e_id e) db) e"
  by (simp add: ledger_inv_def)

lemma attempt_effect:
  assumes "ledger_inv db" "a \<in> set (t_attempts db)"
  obtains e where "e \<in> set (t_effects db)" "e_id e = a_effect a" "a \<in> attempts_of (e_id e) db"
proof -
  have "a_effect a \<in> e_id ` set (t_effects db)"
    using assms by (auto simp: ledger_inv_def)
  then obtain e where "e \<in> set (t_effects db)" "a_effect a = e_id e" by (rule imageE)
  with assms(2) show thesis by (intro that [of e]) (simp_all add: attempts_of_def)
qed

text \<open>A spent effect refuses every claim.\<close>

definition claims_refused :: "effect_id \<Rightarrow> effect_db \<Rightarrow> bool" where
  "claims_refused i db \<longleftrightarrow>
     (\<forall>owner lu n now aid tok. \<exists>err. claim_send i owner lu n now aid tok db = (db, Inl err)) \<and>
     (\<forall>owner lu n m now aid tok. \<exists>err. claim_retry i owner lu n m now aid tok db = (db, Inl err))"

text \<open>An effect whose machine never adds an attempt is closed; a closed effect refuses every claim.\<close>

definition closed_effect :: "attempt_row set \<Rightarrow> effect_row \<Rightarrow> bool" where
  "closed_effect A e \<longleftrightarrow> (\<forall>A' e'. emove\<^sup>*\<^sup>* (A, e) (A', e') \<longrightarrow> A' \<subseteq> A)"

lemma closed_no_new:
  assumes "e \<in> set (t_effects db)" "closed_effect (attempts_of (e_id e) db) e"
    and "ledger_move db db'" "attempts_of (e_id e) db' = insert a (attempts_of (e_id e) db)"
  shows "a \<in> set (t_attempts db)"
proof -
  obtain e' where "emove\<^sup>*\<^sup>* (attempts_of (e_id e) db, e) (attempts_of (e_id e) db', e')"
    using ledger_move_le [OF assms(3)] assms(1) by (auto simp: ledger_le_def)
  with assms(2,4) have "a \<in> attempts_of (e_id e) db" unfolding closed_effect_def by blast
  then show ?thesis by (simp add: attempts_of_def)
qed

lemma closed_refused:
  assumes "ledger_inv db" "e \<in> set (t_effects db)" "closed_effect (attempts_of (e_id e) db) e"
  shows "claims_refused (e_id e) db"
  unfolding claims_refused_def
proof (intro conjI allI)
  fix owner lu n now aid tok
  obtain db' r where d: "claim_send (e_id e) owner lu n now aid tok db = (db', r)" by fastforce
  from assms(1) d show "\<exists>err. claim_send (e_id e) owner lu n now aid tok db = (db, Inl err)"
  proof (cases rule: claim_send_cases)
    case (opened e1 a)
    with closed_no_new [OF assms(2,3) opened(13,8)] show ?thesis by blast
  qed (use d in auto)
next
  fix owner lu n m now aid tok
  obtain db' r where d: "claim_retry (e_id e) owner lu n m now aid tok db = (db', r)" by fastforce
  from assms(1) d show "\<exists>err. claim_retry (e_id e) owner lu n m now aid tok db = (db, Inl err)"
  proof (cases rule: claim_retry_cases)
    case (opened e1 a)
    with closed_no_new [OF assms(2,3) opened(15,10)] show ?thesis by blast
  qed (use d in auto)
qed

lemma spent_closed: "effect_ok A e \<Longrightarrow> spent A e \<Longrightarrow> closed_effect A e"
  unfolding closed_effect_def using spent_moves by blast

lemma spent_le:
  assumes "ledger_inv db" "ledger_le db db'" "e \<in> set (t_effects db)"
    "spent (attempts_of (e_id e) db) e"
  obtains e' where "e' \<in> set (t_effects db')" "e_id e' = e_id e"
    "spent (attempts_of (e_id e') db') e'"
    "emove\<^sup>*\<^sup>* (attempts_of (e_id e) db, e) (attempts_of (e_id e) db', e')"
proof -
  obtain e' where e': "e' \<in> set (t_effects db')"
    "emove\<^sup>*\<^sup>* (attempts_of (e_id e) db, e) (attempts_of (e_id e) db', e')"
    using assms(2,3) by (auto simp: ledger_le_def)
  have id: "e_id e' = e_id e" using emoves_keep [OF e'(2)] by simp
  from spent_moves [OF e'(2) ledger_effect_ok [OF assms(1,3)] assms(4)] id
  have "spent (attempts_of (e_id e') db') e'" by simp
  with e' id show thesis by (intro that [of e']) simp_all
qed

lemma spent_forever:
  assumes "effect_inv sha db" "e \<in> set (t_effects db)" "spent (attempts_of (e_id e) db) e"
  shows "claims_refused (e_id e) (fold (effect_step sha) ops db)"
proof -
  let ?db' = "fold (effect_step sha) ops db"
  have inv: "ledger_inv db" "ledger_inv ?db'"
    using assms(1) effects.run_inv [OF assms(1), of ops] by (auto simp: effect_inv_def)
  obtain e' where e': "e' \<in> set (t_effects ?db')" "e_id e' = e_id e"
    "spent (attempts_of (e_id e') ?db') e'"
    using spent_le [OF inv(1) effects.run_le [OF assms(1), of ops] assms(2,3)] by blast
  show ?thesis
    using closed_refused [OF inv(2) e'(1) spent_closed [OF ledger_effect_ok [OF inv(2) e'(1)] e'(3)]] e'(2)
    by simp
qed

lemma claims_refusedD:
  assumes "claims_refused i db"
  shows "\<exists>err. claim_send i owner lu n now aid tok db = (db, Inl err)"
    "\<exists>err. claim_retry i owner lu n m now aid tok db = (db, Inl err)"
  using assms unfolding claims_refused_def by blast+

text \<open>
  C4. No blind resend.  Once an attempt of an effect has ended in anything but an explicit
  rejection that is safe to repeat (it was accepted, its outcome is unknown, nothing was sent, or
  the rejection was final), then after any further operations, of any clients, in any order,
  every claim of the effect for a first send or for a retry is refused and changes nothing.
\<close>

theorem no_blind_resend:
  assumes "a \<in> set (t_attempts (fold (effect_step sha) ops empty_ledger))"
    and "\<not> in_flight a" and "\<not> (a_outcome a = Some AtRejected \<and> a_class a = RcSafeRetry)"
    and "db = fold (effect_step sha) (ops @ later) empty_ledger"
  shows "(\<exists>err. claim_send (a_effect a) owner lu n now aid tok db = (db, Inl err)) \<and>
    (\<exists>err. claim_retry (a_effect a) owner lu n' m now aid tok db = (db, Inl err))"
proof -
  let ?db = "fold (effect_step sha) ops empty_ledger"
  obtain e where e: "e \<in> set (t_effects ?db)" "e_id e = a_effect a" "a \<in> attempts_of (e_id e) ?db"
    by (rule attempt_effect [OF run_ledger_inv assms(1)])
  have "spent (attempts_of (e_id e) ?db) e"
    using e(3) assms(2,3) by (auto simp: spent_def safe_rejection_def)
  from spent_forever [OF run_effect_inv e(1) this, of later]
  have "claims_refused (a_effect a) db" using assms(4) e(2) by simp
  then show ?thesis by (blast dest: claims_refusedD)
qed

text \<open>A concrete ledger: one delivery, planned and claimed.\<close>

definition demo_planner :: planner_config where
  "demo_planner = planner_retention (24 * 60 * minute) 0 ''r1''"

definition demo_plan :: delivery_plan where
  "demo_plan = \<lparr>dp_occurrence = ''o'', dp_ordinal = 0, dp_target_revision = ''t'', dp_session = ''s'',
     dp_execution = ''x'', dp_run = ''r'', dp_content = ''hi'', dp_target_kind = ''slack'',
     dp_target_ref = ''C1''\<rparr>"

definition demo_completion :: "attempt_outcome \<Rightarrow> rejection_class \<Rightarrow> effect_completion" where
  "demo_completion out c = \<lparr>co_effect = ''f1'', co_attempt = 0, co_token = ''k1'', co_version = 1,
     co_outcome = out, co_class = c, co_error = [], co_reason = [], co_provider = [],
     co_evidence = [], co_retry_after = 30 * second, co_now = 2 * second\<rparr>"

definition demo_sent :: "effect_op list" where
  "demo_sent = [OpPlan demo_planner demo_plan 0 ''f1'' ''p1'',
     OpClaimSend ''f1'' ''gw'' minute 0 second ''a1'' ''k1'']"

definition demo_effect :: effect_row where
  "demo_effect = (planned_effect (\<lambda>s. s) demo_planner demo_plan 0 ''f1'' ''p1'')
     \<lparr>e_status := EfStarted, e_owner := ''gw'', e_lease := Some 60000, e_version := 1,
      e_updated := 1000\<rparr>"

definition demo_attempt :: attempt_row where
  "demo_attempt = opened_attempt ''a1'' ''f1'' 0 ''gw'' 1 ''k1'' 1000"

lemma demo_sent_db:
  "fold (effect_step (\<lambda>s. s)) demo_sent empty_ledger =
     \<lparr>t_effects = [demo_effect], t_attempts = [demo_attempt],
      t_deliveries = [planned_payload (\<lambda>s. s) demo_plan 0 ''p1'']\<rparr>"
  by (simp add: Let_def demo_sent_def empty_ledger_def plan_once_def plan_with_payload_def validate_plan_def
      demo_plan_def max_payload_bytes_def settle_payload_def payload_for_execution_def
      planned_effect_def unix_milli_def business_key_def claim_send_def validate_claim_def
      update_effect_def sql_count_def sql_update_def open_claim_def effect_by_id_def sql_row_def
      open_attempt_def zero_time_def demo_effect_def demo_attempt_def)
lemma demo_complete:
  "complete_send (demo_completion out c)
     \<lparr>t_effects = [demo_effect], t_attempts = [demo_attempt], t_deliveries = ds\<rparr> =
     (case effect_status_for out c of
        Inl err \<Rightarrow> (\<lparr>t_effects = [demo_effect], t_attempts = [demo_attempt], t_deliveries = ds\<rparr>, Some err)
      | Inr s \<Rightarrow>
          if foreign_class c
          then (\<lparr>t_effects = [demo_effect], t_attempts = [demo_attempt], t_deliveries = ds\<rparr>, Some EErrConstraint)
          else (\<lparr>t_effects = [apply_completion (demo_completion out c) s demo_effect],
                t_attempts = [finish_attempt (demo_completion out c) demo_attempt],
                t_deliveries = ds\<rparr>, None))"
  by (simp add: complete_send_def demo_completion_def update_attempt_def update_effect_def
      sql_count_def sql_update_def demo_attempt_def opened_attempt_def in_flight_def demo_effect_def
      planned_effect_def split: sum.splits)

theorem no_blind_resend_witness:
  "\<exists>err. claim_send ''f1'' ''gw2'' (2 * minute) 0 minute ''a2'' ''k2''
      (fold (effect_step (\<lambda>s. s)) (demo_sent @ [OpComplete (demo_completion AtUnknown RcNone)]) empty_ledger) =
      (fold (effect_step (\<lambda>s. s)) (demo_sent @ [OpComplete (demo_completion AtUnknown RcNone)]) empty_ledger, Inl err)"
proof -
  let ?a = "finish_attempt (demo_completion AtUnknown RcNone) demo_attempt"
  let ?ops = "demo_sent @ [OpComplete (demo_completion AtUnknown RcNone)]"
  have a: "?a \<in> set (t_attempts (fold (effect_step (\<lambda>s. s)) ?ops empty_ledger))"
    by (simp add: demo_sent_db demo_complete effect_status_for_def)
  have o: "\<not> in_flight ?a" "\<not> (a_outcome ?a = Some AtRejected \<and> a_class ?a = RcSafeRetry)"
    "a_effect ?a = ''f1''"
    by (simp_all add: finish_attempt_def demo_completion_def in_flight_def demo_attempt_def opened_attempt_def)
  show ?thesis
    using no_blind_resend [OF a o(1,2), of "fold (effect_step (\<lambda>s. s)) ?ops empty_ledger" "[]"]
    unfolding o(3) by simp
qed
section \<open>One send at a time\<close>

text \<open>
  C20. At any time at most one attempt of an effect is in flight; it is the one with the effect's
  attempt number, the effect is then started under an owner's lease, and every other attempt
  was an explicit rejection that is safe to repeat.
\<close>

theorem one_send_in_flight:
  assumes "db = fold (effect_step sha) ops empty_ledger"
    and "e \<in> set (t_effects db)" and "a \<in> set (t_attempts db)"
    and "a_effect a = e_id e" and "in_flight a"
  shows "e_status e = EfStarted \<and> e_owner e \<noteq> [] \<and> e_lease e \<noteq> None \<and> e_next e = None \<and>
    a_attempt a = e_attempt e \<and>
    (\<forall>b \<in> set (t_attempts db). a_effect b = e_id e \<and> b \<noteq> a \<longrightarrow>
       a_outcome b = Some AtRejected \<and> a_class b = RcSafeRetry \<and> a_attempt b < e_attempt e)"
proof -
  have ok: "effect_ok (attempts_of (e_id e) db) e"
    using assms(2) ledger_effect_ok [OF run_ledger_inv] unfolding assms(1) by blast
  have a: "a \<in> attempts_of (e_id e) db" using assms(3,4) by (simp add: attempts_of_def)
  have n: "a_attempt a = e_attempt e" by (rule effect_okD(4) [OF ok a assms(5)])
  have l: "e_lease e \<noteq> None" by (rule effect_okD(3) [OF ok a assms(5)])
  then have st: "e_status e = EfStarted" by (rule effect_okD(6) [OF ok])
  have "safe_rejection b \<and> a_attempt b < e_attempt e"
    if "b \<in> set (t_attempts db)" "a_effect b = e_id e" "b \<noteq> a" for b
    using effect_ok_other [OF ok a n, of b] that by (simp add: attempts_of_def)
  then show ?thesis
    using n l st effect_okD(8,9) [OF ok] by (auto simp: safe_rejection_def)
qed

theorem one_send_in_flight_witness:
  "demo_effect \<in> set (t_effects (fold (effect_step (\<lambda>s. s)) demo_sent empty_ledger)) \<and>
   e_status demo_effect = EfStarted \<and> a_attempt demo_attempt = e_attempt demo_effect"
  using one_send_in_flight [OF refl, of demo_effect "\<lambda>s. s" demo_sent demo_attempt]
  by (simp add: demo_sent_db demo_attempt_def opened_attempt_def in_flight_def demo_effect_def planned_effect_def)

section \<open>The attempt cap\<close>

primrec retry_cap :: "effect_op \<Rightarrow> int" where
  "retry_cap (OpPlan cfg p now eid pid) = 0"
| "retry_cap (OpClaimSend i owner lu n now aid tok) = 0"
| "retry_cap (OpClaimRetry i owner lu n m now aid tok) = m"
| "retry_cap (OpComplete c) = 0"
| "retry_cap (OpExpire now limit) = 0"
| "retry_cap (OpOperator i d x reason evidence now) = 0"
| "retry_cap (OpReconcile i o1 x provider evidence reason now) = 0"
| "retry_cap (OpFence i x reason now) = 0"
| "retry_cap (OpPayloadGc now limit) = 0"
| "retry_cap (OpAttemptGc now limit) = 0"

lemma image_sql_update:
  assumes "\<And>r. key (f r) = key r"
  shows "key ` set (sql_update P f t) = key ` set t"
  unfolding set_sql_update image_image by (rule image_cong) (auto simp: assms)

definition attempt_numbers :: "effect_db \<Rightarrow> int set" where
  "attempt_numbers db = e_attempt ` set (t_effects db) \<union> a_attempt ` set (t_attempts db)"

lemmas number_simps = attempt_numbers_def update_effect_def update_attempt_def Let_def
  image_sql_update apply_completion_def expire_effect_def

lemma number_open_claim:
  assumes "open_claim aid tok i n owner at db db1 = (db', r)"
  shows "attempt_numbers db' \<subseteq> attempt_numbers db \<union> attempt_numbers db1 \<union> {n}"
  using assms by (cases rule: open_claim_cases) (auto simp: attempt_numbers_def)

lemma number_send: "attempt_numbers (fst (claim_send i owner lu n now aid tok db)) \<subseteq> attempt_numbers db"
proof -
  let ?P = "\<lambda>e. e_id e = i \<and> e_status e = EfPlanned \<and> e_attempt e = n"
  let ?f = "\<lambda>e. e\<lparr>e_status := EfStarted, e_owner := owner, e_lease := Some (unix_milli lu),
      e_settled := None, e_version := e_version e + 1, e_updated := unix_milli now\<rparr>"
  let ?db1 = "db\<lparr>t_effects := sql_update ?P ?f (t_effects db)\<rparr>"
  show ?thesis
  proof (cases "validate_claim i owner lu now \<and> sql_count ?P (t_effects db) \<noteq> 0")
    case True
    then obtain e where e: "e \<in> set (t_effects db)" "?P e"
      using sql_count_pos [of ?P "t_effects db"] by blast
    obtain db' r where d: "open_claim aid tok i n owner (unix_milli now) db ?db1 = (db', r)" by fastforce
    have "attempt_numbers ?db1 = attempt_numbers db" by (simp add: number_simps)
    moreover have "n \<in> attempt_numbers db" using e by (auto simp: attempt_numbers_def)
    ultimately have "attempt_numbers db' \<subseteq> attempt_numbers db"
      using number_open_claim [OF d] by auto
    moreover have "claim_send i owner lu n now aid tok db = (db', r)"
      using True d by (simp add: claim_send_def update_effect_def)
    ultimately show ?thesis by simp
  next
    case False
    then have "fst (claim_send i owner lu n now aid tok db) = db"
      by (auto simp: claim_send_def update_effect_def)
    then show ?thesis by simp
  qed
qed

lemma number_retry:
  "attempt_numbers (fst (claim_retry i owner lu n cap now aid tok db)) \<subseteq>
     attempt_numbers db \<union> {j + 1 | j. j \<in> attempt_numbers db \<and> j + 1 < cap}"
proof -
  let ?P = "\<lambda>e. e_id e = i \<and> e_status e = EfStarted \<and> e_attempt e = n \<and>
       (\<exists>t \<in> set_option (e_next e). t \<le> unix_milli now) \<and> e_attempt e + 1 < cap"
  let ?f = "\<lambda>e. e\<lparr>e_attempt := e_attempt e + 1, e_owner := owner, e_lease := Some (unix_milli lu),
      e_version := e_version e + 1, e_next := None, e_settled := None, e_updated := unix_milli now\<rparr>"
  let ?db1 = "db\<lparr>t_effects := sql_update ?P ?f (t_effects db)\<rparr>"
  let ?N = "attempt_numbers db \<union> {j + 1 | j. j \<in> attempt_numbers db \<and> j + 1 < cap}"
  show ?thesis
  proof (cases "validate_claim i owner lu now \<and> \<not> cap \<le> 0 \<and> sql_count ?P (t_effects db) \<noteq> 0")
    case True
    then obtain e where e: "e \<in> set (t_effects db)" "?P e"
      using sql_count_pos [of ?P "t_effects db"] by blast
    obtain db' r where d: "open_claim aid tok i (n + 1) owner (unix_milli now) db ?db1 = (db', r)"
      by fastforce
    have "attempt_numbers ?db1 \<subseteq> ?N"
      unfolding attempt_numbers_def by (auto simp: set_sql_update)
    moreover have "n + 1 \<in> ?N" using e by (auto simp: attempt_numbers_def)
    ultimately have "attempt_numbers db' \<subseteq> ?N" using number_open_claim [OF d] by auto
    moreover have "claim_retry i owner lu n cap now aid tok db = (db', r)"
      using True d by (simp add: claim_retry_def update_effect_def)
    ultimately show ?thesis by simp
  next
    case False
    then have "fst (claim_retry i owner lu n cap now aid tok db) = db"
      by (auto simp: claim_retry_def update_effect_def)
    then show ?thesis by auto
  qed
qed

lemma number_expire: "attempt_numbers (fst (expire_leases now limit db)) = attempt_numbers db"
proof -
  have "attempt_numbers (fold (expire_one at) es db) = attempt_numbers db" for at es
    by (induction es arbitrary: db) (simp_all add: expire_one_def number_simps)
  then show ?thesis by (simp add: expire_leases_def Let_def)
qed

lemma number_plan: "attempt_numbers (fst (plan_once sha cfg p now eid pid db)) \<subseteq> insert 0 (attempt_numbers db)"
proof -
  obtain db' r where d: "plan_once sha cfg p now eid pid db = (db', r)" by fastforce
  have "attempt_numbers db' \<subseteq> insert 0 (attempt_numbers db)"
  proof (rule plan_once_cases [OF d], goal_cases)
    case (2 ref e db1)
    with settle_payload_same [OF 2(2)] show ?case
      by (auto simp: attempt_numbers_def planned_effect_def)
  next
    case (3 ref e)
    with settle_payload_same [OF 3(2)] show ?case by (auto simp: attempt_numbers_def)
  qed auto
  with d show ?thesis by simp
qed

lemma number_decide:
  "attempt_numbers (fst (apply_operator_action i d x reason evidence now db)) = attempt_numbers db"
  "attempt_numbers (fst (reconcile_unknown i o1 x provider evidence reason now db)) = attempt_numbers db"
  "attempt_numbers (fst (fence_effect i x reason now db)) = attempt_numbers db"
  by (auto simp: apply_operator_action_def reconcile_unknown_def fence_effect_def number_simps
      split: option.splits sum.splits)

lemma number_rest:
  "attempt_numbers (fst (complete_send c db)) = attempt_numbers db"
  "attempt_numbers (fst (delete_expired_payloads now limit db)) = attempt_numbers db"
  "attempt_numbers (fst (delete_settled_attempts now limit db)) \<subseteq> attempt_numbers db"
  by (auto simp: complete_send_def delete_expired_payloads_def delete_settled_attempts_def
      number_simps split: sum.splits)

lemma number_step:
  assumes "attempt_numbers db \<subseteq> {0..<max 1 m}" "retry_cap op \<le> m"
  shows "attempt_numbers (effect_step sha op db) \<subseteq> {0..<max 1 m}"
proof (cases op)
  case (OpClaimRetry i owner lu n cap now aid tok)
  then have "{j + 1 | j. j \<in> attempt_numbers db \<and> j + 1 < cap} \<subseteq> {0..<max 1 m}"
    using assms by auto
  with OpClaimRetry assms(1) number_retry [of i owner lu n cap now aid tok db]
  show ?thesis unfolding OpClaimRetry effect_step.simps by blast
next
  case (OpPlan cfg p now eid pid)
  with assms(1) number_plan [of sha cfg p now eid pid db] show ?thesis by auto
next
  case (OpClaimSend i owner lu n now aid tok)
  with assms(1) number_send [of i owner lu n now aid tok db] show ?thesis by simp
next
  case (OpAttemptGc now limit)
  with assms(1) number_rest(3) [of now limit db] show ?thesis by simp
qed (use assms(1) in \<open>simp_all add: number_decide number_rest number_expire\<close>)

text \<open>
  The attempt cap.  If no retry is ever claimed with a cap above \<open>m\<close>, no effect is ever sent
  more than \<open>max 1 m\<close> times: every attempt number, of the effects and of the attempt rows, stays
  below that, and the attempt rows of an effect carry different numbers.
\<close>

theorem attempts_never_over_cap:
  assumes "\<forall>op \<in> set ops. retry_cap op \<le> m"
    and "db = fold (effect_step sha) ops empty_ledger"
    and "e \<in> set (t_effects db)"
  shows "e_attempt e < max 1 m \<and> card (attempts_of (e_id e) db) \<le> nat (max 1 m)"
proof -
  have "attempt_numbers db0 \<subseteq> {0..<max 1 m} \<Longrightarrow>
      attempt_numbers (fold (effect_step sha) ops db0) \<subseteq> {0..<max 1 m}" for db0
    using assms(1)
  proof (induction ops arbitrary: db0)
    case (Cons op ops)
    then show ?case using number_step [of db0 m op sha] by simp
  qed simp
  from this [of empty_ledger] have below: "attempt_numbers db \<subseteq> {0..<max 1 m}"
    by (simp add: assms(2) attempt_numbers_def empty_ledger_def)
  have ok: "effect_ok (attempts_of (e_id e) db) e"
    using assms(3) ledger_effect_ok [OF run_ledger_inv] unfolding assms(2) by blast
  have "a_attempt ` attempts_of (e_id e) db \<subseteq> {0..<max 1 m}"
    using below by (auto simp: attempt_numbers_def attempts_of_def)
  then have "card (a_attempt ` attempts_of (e_id e) db) \<le> card {0..<max 1 m}"
    by (rule card_mono [rotated]) simp
  then have "card (attempts_of (e_id e) db) \<le> nat (max 1 m)"
    by (simp add: card_image [OF effect_okD(5) [OF ok]])
  moreover have "e_attempt e \<in> attempt_numbers db" using assms(3) by (simp add: attempt_numbers_def)
  ultimately show ?thesis using below by auto
qed

theorem attempts_never_over_cap_witness:
  "card (attempts_of ''f1'' (fold (effect_step (\<lambda>s. s)) demo_sent empty_ledger)) \<le> 3"
proof -
  have "\<forall>op \<in> set demo_sent. retry_cap op \<le> 3" by (simp add: demo_sent_def)
  from attempts_never_over_cap [OF this refl, of demo_effect "\<lambda>s. s"]
  show ?thesis by (simp add: demo_sent_db demo_effect_def planned_effect_def)
qed
section \<open>The content a delivery owes\<close>

lemma get_payload_unique:
  assumes "payload_inv sha db" "d \<in> set (t_deliveries db)" "0 < d_bytes d"
  shows "get_payload (d_id d) db = Inr d"
    "get_payload_for_execution (d_occurrence d) (d_execution d) db = Inr d"
proof -
  have u: "unique_index (\<lambda>_. True) d_id (t_deliveries db)"
    "unique_index (\<lambda>_. True) (\<lambda>d. (d_occurrence d, d_execution d)) (t_deliveries db)"
    using assms(1) by (auto simp: payload_inv_def)
  show "get_payload (d_id d) db = Inr d"
    using sql_row_unique [OF u(1) assms(2)] assms(3) by (simp add: get_payload_def scan_payload_def)
  show "get_payload_for_execution (d_occurrence d) (d_execution d) db = Inr d"
    using sql_row_unique [OF u(2) assms(2)] assms(3)
    by (simp add: get_payload_for_execution_def payload_for_execution_def scan_payload_def)
qed

text \<open>
  C38. Content is kept while it is owed.  Whatever retention passes ran, an effect that is not
  settled still has its content: the payload it refers to is found, by its id and by its
  execution, is not blank, and has the fingerprint the effect recorded when it was planned.
\<close>

theorem owed_content_kept:
  assumes "db = fold (effect_step sha) ops empty_ledger"
    and "e \<in> set (t_effects db)" and "\<not> settled_status (e_status e)"
  shows "\<exists>d. get_payload (e_payload e) db = Inr d \<and>
    get_payload_for_execution (e_occurrence e) (e_execution e) db = Inr d \<and>
    d_content d \<noteq> [] \<and> sha (d_content d) = e_sha e"
proof -
  have inv: "payload_inv sha db" using run_effect_inv [of sha ops] by (simp add: assms(1) effect_inv_def)
  then obtain d where d: "d \<in> set (t_deliveries db)" "payload_of e d" "0 < d_bytes d"
    using assms(2,3) unfolding payload_inv_def by blast
  moreover have "d_bytes d = int (length (d_content d))" "sha (d_content d) = d_sha d"
    using inv d(1,3) unfolding payload_inv_def by blast+
  ultimately show ?thesis
    using get_payload_unique [OF inv d(1,3)] by (intro exI [of _ d]) (auto simp: payload_of_def)
qed

theorem owed_content_kept_witness:
  "\<exists>d. get_payload ''p1'' (fold (effect_step (\<lambda>s. s)) (demo_sent @ [OpPayloadGc 100000000000000000000 5]) empty_ledger) = Inr d \<and>
     d_content d = ''hi''"
proof -
  have gc: "delete_expired_payloads 100000000000000000000 5
     \<lparr>t_effects = [demo_effect], t_attempts = [demo_attempt],
      t_deliveries = [planned_payload (\<lambda>s. s) demo_plan 0 ''p1'']\<rparr> =
     (\<lparr>t_effects = [demo_effect], t_attempts = [demo_attempt],
      t_deliveries = [planned_payload (\<lambda>s. s) demo_plan 0 ''p1'']\<rparr>, 0)"
    by (simp add: delete_expired_payloads_def sql_select_def body_expired_def body_released_def
        demo_effect_def planned_effect_def planned_payload_def sql_update_def sql_count_def Let_def)
  let ?db = "fold (effect_step (\<lambda>s. s)) (demo_sent @ [OpPayloadGc 100000000000000000000 5]) empty_ledger"
  have db: "?db = \<lparr>t_effects = [demo_effect], t_attempts = [demo_attempt],
      t_deliveries = [planned_payload (\<lambda>s. s) demo_plan 0 ''p1'']\<rparr>"
    by (simp add: demo_sent_db gc)
  have "demo_effect \<in> set (t_effects ?db)" unfolding db by simp
  moreover have "\<not> settled_status (e_status demo_effect)"
    "e_payload demo_effect = ''p1''" "e_sha demo_effect = ''hi''"
    by (simp_all add: demo_effect_def settled_status_def planned_effect_def demo_plan_def)
  ultimately show ?thesis using owed_content_kept [OF refl, of demo_effect "\<lambda>s. s" "demo_sent @ [OpPayloadGc 100000000000000000000 5]"]
    by auto
qed

section \<open>Planning a delivery twice\<close>

text \<open>
  A delivery is planned once.  After a call of \<open>PlanOnce\<close> has succeeded for a business key,
  any later call for that key that succeeds, whatever operations ran in between and whatever
  ids, clocks and retention policy it carries, answers with the same effect and creates nothing.
\<close>

theorem plan_once_idempotent:
  assumes "plan_once sha cfg p now eid pid (fold (effect_step sha) ops empty_ledger) = (db1, Inr (e, created))"
    and "plan_key p' = plan_key p"
    and "plan_once sha cfg' p' now' eid' pid' (fold (effect_step sha) between db1) = (db2, Inr (e', created'))"
  shows "e_id e' = e_id e \<and> \<not> created'"
  by (rule planned.claim_after_run [of sha "fold (effect_step sha) ops empty_ledger"
        "(cfg, p, now, eid, pid)" db1 e created "(cfg', p', now', eid', pid')" between db2 e' created'])
    (use assms run_effect_inv in auto)

lemma demo_planned:
  "plan_once (\<lambda>s. s) demo_planner demo_plan 0 ''f1'' ''p1'' empty_ledger =
     (\<lparr>t_effects = [planned_effect (\<lambda>s. s) demo_planner demo_plan 0 ''f1'' ''p1''], t_attempts = [],
       t_deliveries = [planned_payload (\<lambda>s. s) demo_plan 0 ''p1'']\<rparr>,
      Inr (planned_effect (\<lambda>s. s) demo_planner demo_plan 0 ''f1'' ''p1'', True))"
  by (simp add: plan_once_def plan_with_payload_def empty_ledger_def validate_plan_def demo_plan_def
      max_payload_bytes_def settle_payload_def payload_for_execution_def unix_milli_def Let_def)

theorem plan_once_idempotent_witness:
  "\<exists>db2 e'. plan_once (\<lambda>s. s) demo_planner demo_plan second ''f2'' ''p2''
     (fst (plan_once (\<lambda>s. s) demo_planner demo_plan 0 ''f1'' ''p1'' empty_ledger)) = (db2, Inr (e', False)) \<and>
     e_id e' = ''f1''"
proof -
  let ?e = "planned_effect (\<lambda>s. s) demo_planner demo_plan 0 ''f1'' ''p1''"
  let ?db = "\<lparr>t_effects = [?e], t_attempts = [],
       t_deliveries = [planned_payload (\<lambda>s. s) demo_plan 0 ''p1'']\<rparr>"
  have again: "plan_once (\<lambda>s. s) demo_planner demo_plan second ''f2'' ''p2'' ?db = (?db, Inr (?e, False))"
    by (simp add: plan_once_def plan_with_payload_def validate_plan_def demo_plan_def
      max_payload_bytes_def settle_payload_def payload_for_execution_def unix_milli_def Let_def
      planned_payload_def effect_by_key_def sql_row_def)
  have "e_id ?e = e_id ?e \<and> \<not> False"
    by (rule plan_once_idempotent [of "\<lambda>s. s" demo_planner demo_plan 0 "''f1''" "''p1''" "[]" ?db ?e True
          demo_plan demo_planner second "''f2''" "''p2''" "[]" ?db ?e False])
      (simp_all add: demo_planned again)
  with again show ?thesis by (simp add: demo_planned)
qed
section \<open>A delivery put back to planned\<close>

text \<open>
  A planned effect that already has an attempt row with its attempt number: the unique index of
  the attempts forbids the row a first send would open, and nothing else leaves planned.
\<close>

definition stuck :: "attempt_row set \<Rightarrow> effect_row \<Rightarrow> bool" where
  "stuck A e \<longleftrightarrow> e_status e = EfPlanned \<and> (\<exists>a \<in> A. a_attempt a = e_attempt e)"

lemma stuck_move:
  assumes "emove (A, e) (A', e')" "stuck A e"
  shows "A' = A \<and> e' = e"
proof -
  obtain a where a: "a \<in> A" "a_attempt a = e_attempt e" and st: "e_status e = EfPlanned"
    using assms(2) unfolding stuck_def by blast
  from assms(1) show ?thesis
  proof (cases rule: emoveE)
    case (send owner b l at)
    with a show ?thesis by blast
  qed (simp_all add: st settled_status_def)
qed

lemma stuck_moves: "emove\<^sup>*\<^sup>* (A, e) (A', e') \<Longrightarrow> stuck A e \<Longrightarrow> A' = A \<and> e' = e"
  by (induction rule: rtranclp_induct2) (auto dest: stuck_move)

lemma stuck_forever:
  assumes "effect_inv sha db" "effect_by_id i db = Some e" "stuck (attempts_of i db) e"
  shows "effect_by_id i (fold (effect_step sha) later db) = Some e \<and>
    claims_refused i (fold (effect_step sha) later db)"
proof -
  let ?db' = "fold (effect_step sha) later db"
  have e: "e \<in> set (t_effects db)" "e_id e = i"
    using assms(2) by (auto simp: effect_by_id_def dest: sql_row_Some)
  have inv: "ledger_inv ?db'"
    using effects.run_inv [OF assms(1), of later] by (simp add: effect_inv_def)
  obtain e' where e': "e' \<in> set (t_effects ?db')"
    "emove\<^sup>*\<^sup>* (attempts_of (e_id e) db, e) (attempts_of (e_id e) ?db', e')"
    using effects.run_le [OF assms(1), of later] e(1) by (auto simp: ledger_le_def)
  then have same: "e' = e" "attempts_of i ?db' = attempts_of i db"
    using stuck_moves [OF e'(2)] assms(3) e(2) by auto
  have "stuck (attempts_of (e_id e) ?db') e" using assms(3) same(2) e(2) by simp
  then have "closed_effect (attempts_of (e_id e) ?db') e"
    unfolding closed_effect_def by (blast dest: stuck_moves)
  then show ?thesis
    using closed_refused [OF inv, of e] effect_by_id_unique [OF inv e'(1)] e'(1) same(1) e(2) by simp
qed

text \<open>
  C31. A requeue does not make a delivery claimable.  The operator decision "requeue" moves an
  effect of unknown outcome back to planned with its attempt number unchanged, so the attempt row
  of the doubtful send still holds that number: from then on every claim is refused, whatever
  else happens, and the effect stays planned as it is.
\<close>

theorem requeued_delivery_is_stuck:
  assumes "db = fold (effect_step sha) ops empty_ledger"
    and "apply_operator_action i OdRequeue expected reason evidence now db = (db1, Inr e)"
    and "db2 = fold (effect_step sha) later db1"
  shows "e_status e = EfPlanned \<and> effect_by_id i db2 = Some e \<and>
    (\<exists>err. claim_send i owner lu n now' aid tok db2 = (db2, Inl err)) \<and>
    (\<exists>err. claim_retry i owner lu n' m now' aid tok db2 = (db2, Inl err))"
proof -
  have inv: "effect_inv sha db" by (simp add: assms(1) run_effect_inv)
  then have l: "ledger_inv db" by (simp add: effect_inv_def)
  have inv1: "effect_inv sha db1"
    using effect_step_inv [OF inv, of "OpOperator i OdRequeue expected reason evidence now"] assms(2)
    by simp
  from l assms(2) show ?thesis
  proof (cases rule: operator_cases)
    case (decided e0 e1)
    have e: "e1 = e" using decided(6) by simp
    obtain a where a: "a \<in> attempts_of i db" "a_attempt a = e_attempt e0"
      using effect_okD(13) [OF ledger_effect_ok [OF l decided(1)]] decided(2,3) by auto
    then have st: "stuck (attempts_of i db1) e"
      using decided(4,10) e by (auto simp: stuck_def decide_def target_status_for_decision_def)
    have "effect_by_id i db1 = Some e" using decided(5) e by simp
    with stuck_forever [OF inv1 this st, of later] st show ?thesis
      unfolding assms(3) [symmetric] by (auto simp: stuck_def dest: claims_refusedD)
  qed simp
qed

theorem requeued_delivery_is_stuck_witness:
  "\<exists>err. claim_send ''f1'' ''gw2'' (2 * minute) 0 minute ''a2'' ''k2''
     (fst (apply_operator_action ''f1'' OdRequeue EfUnknown ''ok'' '''' (3 * second)
        (fold (effect_step (\<lambda>s. s)) (demo_sent @ [OpComplete (demo_completion AtUnknown RcNone)]) empty_ledger))) =
     (fst (apply_operator_action ''f1'' OdRequeue EfUnknown ''ok'' '''' (3 * second)
        (fold (effect_step (\<lambda>s. s)) (demo_sent @ [OpComplete (demo_completion AtUnknown RcNone)]) empty_ledger)), Inl err)"
proof -
  let ?db = "fold (effect_step (\<lambda>s. s)) (demo_sent @ [OpComplete (demo_completion AtUnknown RcNone)]) empty_ledger"
  have db: "?db = \<lparr>t_effects = [apply_completion (demo_completion AtUnknown RcNone) EfUnknown demo_effect],
      t_attempts = [finish_attempt (demo_completion AtUnknown RcNone) demo_attempt],
      t_deliveries = [planned_payload (\<lambda>s. s) demo_plan 0 ''p1'']\<rparr>"
    by (simp add: demo_sent_db demo_complete effect_status_for_def)
  have "\<exists>e. snd (apply_operator_action ''f1'' OdRequeue EfUnknown ''ok'' '''' (3 * second) ?db) = Inr e"
    unfolding db
    by (simp add: apply_operator_action_def operator_valid_def operator_reason_max_def
        operator_evidence_max_def update_effect_def sql_count_def sql_update_def apply_completion_def
        demo_effect_def planned_effect_def effect_by_id_def sql_row_def Let_def)
  then obtain e where e: "apply_operator_action ''f1'' OdRequeue EfUnknown ''ok'' '''' (3 * second) ?db =
      (fst (apply_operator_action ''f1'' OdRequeue EfUnknown ''ok'' '''' (3 * second) ?db), Inr e)"
    by (metis prod.collapse)
  from requeued_delivery_is_stuck [OF refl e, of _ "[]"] show ?thesis by simp
qed

text \<open>
  The same holds after a send that reports that nothing was sent: the completion puts the
  effect back to planned, where it stays, and every later claim is refused.
\<close>

theorem unsent_delivery_is_stuck:
  assumes "db = fold (effect_step sha) ops empty_ledger"
    and "complete_send c db = (db1, None)" and "co_outcome c = AtNotSent"
    and "db2 = fold (effect_step sha) later db1"
  shows "\<exists>e. e_status e = EfPlanned \<and> effect_by_id (co_effect c) db2 = Some e \<and>
    (\<exists>err. claim_send (co_effect c) owner lu n now aid tok db2 = (db2, Inl err)) \<and>
    (\<exists>err. claim_retry (co_effect c) owner lu n' m now aid tok db2 = (db2, Inl err))"
proof -
  have inv: "effect_inv sha db" by (simp add: assms(1) run_effect_inv)
  then have l: "ledger_inv db" by (simp add: effect_inv_def)
  have inv1: "effect_inv sha db1"
    using effect_step_inv [OF inv, of "OpComplete c"] assms(2) by simp
  from l assms(2) show ?thesis
  proof (cases rule: complete_send_cases)
    case (finished e a s)
    have s: "s = EfPlanned" using finished(9) assms(3) by (simp add: effect_status_for_def)
    have "finish_attempt c a \<in> attempts_of (co_effect c) db1" using finished(12) by simp
    then have st: "stuck (attempts_of (co_effect c) db1) (apply_completion c s e)"
      unfolding stuck_def using finished(4,7) s
      by (intro conjI bexI [of _ "finish_attempt c a"]) (simp_all add: apply_completion_def)
    from stuck_forever [OF inv1 finished(11) st, of later] st show ?thesis
      unfolding assms(4) [symmetric] by (auto simp: stuck_def dest: claims_refusedD)
  qed simp
qed

theorem unsent_delivery_is_stuck_witness:
  "\<exists>e. e_status e = EfPlanned \<and> effect_by_id ''f1'' (fst (complete_send (demo_completion AtNotSent RcNone)
     (fold (effect_step (\<lambda>s. s)) demo_sent empty_ledger))) = Some e"
proof -
  let ?db = "fold (effect_step (\<lambda>s. s)) demo_sent empty_ledger"
  have d: "complete_send (demo_completion AtNotSent RcNone) ?db =
      (fst (complete_send (demo_completion AtNotSent RcNone) ?db), None)"
    by (simp add: demo_sent_db demo_complete effect_status_for_def)
  have o: "co_outcome (demo_completion AtNotSent RcNone) = AtNotSent"
    "co_effect (demo_completion AtNotSent RcNone) = ''f1''" by (simp_all add: demo_completion_def)
  from unsent_delivery_is_stuck [OF refl d o(1) refl, of "[]" "[]" 0 0 0 "[]" "[]" 0 0, unfolded o(2)]
  show ?thesis by (simp only: fold_simps) blast
qed
section \<open>An outcome is recorded once\<close>

text \<open>
  The attempt numbered \<open>n\<close> is over: it has an outcome, or its rows were dropped with a settled
  effect.
\<close>

definition attempt_over :: "int \<Rightarrow> attempt_row set \<Rightarrow> effect_row \<Rightarrow> bool" where
  "attempt_over n A e \<longleftrightarrow>
     settled_status (e_status e) \<or> (\<exists>a \<in> A. \<not> in_flight a \<and> a_attempt a = n)"

lemma attempt_over_move:
  assumes "emove (A, e) (A', e')" "effect_ok A e" "attempt_over n A e"
  shows "attempt_over n A' e'"
proof (cases "settled_status (e_status e)")
  case True
  then show ?thesis using emove_keeps(6) [OF assms(1)] by (simp add: attempt_over_def)
next
  case False
  then obtain a where a: "a \<in> A" "\<not> in_flight a" "a_attempt a = n"
    using assms(3) by (auto simp: attempt_over_def)
  have keep: ?thesis if "a \<in> A'" using that a unfolding attempt_over_def by blast
  from assms(1) show ?thesis
  proof (cases rule: emoveE)
    case (complete b c s)
    then have "a \<noteq> b" using a(2) by auto
    then show ?thesis using a(1) complete(6) keep by blast
  next
    case (expire b at y)
    then have "a \<noteq> b" using a(2) by auto
    then show ?thesis using a(1) expire(5) keep by blast
  next
    case forget
    with False show ?thesis by simp
  qed (use a(1) keep in blast)+
qed

lemma attempt_over_moves:
  assumes "emove\<^sup>*\<^sup>* (A, e) (A', e')" "effect_ok A e" "attempt_over n A e"
  shows "attempt_over n A' e'"
proof -
  have "effect_ok A' e' \<and> attempt_over n A' e'"
    using assms
  proof (induction rule: rtranclp_induct2)
    case (step A1 e1 A2 e2)
    then show ?case using emove_ok [of A1 e1 A2 e2] attempt_over_move [of A1 e1 A2 e2] by blast
  qed simp
  then show ?thesis by simp
qed

lemma attempt_over_closed:
  assumes "effect_ok A e" "attempt_over n A e" "b \<in> A" "a_attempt b = n"
  shows "\<not> in_flight b"
proof
  assume f: "in_flight b"
  have "e_status e = EfStarted"
    by (rule effect_okD(6) [OF assms(1) effect_okD(3) [OF assms(1,3) f]])
  then obtain a where a: "a \<in> A" "\<not> in_flight a" "a_attempt a = n"
    using assms(2) by (auto simp: attempt_over_def settled_status_def)
  then have "a = b" using inj_onD [OF effect_okD(5) [OF assms(1)], of a b] assms(3,4) by simp
  with a f show False by simp
qed

text \<open>
  C37. An outcome is recorded once.  When an attempt has an outcome, reported by its sender or
  given by the expiry of its lease, every completion that names the attempt is refused from then
  on and changes nothing, also with the right lease token and also after its row was deleted.
\<close>

theorem outcome_recorded_once:
  assumes "a \<in> set (t_attempts (fold (effect_step sha) ops empty_ledger))" and "\<not> in_flight a"
    and "co_effect c = a_effect a" and "co_attempt c = a_attempt a"
    and "db = fold (effect_step sha) (ops @ later) empty_ledger"
  shows "\<exists>err. complete_send c db = (db, Some err)"
proof -
  let ?db = "fold (effect_step sha) ops empty_ledger"
  have inv: "effect_inv sha ?db" by (rule run_effect_inv)
  have db: "db = fold (effect_step sha) later ?db" by (simp add: assms(5))
  have l: "ledger_inv db" using effects.run_inv [OF inv, of later] db by (simp add: effect_inv_def)
  obtain e where e: "e \<in> set (t_effects ?db)" "e_id e = a_effect a" "a \<in> attempts_of (e_id e) ?db"
    by (rule attempt_effect [OF run_ledger_inv assms(1)])
  have over: "attempt_over (a_attempt a) (attempts_of (e_id e) ?db) e"
    unfolding attempt_over_def using e(3) assms(2) by blast
  obtain e' where e': "e' \<in> set (t_effects db)"
    "emove\<^sup>*\<^sup>* (attempts_of (e_id e) ?db, e) (attempts_of (e_id e) db, e')"
    using effects.run_le [OF inv, of later] e(1) unfolding db ledger_le_def by blast
  have id: "e_id e' = e_id e" using emoves_keep [OF e'(2)] by simp
  have over': "attempt_over (a_attempt a) (attempts_of (e_id e') db) e'"
    using attempt_over_moves [OF e'(2) ledger_effect_ok [OF run_ledger_inv e(1)] over] id by simp
  obtain db' r where d: "complete_send c db = (db', r)" by fastforce
  from l d show ?thesis
  proof (cases rule: complete_send_cases)
    case (finished e1 b s)
    have "\<not> in_flight b"
      by (rule attempt_over_closed [OF ledger_effect_ok [OF l e'(1)] over'])
        (use finished(5,7) assms(3,4) e(2) id in simp_all)
    with finished(6) show ?thesis by simp
  qed (use d in auto)
qed

theorem outcome_recorded_once_witness:
  "\<exists>err. complete_send (demo_completion AtAccepted RcNone)
      (fold (effect_step (\<lambda>s. s)) (demo_sent @ [OpExpire (2 * minute) 10]) empty_ledger) =
      (fold (effect_step (\<lambda>s. s)) (demo_sent @ [OpExpire (2 * minute) 10]) empty_ledger, Some err)"
proof -
  let ?ops = "demo_sent @ [OpExpire (2 * minute) 10]"
  let ?a = "expire_attempt 120000 demo_attempt"
  have "expire_leases (2 * minute) 10 \<lparr>t_effects = [demo_effect], t_attempts = [demo_attempt],
      t_deliveries = [planned_payload (\<lambda>s. s) demo_plan 0 ''p1'']\<rparr> =
     (\<lparr>t_effects = [expire_effect 120000 demo_effect], t_attempts = [?a],
      t_deliveries = [planned_payload (\<lambda>s. s) demo_plan 0 ''p1'']\<rparr>, [demo_effect])"
    by (simp add: expire_leases_def sql_select_def lease_lapsed_def unix_milli_def expire_one_def
        update_effect_def update_attempt_def sql_update_def demo_effect_def planned_effect_def
        demo_attempt_def opened_attempt_def in_flight_def Let_def)
  then have a: "?a \<in> set (t_attempts (fold (effect_step (\<lambda>s. s)) ?ops empty_ledger))"
    by (simp add: demo_sent_db)
  have c: "co_effect (demo_completion AtAccepted RcNone) = a_effect ?a"
    "co_attempt (demo_completion AtAccepted RcNone) = a_attempt ?a" "\<not> in_flight ?a"
    by (simp_all add: demo_completion_def demo_attempt_def)
  show ?thesis
    using outcome_recorded_once [OF a c(3,1,2), of "fold (effect_step (\<lambda>s. s)) ?ops empty_ledger" "[]"]
    by simp
qed

section \<open>Lease expiry\<close>

lemma expire_one_rows:
  assumes "ledger_inv db" "e \<in> set (t_effects db)" "lease_lapsed at e"
  shows "t_effects (expire_one at e db) = map (\<lambda>r. if r = e then expire_effect at r else r) (t_effects db)"
proof -
  have "(e_id r = e_id e \<and> lease_lapsed at r) = (r = e)" if "r \<in> set (t_effects db)" for r
    using unique_index_eq [of "\<lambda>_. True" e_id "t_effects db" r e] assms that
    by (auto simp: ledger_inv_def)
  then show ?thesis
    by (simp add: expire_one_def update_effect_def update_attempt_def sql_update_def)
qed

lemma expire_fold_rows:
  assumes "ledger_inv db" "set es \<subseteq> set (t_effects db)" "\<forall>e \<in> set es. lease_lapsed at e" "distinct es"
  shows "t_effects (fold (expire_one at) es db) =
    map (\<lambda>r. if r \<in> set es then expire_effect at r else r) (t_effects db)"
  using assms
proof (induction es arbitrary: db)
  case (Cons e es)
  let ?db1 = "expire_one at e db"
  have e: "e \<in> set (t_effects db)" "lease_lapsed at e" using Cons.prems(2,3) by auto
  note rows = expire_one_rows [OF Cons.prems(1) e]
  have inv1: "ledger_inv ?db1"
    using ledger_move_inv [OF Cons.prems(1) expire_one_move(1) [OF Cons.prems(1) e]] .
  have sub: "set es \<subseteq> set (t_effects ?db1)"
    using Cons.prems(2,4) expire_one_move(2) [OF Cons.prems(1) e] by auto
  have not_lapsed: "\<not> lease_lapsed at (expire_effect at r)" for r
    by (simp add: lease_lapsed_def expire_effect_def)
  have "expire_effect at e \<notin> set es" using Cons.prems(3) not_lapsed by auto
  moreover have "t_effects (fold (expire_one at) es ?db1) =
      map (\<lambda>r. if r \<in> set es then expire_effect at r else r) (t_effects ?db1)"
    by (rule Cons.IH [OF inv1 sub]) (use Cons.prems(3,4) in auto)
  ultimately show ?case using Cons.prems(4) by (simp add: rows)
qed simp

text \<open>
  What an expiry pass does.  The effects it returns are exactly those whose lease had run
  out, oldest first and at most \<open>limit\<close> of them; each becomes of unknown outcome, is nobody's
  and is not due for a retry, its open attempt is closed as unknown, and all other effects are
  as before.  A pass that returns fewer than \<open>limit\<close> leaves no lapsed lease.
\<close>

theorem expire_leases_spec:
  assumes "db = fold (effect_step sha) ops empty_ledger" and "0 < limit"
    and "expire_leases now limit db = (db', es)"
  shows "es = take (nat limit) (sql_select (lease_lapsed (unix_milli now)) lease_key (t_effects db)) \<and>
    t_effects db' = map (\<lambda>e. if e \<in> set es then expire_effect (unix_milli now) e else e) (t_effects db) \<and>
    (\<forall>e \<in> set es. \<forall>a \<in> set (t_attempts db'). a_effect a = e_id e \<longrightarrow> \<not> in_flight a) \<and>
    (int (length es) < limit \<longrightarrow> (\<forall>e \<in> set (t_effects db'). \<not> lease_lapsed (unix_milli now) e))"
proof -
  let ?at = "unix_milli now"
  let ?L = "sql_select (lease_lapsed ?at) lease_key (t_effects db)"
  have inv: "effect_inv sha db" by (simp add: assms(1) run_effect_inv)
  then have l: "ledger_inv db" by (simp add: effect_inv_def)
  have es: "es = take (nat limit) ?L" "db' = fold (expire_one ?at) es db"
    using assms(2,3) by (auto simp: expire_leases_def Let_def)
  have "distinct (t_effects db)"
    using l by (auto simp: ledger_inv_def intro: unique_index_distinct)
  then have d: "distinct es" unfolding es(1) by (simp add: sql_select_def)
  have sub: "set es \<subseteq> set (t_effects db)" "\<forall>e \<in> set es. lease_lapsed ?at e"
    unfolding es(1) by (auto dest!: in_set_takeD)
  have rows: "t_effects db' = map (\<lambda>e. if e \<in> set es then expire_effect ?at e else e) (t_effects db)"
    unfolding es(2) by (rule expire_fold_rows [OF l sub d])
  have l': "ledger_inv db'"
    using expire_fold_inv [OF inv sub d] by (simp add: es(2) effect_inv_def)
  have "\<not> in_flight a" if e: "e \<in> set es" and a: "a \<in> set (t_attempts db')" "a_effect a = e_id e" for e a
  proof -
    let ?e = "expire_effect ?at e"
    have "?e \<in> set (t_effects db')" unfolding rows using e sub(1) by force
    from ledger_effect_ok [OF l' this] have "effect_ok (attempts_of (e_id e) db') ?e"
      by (simp add: expire_effect_def)
    moreover have "a \<in> attempts_of (e_id e) db'" using a by (simp add: attempts_of_def)
    moreover have "e_lease ?e = None" by (simp add: expire_effect_def)
    ultimately show ?thesis using effect_okD(3) by blast
  qed
  moreover have "\<not> lease_lapsed ?at e" if "int (length es) < limit" "e \<in> set (t_effects db')" for e
  proof -
    have "length es = length ?L" using that(1) unfolding es(1) by simp
    then have "set es = set ?L" unfolding es(1) by simp
    then have "set es = {e \<in> set (t_effects db). lease_lapsed ?at e}" by simp
    then show ?thesis
      using that(2) unfolding rows by (auto simp: lease_lapsed_def expire_effect_def split: if_splits)
  qed
  ultimately show ?thesis using es(1) rows by blast
qed

theorem expire_leases_spec_witness:
  "\<exists>db'. expire_leases (2 * minute) 10 (fold (effect_step (\<lambda>s. s)) demo_sent empty_ledger) =
      (db', [demo_effect]) \<and> t_effects db' = [expire_effect 120000 demo_effect]"
proof -
  let ?db = "fold (effect_step (\<lambda>s. s)) demo_sent empty_ledger"
  obtain db' es where d: "expire_leases (2 * minute) 10 ?db = (db', es)" by fastforce
  have "lease_lapsed 120000 demo_effect"
    by (simp add: lease_lapsed_def demo_effect_def)
  with expire_leases_spec [OF refl _ d] d show ?thesis
    by (simp add: demo_sent_db unix_milli_def sql_select_def)
qed
section \<open>The work lists\<close>

lemma open_claim_succeeds:
  assumes "effect_by_id i db1 = Some e"
    and "\<forall>a \<in> set (t_attempts db1). a_id a \<noteq> aid \<and> \<not> (a_effect a = i \<and> a_attempt a = n)"
  shows "\<exists>db' c. open_claim aid tok i n owner at db db1 = (db', Inr c) \<and> ec_attempt c = n \<and> ec_token c = tok"
proof -
  have "\<not> (\<exists>a \<in> set (t_attempts db1). a_id a = aid \<or> (a_effect a = i \<and> a_attempt a = n))"
    using assms(2) by blast
  then show ?thesis using assms(1) by (simp add: open_claim_def open_attempt_def)
qed

text \<open>
  C39. The retry list is claimable.  Every effect the list of due retries returns can be claimed
  for its next attempt with the same cap, by any owner with a live lease: no retry that is due
  is blocked by the rows already there.
\<close>

theorem due_retry_is_claimable:
  assumes "db = fold (effect_step sha) ops empty_ledger"
    and "e \<in> set (list_due_retries now m limit db)"
    and "validate_claim (e_id e) owner lu now" and "\<forall>a \<in> set (t_attempts db). a_id a \<noteq> aid"
  shows "\<exists>db' c. claim_retry (e_id e) owner lu (e_attempt e) m now aid tok db = (db', Inr c) \<and>
    ec_attempt c = e_attempt e + 1 \<and> ec_token c = tok"
proof -
  let ?P = "\<lambda>r. e_id r = e_id e \<and> e_status r = EfStarted \<and> e_attempt r = e_attempt e \<and>
       (\<exists>t \<in> set_option (e_next r). t \<le> unix_milli now) \<and> e_attempt r + 1 < m"
  let ?f = "\<lambda>e. e\<lparr>e_attempt := e_attempt e + 1, e_owner := owner, e_lease := Some (unix_milli lu),
      e_version := e_version e + 1, e_next := None, e_settled := None, e_updated := unix_milli now\<rparr>"
  let ?db1 = "db\<lparr>t_effects := sql_update ?P ?f (t_effects db)\<rparr>"
  have l: "ledger_inv db" using run_ledger_inv [of sha ops] by (simp add: assms(1))
  have e: "e \<in> set (t_effects db)" "?P e" "0 < m"
    using assms(2) by (auto simp: list_due_retries_def split: if_splits dest!: in_set_takeD)
  note ok = ledger_effect_ok [OF l e(1)]
  have free: "a_id a \<noteq> aid \<and> \<not> (a_effect a = e_id e \<and> a_attempt a = e_attempt e + 1)"
    if "a \<in> set (t_attempts db)" for a
    using effect_okD(1) [OF ok, of a] that assms(4) by (fastforce simp: attempts_of_def)
  have "effect_by_id (e_id e) ?db1 = Some (if ?P e then ?f e else e)"
    by (rule effect_by_id_update [OF effect_by_id_unique [OF l e(1)]]) simp
  then obtain db' c where "open_claim aid tok (e_id e) (e_attempt e + 1) owner (unix_milli now) db ?db1 = (db', Inr c)"
      "ec_attempt c = e_attempt e + 1" "ec_token c = tok"
    using open_claim_succeeds [of "e_id e" ?db1 _ aid "e_attempt e + 1" tok owner "unix_milli now" db] free
    by auto
  moreover have "sql_count ?P (t_effects db) \<noteq> 0" using e(1,2) sql_count_0_iff [of ?P] by blast
  ultimately show ?thesis
    using assms(3) e(3) by (simp add: claim_retry_def update_effect_def)
qed

definition demo_due :: "effect_op list" where
  "demo_due = demo_sent @ [OpComplete (demo_completion AtRejected RcSafeRetry)]"

theorem due_retry_is_claimable_witness:
  "\<exists>db' c. claim_retry ''f1'' ''gw2'' (2 * minute) 0 3 minute ''a2'' ''k2''
     (fold (effect_step (\<lambda>s. s)) demo_due empty_ledger) = (db', Inr c) \<and> ec_attempt c = 1"
proof -
  let ?e = "apply_completion (demo_completion AtRejected RcSafeRetry) EfStarted demo_effect"
  let ?a = "finish_attempt (demo_completion AtRejected RcSafeRetry) demo_attempt"
  have db: "fold (effect_step (\<lambda>s. s)) demo_due empty_ledger = \<lparr>t_effects = [?e], t_attempts = [?a],
      t_deliveries = [planned_payload (\<lambda>s. s) demo_plan 0 ''p1'']\<rparr>"
    by (simp add: demo_due_def demo_sent_db demo_complete effect_status_for_def)
  have e: "e_id ?e = ''f1''" "e_attempt ?e = 0" "e_status ?e = EfStarted" "e_next ?e = Some 32000"
    by (simp_all add: apply_completion_def demo_effect_def planned_effect_def demo_completion_def unix_milli_def)
  have "?e \<in> set (list_due_retries minute 3 10 (fold (effect_step (\<lambda>s. s)) demo_due empty_ledger))"
    unfolding db by (simp add: list_due_retries_def sql_select_def e unix_milli_def)
  moreover have "validate_claim (e_id ?e) ''gw2'' (2 * minute) minute"
    by (simp add: e validate_claim_def zero_time_def)
  moreover have "\<forall>a \<in> set (t_attempts (fold (effect_step (\<lambda>s. s)) demo_due empty_ledger)). a_id a \<noteq> ''a2''"
    unfolding db by (simp add: demo_attempt_def)
  ultimately have "\<exists>db' c. claim_retry (e_id ?e) ''gw2'' (2 * minute) (e_attempt ?e) 3 minute ''a2'' ''k2''
     (fold (effect_step (\<lambda>s. s)) demo_due empty_ledger) = (db', Inr c) \<and>
     ec_attempt c = e_attempt ?e + 1 \<and> ec_token c = ''k2''"
    by (rule due_retry_is_claimable [OF refl])
  then show ?thesis unfolding e by auto
qed

section \<open>Backoff\<close>

lemma double_below_closed:
  "0 < w \<Longrightarrow> w \<le> m \<Longrightarrow> min m (double_below n m w) = min m (w * 2 ^ n) \<and> double_below n m w < 2 * m"
proof (induction n arbitrary: w)
  case (Suc n)
  show ?case
  proof (cases "w * 2 \<le> m")
    case True
    with Suc.IH [of "w * 2"] Suc.prems show ?thesis by (simp add: mult.assoc)
  next
    case le: False
    have "w * 2 * 1 \<le> w * 2 * 2 ^ n"
      by (rule mult_left_mono) (use Suc.prems(1) in simp_all)
    with le have big: "m \<le> w * 2 ^ Suc n" by (simp add: mult.assoc)
    have stop: "double_below k m v = v" if "m \<le> v" for k v
      using that by (cases k) simp_all
    show ?thesis
    proof (cases "w < m")
      case True
      then show ?thesis using le big stop [of "w * 2" n] by simp
    next
      case False
      then show ?thesis using Suc.prems big by simp
    qed
  qed
qed simp

text \<open>
  The retry wait.  With an initial wait between zero and the maximum, the wait before the
  retry after attempt number \<open>n\<close> is the initial wait doubled once per earlier retry, capped at
  the maximum, except that a longer hint of the provider is honoured; the doubling never
  computes a value of twice the maximum or more, so it fits the integer width the maximum
  leaves a bit of.
\<close>

theorem retry_backoff_closed:
  assumes "0 < rb_initial b" and "rb_initial b \<le> rb_max b" and "1 \<le> n"
  shows "retry_backoff b n hint = max hint (min (rb_max b) (rb_initial b * 2 ^ nat (n - 1))) \<and>
    double_below (nat (n - 1)) (rb_max b) (rb_initial b) < 2 * rb_max b"
proof -
  let ?w = "double_below (nat (n - 1)) (rb_max b) (rb_initial b)"
  have c: "min (rb_max b) ?w = min (rb_max b) (rb_initial b * 2 ^ nat (n - 1))" "?w < 2 * rb_max b"
    using double_below_closed [OF assms(1,2)] by blast+
  have "retry_backoff b n hint = max hint (min (rb_max b) ?w)"
    by (auto simp: retry_backoff_def Let_def max_def min_def)
  with c show ?thesis by simp
qed

theorem retry_backoff_closed_witness:
  "map (\<lambda>n. retry_backoff default_retry_budget n 0) [1, 2, 3, 4, 5] =
     [30 * second, minute, 2 * minute, 4 * minute, 5 * minute] \<and>
   retry_backoff default_retry_budget 2 (10 * minute) = 10 * minute"
  using retry_backoff_closed [of default_retry_budget 1 0] retry_backoff_closed [of default_retry_budget 2 0]
    retry_backoff_closed [of default_retry_budget 3 0] retry_backoff_closed [of default_retry_budget 4 0]
    retry_backoff_closed [of default_retry_budget 5 0]
    retry_backoff_closed [of default_retry_budget 2 "10 * minute"]
  by (simp add: default_retry_budget_def)

end
