(* ===== verification/Cron.thy ===== *)
theory Cron
  imports Tables Interfaces "HOL-Library.List_Lexorder" "HOL-Library.Char_ord" "HOL-Library.Product_Lexorder"
begin

text \<open>
  Cron firings, \<open>internal/cron\<close>: schedules, the identity of a firing, the durable occurrence
  ledger, and the executor that turns one firing into at most one run.  RFC 3339 parsing, the
  cron-expression library, the fingerprint hash and generated ids are arguments; errors are
  carried as their message text, because the scheduler decides retries on the text.
\<close>

section \<open>Jobs\<close>

datatype schedule_kind = SkAt | SkEvery | SkCron | SkOther string

record cron_schedule =
  cs_kind :: schedule_kind
  cs_at :: string
  cs_every :: int
  cs_expr :: string
  cs_tz :: string

datatype payload_kind = PkIsolated | PkSystem | PkAttached | PkOther string

record cron_payload =
  cp_kind :: payload_kind
  cp_message :: string
  cp_target :: string
  cp_tools :: "string list"
  cp_worker :: string

datatype job_status = JsNone | JsSuccess | JsFailed | JsTimeout

datatype delivery_mode = DmEmpty | DmLegacy | DmGateway | DmOther string

text \<open>\<open>ResolveDeliveryMode\<close>\<close>

definition resolve_delivery_mode :: "delivery_mode \<Rightarrow> delivery_mode" where
  "resolve_delivery_mode m = (if m = DmGateway then DmGateway else DmLegacy)"

record cron_job_state =
  st_next_run :: millis
  st_last_run :: millis
  st_running :: millis
  st_last_status :: job_status
  st_consecutive :: int
  st_sched_errs :: int
  st_retry :: int
  st_run_id :: string
  st_run_count :: int

record cron_job =
  j_id :: string
  j_name :: string
  j_description :: string
  j_enabled :: bool
  j_schedule :: cron_schedule
  j_payload :: cron_payload
  j_work_dir :: string
  j_bot_id :: string
  j_bot_name :: string
  j_owner :: string
  j_platform :: string
  j_platform_key :: "string \<Rightarrow> string option"
  j_mode :: delivery_mode
  j_timeout :: int
  j_delete_after :: bool
  j_silent :: bool
  j_max_retries :: int
  j_max_runs :: int
  j_expires :: string
  j_state :: cron_job_state
  j_created :: millis
  j_updated :: millis

text \<open>Reading a missing key of a Go \<open>map[string]string\<close> gives the empty string.\<close>

definition key_value :: "(string \<Rightarrow> string option) \<Rightarrow> string \<Rightarrow> string" where
  "key_value m k = (case m k of None \<Rightarrow> [] | Some v \<Rightarrow> v)"

section \<open>Schedules\<close>

text \<open>A Go \<open>time.Duration\<close> computed by a multiplication wraps at 64 bits.\<close>

definition int64 :: "int \<Rightarrow> int" where
  "int64 x = sint (word_of_int x :: 64 word)"

datatype schedule_error = SeUnknownKind | SeBadAt | SeNotPositive | SeBadExpr | SeMissing | SeTooShort

text \<open>
  \<open>NextRun\<close>.  \<open>parse_at\<close> is \<open>time.Parse(time.RFC3339, _)\<close>; \<open>cron_next expr tz now\<close> is the
  library's next activation, \<open>None\<close> when the zone or the expression does not parse.
\<close>

definition next_run_at :: "(string \<Rightarrow> instant option) \<Rightarrow> cron_schedule \<Rightarrow> instant \<Rightarrow> schedule_error + instant" where
  "next_run_at parse_at s now =
     (case parse_at (cs_at s) of
        None \<Rightarrow> Inl SeBadAt
      | Some t \<Rightarrow> if \<not> t > now then Inr zero_time else Inr t)"

definition next_run_every :: "cron_schedule \<Rightarrow> instant \<Rightarrow> schedule_error + instant" where
  "next_run_every s now =
     (if cs_every s \<le> 0 then Inl SeNotPositive else Inr (now + int64 (cs_every s * millisecond)))"

definition next_run_cron ::
    "(string \<Rightarrow> string \<Rightarrow> instant \<Rightarrow> instant option) \<Rightarrow> cron_schedule \<Rightarrow> instant \<Rightarrow> schedule_error + instant" where
  "next_run_cron cron_next s now =
     (case cron_next (cs_expr s) (cs_tz s) now of None \<Rightarrow> Inl SeBadExpr | Some t \<Rightarrow> Inr t)"

definition next_run ::
    "(string \<Rightarrow> instant option) \<Rightarrow> (string \<Rightarrow> string \<Rightarrow> instant \<Rightarrow> instant option) \<Rightarrow>
       cron_schedule \<Rightarrow> instant \<Rightarrow> schedule_error + instant" where
  "next_run parse_at cron_next s now =
     (case cs_kind s of
        SkAt \<Rightarrow> next_run_at parse_at s now
      | SkEvery \<Rightarrow> next_run_every s now
      | SkCron \<Rightarrow> next_run_cron cron_next s now
      | SkOther k \<Rightarrow> Inl SeUnknownKind)"

text \<open>\<open>ValidateSchedule\<close>; \<open>expr_ok\<close> tells whether the library parses an expression.\<close>

definition validate_schedule ::
    "(string \<Rightarrow> instant option) \<Rightarrow> (string \<Rightarrow> bool) \<Rightarrow> cron_schedule \<Rightarrow> schedule_error option" where
  "validate_schedule parse_at expr_ok s =
     (case cs_kind s of
        SkAt \<Rightarrow> if cs_at s = [] then Some SeMissing
                else if parse_at (cs_at s) = None then Some SeBadAt else None
      | SkEvery \<Rightarrow> if cs_every s \<le> 0 then Some SeNotPositive
                   else if cs_every s < 60000 then Some SeTooShort else None
      | SkCron \<Rightarrow> if cs_expr s = [] then Some SeMissing
                  else if \<not> expr_ok (cs_expr s) then Some SeBadExpr else None
      | SkOther k \<Rightarrow> Some SeUnknownKind)"

section \<open>The identity of a firing\<close>

text \<open>\<open>strconv.FormatInt(_, 10)\<close>\<close>

fun dec_digits :: "nat \<Rightarrow> string" where
  "dec_digits n = (if n < 10 then [char_of (48 + n)] else dec_digits (n div 10) @ [char_of (48 + n mod 10)])"

declare dec_digits.simps [simp del]

definition format_int :: "int \<Rightarrow> string" where
  "format_int i = (if i < 0 then ''-'' @ dec_digits (nat (- i)) else dec_digits (nat i))"

datatype trigger_kind = TkScheduled | TkManual | TkWebhook | TkOther string

record trigger_identity =
  ti_kind :: trigger_kind
  ti_job :: string
  ti_rev :: string
  ti_scheduled :: millis
  ti_nonce :: string
  ti_source :: string

datatype identity_error = IeNoJob | IeNoInstant | IeNoNonce | IeNoSource | IeUnknownKind

definition trigger_key :: "trigger_identity \<Rightarrow> identity_error + string" where
  "trigger_key t =
     (if ti_job t = [] then Inl IeNoJob
      else
        (case ti_kind t of
           TkScheduled \<Rightarrow>
             if ti_scheduled t \<le> 0 then Inl IeNoInstant
             else Inr (''sched|'' @ ti_job t @ ''|'' @ ti_rev t @ ''|'' @ format_int (ti_scheduled t))
         | TkManual \<Rightarrow>
             if ti_nonce t = [] then Inl IeNoNonce
             else Inr (''manual|'' @ ti_job t @ ''|'' @ ti_nonce t)
         | TkWebhook \<Rightarrow>
             if ti_source t = [] then Inl IeNoSource
             else Inr (''webhook|'' @ ti_job t @ ''|'' @ ti_source t)
         | TkOther k \<Rightarrow> Inl IeUnknownKind))"

definition kind_text :: "schedule_kind \<Rightarrow> string" where
  "kind_text k = (case k of SkAt \<Rightarrow> ''at'' | SkEvery \<Rightarrow> ''every'' | SkCron \<Rightarrow> ''cron'' | SkOther s \<Rightarrow> s)"

text \<open>\<open>fp\<close> is the hexadecimal form of the first eight bytes of the SHA-256 digest.\<close>

definition schedule_revision :: "(string \<Rightarrow> string) \<Rightarrow> cron_schedule \<Rightarrow> string" where
  "schedule_revision fp s =
     fp (kind_text (cs_kind s) @ ''|'' @ cs_at s @ ''|'' @ format_int (cs_every s) @ ''|'' @
         cs_expr s @ ''|'' @ cs_tz s)"

definition scheduled_trigger_for :: "(string \<Rightarrow> string) \<Rightarrow> cron_job \<Rightarrow> trigger_identity" where
  "scheduled_trigger_for fp j =
     \<lparr>ti_kind = TkScheduled, ti_job = j_id j, ti_rev = schedule_revision fp (j_schedule j),
      ti_scheduled = st_next_run (j_state j), ti_nonce = [], ti_source = []\<rparr>"

definition requested_trigger_for :: "cron_job \<Rightarrow> string \<Rightarrow> string \<Rightarrow> trigger_identity" where
  "requested_trigger_for j nonce event =
     (if key_value (j_platform_key j) ''trigger'' = ''webhook'' \<and> event \<noteq> []
      then \<lparr>ti_kind = TkWebhook, ti_job = j_id j, ti_rev = [], ti_scheduled = 0, ti_nonce = [],
            ti_source = event\<rparr>
      else \<lparr>ti_kind = TkManual, ti_job = j_id j, ti_rev = [], ti_scheduled = 0, ti_nonce = nonce,
            ti_source = []\<rparr>)"

section \<open>The occurrence ledger\<close>

datatype occurrence_status = OcAccepted | OcStarted | OcCompleted | OcFailed | OcUnknown

record occurrence =
  oc_id :: string
  oc_key :: string
  oc_generation :: int
  oc_job :: string
  oc_kind :: trigger_kind
  oc_rev :: string
  oc_scheduled :: millis
  oc_nonce :: string
  oc_source :: string
  oc_session :: string
  oc_execution :: string
  oc_mode :: delivery_mode
  oc_status :: occurrence_status
  oc_error :: string
  oc_created :: millis
  oc_updated :: millis
  oc_started :: "millis option"
  oc_finished :: "millis option"

type_synonym occurrence_db = "occurrence list"

definition new_occurrence ::
    "trigger_identity \<Rightarrow> delivery_mode \<Rightarrow> instant \<Rightarrow> string \<Rightarrow> identity_error + occurrence" where
  "new_occurrence t mode now oid =
     (case trigger_key t of
        Inl err \<Rightarrow> Inl err
      | Inr key \<Rightarrow> Inr
          \<lparr>oc_id = oid, oc_key = key, oc_generation = 0, oc_job = ti_job t, oc_kind = ti_kind t,
           oc_rev = ti_rev t, oc_scheduled = ti_scheduled t, oc_nonce = ti_nonce t,
           oc_source = ti_source t, oc_session = [], oc_execution = [],
           oc_mode = resolve_delivery_mode mode, oc_status = OcAccepted, oc_error = [],
           oc_created = unix_milli now, oc_updated = unix_milli now, oc_started = None,
           oc_finished = None\<rparr>)"

datatype occurrence_error = OeNotFound | OeConstraint

definition occurrence_get :: "string \<Rightarrow> int \<Rightarrow> occurrence_db \<Rightarrow> occurrence option" where
  "occurrence_get key gen db = sql_row (\<lambda>r. (oc_key r, oc_generation r) = (key, gen)) db"

definition occurrence_by_id :: "string \<Rightarrow> occurrence_db \<Rightarrow> occurrence option" where
  "occurrence_by_id i db = sql_row (\<lambda>r. oc_id r = i) db"

definition normalize_occurrence :: "occurrence \<Rightarrow> occurrence" where
  "normalize_occurrence r = r\<lparr>oc_mode := resolve_delivery_mode (oc_mode r)\<rparr>"

text \<open>
  \<open>Claim\<close>: insert unless the key and generation are taken, then read the stored row; the check
  constraint admits the three known trigger kinds only.
\<close>

definition claim_occurrence ::
    "occurrence \<Rightarrow> occurrence_db \<Rightarrow> occurrence_db \<times> (occurrence_error + occurrence \<times> bool)" where
  "claim_occurrence r0 db =
     (let r = normalize_occurrence r0
      in if oc_kind r \<notin> {TkScheduled, TkManual, TkWebhook} then (db, Inl OeConstraint)
         else
           (case occurrence_get (oc_key r) (oc_generation r) db of
              Some stored \<Rightarrow> (db, Inr (stored, False))
            | None \<Rightarrow>
                if \<exists>x \<in> set db. oc_id x = oc_id r then (db, Inl OeConstraint)
                else (db @ [r], Inr (r, True))))"

definition bind_session :: "string \<Rightarrow> string \<Rightarrow> occurrence_db \<Rightarrow> occurrence_db" where
  "bind_session i session db = sql_update (\<lambda>r. oc_id r = i) (\<lambda>r. r\<lparr>oc_session := session\<rparr>) db"

definition stamp_status :: "occurrence_status \<Rightarrow> string \<Rightarrow> instant \<Rightarrow> occurrence \<Rightarrow> occurrence" where
  "stamp_status s err at r = r\<lparr>oc_status := s, oc_error := err, oc_updated := unix_milli at,
     oc_started := (if s = OcStarted \<and> oc_started r = None then Some (unix_milli at) else oc_started r),
     oc_finished := (if s \<in> {OcCompleted, OcFailed, OcUnknown} then Some (unix_milli at)
                     else oc_finished r)\<rparr>"

definition update_status ::
    "string \<Rightarrow> occurrence_status \<Rightarrow> string \<Rightarrow> instant \<Rightarrow> occurrence_db \<Rightarrow> occurrence_db" where
  "update_status i s err at db = sql_update (\<lambda>r. oc_id r = i) (stamp_status s err at) db"

definition list_by_job :: "string \<Rightarrow> int \<Rightarrow> occurrence_db \<Rightarrow> occurrence list" where
  "list_by_job job limit db =
     (let lim = (if limit \<le> 0 then 20 else limit)
      in take (nat lim) (rev (sql_select (\<lambda>r. oc_job r = job) (\<lambda>r. (oc_created r, oc_id r)) db)))"

section \<open>Running one firing\<close>

text \<open>
  The answers of the surroundings to one run: whether a ledger is wired, the text of a ledger
  failure, of a failed session start, whether the worker is there, what the dispatcher answers
  (\<open>None\<close>: no dispatcher is wired), and what waiting for the execution ends with.
\<close>

record exec_env =
  ev_ledger :: bool
  ev_driver :: string
  ev_start :: "string option"
  ev_worker :: bool
  ev_dispatch :: "(string + string \<times> bool) option"
  ev_wait :: "string option"

record execute_result =
  er_session :: string
  er_occurrence :: string
  er_execution :: string
  er_mode :: delivery_mode
  er_duplicate :: bool

definition identity_text :: "identity_error \<Rightarrow> string" where
  "identity_text e = ''cron occurrence: trigger identity incomplete: '' @
     (case e of
        IeNoJob \<Rightarrow> ''missing job id''
      | IeNoInstant \<Rightarrow> ''scheduled firing needs a scheduled instant''
      | IeNoNonce \<Rightarrow> ''manual firing needs a request nonce''
      | IeNoSource \<Rightarrow> ''webhook firing needs a verified source id''
      | IeUnknownKind \<Rightarrow> ''unknown trigger kind'')"

text \<open>The epoch of the session key: a polynomial hash of the trigger key in 64-bit arithmetic.\<close>

definition occurrence_epoch :: "occurrence \<Rightarrow> int" where
  "occurrence_epoch r =
     int64 (sint (foldl (\<lambda>sum c. sum * 131 + word_of_nat (of_char c)) (0 :: 64 word) (oc_key r)) +
            oc_generation r)"

definition cron_session_key :: "(string \<Rightarrow> string) \<Rightarrow> string \<Rightarrow> int \<Rightarrow> string" where
  "cron_session_key hash job epoch = hash (job @ ''|'' @ format_int epoch)"

definition mark_occurrence ::
    "exec_env \<Rightarrow> occurrence \<Rightarrow> occurrence_status \<Rightarrow> string \<Rightarrow> instant \<Rightarrow> occurrence_db \<Rightarrow> occurrence_db" where
  "mark_occurrence ev r s err at db =
     (if ev_ledger ev then update_status (oc_id r) s err at db else db)"

text \<open>
  \<open>Execute\<close> after the claim.  The last component tells whether a session start was asked for;
  \<open>clk\<close> are the successive readings of the executor's clock.
\<close>

definition run_claimed ::
    "(string \<Rightarrow> string) \<Rightarrow> exec_env \<Rightarrow> cron_job \<Rightarrow> occurrence \<Rightarrow> execute_result \<Rightarrow> (nat \<Rightarrow> instant) \<Rightarrow>
       occurrence_db \<Rightarrow> occurrence_db \<times> execute_result \<times> string option \<times> bool" where
  "run_claimed hash ev job r out0 clk db =
     (let key = cron_session_key hash (j_id job) (occurrence_epoch r);
          out = out0\<lparr>er_session := key\<rparr>
      in (case ev_start ev of
            Some err \<Rightarrow>
              (mark_occurrence ev r OcFailed ''SESSION_START_FAILED'' (clk 1) db, out,
               Some (''start cron session: '' @ err), True)
          | None \<Rightarrow>
              if \<not> ev_worker ev then
                (mark_occurrence ev r OcFailed ''WORKER_NOT_FOUND'' (clk 1) db, out,
                 Some ''cron executor: worker not found after start'', True)
              else
                let db1 = (if ev_ledger ev
                           then update_status (oc_id r) OcStarted [] (clk 1) (bind_session (oc_id r) key db)
                           else db)
                in (case ev_dispatch ev of
                      None \<Rightarrow>
                        (mark_occurrence ev r OcFailed ''DISPATCHER_UNAVAILABLE'' (clk 2) db1, out,
                         Some ''cron executor: system input dispatcher unavailable: cron executor: system input dispatcher unavailable'',
                         True)
                    | Some (Inl err) \<Rightarrow>
                        (mark_occurrence ev r OcFailed ''WORKER_INPUT_FAILED'' (clk 2) db1, out,
                         Some (''cron executor: dispatch system input: '' @ err), True)
                    | Some (Inr (eid, True)) \<Rightarrow>
                        (mark_occurrence ev r OcCompleted [] (clk 2) db1, out\<lparr>er_execution := eid\<rparr>, None, True)
                    | Some (Inr (eid, False)) \<Rightarrow>
                        (case ev_wait ev of
                           Some err \<Rightarrow>
                             (mark_occurrence ev r OcUnknown ''EXECUTION_TIMEOUT'' (clk 2) db1,
                              out\<lparr>er_execution := eid\<rparr>, Some err, True)
                         | None \<Rightarrow>
                             (mark_occurrence ev r OcCompleted [] (clk 2) db1,
                              out\<lparr>er_execution := eid\<rparr>, None, True)))))"

definition execute ::
    "(string \<Rightarrow> string) \<Rightarrow> exec_env \<Rightarrow> cron_job \<Rightarrow> trigger_identity \<Rightarrow> (nat \<Rightarrow> instant) \<Rightarrow> string \<Rightarrow>
       occurrence_db \<Rightarrow> occurrence_db \<times> execute_result \<times> string option \<times> bool" where
  "execute hash ev job t clk oid db =
     (let out0 = \<lparr>er_session = [], er_occurrence = [], er_execution = [], er_mode = DmEmpty,
                  er_duplicate = False\<rparr>
      in (case new_occurrence t (resolve_delivery_mode (j_mode job)) (clk 0) oid of
            Inl err \<Rightarrow> (db, out0, Some (''cron executor: build occurrence: '' @ identity_text err), False)
          | Inr r \<Rightarrow>
              let out1 = out0\<lparr>er_occurrence := oc_id r, er_mode := oc_mode r\<rparr>
              in if \<not> ev_ledger ev then run_claimed hash ev job r out1 clk db
                 else
                   (case claim_occurrence r db of
                      (db', Inl err) \<Rightarrow>
                        (db', out1, Some (''cron executor: claim occurrence: '' @ ev_driver ev), False)
                    | (db', Inr (stored, created)) \<Rightarrow>
                        let out = out1\<lparr>er_occurrence := oc_id stored, er_mode := oc_mode stored\<rparr>
                        in if \<not> created
                           then (db', out\<lparr>er_duplicate := True, er_session := oc_session stored\<rparr>, None, False)
                           else run_claimed hash ev job stored out clk db')))"

section \<open>Errors of a run\<close>

datatype err_class = EcTimeout | EcNetwork | EcRateLimit | EcServer | EcExec

text \<open>\<open>strings.ToLower\<close> on the ASCII letters, which is what the patterns consist of.\<close>

definition lower_char :: "char \<Rightarrow> char" where
  "lower_char c = (let n = (of_char c :: nat) in if 65 \<le> n \<and> n \<le> 90 then char_of (n + 32) else c)"

definition to_lower :: "string \<Rightarrow> string" where
  "to_lower s = map lower_char s"

definition starts_with :: "string \<Rightarrow> string \<Rightarrow> bool" where
  "starts_with p s \<longleftrightarrow> take (length p) s = p"

fun str_contains :: "string \<Rightarrow> string \<Rightarrow> bool" where
  "str_contains sub [] = (sub = [])"
| "str_contains sub (c # s) = (starts_with sub (c # s) \<or> str_contains sub s)"

definition contains_any :: "string \<Rightarrow> string list \<Rightarrow> bool" where
  "contains_any s subs = list_ex (\<lambda>sub. str_contains sub s) subs"

definition word_char :: "char \<Rightarrow> bool" where
  "word_char c \<longleftrightarrow> (let n = (of_char c :: nat)
     in 48 \<le> n \<and> n \<le> 57 \<or> 65 \<le> n \<and> n \<le> 90 \<or> n = 95 \<or> 97 \<le> n \<and> n \<le> 122)"

definition boundary_after :: "string \<Rightarrow> bool" where
  "boundary_after s \<longleftrightarrow> (case s of [] \<Rightarrow> True | c # _ \<Rightarrow> \<not> word_char c)"

text \<open>\<open>isHTTPStatus\<close>: one of the codes between word boundaries; the flag is the boundary before.\<close>

fun http_status_from :: "bool \<Rightarrow> string \<Rightarrow> bool" where
  "http_status_from b [] = False"
| "http_status_from b (c # s) =
     (b \<and> take 3 (c # s) \<in> {''500'', ''502'', ''503'', ''504''} \<and> boundary_after (drop 3 (c # s)) \<or>
      http_status_from (\<not> word_char c) s)"

definition is_http_status :: "string \<Rightarrow> bool" where
  "is_http_status s = http_status_from True s"

definition classify_error :: "string option \<Rightarrow> err_class" where
  "classify_error err =
     (case err of
        None \<Rightarrow> EcExec
      | Some text \<Rightarrow>
          let msg = to_lower text
          in if contains_any msg [''timeout'', ''deadline exceeded''] then EcTimeout
             else if contains_any msg [''rate limit'', ''429''] then EcRateLimit
             else if is_http_status msg then EcServer
             else if contains_any msg [''connection refused'', ''temporary failure'', ''temporary error'',
                       ''connection reset'', ''broken pipe'', ''dns resolution'', ''dns lookup'', ''no route'']
             then EcNetwork else EcExec)"

definition is_temporary_error :: "string option \<Rightarrow> bool" where
  "is_temporary_error err \<longleftrightarrow>
     err \<noteq> None \<and> classify_error err \<in> {EcTimeout, EcNetwork, EcRateLimit, EcServer}"

section \<open>Backoff between failures\<close>

definition backoff_durations :: "duration list" where
  "backoff_durations = [30 * second, minute, 5 * minute, 15 * minute, 60 * minute]"

definition backoff :: "int \<Rightarrow> duration" where
  "backoff errs =
     (if errs \<le> 0 then 0
      else if errs \<ge> int (length backoff_durations) then last backoff_durations
      else backoff_durations ! nat (errs - 1))"

definition max_retries :: "cron_job \<Rightarrow> int" where
  "max_retries j = (if j_max_retries j > 0 then j_max_retries j else 3)"

section \<open>Who delivers the answer\<close>

definition required_platform_key :: "string \<Rightarrow> string option" where
  "required_platform_key p =
     (if p = ''feishu'' then Some ''chat_id'' else if p = ''slack'' then Some ''channel_id'' else None)"

definition has_cli_delivery :: "cron_job \<Rightarrow> bool" where
  "has_cli_delivery j =
     (case required_platform_key (j_platform j) of
        None \<Rightarrow> False
      | Some k \<Rightarrow> key_value (j_platform_key j) k \<noteq> [])"

text \<open>The instruction appended to the prompt, without its fixed wording.\<close>

datatype cli_suffix =
    CliNone
  | CliSlack string "string option"
  | CliFeishuReply string
  | CliFeishuSend string

definition build_slack_delivery :: "cron_job \<Rightarrow> cli_suffix" where
  "build_slack_delivery j =
     (let ch = key_value (j_platform_key j) ''channel_id''; ts = key_value (j_platform_key j) ''thread_ts''
      in if ch = [] then CliNone else CliSlack ch (if ts \<noteq> [] then Some ts else None))"

definition build_feishu_delivery :: "cron_job \<Rightarrow> cli_suffix" where
  "build_feishu_delivery j =
     (let chat = key_value (j_platform_key j) ''chat_id''; msg = key_value (j_platform_key j) ''message_id''
      in if chat = [] then CliNone else if msg \<noteq> [] then CliFeishuReply msg else CliFeishuSend chat)"

definition build_delivery_suffix :: "cron_job \<Rightarrow> cli_suffix" where
  "build_delivery_suffix j =
     (if j_silent j then CliNone
      else if j_platform j = [] \<or> j_platform j = ''cron'' then CliNone
      else if j_platform j = ''slack'' then build_slack_delivery j
      else if j_platform j = ''feishu'' then build_feishu_delivery j
      else CliNone)"

text \<open>The suffix \<open>Execute\<close> puts on the prompt.\<close>

definition prompt_suffix :: "cron_job \<Rightarrow> cli_suffix" where
  "prompt_suffix j =
     (if resolve_delivery_mode (j_mode j) = DmLegacy then build_delivery_suffix j else CliNone)"

datatype delivery_action = DaNone | DaNoOwner | DaEffect | DaLegacy

text \<open>\<open>routeDelivery\<close>: the flags tell which delivery owners are wired.\<close>

definition route_delivery :: "bool \<Rightarrow> bool \<Rightarrow> cron_job \<Rightarrow> execute_result \<Rightarrow> delivery_action" where
  "route_delivery effects legacy j out =
     (if j_silent j then DaNone
      else if er_mode out = DmGateway then (if effects then DaEffect else DaNoOwner)
      else if legacy \<and> \<not> has_cli_delivery j then DaLegacy
      else DaNone)"

end
