(* ===== verification/CronSched.thy ===== *)
theory CronSched
  imports Cron
begin

text \<open>
  The cron scheduler: the job store, the in-memory index it serves from, the timer tick that
  fires due jobs, what follows a run (failure counting, retry, one-shot and lifetime rules), the
  catch-up at start, and the retry queue of the legacy delivery.  The Go map of jobs is a list
  with one entry per id; the order of the list stands for the order of one iteration over it.
\<close>

section \<open>The job store\<close>

datatype job_error = JeNotFound | JeConstraint | JeInvalid string | JeMaxJobs int | JeSchedule schedule_error
  | JeDisabled | JeConcurrency int

text \<open>\<open>jobColumns\<close> has no column for the delivery mode, so a row that is read back has none.\<close>

definition stored_job :: "cron_job \<Rightarrow> cron_job" where
  "stored_job j = j\<lparr>j_mode := DmEmpty\<rparr>"

definition job_get :: "string \<Rightarrow> cron_job list \<Rightarrow> cron_job option" where
  "job_get i t = sql_row (\<lambda>j. j_id j = i) t"

definition job_by_name :: "string \<Rightarrow> cron_job list \<Rightarrow> cron_job option" where
  "job_by_name n t = sql_row (\<lambda>j. j_name j = n) t"

definition job_list :: "cron_job list \<Rightarrow> cron_job list" where
  "job_list t = sql_select (\<lambda>j. True) j_created t"

definition known_kinds :: "cron_job \<Rightarrow> bool" where
  "known_kinds j \<longleftrightarrow> cs_kind (j_schedule j) \<in> {SkAt, SkEvery, SkCron} \<and>
     cp_kind (j_payload j) \<in> {PkIsolated, PkSystem, PkAttached}"

definition job_create :: "cron_job \<Rightarrow> cron_job list \<Rightarrow> job_error + cron_job list" where
  "job_create j t =
     (if (\<exists>x \<in> set t. j_id x = j_id j \<or> j_name x = j_name j) \<or> \<not> known_kinds j then Inl JeConstraint
      else Inr (t @ [stored_job j]))"

definition job_update :: "cron_job \<Rightarrow> cron_job list \<Rightarrow> job_error + cron_job list" where
  "job_update j t =
     (if \<not> (\<exists>x \<in> set t. j_id x = j_id j) then Inl JeNotFound
      else if (\<exists>x \<in> set t. j_id x \<noteq> j_id j \<and> j_name x = j_name j) \<or> \<not> known_kinds j then Inl JeConstraint
      else Inr (sql_update (\<lambda>x. j_id x = j_id j) (\<lambda>x. (stored_job j)\<lparr>j_created := j_created x\<rparr>) t))"

definition job_delete :: "string \<Rightarrow> cron_job list \<Rightarrow> job_error + cron_job list" where
  "job_delete i t =
     (if \<not> (\<exists>x \<in> set t. j_id x = i) then Inl JeNotFound else Inr (sql_delete (\<lambda>x. j_id x = i) t))"

text \<open>\<open>UpdateState\<close> and \<open>SetEnabled\<close>; a missing job is an error the scheduler only logs.\<close>

definition job_update_state :: "string \<Rightarrow> cron_job_state \<Rightarrow> millis \<Rightarrow> cron_job list \<Rightarrow> cron_job list" where
  "job_update_state i st at t = sql_update (\<lambda>x. j_id x = i) (\<lambda>x. x\<lparr>j_state := st, j_updated := at\<rparr>) t"

definition job_set_enabled :: "string \<Rightarrow> bool \<Rightarrow> millis \<Rightarrow> cron_job list \<Rightarrow> cron_job list" where
  "job_set_enabled i b at t = sql_update (\<lambda>x. j_id x = i) (\<lambda>x. x\<lparr>j_enabled := b, j_updated := at\<rparr>) t"

definition copy_job_definition :: "millis \<Rightarrow> cron_job \<Rightarrow> cron_job \<Rightarrow> cron_job" where
  "copy_job_definition now dst src = dst\<lparr>j_schedule := j_schedule src, j_payload := j_payload src,
     j_description := j_description src, j_work_dir := j_work_dir src, j_bot_id := j_bot_id src,
     j_bot_name := (if j_bot_name src \<noteq> [] then j_bot_name src else j_bot_name dst),
     j_owner := j_owner src, j_platform := j_platform src, j_platform_key := j_platform_key src,
     j_timeout := j_timeout src, j_delete_after := j_delete_after src, j_silent := j_silent src,
     j_max_retries := j_max_retries src, j_max_runs := j_max_runs src, j_expires := j_expires src,
     j_enabled := j_enabled src, j_updated := now\<rparr>"

definition job_upsert :: "millis \<Rightarrow> cron_job \<Rightarrow> cron_job list \<Rightarrow> job_error + cron_job list" where
  "job_upsert now j t =
     (case job_by_name (j_name j) t of
        None \<Rightarrow> job_create j t
      | Some x \<Rightarrow> job_update (copy_job_definition now x j) t)"

section \<open>Scheduler state\<close>

record cron_sched =
  sc_store :: "cron_job list"
  sc_jobs :: "cron_job list"
  sc_running :: int
  sc_max_concurrent :: int
  sc_max_jobs :: int
  sc_default_timeout :: duration
  sc_closed :: bool

definition index_put :: "cron_job \<Rightarrow> cron_job list \<Rightarrow> cron_job list" where
  "index_put j js =
     (if \<exists>x \<in> set js. j_id x = j_id j then map (\<lambda>x. if j_id x = j_id j then j else x) js else js @ [j])"

definition index_delete :: "string \<Rightarrow> cron_job list \<Rightarrow> cron_job list" where
  "index_delete i js = filter (\<lambda>x. j_id x \<noteq> i) js"

definition merge_job_state :: "string \<Rightarrow> cron_job_state \<Rightarrow> bool \<Rightarrow> cron_sched \<Rightarrow> cron_sched" where
  "merge_job_state i st disable s = s\<lparr>sc_jobs :=
     map (\<lambda>x. if j_id x = i then x\<lparr>j_state := st, j_enabled := (j_enabled x \<and> \<not> disable)\<rparr> else x) (sc_jobs s)\<rparr>"

definition persist_state :: "string \<Rightarrow> cron_job_state \<Rightarrow> millis \<Rightarrow> cron_sched \<Rightarrow> cron_sched" where
  "persist_state i st at s = s\<lparr>sc_store := job_update_state i st at (sc_store s)\<rparr>"

definition persist_enabled :: "string \<Rightarrow> bool \<Rightarrow> millis \<Rightarrow> cron_sched \<Rightarrow> cron_sched" where
  "persist_enabled i b at s = s\<lparr>sc_store := job_set_enabled i b at (sc_store s)\<rparr>"

definition persist_and_disable :: "string \<Rightarrow> cron_job_state \<Rightarrow> millis \<Rightarrow> cron_sched \<Rightarrow> cron_sched" where
  "persist_and_disable i st at s =
     merge_job_state i st True (persist_enabled i False at (persist_state i st at s))"

text \<open>\<open>tryAcquireSlot\<close> and \<open>releaseSlot\<close>\<close>

definition try_acquire_slot :: "cron_sched \<Rightarrow> (cron_sched) option" where
  "try_acquire_slot s =
     (if sc_running s \<ge> sc_max_concurrent s then None else Some (s\<lparr>sc_running := sc_running s + 1\<rparr>))"

definition release_slot :: "cron_sched \<Rightarrow> cron_sched" where
  "release_slot s = s\<lparr>sc_running := sc_running s - 1\<rparr>"

definition new_scheduler :: "cron_job list \<Rightarrow> int \<Rightarrow> int \<Rightarrow> int \<Rightarrow> cron_sched" where
  "new_scheduler store max_runs max_jobs timeout_sec =
     \<lparr>sc_store = store, sc_jobs = [], sc_running = 0,
      sc_max_concurrent = (if max_runs \<le> 0 then 3 else max_runs),
      sc_max_jobs = (if max_jobs \<le> 0 then 50 else max_jobs),
      sc_default_timeout = (if timeout_sec > 0 then int64 (timeout_sec * second) else 5 * minute),
      sc_closed = False\<rparr>"

definition update_config :: "int \<Rightarrow> int \<Rightarrow> cron_sched \<Rightarrow> cron_sched" where
  "update_config max_runs max_jobs s = s\<lparr>
     sc_max_concurrent := (if max_runs > 0 then max_runs else sc_max_concurrent s),
     sc_max_jobs := (if max_jobs > 0 then max_jobs else sc_max_jobs s)\<rparr>"

definition job_timeout :: "cron_job \<Rightarrow> cron_sched \<Rightarrow> duration" where
  "job_timeout j s = (if j_timeout j > 0 then int64 (j_timeout j * second) else sc_default_timeout s)"

section \<open>Creating, changing and removing jobs\<close>

text \<open>
  The calendar: RFC 3339 parsing, the cron library, and what \<open>ValidateJob\<close> asks of the Unicode
  tables, the prompt scan and the path checks.
\<close>

record cron_lib =
  cl_at :: "string \<Rightarrow> instant option"
  cl_next :: "string \<Rightarrow> string \<Rightarrow> instant \<Rightarrow> instant option"
  cl_expr_ok :: "string \<Rightarrow> bool"
  cl_has_control :: "string \<Rightarrow> bool"
  cl_work_dir_ok :: "string \<Rightarrow> bool"
  cl_prompt_threat :: "string \<Rightarrow> bool"

abbreviation job_next_run :: "cron_lib \<Rightarrow> cron_job \<Rightarrow> instant \<Rightarrow> schedule_error + instant" where
  "job_next_run lib j now \<equiv> next_run (cl_at lib) (cl_next lib) (j_schedule j) now"

definition validate_job_prompt :: "cron_lib \<Rightarrow> string \<Rightarrow> bool" where
  "validate_job_prompt lib p \<longleftrightarrow> p \<noteq> [] \<and> length p \<le> 4096 \<and> \<not> cl_prompt_threat lib p"

definition validate_job :: "cron_lib \<Rightarrow> cron_job \<Rightarrow> job_error option" where
  "validate_job lib j =
     (if j_name j = [] then Some (JeInvalid ''name is required'')
      else if length (j_name j) > 128 then Some (JeInvalid ''name exceeds 128 character limit'')
      else if cl_has_control lib (j_name j) then Some (JeInvalid ''name contains control characters'')
      else if j_owner j = [] then Some (JeInvalid ''owner_id is required'')
      else if j_work_dir j \<noteq> [] \<and> \<not> cl_work_dir_ok lib (j_work_dir j)
      then Some (JeInvalid ''invalid work_dir'')
      else if j_bot_id j = [] then Some (JeInvalid ''bot_id is required'')
      else
        (case validate_schedule (cl_at lib) (cl_expr_ok lib) (j_schedule j) of
           Some err \<Rightarrow> Some (JeSchedule err)
         | None \<Rightarrow>
             if \<not> validate_job_prompt lib (cp_message (j_payload j)) then Some (JeInvalid ''prompt'')
             else if cp_kind (j_payload j) = PkAttached \<and> cp_target (j_payload j) = []
             then Some (JeInvalid ''target_session_id is required for attached_session'')
             else if cp_kind (j_payload j) = PkAttached \<and> cs_kind (j_schedule j) = SkCron
             then Some (JeInvalid ''attached_session does not support cron expression schedules'')
             else if (\<exists>k \<in> set_option (required_platform_key (j_platform j)).
                        key_value (j_platform_key j) k = [])
             then Some (JeInvalid ''platform key missing'')
             else if cs_kind (j_schedule j) \<noteq> SkAt \<and> j_max_runs j \<le> 0
             then Some (JeInvalid ''max_runs is required for recurring jobs'')
             else if cs_kind (j_schedule j) \<noteq> SkAt \<and> j_expires j = []
             then Some (JeInvalid ''expires_at is required for recurring jobs'')
             else if cs_kind (j_schedule j) \<noteq> SkAt \<and> cl_at lib (j_expires j) = None
             then Some (JeInvalid ''invalid expires_at'')
             else None))"

text \<open>\<open>gid\<close> is the generated id a job without one gets.\<close>

definition create_job ::
    "cron_lib \<Rightarrow> string \<Rightarrow> cron_job \<Rightarrow> instant \<Rightarrow> cron_sched \<Rightarrow> cron_sched \<times> job_error option" where
  "create_job lib gid j now s =
     (case validate_job lib j of
        Some err \<Rightarrow> (s, Some err)
      | None \<Rightarrow>
          if int (length (sc_jobs s)) \<ge> sc_max_jobs s then (s, Some (JeMaxJobs (sc_max_jobs s)))
          else
            (case job_next_run lib j now of
               Inl err \<Rightarrow> (s, Some (JeSchedule err))
             | Inr t \<Rightarrow>
                 let j' = j\<lparr>j_id := (if j_id j = [] then gid else j_id j), j_created := unix_milli now, j_updated := unix_milli now, j_enabled := True,
                            j_state := (j_state j)\<lparr>st_next_run := unix_milli t\<rparr>\<rparr>
                 in (case job_create j' (sc_store s) of
                       Inl err \<Rightarrow> (s, Some err)
                     | Inr st \<Rightarrow> (s\<lparr>sc_store := st, sc_jobs := index_put j' (sc_jobs s)\<rparr>, None))))"

definition update_job :: "cron_lib \<Rightarrow> cron_job \<Rightarrow> instant \<Rightarrow> cron_sched \<Rightarrow> cron_sched \<times> job_error option" where
  "update_job lib j now s =
     (case validate_job lib j of
        Some err \<Rightarrow> (s, Some err)
      | None \<Rightarrow>
          (case job_next_run lib j now of
             Inl err \<Rightarrow> (s, Some (JeSchedule err))
           | Inr t \<Rightarrow>
               let j' = j\<lparr>j_updated := unix_milli now,
                          j_state := (j_state j)\<lparr>st_next_run := unix_milli t\<rparr>\<rparr>
               in (case job_update j' (sc_store s) of
                     Inl err \<Rightarrow> (s, Some err)
                   | Inr st \<Rightarrow> (s\<lparr>sc_store := st, sc_jobs := index_put j' (sc_jobs s)\<rparr>, None))))"

definition delete_job :: "string \<Rightarrow> cron_sched \<Rightarrow> cron_sched \<times> job_error option" where
  "delete_job i s =
     (case job_delete i (sc_store s) of
        Inl err \<Rightarrow> (s, Some err)
      | Inr st \<Rightarrow> (s\<lparr>sc_store := st, sc_jobs := index_delete i (sc_jobs s)\<rparr>, None))"

definition cleanup_for_session :: "string \<Rightarrow> cron_sched \<Rightarrow> cron_sched" where
  "cleanup_for_session session s =
     fold (\<lambda>i s. fst (delete_job i s))
       (map j_id (filter (\<lambda>j. cp_kind (j_payload j) = PkAttached \<and> cp_target (j_payload j) = session)
          (sc_jobs s))) s"

section \<open>The tick\<close>

definition max_consecutive_errors :: int where "max_consecutive_errors = 10"
definition max_schedule_errors :: int where "max_schedule_errors = 5"
definition max_timer_interval :: duration where "max_timer_interval = 60 * second"

definition arm_interval :: "duration \<Rightarrow> duration" where
  "arm_interval d =
     (let d1 = (if d \<le> 0 then second else d) in if d1 > max_timer_interval then max_timer_interval else d1)"

definition job_due :: "instant \<Rightarrow> cron_job \<Rightarrow> bool" where
  "job_due now j \<longleftrightarrow> j_enabled j \<and> \<not> st_running (j_state j) > 0 \<and>
     st_next_run (j_state j) > 0 \<and> st_next_run (j_state j) \<le> unix_milli now"

definition collect_due :: "instant \<Rightarrow> cron_sched \<Rightarrow> cron_job list" where
  "collect_due now s = filter (job_due now) (sc_jobs s)"

definition earliest_run :: "cron_job list \<Rightarrow> millis" where
  "earliest_run js =
     foldl (\<lambda>e j. if \<not> j_enabled j \<or> st_next_run (j_state j) \<le> 0 then e
                  else if e = 0 \<or> st_next_run (j_state j) < e then st_next_run (j_state j) else e) 0 js"

definition next_tick_duration :: "instant \<Rightarrow> cron_sched \<Rightarrow> duration" where
  "next_tick_duration now s =
     (let e = earliest_run (sc_jobs s)
      in if e = 0 then max_timer_interval
         else let d = e * millisecond - now in if d \<le> 0 then second else d)"

text \<open>The first part of the loop body: advance the job before it runs.\<close>

definition advance_job :: "cron_lib \<Rightarrow> instant \<Rightarrow> cron_job \<Rightarrow> cron_job" where
  "advance_job lib now j =
     (case job_next_run lib j now of
        Inl err \<Rightarrow>
          let n = st_sched_errs (j_state j) + 1
          in j\<lparr>j_state := (j_state j)\<lparr>st_sched_errs := n\<rparr>,
               j_enabled := (j_enabled j \<and> \<not> n \<ge> max_schedule_errors)\<rparr>
      | Inr t \<Rightarrow> j\<lparr>j_state := (j_state j)\<lparr>st_next_run := unix_milli t, st_sched_errs := 0\<rparr>\<rparr>)"

text \<open>A run that was launched: the private copy of the job and the identity of the firing.\<close>

record launch =
  la_job :: cron_job
  la_trigger :: trigger_identity
  la_delay :: int

definition tick_job ::
    "(string \<Rightarrow> string) \<Rightarrow> cron_lib \<Rightarrow> instant \<Rightarrow> cron_job \<Rightarrow> cron_sched \<times> launch list \<Rightarrow> cron_sched \<times> launch list" where
  "tick_job fp lib now j0 sl =
     (case sl of (s0, ls) \<Rightarrow>
        let j = advance_job lib now j0;
            s1 = persist_state (j_id j) (j_state j) (unix_milli now) s0
        in if \<not> j_enabled j then
             (merge_job_state (j_id j) (j_state j) True (persist_enabled (j_id j) False (unix_milli now) s1), ls)
           else
             let s2 = merge_job_state (j_id j) (j_state j) False s1
             in (case try_acquire_slot s2 of
                   None \<Rightarrow> (s2, ls)
                 | Some s3 \<Rightarrow>
                     if \<not> (\<exists>x \<in> set (sc_jobs s3). j_id x = j_id j) then (release_slot s3, ls)
                     else (s3, ls @ [\<lparr>la_job = j, la_trigger = scheduled_trigger_for fp j, la_delay = 0\<rparr>])))"

definition on_tick ::
    "(string \<Rightarrow> string) \<Rightarrow> cron_lib \<Rightarrow> instant \<Rightarrow> cron_sched \<Rightarrow> cron_sched \<times> launch list" where
  "on_tick fp lib now s =
     (if sc_closed s then (s, []) else fold (tick_job fp lib now) (collect_due now s) (s, []))"

section \<open>Before and after a run\<close>

definition begin_execution :: "instant \<Rightarrow> cron_job \<Rightarrow> cron_sched \<Rightarrow> cron_sched \<times> cron_job" where
  "begin_execution now j s =
     (let j' = j\<lparr>j_state := (j_state j)\<lparr>st_running := unix_milli now\<rparr>\<rparr>
      in (merge_job_state (j_id j) (j_state j') False (persist_state (j_id j) (j_state j') (unix_milli now) s), j'))"

definition finish_execution :: "millis \<Rightarrow> string option \<Rightarrow> cron_job \<Rightarrow> cron_job \<times> bool" where
  "finish_execution started err j =
     (let st = (j_state j)\<lparr>st_running := 0, st_last_run := started\<rparr>
      in if err \<noteq> None then
           let st' = st\<lparr>st_last_status := JsFailed, st_consecutive := st_consecutive st + 1\<rparr>
           in (j\<lparr>j_state := st'\<rparr>, st_consecutive st' \<ge> max_consecutive_errors)
         else
           (j\<lparr>j_state := st\<lparr>st_last_status := JsSuccess, st_consecutive := 0,
                            st_run_count := st_run_count st + 1, st_retry := 0\<rparr>\<rparr>, False))"

definition schedule_retry :: "instant \<Rightarrow> cron_job \<Rightarrow> cron_sched \<Rightarrow> cron_sched \<times> cron_job" where
  "schedule_retry now j s =
     (let st = (j_state j)\<lparr>st_next_run := unix_milli (now + backoff (st_consecutive (j_state j))),
                           st_retry := st_retry (j_state j) + 1\<rparr>;
          j' = j\<lparr>j_state := st\<rparr>
      in (merge_job_state (j_id j) st False (persist_state (j_id j) st (unix_milli now) s), j'))"

text \<open>\<open>handlePostExecution\<close>; the flag tells the caller to stop.\<close>

definition handle_post_execution ::
    "instant \<Rightarrow> millis \<Rightarrow> string option \<Rightarrow> cron_job \<Rightarrow> cron_sched \<Rightarrow> cron_sched \<times> cron_job \<times> bool" where
  "handle_post_execution now started err j s =
     (case finish_execution started err j of
        (j1, disable) \<Rightarrow>
          let s1 = merge_job_state (j_id j1) (j_state j1) False s
          in if disable then (persist_and_disable (j_id j1) (j_state j1) (unix_milli now) s1, j1, True)
             else if err \<noteq> None then
               if cs_kind (j_schedule j1) = SkAt \<and> is_temporary_error err \<and>
                  st_retry (j_state j1) < max_retries j1
               then (case schedule_retry now j1 s1 of (s2, j2) \<Rightarrow> (s2, j2, True))
               else (persist_state (j_id j1) (j_state j1) (unix_milli now) s1, j1, True)
             else (s1, j1, False))"

definition lifetime_over :: "cron_lib \<Rightarrow> instant \<Rightarrow> cron_job \<Rightarrow> bool" where
  "lifetime_over lib now j \<longleftrightarrow>
     (if j_max_runs j > 0 \<and> st_run_count (j_state j) \<ge> j_max_runs j then True
      else j_expires j \<noteq> [] \<and> (\<exists>t \<in> set_option (cl_at lib (j_expires j)). now > t))"

definition apply_lifecycle :: "cron_lib \<Rightarrow> instant \<Rightarrow> cron_job \<Rightarrow> cron_sched \<Rightarrow> cron_sched" where
  "apply_lifecycle lib now j s =
     (if cs_kind (j_schedule j) = SkAt then
        if j_delete_after j then
          s\<lparr>sc_store := sql_delete (\<lambda>x. j_id x = j_id j) (sc_store s),
            sc_jobs := index_delete (j_id j) (sc_jobs s)\<rparr>
        else persist_and_disable (j_id j) (j_state j) (unix_milli now) s
      else
        let off = lifetime_over lib now j;
            s1 = persist_state (j_id j) (j_state j) (unix_milli now) s;
            s2 = (if off then persist_enabled (j_id j) False (unix_milli now) s1 else s1)
        in merge_job_state (j_id j) (j_state j) off s2)"

text \<open>The end of \<open>executeJob\<close>, after the executor returned.\<close>

definition end_job ::
    "cron_lib \<Rightarrow> bool \<Rightarrow> bool \<Rightarrow> instant \<Rightarrow> millis \<Rightarrow> execute_result \<Rightarrow> string option \<Rightarrow> cron_job \<Rightarrow> cron_sched \<Rightarrow>
       cron_sched \<times> delivery_action" where
  "end_job lib effects legacy now started out err j s =
     (case handle_post_execution now started err
             (j\<lparr>j_state := (j_state j)\<lparr>st_run_id := er_session out\<rparr>\<rparr>) s of
        (s1, j1, True) \<Rightarrow> (s1, DaNone)
      | (s1, j1, False) \<Rightarrow>
          if er_duplicate out then (apply_lifecycle lib now j1 s1, DaNone)
          else (apply_lifecycle lib now j1 s1, route_delivery effects legacy j1 out))"

text \<open>One isolated run from start to end, when nothing else happens in between.\<close>

definition execute_job ::
    "(string \<Rightarrow> string) \<Rightarrow> cron_lib \<Rightarrow> bool \<Rightarrow> bool \<Rightarrow> exec_env \<Rightarrow> (nat \<Rightarrow> instant) \<Rightarrow> string \<Rightarrow> cron_job \<Rightarrow>
       trigger_identity \<Rightarrow> cron_sched \<times> occurrence_db \<Rightarrow>
       (cron_sched \<times> occurrence_db) \<times> delivery_action \<times> bool" where
  "execute_job hash lib effects legacy ev clk oid j t so =
     (case so of (s, db) \<Rightarrow>
        (case begin_execution (clk 0) j s of
           (s1, j1) \<Rightarrow>
             (case execute hash ev j1 t (\<lambda>n. clk (n + 2)) oid db of
                (db', out, err, started) \<Rightarrow>
                  (case end_job lib effects legacy (clk 5) (unix_milli (clk 1)) out err j1 s1 of
                     (s2, act) \<Rightarrow> ((s2, db'), act, started)))))"

text \<open>\<open>executeAttached\<close>: \<open>err\<close> is what the handler answers, \<open>None\<close> outside: no router is wired.\<close>

definition execute_attached ::
    "cron_lib \<Rightarrow> instant \<Rightarrow> instant \<Rightarrow> string option option \<Rightarrow> cron_job \<Rightarrow> cron_sched \<Rightarrow> cron_sched" where
  "execute_attached lib now now2 handler j s =
     (case handler of
        None \<Rightarrow> persist_state (j_id j) ((j_state j)\<lparr>st_last_status := JsFailed\<rparr>) (unix_milli now) s
      | Some err \<Rightarrow>
          (case begin_execution now j s of
             (s1, j1) \<Rightarrow>
               (case handle_post_execution now2 (unix_milli now2) err j1 s1 of
                  (s2, j2, stop) \<Rightarrow> if stop then s2 else apply_lifecycle lib now2 j2 s2)))"

section \<open>Start and reload\<close>

text \<open>Go's division truncates towards zero.\<close>

definition half :: "int \<Rightarrow> int" where
  "half d = (if d < 0 then - ((- d) div 2) else d div 2)"

definition schedule_interval :: "cron_lib \<Rightarrow> cron_job \<Rightarrow> instant \<Rightarrow> duration" where
  "schedule_interval lib j now =
     (case cs_kind (j_schedule j) of
        SkEvery \<Rightarrow> int64 (cs_every (j_schedule j) * millisecond)
      | SkCron \<Rightarrow>
          (case job_next_run lib j now of
             Inl e \<Rightarrow> 60 * minute
           | Inr t1 \<Rightarrow>
               (case job_next_run lib j (t1 + second) of Inl e \<Rightarrow> 60 * minute | Inr t2 \<Rightarrow> t2 - t1))
      | SkAt \<Rightarrow>
          if j_created j > 0 \<and> st_next_run (j_state j) > 0
          then int64 ((st_next_run (j_state j) - j_created j) * millisecond) else 60 * minute
      | SkOther k \<Rightarrow> 60 * minute)"

definition within_grace_period :: "cron_lib \<Rightarrow> cron_job \<Rightarrow> instant \<Rightarrow> bool" where
  "within_grace_period lib j now \<longleftrightarrow>
     now - st_next_run (j_state j) * millisecond \<le> min (half (schedule_interval lib j now)) (30 * minute)"

datatype load_action = LoKeep | LoCatchUp | LoState | LoDisable

definition load_one :: "cron_lib \<Rightarrow> instant \<Rightarrow> cron_job \<Rightarrow> cron_job \<times> load_action" where
  "load_one lib now j =
     (let j1 = (if st_running (j_state j) > 0 then j\<lparr>j_state := (j_state j)\<lparr>st_running := 0\<rparr>\<rparr> else j)
      in if \<not> j_enabled j1 \<or> st_next_run (j_state j1) \<le> 0 then (j1, LoKeep)
         else if st_next_run (j_state j1) \<le> unix_milli now then
           if within_grace_period lib j1 now then (j1, LoCatchUp)
           else (case job_next_run lib j1 now of
                   Inl err \<Rightarrow> (j1, LoKeep)
                 | Inr t \<Rightarrow>
                     if t = zero_time then (j1\<lparr>j_enabled := False\<rparr>, LoDisable)
                     else (j1\<lparr>j_state := (j_state j1)\<lparr>st_next_run := unix_milli t\<rparr>\<rparr>, LoState))
         else (j1, LoKeep))"

text \<open>The writes that follow: a state that changed, or the whole row of a job that was disabled.\<close>

definition load_write :: "millis \<Rightarrow> cron_job \<Rightarrow> cron_job \<times> load_action \<Rightarrow> cron_job list \<Rightarrow> cron_job list" where
  "load_write at old ja t =
     (case ja of (j, act) \<Rightarrow>
        let t1 = (if j_state j \<noteq> j_state old then job_update_state (j_id j) (j_state j) at t else t)
        in if act = LoDisable then (case job_update j t1 of Inl err \<Rightarrow> t1 | Inr t2 \<Rightarrow> t2) else t1)"

text \<open>\<open>scheduleCatchUp\<close>: the first five at once, the others five seconds apart.\<close>

definition catch_up_delay :: "nat \<Rightarrow> int" where
  "catch_up_delay i = (if i \<ge> 5 then (int i - 5 + 1) * 5 else 0)"

definition catch_up_job ::
    "(string \<Rightarrow> string) \<Rightarrow> nat \<times> cron_job \<Rightarrow> cron_sched \<times> launch list \<Rightarrow> cron_sched \<times> launch list" where
  "catch_up_job fp ij sl =
     (case ij of (i, j) \<Rightarrow>
      case sl of (s, ls) \<Rightarrow>
        (case try_acquire_slot s of
           None \<Rightarrow> (s, ls)
         | Some s' \<Rightarrow>
             (s', ls @ [\<lparr>la_job = j, la_trigger = scheduled_trigger_for fp j, la_delay = catch_up_delay i\<rparr>])))"

definition schedule_catch_up ::
    "(string \<Rightarrow> string) \<Rightarrow> cron_job list \<Rightarrow> cron_sched \<Rightarrow> cron_sched \<times> launch list" where
  "schedule_catch_up fp js s = fold (catch_up_job fp) (enumerate 0 js) (s, [])"

definition load_from_db ::
    "(string \<Rightarrow> string) \<Rightarrow> cron_lib \<Rightarrow> instant \<Rightarrow> cron_sched \<Rightarrow> cron_sched \<times> launch list" where
  "load_from_db fp lib now s =
     (let rows = job_list (sc_store s);
          loaded = map (load_one lib now) rows;
          s1 = s\<lparr>sc_jobs := fold (\<lambda>ja. index_put (fst ja)) loaded (sc_jobs s),
                 sc_store := fold (\<lambda>(old, ja). load_write (unix_milli now) old ja) (zip rows loaded) (sc_store s)\<rparr>
      in schedule_catch_up fp (map fst (filter (\<lambda>ja. snd ja = LoCatchUp) loaded)) s1)"

definition refresh_job :: "cron_lib \<Rightarrow> instant \<Rightarrow> cron_job \<Rightarrow> cron_job" where
  "refresh_job lib now j =
     (if j_enabled j \<and> st_next_run (j_state j) \<le> 0 then
        (case job_next_run lib j now of
           Inl err \<Rightarrow> j
         | Inr t \<Rightarrow> if t = zero_time then j else j\<lparr>j_state := (j_state j)\<lparr>st_next_run := unix_milli t\<rparr>\<rparr>)
      else j)"

definition rebuild_index :: "cron_lib \<Rightarrow> instant \<Rightarrow> cron_sched \<Rightarrow> cron_sched" where
  "rebuild_index lib now s =
     (let rows = job_list (sc_store s); js = map (refresh_job lib now) rows
      in s\<lparr>sc_jobs := js,
           sc_store := fold (\<lambda>j t. if j_enabled j \<and> (\<exists>r \<in> set rows. j_id r = j_id j \<and> j_state r \<noteq> j_state j)
                                   then job_update_state (j_id j) (j_state j) (unix_milli now) t else t)
                         js (sc_store s)\<rparr>)"

section \<open>Requested firings\<close>

definition trigger_job ::
    "cron_job \<Rightarrow> string \<Rightarrow> string \<Rightarrow> cron_sched \<Rightarrow> cron_sched \<times> (job_error + launch)" where
  "trigger_job j nonce event s =
     (case try_acquire_slot s of
        None \<Rightarrow> (s, Inl (JeConcurrency (sc_max_concurrent s)))
      | Some s' \<Rightarrow> (s', Inr \<lparr>la_job = j, la_trigger = requested_trigger_for j nonce event, la_delay = 0\<rparr>))"

definition trigger_by_name ::
    "string \<Rightarrow> (string \<Rightarrow> string option) \<Rightarrow> string \<Rightarrow> string \<Rightarrow> cron_sched \<Rightarrow> cron_sched \<times> (job_error + launch)" where
  "trigger_by_name name extra nonce event s =
     (case find (\<lambda>j. j_name j = name) (sc_jobs s) of
        None \<Rightarrow> (s, Inl JeNotFound)
      | Some j \<Rightarrow>
          if \<not> j_enabled j then (s, Inl JeDisabled)
          else trigger_job (j\<lparr>j_platform_key := j_platform_key j ++ extra\<rparr>) nonce event s)"

section \<open>Re-authorization of a gateway delivery\<close>

datatype target_error = TeNoOccurrence | TeNoJob | TeNotGateway | TeSilent

definition resolve_delivery_target ::
    "occurrence_db \<Rightarrow> cron_job list \<Rightarrow> string \<Rightarrow> target_error + string \<times> (string \<Rightarrow> string option)" where
  "resolve_delivery_target occs jobs oid =
     (case occurrence_by_id oid occs of
        None \<Rightarrow> Inl TeNoOccurrence
      | Some r \<Rightarrow>
          (case job_get (oc_job r) jobs of
             None \<Rightarrow> Inl TeNoJob
           | Some j \<Rightarrow>
               if resolve_delivery_mode (j_mode j) \<noteq> DmGateway then Inl TeNotGateway
               else if j_silent j then Inl TeSilent
               else Inr (j_platform j, j_platform_key j)))"

section \<open>The retry queue of the legacy delivery\<close>

definition max_retry_attempts :: int where "max_retry_attempts = 3"
definition initial_backoff :: duration where "initial_backoff = 30 * second"
definition max_backoff :: duration where "max_backoff = 5 * minute"
definition max_queue_size :: nat where "max_queue_size = 100"

record pending_delivery =
  pd_job :: cron_job
  pd_result :: string
  pd_attempt :: int
  pd_next :: instant

text \<open>The loop of \<open>retryBackoff\<close>, for \<open>i = 1 .. attempt - 1\<close>.\<close>

fun delivery_backoff_from :: "nat \<Rightarrow> duration \<Rightarrow> duration" where
  "delivery_backoff_from 0 d = d"
| "delivery_backoff_from (Suc n) d =
     (let d' = d * 2 in if d' > max_backoff then max_backoff else delivery_backoff_from n d')"

definition delivery_retry_backoff :: "int \<Rightarrow> duration" where
  "delivery_retry_backoff attempt = delivery_backoff_from (nat (attempt - 1)) initial_backoff"

definition enqueue_delivery :: "pending_delivery \<Rightarrow> pending_delivery list \<Rightarrow> pending_delivery list" where
  "enqueue_delivery p q = (if length q \<ge> max_queue_size then tl q else q) @ [p]"

datatype delivery_outcome = DoSkipped | DoDelivered | DoRequeued | DoExhausted | DoPermanent

text \<open>\<open>deliverResult\<close>: \<open>answer\<close> is what the deliverer answers, \<open>None\<close> outside: none is wired.\<close>

definition deliver_result ::
    "instant \<Rightarrow> string option option \<Rightarrow> cron_job \<Rightarrow> string \<Rightarrow> int \<Rightarrow> pending_delivery list \<Rightarrow>
       pending_delivery list \<times> delivery_outcome" where
  "deliver_result now answer j response attempt q =
     (case answer of
        None \<Rightarrow> (q, DoSkipped)
      | Some None \<Rightarrow> (q, DoDelivered)
      | Some (Some err) \<Rightarrow>
          if is_temporary_error (Some err) \<and> attempt < max_retry_attempts
          then (enqueue_delivery \<lparr>pd_job = j, pd_result = response, pd_attempt = attempt + 1,
                   pd_next = now + delivery_retry_backoff attempt\<rparr> q, DoRequeued)
          else (q, if is_temporary_error (Some err) then DoExhausted else DoPermanent))"

text \<open>\<open>Deliver\<close>: \<open>extracted\<close> is the last answer of the session, when it could be read.\<close>

definition deliver ::
    "instant \<Rightarrow> string option \<Rightarrow> string option option \<Rightarrow> cron_job \<Rightarrow> pending_delivery list \<Rightarrow>
       pending_delivery list \<times> delivery_outcome" where
  "deliver now extracted answer j q =
     (case extracted of
        None \<Rightarrow> (q, DoSkipped)
      | Some response \<Rightarrow>
          if response = [] \<or> j_platform j = [] \<or> j_platform j = ''cron'' then (q, DoSkipped)
          else deliver_result now answer j response 1 q)"

text \<open>\<open>flushPending\<close>: \<open>answers\<close> gives the deliverer's answer to each due entry.\<close>

definition flush_pending ::
    "instant \<Rightarrow> (pending_delivery \<Rightarrow> string option option) \<Rightarrow> pending_delivery list \<Rightarrow>
       pending_delivery list \<times> (pending_delivery \<times> delivery_outcome) list" where
  "flush_pending now answers q =
     fold (\<lambda>p (q', log). case deliver_result now (answers p) (pd_job p) (pd_result p) (pd_attempt p) q' of
             (q'', o1) \<Rightarrow> (q'', log @ [(p, o1)]))
       (filter (\<lambda>p. pd_next p \<le> now) q) (filter (\<lambda>p. \<not> pd_next p \<le> now) q, [])"

definition stop_retry_loop :: "pending_delivery list \<Rightarrow> pending_delivery list \<times> pending_delivery list" where
  "stop_retry_loop q = ([], q)"

end
