(* ===== verification/CronProps.thy ===== *)
theory CronProps
  imports CronSched
begin

text \<open>
  What holds of the cron firings and the scheduler: the occurrence ledger gives one run per trigger
  key, keys tell firings apart, one owner delivers an answer, finished jobs stay off, the retry
  queue is bounded, and the scheduler keeps its slots, its index and its rows.
\<close>

section \<open>One run per firing\<close>

datatype occurrence_op =
    OcClaim occurrence
  | OcBind string string
  | OcStatus string occurrence_status string instant

primrec occurrence_step :: "occurrence_op \<Rightarrow> occurrence_db \<Rightarrow> occurrence_db" where
  "occurrence_step (OcClaim r) db = fst (claim_occurrence r db)"
| "occurrence_step (OcBind i session) db = bind_session i session db"
| "occurrence_step (OcStatus i s err at) db = update_status i s err at db"

definition occurrence_key :: "occurrence \<Rightarrow> string \<times> int" where
  "occurrence_key r = (oc_key r, oc_generation r)"

definition occurrence_inv :: "occurrence_db \<Rightarrow> bool" where
  "occurrence_inv db \<longleftrightarrow> unique_index (\<lambda>_. True) oc_id db \<and> unique_index (\<lambda>_. True) occurrence_key db"

definition occurrence_lookup :: "string \<times> int \<Rightarrow> occurrence_db \<Rightarrow> string option" where
  "occurrence_lookup k db = map_option oc_id (sql_row (\<lambda>r. occurrence_key r = k) db)"

lemma occurrence_get_lookup: "occurrence_get key gen db = sql_row (\<lambda>r. occurrence_key r = (key, gen)) db"
  by (simp add: occurrence_get_def occurrence_key_def)

lemma claim_occurrence_cases:
  assumes "claim_occurrence r db = (db', x)"
  obtains (fail) err where "x = Inl err" "db' = db"
  | (taken) stored where "x = Inr (stored, False)" "db' = db"
      "sql_row (\<lambda>q. occurrence_key q = occurrence_key r) db = Some stored"
  | (fresh) "x = Inr (normalize_occurrence r, True)" "db' = db @ [normalize_occurrence r]"
      "sql_row (\<lambda>q. occurrence_key q = occurrence_key r) db = None" "\<forall>q \<in> set db. oc_id q \<noteq> oc_id r"
  using assms
  by (cases "occurrence_get (oc_key r) (oc_generation r) db")
    (auto simp: claim_occurrence_def normalize_occurrence_def occurrence_get_lookup occurrence_key_def
      Let_def split: if_splits)

lemma normalize_keeps [simp]:
  "oc_id (normalize_occurrence r) = oc_id r" "occurrence_key (normalize_occurrence r) = occurrence_key r"
  by (simp_all add: normalize_occurrence_def occurrence_key_def)

lemma stamp_keeps [simp]:
  "oc_id (stamp_status s err at r) = oc_id r" "occurrence_key (stamp_status s err at r) = occurrence_key r"
  by (simp_all add: stamp_status_def occurrence_key_def)

lemma bind_keeps [simp]: "occurrence_key (r\<lparr>oc_session := x\<rparr>) = occurrence_key r"
  by (simp add: occurrence_key_def)

lemma occurrence_step_inv: "occurrence_inv db \<Longrightarrow> occurrence_inv (occurrence_step op db)"
proof (cases op)
  case (OcClaim r)
  assume inv: "occurrence_inv db"
  obtain db' x where d: "claim_occurrence r db = (db', x)" by fastforce
  from d have "occurrence_inv db'"
  proof (cases rule: claim_occurrence_cases)
    case fresh
    then show ?thesis using inv
      by (simp add: occurrence_inv_def unique_index_snoc sql_row_None)
  qed (use inv in simp_all)
  with OcClaim d show ?thesis by simp
qed (auto simp: occurrence_inv_def bind_session_def update_status_def intro: unique_index_update)

lemma occurrence_update_lookup:
  assumes "\<And>r. oc_id (f r) = oc_id r" "\<And>r. occurrence_key (f r) = occurrence_key r"
  shows "occurrence_lookup k (sql_update P f db) = occurrence_lookup k db"
  using assms by (simp add: occurrence_lookup_def sql_row_update option.map_comp o_def if_distrib cong: if_cong)

lemma occurrence_step_keeps:
  assumes "occurrence_lookup k db = Some i"
  shows "occurrence_lookup k (occurrence_step op db) = Some i"
proof (cases op)
  case (OcClaim r)
  obtain db' x where d: "claim_occurrence r db = (db', x)" by fastforce
  from d have "occurrence_lookup k db' = Some i"
    by (cases rule: claim_occurrence_cases)
      (use assms in \<open>auto simp: occurrence_lookup_def sql_row_append\<close>)
  with OcClaim d show ?thesis by simp
qed (use assms in \<open>simp_all add: bind_session_def update_status_def occurrence_update_lookup\<close>)

lemma sql_row_single: "sql_row P [r] = (if P r then Some r else None)"
  by (simp add: sql_row_def)

interpretation firings: claim_ledger occurrence_step occurrence_inv claim_occurrence occurrence_lookup
    occurrence_key oc_id
proof (unfold_locales, goal_cases)
  case (1 db op)
  then show ?case by (rule occurrence_step_inv)
next
  case (2 db r)
  then show ?case using occurrence_step_inv [of db "OcClaim r"] by simp
next
  case (3 db r db' row created)
  from 3(2) show ?case
    by (cases rule: claim_occurrence_cases)
      (auto simp: occurrence_lookup_def sql_row_append sql_row_single)
next
  case (4 db r db' row created)
  from 4(2) show ?case
    by (cases rule: claim_occurrence_cases) (auto simp: occurrence_lookup_def)
next
  case (5 db r i db' row created)
  from 5(3,2) show ?case
    by (cases rule: claim_occurrence_cases) (auto simp: occurrence_lookup_def)
next
  case (6 db k i op)
  then show ?case by (simp add: occurrence_step_keeps)
qed

text \<open>What a run does to the ledger after its claim is a sequence of ledger operations.\<close>

lemma run_claimed_steps: "\<exists>ops. fst (run_claimed hash ev job r out clk db) = fold occurrence_step ops db"
proof -
  let ?key = "cron_session_key hash (j_id job) (occurrence_epoch r)"
  let ?start = "[OcBind (oc_id r) ?key, OcStatus (oc_id r) OcStarted [] (clk 1)]"
  have mark: "mark_occurrence ev r s err at db0 =
      fold occurrence_step (if ev_ledger ev then [OcStatus (oc_id r) s err at] else []) db0" for s err at db0
    by (simp add: mark_occurrence_def)
  have start: "(if ev_ledger ev then update_status (oc_id r) OcStarted [] (clk 1) (bind_session (oc_id r) ?key db)
      else db) = fold occurrence_step (if ev_ledger ev then ?start else []) db"
    by simp
  have comp: "\<exists>ops. fold occurrence_step ys (fold occurrence_step xs db) = fold occurrence_step ops db" for xs ys
    by (rule exI [of _ "xs @ ys"]) simp
  show ?thesis
    unfolding run_claimed_def Let_def start mark
    by (auto split: option.splits sum.splits prod.splits bool.splits intro: comp simp del: fold.simps)
qed

lemma run_claimed_occurrence: "er_occurrence (fst (snd (run_claimed hash ev job r out clk db))) = er_occurrence out"
  by (simp add: run_claimed_def Let_def split: option.splits sum.splits prod.splits bool.splits)

lemma run_claimed_starts: "snd (snd (snd (run_claimed hash ev job r out clk db)))"
  by (simp add: run_claimed_def Let_def split: option.splits sum.splits prod.splits bool.splits)

lemma execute_starts:
  assumes "execute hash ev job t clk oid db = (db', out, err, True)" "ev_ledger ev"
  obtains r stored db1 ops where "new_occurrence t (resolve_delivery_mode (j_mode job)) (clk 0) oid = Inr r"
    "claim_occurrence r db = (db1, Inr (stored, True))" "db' = fold occurrence_step ops db1"
    "er_occurrence out = oc_id stored"
proof -
  obtain r where r: "new_occurrence t (resolve_delivery_mode (j_mode job)) (clk 0) oid = Inr r"
    using assms(1) by (auto simp: execute_def Let_def split: sum.splits)
  obtain db1 stored where c: "claim_occurrence r db = (db1, Inr (stored, True))"
    using assms r by (auto simp: execute_def Let_def split: sum.splits prod.splits if_splits)
  let ?out = "\<lparr>er_session = [], er_occurrence = oc_id stored, er_execution = [], er_mode = oc_mode stored,
    er_duplicate = False\<rparr>"
  have e: "run_claimed hash ev job stored ?out clk db1 = (db', out, err, True)"
    using assms r c by (simp add: execute_def Let_def)
  obtain ops where "db' = fold occurrence_step ops db1"
    using run_claimed_steps [of hash ev job stored ?out clk db1] e by auto
  moreover have "er_occurrence out = oc_id stored"
    using run_claimed_occurrence [of hash ev job stored ?out clk db1] e by simp
  ultimately show ?thesis using that r c by blast
qed

text \<open>A firing whose claim finds its key taken starts nothing.\<close>

lemma execute_answers:
  assumes "execute hash ev job t clk oid db = (db', out, err, started)" "ev_ledger ev"
    and "new_occurrence t (resolve_delivery_mode (j_mode job)) (clk 0) oid = Inr r"
    and "claim_occurrence r db = (db1, Inr (stored, created))"
  shows "started = created \<and> (\<not> created \<longrightarrow> err = None \<and> db' = db1 \<and> er_duplicate out \<and>
    er_occurrence out = oc_id stored)"
proof (cases created)
  case True
  let ?out = "\<lparr>er_session = [], er_occurrence = oc_id stored, er_execution = [], er_mode = oc_mode stored,
    er_duplicate = False\<rparr>"
  have "run_claimed hash ev job stored ?out clk db1 = (db', out, err, started)"
    using assms True by (simp add: execute_def Let_def)
  with run_claimed_starts [of hash ev job stored ?out clk db1] True show ?thesis by simp
next
  case False
  then show ?thesis using assms by (auto simp: execute_def Let_def dest: sym)
qed

lemma occurrence_of_trigger:
  "new_occurrence t m now oid = Inr r \<Longrightarrow> trigger_key t = Inr (fst (occurrence_key r)) \<and> snd (occurrence_key r) = 0"
  by (auto simp: new_occurrence_def occurrence_key_def split: sum.splits)

text \<open>
  C5. One run per firing.  Once an execution with a ledger has asked for a session, a later
  execution of the same trigger, of whatever job definition, after any other ledger operations,
  asks for none: either its claim fails, or it answers as the duplicate of the first occurrence.
\<close>

theorem one_run_per_firing:
  assumes "occurrence_inv db"
    and "execute hash ev job t clk oid db = (db1, out1, err1, True)" "ev_ledger ev"
    and "execute hash' ev' job' t' clk' oid' (fold occurrence_step ops db1) = (db2, out2, err2, started)"
    and "ev_ledger ev'" "trigger_key t' = trigger_key t"
  shows "\<not> started \<and> (err2 = None \<longrightarrow> er_duplicate out2 \<and> er_occurrence out2 = er_occurrence out1 \<and>
    db2 = fold occurrence_step ops db1)"
proof -
  obtain r stored db0 more where n: "new_occurrence t (resolve_delivery_mode (j_mode job)) (clk 0) oid = Inr r"
    and c: "claim_occurrence r db = (db0, Inr (stored, True))" and d: "db1 = fold occurrence_step more db0"
    and o: "er_occurrence out1 = oc_id stored"
    by (rule execute_starts [OF assms(2,3)])
  have t: "trigger_key t' = Inr (fst (occurrence_key r))" using occurrence_of_trigger [OF n] assms(6) by simp
  then obtain r' where n': "new_occurrence t' (resolve_delivery_mode (j_mode job')) (clk' 0) oid' = Inr r'"
    by (simp add: new_occurrence_def)
  have k: "occurrence_key r' = occurrence_key r"
    using occurrence_of_trigger [OF n] occurrence_of_trigger [OF n'] t by (simp add: prod_eq_iff)
  obtain db3 x where c': "claim_occurrence r' (fold occurrence_step (more @ ops) db0) = (db3, x)" by fastforce
  have ops: "fold occurrence_step ops db1 = fold occurrence_step (more @ ops) db0" by (simp add: d)
  show ?thesis
  proof (cases x)
    case (Inl e)
    then show ?thesis using assms(4,5) n' c' ops
      by (simp add: execute_def Let_def) blast
  next
    case (Inr y)
    then obtain row created where x: "x = Inr (row, created)" by (cases y) simp
    have dup: "oc_id row = oc_id stored \<and> \<not> created"
      by (rule firings.claim_after_run [OF assms(1) c k c' [unfolded x]])
    have "db3 = fold occurrence_step (more @ ops) db0"
      using c' by (cases rule: claim_occurrence_cases) (use x dup in auto)
    then show ?thesis
      using execute_answers [OF assms(4,5) n' c' [folded ops, unfolded x]] dup o ops by simp
  qed
qed

section \<open>Distinct firings have distinct keys\<close>

definition decimal_value :: "string \<Rightarrow> nat" where
  "decimal_value s = foldl (\<lambda>n c. n * 10 + (of_char c - 48)) 0 s"

lemma decimal_digits: "decimal_value (dec_digits n) = n"
proof (induction n rule: dec_digits.induct)
  case (1 n)
  then show ?case
    by (subst dec_digits.simps) (auto simp: decimal_value_def)
qed

lemma dec_digits_inj: "dec_digits m = dec_digits n \<longleftrightarrow> m = n"
  by (metis decimal_digits)

lemma format_int_inj: "0 \<le> i \<Longrightarrow> 0 \<le> j \<Longrightarrow> format_int i = format_int j \<longleftrightarrow> i = j"
  by (simp add: format_int_def dec_digits_inj) (metis nat_0_le)

lemma split_at_separator:
  "a @ x # b = a' @ x # b' \<Longrightarrow> x \<notin> set a \<Longrightarrow> x \<notin> set a' \<Longrightarrow> a = a' \<and> b = b'"
proof (induction a arbitrary: a')
  case Nil
  then show ?case by (cases a') auto
next
  case (Cons y a)
  then show ?case by (cases a') auto
qed

text \<open>The coordinate that identifies a firing within its job.\<close>

definition firing_coordinates :: "trigger_identity \<Rightarrow> string \<times> int \<times> string" where
  "firing_coordinates t =
     (case ti_kind t of
        TkScheduled \<Rightarrow> (ti_rev t, ti_scheduled t, [])
      | TkManual \<Rightarrow> ([], 0, ti_nonce t)
      | TkWebhook \<Rightarrow> ([], 0, ti_source t)
      | TkOther k \<Rightarrow> ([], 0, []))"

text \<open>
  C40. Distinct firings have distinct keys, as long as job ids and schedule fingerprints contain no
  bar (generated ids and hexadecimal digits do not; an administrator may supply other ids): then two
  trigger identities with the same key
  have the same kind, the same job and the same coordinates: schedule revision and instant,
  request nonce, or verified source id.
\<close>

theorem trigger_key_injective:
  assumes "trigger_key t = Inr k" "trigger_key t' = Inr k"
    and "CHR ''|'' \<notin> set (ti_job t @ ti_rev t)" "CHR ''|'' \<notin> set (ti_job t' @ ti_rev t')"
  shows "ti_kind t' = ti_kind t \<and> ti_job t' = ti_job t \<and> firing_coordinates t' = firing_coordinates t"
proof -
  have bars: "CHR ''|'' \<notin> set (ti_job t)" "CHR ''|'' \<notin> set (ti_rev t)"
    "CHR ''|'' \<notin> set (ti_job t')" "CHR ''|'' \<notin> set (ti_rev t')"
    using assms(3,4) by auto
  show ?thesis
  proof (cases "ti_kind t")
    case TkScheduled
    then have k: "k = ''sched|'' @ ti_job t @ ''|'' @ ti_rev t @ ''|'' @ format_int (ti_scheduled t)"
      and p: "ti_scheduled t > 0"
      using assms(1) by (auto simp: trigger_key_def split: if_splits)
    then have k': "k = ''sched|'' @ ti_job t' @ ''|'' @ ti_rev t' @ ''|'' @ format_int (ti_scheduled t')"
      and p': "ti_scheduled t' > 0" and kind: "ti_kind t' = TkScheduled"
      using assms(2) by (auto simp: trigger_key_def split: if_splits trigger_kind.splits)
    have j: "ti_job t = ti_job t' \<and>
        ti_rev t @ ''|'' @ format_int (ti_scheduled t) = ti_rev t' @ ''|'' @ format_int (ti_scheduled t')"
      using k k' bars by (intro split_at_separator) auto
    then have "ti_rev t = ti_rev t' \<and> format_int (ti_scheduled t) = format_int (ti_scheduled t')"
      using bars by (intro split_at_separator) auto
    with j p p' kind TkScheduled show ?thesis
      by (simp add: firing_coordinates_def format_int_inj)
  next
    case TkManual
    then have k: "k = ''manual|'' @ ti_job t @ ''|'' @ ti_nonce t"
      using assms(1) by (auto simp: trigger_key_def split: if_splits)
    then have k': "k = ''manual|'' @ ti_job t' @ ''|'' @ ti_nonce t'" and kind: "ti_kind t' = TkManual"
      using assms(2) by (auto simp: trigger_key_def split: if_splits trigger_kind.splits)
    have "ti_job t = ti_job t' \<and> ti_nonce t = ti_nonce t'"
      using k k' bars by (intro split_at_separator) auto
    with kind TkManual show ?thesis by (simp add: firing_coordinates_def)
  next
    case TkWebhook
    then have k: "k = ''webhook|'' @ ti_job t @ ''|'' @ ti_source t"
      using assms(1) by (auto simp: trigger_key_def split: if_splits)
    then have k': "k = ''webhook|'' @ ti_job t' @ ''|'' @ ti_source t'" and kind: "ti_kind t' = TkWebhook"
      using assms(2) by (auto simp: trigger_key_def split: if_splits trigger_kind.splits)
    have "ti_job t = ti_job t' \<and> ti_source t = ti_source t'"
      using k k' bars by (intro split_at_separator) auto
    with kind TkWebhook show ?thesis by (simp add: firing_coordinates_def)
  next
    case (TkOther x)
    then show ?thesis using assms(1) by (simp add: trigger_key_def split: if_splits)
  qed
qed

section \<open>What a tick launches\<close>

lemma advance_job_keeps [simp]:
  "j_id (advance_job lib now j) = j_id j" "j_schedule (advance_job lib now j) = j_schedule j"
  "j_platform_key (advance_job lib now j) = j_platform_key j" "j_mode (advance_job lib now j) = j_mode j"
  by (simp_all add: advance_job_def Let_def split: sum.splits)

lemma tick_job_launches:
  "snd (tick_job fp lib now j sl) = snd sl \<or>
   (j_enabled (advance_job lib now j) \<and>
    snd (tick_job fp lib now j sl) = snd sl @ [\<lparr>la_job = advance_job lib now j,
      la_trigger = scheduled_trigger_for fp (advance_job lib now j), la_delay = 0\<rparr>])"
  by (simp add: tick_job_def Let_def split: prod.splits option.splits)

lemma tick_fold_launches:
  assumes "l \<in> set (snd (fold (tick_job fp lib now) js sl))"
  shows "l \<in> set (snd sl) \<or> (\<exists>j \<in> set js. j_enabled (advance_job lib now j) \<and> la_job l = advance_job lib now j \<and>
    la_trigger l = scheduled_trigger_for fp (advance_job lib now j))"
  using assms
proof (induction js arbitrary: sl)
  case (Cons j js)
  from Cons.IH [of "tick_job fp lib now j sl"] Cons.prems tick_job_launches [of fp lib now j sl]
  show ?case by auto
qed simp

text \<open>Every launch of a tick comes from a job that was due, already advanced past its instant.\<close>

lemma on_tick_launches:
  assumes "l \<in> set (snd (on_tick fp lib now s))"
  obtains j where "j \<in> set (sc_jobs s)" "job_due now j" "la_job l = advance_job lib now j"
    "la_trigger l = scheduled_trigger_for fp (advance_job lib now j)"
  using assms tick_fold_launches [of l fp lib now "collect_due now s" "(s, [])"]
  by (auto simp: on_tick_def collect_due_def split: if_splits)

lemma execute_unidentified:
  "trigger_key t = Inl e \<Longrightarrow> execute hash ev j t clk oid db =
     (db, \<lparr>er_session = [], er_occurrence = [], er_execution = [], er_mode = DmEmpty, er_duplicate = False\<rparr>,
      Some (''cron executor: build occurrence: '' @ identity_text e), False)"
  by (simp add: execute_def new_occurrence_def Let_def)

text \<open>
  C25. A one-shot job with a session of its own that the tick launches at or after its instant never
  runs (attached jobs go another way, without an identity).  The tick advances the job before it builds the identity of the firing, a one-shot schedule has no next instant,
  and the identity of a firing without an instant is refused: the executor starts no session and
  the failure is not one that is retried.
\<close>

theorem one_shot_never_starts:
  assumes "l \<in> set (snd (on_tick fp lib now s))"
    and "cp_kind (j_payload (la_job l)) \<noteq> PkAttached"
    and "cs_kind (j_schedule (la_job l)) = SkAt" "cl_at lib (cs_at (j_schedule (la_job l))) = Some t" "t \<le> now"
  shows "\<exists>err. execute hash ev (la_job l) (la_trigger l) clk oid db =
      (db, \<lparr>er_session = [], er_occurrence = [], er_execution = [], er_mode = DmEmpty, er_duplicate = False\<rparr>,
       Some err, False) \<and> \<not> is_temporary_error (Some err)"
proof -
  obtain j where j: "la_job l = advance_job lib now j"
    and tr: "la_trigger l = scheduled_trigger_for fp (advance_job lib now j)" and due: "job_due now j"
    using assms(1) by (rule on_tick_launches)
  have "next_run (cl_at lib) (cl_next lib) (j_schedule j) now = Inr zero_time"
    using assms(3-5) j by (simp add: next_run_def next_run_at_def)
  then have "st_next_run (j_state (advance_job lib now j)) \<le> 0"
    by (simp add: advance_job_def unix_milli_zero_time)
  moreover have "j_id j \<noteq> [] \<Longrightarrow> trigger_key (la_trigger l) = Inl IeNoInstant"
    using calculation by (simp add: tr trigger_key_def scheduled_trigger_for_def)
  moreover have "j_id j = [] \<Longrightarrow> trigger_key (la_trigger l) = Inl IeNoJob"
    by (simp add: tr trigger_key_def scheduled_trigger_for_def)
  ultimately obtain e where e: "trigger_key (la_trigger l) = Inl e" "e \<in> {IeNoInstant, IeNoJob}"
    by blast
  have "\<not> is_temporary_error (Some (''cron executor: build occurrence: '' @ identity_text e))"
    using e(2) by (elim insertE emptyE; simp only:; code_simp)
  with execute_unidentified [OF e(1)] show ?thesis by blast
qed

text \<open>
  A tick and a catch-up of the same missed instant are two firings.  When the schedule's next
  instant differs from the one that was due, the key under which the tick records its run is not
  the key of the due instant; a restart that finds the job still due (its advanced state was not
  written) derives the due key and claims a second occurrence.
\<close>

theorem tick_key_is_not_the_due_key:
  assumes "on_tick fp lib now s = (s', ls)" "l \<in> set ls" "distinct (map j_id (sc_jobs s))"
    and "j \<in> set (sc_jobs s)" "j_id j = j_id (la_job l)" "j_id j \<noteq> []"
    and "next_run (cl_at lib) (cl_next lib) (j_schedule j) now = Inr t" "unix_milli t \<noteq> st_next_run (j_state j)"
  shows "trigger_key (la_trigger l) \<noteq> trigger_key (scheduled_trigger_for fp j)"
proof -
  obtain j' where j': "j' \<in> set (sc_jobs s)" "job_due now j'" "la_job l = advance_job lib now j'"
    and tr: "la_trigger l = scheduled_trigger_for fp (advance_job lib now j')"
    using assms(1,2) on_tick_launches [of l fp lib now s thesis] by simp
  have "j' = j" using assms(3,4,5) j' by (simp add: distinct_map inj_on_def)
  with j' have due: "st_next_run (j_state j) > 0" by (simp add: job_due_def)
  let ?k = "\<lambda>i. ''sched|'' @ j_id j @ ''|'' @ schedule_revision fp (j_schedule j) @ ''|'' @ format_int i"
  have d: "trigger_key (scheduled_trigger_for fp j) = Inr (?k (st_next_run (j_state j)))"
    using due assms(6) by (simp add: trigger_key_def scheduled_trigger_for_def)
  have a: "trigger_key (la_trigger l) = (if unix_milli t \<le> 0 then Inl IeNoInstant else Inr (?k (unix_milli t)))"
    using assms(6,7) by (simp add: tr \<open>j' = j\<close> trigger_key_def scheduled_trigger_for_def advance_job_def)
  show ?thesis unfolding a d using due assms(8) by (simp add: format_int_inj)
qed

section \<open>Delivery\<close>

lemma run_claimed_mode: "er_mode (fst (snd (run_claimed hash ev job r out clk db))) = er_mode out \<and>
    er_duplicate (fst (snd (run_claimed hash ev job r out clk db))) = er_duplicate out"
  by (simp add: run_claimed_def Let_def split: option.splits sum.splits prod.splits bool.splits)

lemma new_occurrence_mode: "new_occurrence t m now oid = Inr r \<Longrightarrow> oc_mode r = resolve_delivery_mode m"
  by (auto simp: new_occurrence_def split: sum.splits)

lemma resolve_twice [simp]: "resolve_delivery_mode (resolve_delivery_mode m) = resolve_delivery_mode m"
  by (simp add: resolve_delivery_mode_def)

lemma resolve_not_gateway [simp]: "resolve_delivery_mode m \<noteq> DmGateway \<longleftrightarrow> resolve_delivery_mode m = DmLegacy"
  by (simp add: resolve_delivery_mode_def)

lemma claimed_mode: "claim_occurrence r db = (db', Inr (stored, True)) \<Longrightarrow> oc_mode stored = resolve_delivery_mode (oc_mode r)"
  by (erule claim_occurrence_cases) (auto simp: normalize_occurrence_def)

text \<open>A run that was started answers in the mode the job had when it was claimed.\<close>

lemma execute_mode:
  assumes "execute hash ev job t clk oid db = (db', out, err, True)"
  shows "er_mode out = resolve_delivery_mode (j_mode job) \<and> \<not> er_duplicate out"
proof -
  obtain r where r: "new_occurrence t (resolve_delivery_mode (j_mode job)) (clk 0) oid = Inr r"
    using assms by (auto simp: execute_def Let_def split: sum.splits)
  note m = new_occurrence_mode [OF r]
  show ?thesis
  proof (cases "ev_ledger ev")
    case False
    then have "run_claimed hash ev job r \<lparr>er_session = [], er_occurrence = oc_id r, er_execution = [],
        er_mode = oc_mode r, er_duplicate = False\<rparr> clk db = (db', out, err, True)"
      using assms r by (simp add: execute_def Let_def)
    with run_claimed_mode [of hash ev job r "\<lparr>er_session = [], er_occurrence = oc_id r, er_execution = [],
        er_mode = oc_mode r, er_duplicate = False\<rparr>" clk db] m show ?thesis by simp
  next
    case True
    obtain db1 stored where c: "claim_occurrence r db = (db1, Inr (stored, True))"
      using assms r True by (auto simp: execute_def Let_def split: sum.splits prod.splits if_splits)
    have "run_claimed hash ev job stored \<lparr>er_session = [], er_occurrence = oc_id stored, er_execution = [],
        er_mode = oc_mode stored, er_duplicate = False\<rparr> clk db1 = (db', out, err, True)"
      using assms r c True by (simp add: execute_def Let_def)
    with run_claimed_mode [of hash ev job stored "\<lparr>er_session = [], er_occurrence = oc_id stored,
        er_execution = [], er_mode = oc_mode stored, er_duplicate = False\<rparr>" clk db1] m claimed_mode [OF c]
    show ?thesis by simp
  qed
qed

definition delivery_owners :: "cron_job \<Rightarrow> delivery_action \<Rightarrow> nat" where
  "delivery_owners j act =
     (if prompt_suffix j = CliNone then 0 else 1) + (if act = DaEffect \<or> act = DaLegacy then 1 else 0)"

text \<open>
  One owner of the answer.  For a run that was started, the delivery instruction in the prompt,
  the recorded gateway delivery and the legacy delivery exclude each other; a silent job has no
  owner, and any other job has exactly one when both delivery paths are wired.
\<close>

theorem one_delivery_owner:
  assumes "execute hash ev job t clk oid db = (db', out, err, True)"
  shows "delivery_owners job (route_delivery effects legacy job out) \<le> 1 \<and>
    (j_silent job \<longrightarrow> delivery_owners job (route_delivery effects legacy job out) = 0) \<and>
    (\<not> j_silent job \<and> effects \<and> legacy \<longrightarrow>
      delivery_owners job (route_delivery effects legacy job out) = 1)"
proof -
  have mode: "er_mode out = resolve_delivery_mode (j_mode job)" using execute_mode [OF assms] by simp
  have cli: "build_delivery_suffix job \<noteq> CliNone \<longleftrightarrow> \<not> j_silent job \<and> has_cli_delivery job"
    by (auto simp: build_delivery_suffix_def has_cli_delivery_def required_platform_key_def
        build_slack_delivery_def build_feishu_delivery_def Let_def)
  show ?thesis
    using cli by (auto simp: delivery_owners_def route_delivery_def prompt_suffix_def mode
        resolve_delivery_mode_def)
qed

section \<open>The job store and re-authorization\<close>

datatype job_op =
    JobCreate cron_job
  | JobUpdate cron_job
  | JobDelete string
  | JobState string cron_job_state millis
  | JobEnable string bool millis
  | JobUpsert millis cron_job

definition or_unchanged :: "job_error + 'a \<Rightarrow> 'a \<Rightarrow> 'a" where
  "or_unchanged r t = (case r of Inl err \<Rightarrow> t | Inr t' \<Rightarrow> t')"

primrec job_step :: "job_op \<Rightarrow> cron_job list \<Rightarrow> cron_job list" where
  "job_step (JobCreate j) t = or_unchanged (job_create j t) t"
| "job_step (JobUpdate j) t = or_unchanged (job_update j t) t"
| "job_step (JobDelete i) t = or_unchanged (job_delete i t) t"
| "job_step (JobState i st at) t = job_update_state i st at t"
| "job_step (JobEnable i b at) t = job_set_enabled i b at t"
| "job_step (JobUpsert now j) t = or_unchanged (job_upsert now j t) t"

text \<open>Ids and names are unique, the kinds are the three known ones, and no row carries a mode.\<close>

definition job_rows_inv :: "cron_job list \<Rightarrow> bool" where
  "job_rows_inv t \<longleftrightarrow> distinct (map j_id t) \<and> distinct (map j_name t) \<and>
     (\<forall>j \<in> set t. known_kinds j \<and> j_mode j = DmEmpty)"

lemma job_rows_inv_create: "job_rows_inv t \<Longrightarrow> job_rows_inv (or_unchanged (job_create j t) t)"
  by (auto simp: job_rows_inv_def job_create_def or_unchanged_def stored_job_def known_kinds_def)

lemma map_names_update:
  assumes "distinct (map j_name t)" "distinct (map j_id t)" "\<forall>x \<in> set t. j_id x \<noteq> j_id j \<longrightarrow> j_name x \<noteq> j_name j"
    and "\<And>x. j_name (f x) = j_name j"
  shows "distinct (map j_name (sql_update (\<lambda>x. j_id x = j_id j) f t))"
  using assms(1-3)
proof (induction t)
  case (Cons a t)
  then have ih: "distinct (map j_name (sql_update (\<lambda>x. j_id x = j_id j) f t))" by simp
  show ?case
  proof (cases "j_id a = j_id j")
    case True
    have "j_id a \<notin> j_id ` set t" using Cons.prems(2) by simp
    with True have other: "\<forall>x \<in> set t. j_id x \<noteq> j_id j" by (metis imageI)
    then have "sql_update (\<lambda>x. j_id x = j_id j) f t = t"
      unfolding sql_update_def by (intro map_idI) simp
    moreover have "j_name j \<notin> j_name ` set t" using other Cons.prems(3) by fastforce
    ultimately show ?thesis using True Cons.prems(1) assms(4) [of a] by (simp add: sql_update_def)
  next
    case False
    have "j_name a \<noteq> j_name j" "j_name a \<notin> j_name ` set t" using False Cons.prems by auto
    then have "j_name a \<notin> set (map j_name (sql_update (\<lambda>x. j_id x = j_id j) f t))"
      by (auto simp: set_sql_update assms(4))
    moreover have "sql_update (\<lambda>x. j_id x = j_id j) f (a # t) = a # sql_update (\<lambda>x. j_id x = j_id j) f t"
      using False by (simp add: sql_update_def)
    ultimately show ?thesis using ih by (simp only: list.map distinct.simps simp_thms)
  qed
qed simp

lemma job_rows_inv_update: "job_rows_inv t \<Longrightarrow> job_rows_inv (or_unchanged (job_update j t) t)"
proof (cases "job_update j t")
  case (Inr t')
  assume inv: "job_rows_inv t"
  have t': "t' = sql_update (\<lambda>x. j_id x = j_id j) (\<lambda>x. (stored_job j)\<lparr>j_created := j_created x\<rparr>) t"
    and n: "\<forall>x \<in> set t. j_id x \<noteq> j_id j \<longrightarrow> j_name x \<noteq> j_name j" and k: "known_kinds j"
    using Inr by (auto simp: job_update_def split: if_splits)
  have "distinct (map j_name t')"
    unfolding t' using inv n by (intro map_names_update) (auto simp: job_rows_inv_def stored_job_def)
  moreover have "map j_id t' = map j_id t"
    unfolding t' by (intro map_sql_update) (simp add: stored_job_def)
  moreover have "\<forall>x \<in> set t'. known_kinds x \<and> j_mode x = DmEmpty"
    unfolding t' using inv k
    by (auto simp: job_rows_inv_def stored_job_def known_kinds_def set_sql_update)
  ultimately show ?thesis using inv Inr by (simp add: or_unchanged_def job_rows_inv_def)
qed (simp add: or_unchanged_def)

lemma job_rows_inv_sql_update:
  assumes "job_rows_inv t" "\<And>x. j_id (f x) = j_id x" "\<And>x. j_name (f x) = j_name x"
    "\<And>x. known_kinds (f x) = known_kinds x" "\<And>x. j_mode (f x) = j_mode x"
  shows "job_rows_inv (sql_update P f t)"
  using assms by (auto simp: job_rows_inv_def map_sql_update set_sql_update)

lemma job_step_inv: "job_rows_inv t \<Longrightarrow> job_rows_inv (job_step op t)"
proof (cases op)
  case (JobDelete i)
  assume "job_rows_inv t"
  then show ?thesis
    by (auto simp: JobDelete job_delete_def or_unchanged_def job_rows_inv_def sql_delete_def
        distinct_map inj_on_def)
next
  case (JobUpsert now j)
  assume "job_rows_inv t"
  then show ?thesis
    by (cases "job_by_name (j_name j) t")
      (simp_all add: JobUpsert job_upsert_def job_rows_inv_create job_rows_inv_update)
qed (simp_all add: job_rows_inv_create job_rows_inv_update job_update_state_def job_set_enabled_def
    job_rows_inv_sql_update known_kinds_def)

interpretation job_rows: invariant_machine job_step job_rows_inv
  by unfold_locales (rule job_step_inv)

text \<open>
  C27. A gateway delivery is never re-authorized.  The job store has no column for the delivery
  mode, so whatever jobs were created, updated or upserted, every answer of the
  authorization check of the recovery is a refusal: no owed gateway delivery of a cron job is sent.
\<close>

theorem gateway_delivery_never_authorized:
  "\<exists>e. resolve_delivery_target occs (fold job_step ops []) oid = Inl e"
proof -
  have "job_rows_inv (fold job_step ops [])"
    by (rule job_rows.run_inv) (simp add: job_rows_inv_def)
  then have "\<forall>j \<in> set (fold job_step ops []). resolve_delivery_mode (j_mode j) \<noteq> DmGateway"
    by (auto simp: job_rows_inv_def resolve_delivery_mode_def)
  then show ?thesis
    by (auto simp: resolve_delivery_target_def job_get_def split: option.splits dest!: sql_row_Some)
qed

section \<open>The end of a run\<close>

lemma merge_disables: "x \<in> set (sc_jobs (merge_job_state i st True s)) \<Longrightarrow> j_id x = i \<Longrightarrow> \<not> j_enabled x"
  by (simp add: merge_job_state_def) (elim imageE; simp split: if_splits)

lemma persist_disables: "x \<in> set (sc_store (persist_enabled i False at s)) \<Longrightarrow> j_id x = i \<Longrightarrow> \<not> j_enabled x"
  by (simp add: persist_enabled_def job_set_enabled_def set_sql_update) (elim imageE; simp split: if_splits)

lemma merge_store [simp]: "sc_store (merge_job_state i st b s) = sc_store s"
  by (simp add: merge_job_state_def)

definition turned_off :: "string \<Rightarrow> cron_sched \<Rightarrow> bool" where
  "turned_off i s \<longleftrightarrow> (\<forall>x \<in> set (sc_store s) \<union> set (sc_jobs s). j_id x = i \<longrightarrow> \<not> j_enabled x)"

lemma turned_off_after_merge: "turned_off i (merge_job_state i st True (persist_enabled i False at s))"
  using merge_disables persist_disables by (auto simp: turned_off_def)

lemma persist_and_disable_off: "turned_off i (persist_and_disable i st at s)"
  by (simp add: persist_and_disable_def turned_off_after_merge)

lemma turned_off_not_launched:
  assumes "turned_off i s" "l \<in> set (snd (on_tick fp lib now s))"
  shows "j_id (la_job l) \<noteq> i"
proof -
  obtain j where "j \<in> set (sc_jobs s)" "job_due now j" "la_job l = advance_job lib now j"
    using on_tick_launches [OF assms(2)] by metis
  with assms(1) show ?thesis by (auto simp: turned_off_def job_due_def)
qed

lemma apply_lifecycle_off:
  assumes "cs_kind (j_schedule j) = SkAt \<or> lifetime_over lib now j"
  shows "turned_off (j_id j) (apply_lifecycle lib now j s)"
  using assms
  by (auto simp: apply_lifecycle_def Let_def turned_off_after_merge persist_and_disable_off)
    (auto simp: turned_off_def index_delete_def)

section \<open>The retry queue\<close>

datatype retry_op =
    RqDeliver instant "string option" "string option option" cron_job
  | RqFlush instant "pending_delivery \<Rightarrow> string option option"

primrec retry_step :: "retry_op \<Rightarrow> pending_delivery list \<Rightarrow> pending_delivery list" where
  "retry_step (RqDeliver now extracted answer j) q = fst (deliver now extracted answer j q)"
| "retry_step (RqFlush now answers) q = fst (flush_pending now answers q)"

definition retry_inv :: "pending_delivery list \<Rightarrow> bool" where
  "retry_inv q \<longleftrightarrow> length q \<le> 100 \<and> (\<forall>p \<in> set q. 2 \<le> pd_attempt p \<and> pd_attempt p \<le> 3)"

lemma set_tl: "p \<in> set (tl q) \<Longrightarrow> p \<in> set q"
  by (cases q) auto

lemma retry_inv_deliver_result:
  "retry_inv q \<Longrightarrow> 1 \<le> attempt \<Longrightarrow> retry_inv (fst (deliver_result now answer j response attempt q))"
  by (auto simp: retry_inv_def deliver_result_def enqueue_delivery_def max_queue_size_def
      max_retry_attempts_def split: option.splits dest: set_tl)

lemma retry_inv_fold:
  assumes "retry_inv q" "\<forall>p \<in> set ps. 2 \<le> pd_attempt p"
  shows "retry_inv (fst (fold (\<lambda>p (q', log).
      case deliver_result now (answers p) (pd_job p) (pd_result p) (pd_attempt p) q' of
        (q'', o1) \<Rightarrow> (q'', log @ [(p, o1)])) ps (q, log)))"
  using assms
proof (induction ps arbitrary: q log)
  case (Cons p ps)
  obtain q1 o1 where d: "deliver_result now (answers p) (pd_job p) (pd_result p) (pd_attempt p) q = (q1, o1)"
    by fastforce
  have "retry_inv q1"
    using retry_inv_deliver_result [OF Cons.prems(1), of "pd_attempt p" now "answers p" "pd_job p" "pd_result p"]
      Cons.prems(2) d by simp
  with Cons.IH [of q1] Cons.prems(2) d show ?case by simp
qed simp

lemma retry_step_inv: "retry_inv q \<Longrightarrow> retry_inv (retry_step op q)"
proof (cases op)
  case (RqFlush now answers)
  assume inv: "retry_inv q"
  have "length (filter (\<lambda>p. \<not> pd_next p \<le> now) q) \<le> 100"
    by (rule le_trans [OF length_filter_le]) (use inv in \<open>simp add: retry_inv_def\<close>)
  with inv have "retry_inv (filter (\<lambda>p. \<not> pd_next p \<le> now) q)" by (simp add: retry_inv_def)
  moreover have "\<forall>p \<in> set (filter (\<lambda>p. pd_next p \<le> now) q). 2 \<le> pd_attempt p"
    using inv by (simp add: retry_inv_def)
  ultimately show ?thesis
    unfolding RqFlush retry_step.simps flush_pending_def by (rule retry_inv_fold)
qed (auto simp: deliver_def retry_inv_deliver_result split: option.splits)

interpretation retries: invariant_machine retry_step retry_inv
  by unfold_locales (rule retry_step_inv)

text \<open>
  The retry queue is bounded.  Whatever is delivered and flushed, the queue never holds more
  than 100 entries, every entry is for the second or the third attempt, and its wait is the
  one the attempt before it asks for: 30 s, then 60 s.
\<close>

theorem retry_queue_bounded:
  "length (fold retry_step ops []) \<le> 100 \<and>
   (\<forall>p \<in> set (fold retry_step ops []). pd_attempt p = 2 \<or> pd_attempt p = 3) \<and>
   (\<forall>now answer j response q p. p \<in> set (fst (deliver_result now answer j response 1 q)) \<longrightarrow>
      p \<in> set q \<or> pd_next p = now + 30 * second) \<and>
   (\<forall>now answer j response q p. p \<in> set (fst (deliver_result now answer j response 2 q)) \<longrightarrow>
      p \<in> set q \<or> pd_next p = now + 60 * second)"
proof -
  have inv: "retry_inv (fold retry_step ops [])" by (rule retries.run_inv) (simp add: retry_inv_def)
  have one: "p \<in> set q \<or> pd_next p = now + delivery_retry_backoff a"
    if "p \<in> set (fst (deliver_result now answer j response a q))" for now answer j response a q p
    using that by (auto simp: deliver_result_def enqueue_delivery_def split: option.splits if_splits
        dest: set_tl)
  have w: "delivery_retry_backoff 1 = 30 * second" "delivery_retry_backoff 2 = 60 * second"
    by (simp_all add: delivery_retry_backoff_def initial_backoff_def max_backoff_def)
  show ?thesis using inv one [of _ _ _ _ _ 1, unfolded w] one [of _ _ _ _ _ 2, unfolded w]
    by (force simp: retry_inv_def)
qed

section \<open>The scheduler as a machine\<close>

text \<open>
  Every operation of the scheduler; \<open>n\<close> is the number of runs that hold a slot, so the end of a
  run is a step only while one of them is left.
\<close>

datatype sched_op =
    SoCreate string cron_job instant
  | SoUpdate cron_job instant
  | SoDelete string
  | SoCleanup string
  | SoConfig int int
  | SoTick instant
  | SoTrigger cron_job string string
  | SoTriggerName string "string \<Rightarrow> string option" string string
  | SoBegin instant cron_job
  | SoEnd bool bool instant millis execute_result "string option" cron_job
  | SoLoad instant
  | SoRebuild instant

definition granted :: "nat \<Rightarrow> cron_sched \<times> (job_error + launch) \<Rightarrow> cron_sched \<times> nat" where
  "granted n r = (fst r, case snd r of Inl err \<Rightarrow> n | Inr l \<Rightarrow> n + 1)"

definition launched :: "nat \<Rightarrow> cron_sched \<times> launch list \<Rightarrow> cron_sched \<times> nat" where
  "launched n r = (fst r, n + length (snd r))"

primrec sched_step :: "(string \<Rightarrow> string) \<Rightarrow> cron_lib \<Rightarrow> sched_op \<Rightarrow> cron_sched \<times> nat \<Rightarrow> cron_sched \<times> nat" where
  "sched_step fp lib (SoCreate gid j now) sn = (fst (create_job lib gid j now (fst sn)), snd sn)"
| "sched_step fp lib (SoUpdate j now) sn = (fst (update_job lib j now (fst sn)), snd sn)"
| "sched_step fp lib (SoDelete i) sn = (fst (delete_job i (fst sn)), snd sn)"
| "sched_step fp lib (SoCleanup session) sn = (cleanup_for_session session (fst sn), snd sn)"
| "sched_step fp lib (SoConfig runs jobs) sn = (update_config runs jobs (fst sn), snd sn)"
| "sched_step fp lib (SoTick now) sn = launched (snd sn) (on_tick fp lib now (fst sn))"
| "sched_step fp lib (SoTrigger j nonce event) sn = granted (snd sn) (trigger_job j nonce event (fst sn))"
| "sched_step fp lib (SoTriggerName name extra nonce event) sn =
     granted (snd sn) (trigger_by_name name extra nonce event (fst sn))"
| "sched_step fp lib (SoBegin now j) sn = (fst (begin_execution now j (fst sn)), snd sn)"
| "sched_step fp lib (SoEnd effects legacy now started out err j) sn =
     (if snd sn = 0 then sn
      else (release_slot (fst (end_job lib effects legacy now started out err j (fst sn))), snd sn - 1))"
| "sched_step fp lib (SoLoad now) sn = launched (snd sn) (load_from_db fp lib now (fst sn))"
| "sched_step fp lib (SoRebuild now) sn = (rebuild_index lib now (fst sn), snd sn)"

definition sched_inv :: "int \<Rightarrow> cron_sched \<times> nat \<Rightarrow> bool" where
  "sched_inv cap sn \<longleftrightarrow> job_rows_inv (sc_store (fst sn)) \<and> distinct (map j_id (sc_jobs (fst sn))) \<and>
     sc_running (fst sn) = int (snd sn) \<and> int (snd sn) \<le> cap \<and> sc_max_concurrent (fst sn) \<le> cap"

text \<open>The part of the invariant that speaks of the store and the index.\<close>

definition sched_rows :: "cron_sched \<Rightarrow> bool" where
  "sched_rows s \<longleftrightarrow> job_rows_inv (sc_store s) \<and> distinct (map j_id (sc_jobs s))"

definition same_slots :: "cron_sched \<Rightarrow> cron_sched \<Rightarrow> bool" where
  "same_slots s s' \<longleftrightarrow> sc_running s' = sc_running s \<and> sc_max_concurrent s' = sc_max_concurrent s"

lemma same_slots_refl [simp, intro]: "same_slots s s"
  by (simp add: same_slots_def)

lemma slots_simps [simp]:
  "sc_running (merge_job_state i st b s) = sc_running s" "sc_running (persist_state i st at s) = sc_running s"
  "sc_running (persist_enabled i b at s) = sc_running s"
  "sc_max_concurrent (merge_job_state i st b s) = sc_max_concurrent s"
  "sc_max_concurrent (persist_state i st at s) = sc_max_concurrent s"
  "sc_max_concurrent (persist_enabled i b at s) = sc_max_concurrent s"
  by (simp_all add: merge_job_state_def persist_state_def persist_enabled_def)

lemma sched_inv_same:
  "sched_inv cap (s, n) \<Longrightarrow> sched_rows s' \<Longrightarrow> same_slots s s' \<Longrightarrow> sched_inv cap (s', n)"
  by (simp add: sched_inv_def sched_rows_def same_slots_def)

lemma sched_inv_rows: "sched_inv cap (s, n) \<Longrightarrow> sched_rows s"
  by (simp add: sched_inv_def sched_rows_def)

named_theorems sched_keeps "operations that keep the rows and the slots"

lemma distinct_index_put: "distinct (map j_id js) \<Longrightarrow> distinct (map j_id (index_put j js))"
proof -
  have "map j_id (map (\<lambda>x. if j_id x = j_id j then j else x) js) = map j_id js"
    by (induction js) auto
  then show "distinct (map j_id js) \<Longrightarrow> ?thesis" by (auto simp: index_put_def simp del: map_map)
qed

lemma distinct_index_delete: "distinct (map j_id js) \<Longrightarrow> distinct (map j_id (index_delete i js))"
  by (simp add: index_delete_def distinct_map_filter)

lemma map_id_merge: "map j_id (sc_jobs (merge_job_state i st b s)) = map j_id (sc_jobs s)"
  by (simp add: merge_job_state_def o_def if_distrib cong: if_cong)

lemma merge_keeps [sched_keeps]:
  "sched_rows s \<Longrightarrow> sched_rows (merge_job_state i st b s)" "same_slots s (merge_job_state i st b s)"
  by (simp_all add: sched_rows_def map_id_merge same_slots_def)

lemma persist_state_keeps [sched_keeps]:
  "sched_rows s \<Longrightarrow> sched_rows (persist_state i st at s)" "same_slots s (persist_state i st at s)"
  by (simp_all add: sched_rows_def persist_state_def same_slots_def job_update_state_def
      job_rows_inv_sql_update known_kinds_def)

lemma persist_enabled_keeps [sched_keeps]:
  "sched_rows s \<Longrightarrow> sched_rows (persist_enabled i b at s)" "same_slots s (persist_enabled i b at s)"
  by (simp_all add: sched_rows_def persist_enabled_def same_slots_def job_set_enabled_def
      job_rows_inv_sql_update known_kinds_def)

lemma job_rows_inv_delete: "job_rows_inv t \<Longrightarrow> job_rows_inv (sql_delete P t)"
  by (auto simp: job_rows_inv_def sql_delete_def distinct_map_filter)

lemma job_rows_inv_created: "job_rows_inv t \<Longrightarrow> job_create j t = Inr t' \<Longrightarrow> job_rows_inv t'"
  using job_rows_inv_create [of t j] by (simp add: or_unchanged_def)

lemma job_rows_inv_updated: "job_rows_inv t \<Longrightarrow> job_update j t = Inr t' \<Longrightarrow> job_rows_inv t'"
  using job_rows_inv_update [of t j] by (simp add: or_unchanged_def)

lemma create_job_keeps [sched_keeps]:
  "sched_rows s \<Longrightarrow> sched_rows (fst (create_job lib gid j now s))" "same_slots s (fst (create_job lib gid j now s))"
  by (auto simp: create_job_def Let_def sched_rows_def same_slots_def distinct_index_put job_rows_inv_created
      split: option.splits sum.splits)

lemma update_job_keeps [sched_keeps]:
  "sched_rows s \<Longrightarrow> sched_rows (fst (update_job lib j now s))" "same_slots s (fst (update_job lib j now s))"
  by (auto simp: update_job_def Let_def sched_rows_def same_slots_def distinct_index_put job_rows_inv_updated
      split: option.splits sum.splits)

lemma delete_job_keeps [sched_keeps]:
  "sched_rows s \<Longrightarrow> sched_rows (fst (delete_job i s))" "same_slots s (fst (delete_job i s))"
  by (auto simp: delete_job_def job_delete_def sched_rows_def same_slots_def distinct_index_delete
      job_rows_inv_delete split: sum.splits if_splits)

lemma cleanup_keeps [sched_keeps]:
  "sched_rows s \<Longrightarrow> sched_rows (cleanup_for_session session s)" "same_slots s (cleanup_for_session session s)"
proof -
  have "(sched_rows s \<longrightarrow> sched_rows (fold (\<lambda>i s. fst (delete_job i s)) ids s)) \<and>
      same_slots s (fold (\<lambda>i s. fst (delete_job i s)) ids s)" for ids
    using delete_job_keeps by (induction ids arbitrary: s) (auto simp: same_slots_def)
  then show "sched_rows s \<Longrightarrow> sched_rows (cleanup_for_session session s)"
    and "same_slots s (cleanup_for_session session s)"
    by (auto simp: cleanup_for_session_def)
qed

lemma begin_keeps [sched_keeps]:
  "sched_rows s \<Longrightarrow> sched_rows (fst (begin_execution now j s))" "same_slots s (fst (begin_execution now j s))"
  by (auto simp: begin_execution_def Let_def same_slots_def intro: sched_keeps)

lemma persist_and_disable_keeps [sched_keeps]:
  "sched_rows s \<Longrightarrow> sched_rows (persist_and_disable i st at s)" "same_slots s (persist_and_disable i st at s)"
  by (auto simp: persist_and_disable_def same_slots_def intro: sched_keeps)

lemma lifecycle_keeps [sched_keeps]:
  "sched_rows s \<Longrightarrow> sched_rows (apply_lifecycle lib now j s)" "same_slots s (apply_lifecycle lib now j s)"
proof -
  have gone: "sched_rows s \<Longrightarrow> sched_rows (s\<lparr>sc_store := sql_delete P (sc_store s), sc_jobs := index_delete i (sc_jobs s)\<rparr>)"
    "same_slots s (s\<lparr>sc_store := sql_delete P (sc_store s), sc_jobs := index_delete i (sc_jobs s)\<rparr>)" for P i
    by (simp_all add: sched_rows_def same_slots_def job_rows_inv_delete distinct_index_delete)
  show "sched_rows s \<Longrightarrow> sched_rows (apply_lifecycle lib now j s)"
    and "same_slots s (apply_lifecycle lib now j s)"
    by (auto simp: apply_lifecycle_def Let_def persist_and_disable_def same_slots_def intro: gone(1) sched_keeps)
qed

lemmas apply_lifecycle_slots = lifecycle_keeps(2) [unfolded same_slots_def]

lemma end_job_keeps [sched_keeps]:
  "sched_rows s \<Longrightarrow> sched_rows (fst (end_job lib effects legacy now started out err j s))"
  "same_slots s (fst (end_job lib effects legacy now started out err j s))"
  by (auto simp: end_job_def handle_post_execution_def schedule_retry_def Let_def
      persist_and_disable_def apply_lifecycle_slots same_slots_def split: prod.splits bool.splits if_splits intro: sched_keeps)

lemma acquired_slot:
  "try_acquire_slot s = Some s' \<Longrightarrow> sc_running s' = sc_running s + 1 \<and> sc_running s < sc_max_concurrent s \<and>
     sc_max_concurrent s' = sc_max_concurrent s \<and> sc_store s' = sc_store s \<and> sc_jobs s' = sc_jobs s"
  by (auto simp: try_acquire_slot_def split: if_splits)

text \<open>The invariant of a launching loop: every launch holds one slot.\<close>

definition launching :: "int \<Rightarrow> nat \<Rightarrow> cron_sched \<times> launch list \<Rightarrow> bool" where
  "launching cap n sl \<longleftrightarrow> sched_inv cap (fst sl, n + length (snd sl))"

lemma sched_inv_acquired:
  assumes "sched_inv cap (s, n)" "try_acquire_slot s = Some s'"
  shows "sched_inv cap (s', n + 1)"
  using assms(1) acquired_slot [OF assms(2)] by (auto simp: sched_inv_def)

lemma tick_job_launching: "launching cap n sl \<Longrightarrow> launching cap n (tick_job fp lib now j sl)"
proof -
  assume inv: "launching cap n sl"
  obtain s ls where sl: "sl = (s, ls)" by fastforce
  let ?j = "advance_job lib now j"
  let ?s1 = "persist_state (j_id ?j) (j_state ?j) (unix_milli now) s"
  let ?s2 = "merge_job_state (j_id ?j) (j_state ?j) False ?s1"
  let ?off = "merge_job_state (j_id ?j) (j_state ?j) True (persist_enabled (j_id ?j) False (unix_milli now) ?s1)"
  have i: "sched_inv cap (s, n + length ls)" using inv sl by (simp add: launching_def)
  have off: "sched_inv cap (?off, n + length ls)"
    using sched_inv_rows [OF i] by (intro sched_inv_same [OF i] sched_keeps) (simp_all add: same_slots_def)
  have on: "sched_inv cap (?s2, n + length ls)"
    using sched_inv_rows [OF i] by (intro sched_inv_same [OF i] sched_keeps) (simp_all add: same_slots_def)
  show ?thesis
  proof (cases "try_acquire_slot ?s2")
    case None
    then show ?thesis using off on by (simp add: sl tick_job_def Let_def launching_def)
  next
    case (Some s3)
    have "sched_inv cap (release_slot s3, n + length ls)"
      using on acquired_slot [OF Some] by (simp add: sched_inv_def release_slot_def)
    with sched_inv_acquired [OF on Some] off Some show ?thesis
      by (simp add: sl tick_job_def Let_def launching_def)
  qed
qed

lemma on_tick_launching: "sched_inv cap (s, n) \<Longrightarrow> launching cap n (on_tick fp lib now s)"
proof -
  have "launching cap n sl \<Longrightarrow> launching cap n (fold (tick_job fp lib now) js sl)" for js sl
    by (induction js arbitrary: sl) (simp_all add: tick_job_launching)
  then show "sched_inv cap (s, n) \<Longrightarrow> ?thesis" by (simp add: on_tick_def launching_def)
qed

lemma catch_up_launching: "launching cap n sl \<Longrightarrow> launching cap n (fold (catch_up_job fp) js sl)"
proof (induction js arbitrary: sl)
  case (Cons a js)
  have "launching cap n (catch_up_job fp a sl)"
    using Cons.prems sched_inv_acquired
    by (auto simp: catch_up_job_def launching_def split: prod.splits option.splits)
  with Cons.IH show ?case by simp
qed simp

lemma job_rows_inv_state: "job_rows_inv t \<Longrightarrow> job_rows_inv (job_update_state i st at t)"
  by (simp add: job_update_state_def job_rows_inv_sql_update known_kinds_def)

lemma load_write_inv:
  assumes "job_rows_inv t"
  shows "job_rows_inv (load_write at old ja t)"
proof -
  obtain j act where ja: "ja = (j, act)" by fastforce
  let ?t1 = "if j_state j \<noteq> j_state old then job_update_state (j_id j) (j_state j) at t else t"
  have "job_rows_inv ?t1" using assms by (simp add: job_rows_inv_state)
  then show ?thesis unfolding ja load_write_def prod.case Let_def
    using job_rows_inv_updated by (cases "job_update j ?t1") (simp_all only: sum.case split: if_split, blast+)
qed

lemma index_put_all: "distinct (map j_id js) \<Longrightarrow> distinct (map j_id (fold (\<lambda>ja. index_put (fst ja)) xs js))"
  by (induction xs arbitrary: js) (simp_all add: distinct_index_put)

lemma load_write_all:
  "job_rows_inv t \<Longrightarrow> job_rows_inv (fold (\<lambda>(old, ja). load_write at old ja) xs t)"
  by (induction xs arbitrary: t) (auto simp: load_write_inv)

lemma write_states_all:
  "job_rows_inv t \<Longrightarrow>
     job_rows_inv (fold (\<lambda>j t. if P j then job_update_state (j_id j) (j_state j) at t else t) xs t)"
  by (induction xs arbitrary: t) (simp_all add: job_rows_inv_state)

lemma sched_inv_replace:
  "sched_inv cap (s, n) \<Longrightarrow> job_rows_inv t \<Longrightarrow> distinct (map j_id js) \<Longrightarrow>
     sched_inv cap (s\<lparr>sc_jobs := js, sc_store := t\<rparr>, n)"
  by (simp add: sched_inv_def)

lemma sched_rows_replace:
  "job_rows_inv t \<Longrightarrow> distinct (map j_id js) \<Longrightarrow> sched_rows (s\<lparr>sc_jobs := js, sc_store := t\<rparr>)"
  by (simp add: sched_rows_def)

lemma load_launching: "sched_inv cap (s, n) \<Longrightarrow> launching cap n (load_from_db fp lib now s)"
proof -
  assume i: "sched_inv cap (s, n)"
  let ?rows = "job_list (sc_store s)" and ?loaded = "map (load_one lib now) (job_list (sc_store s))"
  let ?s = "s\<lparr>sc_jobs := fold (\<lambda>ja. index_put (fst ja)) ?loaded (sc_jobs s),
    sc_store := fold (\<lambda>(old, ja). load_write (unix_milli now) old ja) (zip ?rows ?loaded) (sc_store s)\<rparr>"
  have "sched_inv cap (?s, n)"
    by (rule sched_inv_replace [OF i load_write_all index_put_all]) (use i in \<open>simp_all add: sched_inv_def\<close>)
  then have "launching cap n (?s, [])" by (simp add: launching_def)
  then show ?thesis
    unfolding load_from_db_def Let_def schedule_catch_up_def by (rule catch_up_launching)
qed

lemma rebuild_keeps: "sched_rows s \<Longrightarrow> sched_rows (rebuild_index lib now s)"
  "same_slots s (rebuild_index lib now s)"
proof -
  have "j_id (refresh_job lib now j) = j_id j" for j
    by (simp add: refresh_job_def split: sum.splits)
  moreover have "job_rows_inv t \<Longrightarrow> distinct (map j_id (job_list t))" for t
    by (simp add: job_rows_inv_def job_list_def sql_select_def distinct_map)
  ultimately show "sched_rows s \<Longrightarrow> sched_rows (rebuild_index lib now s)"
    unfolding rebuild_index_def Let_def
    by (intro sched_rows_replace write_states_all) (simp_all add: sched_rows_def o_def)
qed (simp add: rebuild_index_def Let_def same_slots_def)

lemma trigger_job_inv:
  "sched_inv cap (s, n) \<Longrightarrow> sched_inv cap (granted n (trigger_job j nonce event s))"
  by (auto simp: trigger_job_def granted_def sched_inv_acquired [simplified] split: option.splits)

lemma trigger_by_name_inv:
  "sched_inv cap (s, n) \<Longrightarrow> sched_inv cap (granted n (trigger_by_name name extra nonce event s))"
  by (auto simp: trigger_by_name_def trigger_job_inv granted_def [of n "(s, Inl e)" for e] split: option.splits)

text \<open>Configured concurrency caps of a run stay below \<open>cap\<close>.\<close>

definition caps_below :: "int \<Rightarrow> sched_op \<Rightarrow> bool" where
  "caps_below cap op \<longleftrightarrow> (case op of SoConfig runs jobs \<Rightarrow> runs \<le> cap | _ \<Rightarrow> True)"

lemma sched_step_inv:
  assumes "sched_inv cap sn" "caps_below cap op"
  shows "sched_inv cap (sched_step fp lib op sn)"
proof -
  obtain s n where sn: "sn = (s, n)" by fastforce
  have i: "sched_inv cap (s, n)" using assms(1) sn by simp
  note rows = sched_inv_rows [OF i]
  note same = sched_inv_same [OF i sched_keeps(1) [OF rows] sched_keeps(2)]
  show ?thesis
  proof (cases op)
    case (SoConfig runs jobs)
    then show ?thesis using i assms(2) by (simp add: sn sched_inv_def update_config_def caps_below_def)
  next
    case (SoTick now)
    with on_tick_launching [OF i] show ?thesis by (simp add: sn launched_def launching_def)
  next
    case (SoLoad now)
    with load_launching [OF i] show ?thesis by (simp add: sn launched_def launching_def)
  next
    case (SoEnd effects legacy now started out err j)
    let ?s = "fst (end_job lib effects legacy now started out err j s)"
    have "sched_inv cap (?s, n)" using i rows by (intro sched_inv_same [OF i] sched_keeps)
    then show ?thesis using i by (auto simp: SoEnd sn sched_inv_def release_slot_def)
  next
    case (SoRebuild now)
    with sched_inv_same [OF i rebuild_keeps(1) [OF rows] rebuild_keeps(2)] show ?thesis by (simp add: sn)
  qed (use rows in \<open>simp_all add: sn trigger_job_inv [OF i] trigger_by_name_inv [OF i] sched_inv_same [OF i] sched_keeps\<close>)
qed

text \<open>
  C33. The scheduler keeps its slots and its rows.  From a new scheduler over a store it filled
  itself, any sequence of calls, ticks, runs, reloads and configuration changes with caps of at most
  \<open>cap\<close> keeps the running counter equal to the number of runs in flight and at most \<open>cap\<close>,
  the index keyed by distinct job ids, and the rows' ids and names unique.
\<close>

theorem scheduler_inv:
  assumes "new_scheduler (fold job_step jobs []) runs max_jobs timeout_sec = s" "sc_max_concurrent s \<le> cap"
    and "\<forall>op \<in> set ops. caps_below cap op" "fold (sched_step fp lib) ops (s, 0) = (s', n)"
  shows "sc_running s' = int n \<and> int n \<le> cap \<and> distinct (map j_id (sc_jobs s')) \<and>
    distinct (map j_id (sc_store s')) \<and> distinct (map j_name (sc_store s'))"
proof -
  have "job_rows_inv (fold job_step jobs [])"
    by (rule job_rows.run_inv) (simp add: job_rows_inv_def)
  then have start: "sched_inv cap (s, 0)"
    using assms(1,2) by (auto simp: sched_inv_def new_scheduler_def split: if_splits)
  have "sched_inv cap sn \<Longrightarrow> \<forall>op \<in> set xs. caps_below cap op \<Longrightarrow> sched_inv cap (fold (sched_step fp lib) xs sn)"
    for xs sn
    by (induction xs arbitrary: sn) (simp_all add: sched_step_inv)
  from this [OF start assms(3)] show ?thesis
    by (simp add: assms(4) sched_inv_def job_rows_inv_def)
qed

section \<open>Finished jobs\<close>

lemma off_simps:
  "turned_off i s \<Longrightarrow> turned_off i (s\<lparr>sc_running := n\<rparr>)" "turned_off i s \<Longrightarrow> turned_off i (release_slot s)"
  "turned_off i s \<Longrightarrow> turned_off i (update_config a b s)"
  by (simp_all add: turned_off_def release_slot_def update_config_def)

lemma off_merge: "turned_off i s \<Longrightarrow> turned_off i (merge_job_state k st b s)"
  by (auto simp: turned_off_def merge_job_state_def split: if_splits)

lemma off_persist: "turned_off i s \<Longrightarrow> turned_off i (persist_state k st at s)"
  "turned_off i s \<Longrightarrow> turned_off i (persist_enabled k False at s)"
  by (auto simp: turned_off_def persist_state_def persist_enabled_def job_update_state_def job_set_enabled_def
      set_sql_update split: if_splits)

lemma off_disable: "turned_off i s \<Longrightarrow> turned_off i (persist_and_disable k st at s)"
  by (simp add: persist_and_disable_def off_merge off_persist)

lemma off_slot: "try_acquire_slot s = Some s' \<Longrightarrow> turned_off i s \<Longrightarrow> turned_off i s'"
  by (auto simp: try_acquire_slot_def off_simps split: if_splits)

lemma off_replace:
  "(\<And>x. x \<in> set t \<union> set js \<Longrightarrow> j_id x = i \<Longrightarrow> \<not> j_enabled x) \<Longrightarrow> turned_off i (s\<lparr>sc_store := t, sc_jobs := js\<rparr>)"
  by (simp add: turned_off_def)

lemma index_put_mem: "x \<in> set (index_put j js) \<Longrightarrow> x = j \<or> x \<in> set js"
  by (auto simp: index_put_def split: if_splits)

lemma off_put:
  assumes "turned_off i s" "j_id j \<noteq> i" "\<And>x. x \<in> set t \<Longrightarrow> j_id x = i \<Longrightarrow> x \<in> set (sc_store s)"
  shows "turned_off i (s\<lparr>sc_store := t, sc_jobs := index_put j (sc_jobs s)\<rparr>)"
  using assms by (intro off_replace) (auto simp: turned_off_def dest: index_put_mem)

lemma job_create_mem: "job_create j t = Inr t' \<Longrightarrow> x \<in> set t' \<Longrightarrow> j_id x \<noteq> j_id j \<Longrightarrow> x \<in> set t"
  by (auto simp: job_create_def stored_job_def split: if_splits)

lemma job_update_mem: "job_update j t = Inr t' \<Longrightarrow> x \<in> set t' \<Longrightarrow> j_id x \<noteq> j_id j \<Longrightarrow> x \<in> set t"
  by (auto simp: job_update_def stored_job_def set_sql_update split: if_splits)

lemma off_create:
  assumes "turned_off i s" "(if j_id j = [] then gid else j_id j) \<noteq> i"
  shows "turned_off i (fst (create_job lib gid j now s))"
proof (cases "fst (create_job lib gid j now s) = s")
  case False
  then obtain t where t: "fst (create_job lib gid j now s) = s\<lparr>sc_store := fst t, sc_jobs := index_put (snd t) (sc_jobs s)\<rparr>"
    "job_create (snd t) (sc_store s) = Inr (fst t)" "j_id (snd t) \<noteq> i"
    using assms(2) by (auto simp: create_job_def Let_def split: option.splits sum.splits if_splits)
  show ?thesis
    unfolding t(1) by (rule off_put [OF assms(1) t(3)])
      (metis t(2,3) job_create_mem)
qed (use assms(1) in simp)

lemma off_update:
  assumes "turned_off i s" "j_id j \<noteq> i"
  shows "turned_off i (fst (update_job lib j now s))"
proof (cases "fst (update_job lib j now s) = s")
  case False
  then obtain t where t: "fst (update_job lib j now s) = s\<lparr>sc_store := fst t, sc_jobs := index_put (snd t) (sc_jobs s)\<rparr>"
    "job_update (snd t) (sc_store s) = Inr (fst t)" "j_id (snd t) \<noteq> i"
    using assms(2) by (auto simp: update_job_def Let_def split: option.splits sum.splits if_splits)
  show ?thesis
    unfolding t(1) by (rule off_put [OF assms(1) t(3)])
      (metis t(2,3) job_update_mem)
qed (use assms(1) in simp)

lemma off_subset:
  "turned_off i s \<Longrightarrow> set t \<subseteq> set (sc_store s) \<Longrightarrow> set js \<subseteq> set (sc_jobs s) \<Longrightarrow> turned_off i (s\<lparr>sc_store := t, sc_jobs := js\<rparr>)"
  by (intro off_replace) (auto simp: turned_off_def)

lemma off_delete: "turned_off i s \<Longrightarrow> turned_off i (fst (delete_job k s))"
  by (auto simp: delete_job_def job_delete_def sql_delete_def index_delete_def split: sum.splits if_splits intro!: off_subset)

lemma off_cleanup: "turned_off i s \<Longrightarrow> turned_off i (cleanup_for_session session s)"
proof -
  have "turned_off i s \<Longrightarrow> turned_off i (fold (\<lambda>i s. fst (delete_job i s)) ids s)" for ids
    by (induction ids arbitrary: s) (simp_all add: off_delete)
  then show "turned_off i s \<Longrightarrow> ?thesis" by (simp add: cleanup_for_session_def)
qed

lemma off_tick_job: "turned_off i (fst sl) \<Longrightarrow> turned_off i (fst (tick_job fp lib now j sl))"
  by (cases sl) (auto simp: tick_job_def Let_def off_merge off_persist off_simps dest!: off_slot [where i = i] split: option.splits)

lemma off_tick: "turned_off i s \<Longrightarrow> turned_off i (fst (on_tick fp lib now s))"
proof -
  have "turned_off i (fst sl) \<Longrightarrow> turned_off i (fst (fold (tick_job fp lib now) js sl))" for js sl
    by (induction js arbitrary: sl) (simp_all add: off_tick_job)
  from this [of "(s, [])"] show "turned_off i s \<Longrightarrow> ?thesis" by (simp add: on_tick_def)
qed

lemma off_trigger: "turned_off i s \<Longrightarrow> turned_off i (fst (trigger_job j nonce event s))"
  "turned_off i s \<Longrightarrow> turned_off i (fst (trigger_by_name name extra nonce event s))"
  by (auto simp: trigger_by_name_def trigger_job_def dest: off_slot split: option.splits)

lemma off_begin: "turned_off i s \<Longrightarrow> turned_off i (fst (begin_execution now j s))"
  by (simp add: begin_execution_def Let_def off_merge off_persist)

lemma off_handle: "turned_off i s \<Longrightarrow> handle_post_execution now started err j s = (s1, j1, stop) \<Longrightarrow> turned_off i s1"
  by (auto simp: handle_post_execution_def schedule_retry_def Let_def off_merge off_persist off_disable
      split: prod.splits if_splits)

lemma off_lifecycle: "turned_off i s \<Longrightarrow> turned_off i (apply_lifecycle lib now j s)"
  by (auto simp: apply_lifecycle_def Let_def off_merge off_persist off_disable sql_delete_def index_delete_def
      intro!: off_subset)

lemma off_end: "turned_off i s \<Longrightarrow> turned_off i (fst (end_job lib effects legacy now started out err j s))"
  by (auto simp: end_job_def off_lifecycle dest: off_handle split: prod.splits bool.splits)

lemma off_loaded: "\<not> j_enabled j \<Longrightarrow> \<not> j_enabled (fst (load_one lib now j))" "j_id (fst (load_one lib now j)) = j_id j"
  by (auto simp: load_one_def Let_def split: sum.splits)

definition rows_off :: "string \<Rightarrow> cron_job list \<Rightarrow> bool" where
  "rows_off i t \<longleftrightarrow> (\<forall>x \<in> set t. j_id x = i \<longrightarrow> \<not> j_enabled x)"

lemma turned_off_rows: "turned_off i s \<longleftrightarrow> rows_off i (sc_store s) \<and> rows_off i (sc_jobs s)"
  by (auto simp: turned_off_def rows_off_def)

lemma off_write_state: "rows_off i t \<Longrightarrow> rows_off i (job_update_state k st at t)"
  by (auto simp: rows_off_def job_update_state_def set_sql_update split: if_splits)

lemma off_load_write:
  assumes "rows_off i t" "j_id (fst ja) = i \<longrightarrow> \<not> j_enabled (fst ja)"
  shows "rows_off i (load_write at old ja t)"
proof -
  obtain j act where ja: "ja = (j, act)" by fastforce
  let ?t1 = "if j_state j \<noteq> j_state old then job_update_state (j_id j) (j_state j) at t else t"
  have t1: "rows_off i ?t1" using assms(1) by (simp add: off_write_state)
  have "rows_off i t2" if "job_update j ?t1 = Inr t2" for t2
    using that t1 assms(2) unfolding rows_off_def
    by (fastforce simp: job_update_def set_sql_update ja stored_job_def split: if_splits)
  then show ?thesis unfolding ja load_write_def prod.case Let_def
    using t1 by (cases "job_update j ?t1") (simp_all only: sum.case split: if_split, blast+)
qed

lemma off_load:
  assumes "turned_off i s"
  shows "turned_off i (fst (load_from_db fp lib now s))"
proof -
  let ?rows = "job_list (sc_store s)" and ?loaded = "map (load_one lib now) (job_list (sc_store s))"
  have rows: "\<not> j_enabled (fst ja)" if "ja \<in> set ?loaded" "j_id (fst ja) = i" for ja
    using that assms off_loaded by (auto simp: turned_off_def job_list_def sql_select_def)
  have puts: "rows_off i js \<Longrightarrow> (\<And>ja. ja \<in> set xs \<Longrightarrow> j_id (fst ja) = i \<Longrightarrow> \<not> j_enabled (fst ja)) \<Longrightarrow>
      rows_off i (fold (\<lambda>ja. index_put (fst ja)) xs js)" for xs :: "(cron_job \<times> load_action) list" and js
  proof (induction xs arbitrary: js)
    case (Cons a xs)
    have "rows_off i (index_put (fst a) js)"
      using Cons.prems(1) Cons.prems(2) [of a] by (auto simp: rows_off_def dest: index_put_mem)
    then show ?case using Cons.IH Cons.prems(2) by simp
  qed simp
  have writes: "rows_off i t \<Longrightarrow> \<forall>p \<in> set xs. j_id (fst (snd p)) = i \<longrightarrow> \<not> j_enabled (fst (snd p)) \<Longrightarrow>
      rows_off i (fold (\<lambda>(old, ja). load_write (unix_milli now) old ja) xs t)"
    for xs :: "(cron_job \<times> cron_job \<times> load_action) list" and t
  proof (induction xs arbitrary: t)
    case (Cons a xs)
    obtain old ja where a: "a = (old, ja)" by (rule prod.exhaust [of a])
    have "rows_off i (load_write (unix_milli now) old ja t)"
      using Cons.prems(2) by (intro off_load_write [OF Cons.prems(1)]) (simp add: a)
    from Cons.IH [OF this] Cons.prems(2) show ?case by (simp add: a)
  qed simp
  let ?s = "s\<lparr>sc_jobs := fold (\<lambda>ja. index_put (fst ja)) ?loaded (sc_jobs s),
    sc_store := fold (\<lambda>(old, ja). load_write (unix_milli now) old ja) (zip ?rows ?loaded) (sc_store s)\<rparr>"
  have r: "rows_off i (sc_store s)" "rows_off i (sc_jobs s)" using assms by (simp_all add: turned_off_rows)
  have "rows_off i (fold (\<lambda>ja. index_put (fst ja)) ?loaded (sc_jobs s))" by (rule puts [OF r(2)]) (rule rows)
  moreover have "rows_off i (fold (\<lambda>(old, ja). load_write (unix_milli now) old ja) (zip ?rows ?loaded) (sc_store s))"
    by (rule writes [OF r(1)]) (metis rows set_zip_rightD prod.collapse)
  ultimately have 1: "turned_off i ?s" by (simp add: turned_off_rows)
  have "turned_off i (fst sl) \<Longrightarrow> turned_off i (fst (fold (catch_up_job fp) xs sl))" for xs sl
  proof (induction xs arbitrary: sl)
    case (Cons a xs)
    have "turned_off i (fst (catch_up_job fp a sl))"
      using Cons.prems by (auto simp: catch_up_job_def dest: off_slot split: prod.splits option.splits)
    then show ?case using Cons.IH by simp
  qed simp
  from this [of "(?s, [])"] 1 show ?thesis unfolding load_from_db_def Let_def schedule_catch_up_def by simp
qed

lemma off_rebuild:
  assumes "turned_off i s"
  shows "turned_off i (rebuild_index lib now s)"
proof -
  have j: "\<not> j_enabled (refresh_job lib now j)" if "\<not> j_enabled j" for j
    using that by (simp add: refresh_job_def)
  have id: "j_id (refresh_job lib now j) = j_id j" for j
    by (simp add: refresh_job_def split: sum.splits)
  have w: "rows_off i t \<Longrightarrow> rows_off i (fold (\<lambda>j t. if P j then job_update_state (j_id j) (j_state j) at t else t) js t)"
    for P js t at
    by (induction js arbitrary: t) (simp_all add: off_write_state)
  have "rows_off i (map (refresh_job lib now) (job_list (sc_store s)))"
    using assms j by (auto simp: turned_off_def rows_off_def job_list_def sql_select_def id)
  then show ?thesis
    using assms by (auto simp: turned_off_rows rebuild_index_def Let_def simp del: fold_map intro!: w)
qed

text \<open>The operations that define the job with this id anew.\<close>

fun redefines :: "string \<Rightarrow> sched_op \<Rightarrow> bool" where
  "redefines i (SoCreate gid j now) \<longleftrightarrow> (if j_id j = [] then gid else j_id j) = i"
| "redefines i (SoUpdate j now) \<longleftrightarrow> j_id j = i"
| "redefines i _ \<longleftrightarrow> False"

lemma off_step: "turned_off i (fst sn) \<Longrightarrow> \<not> redefines i op \<Longrightarrow> turned_off i (fst (sched_step fp lib op sn))"
  by (cases op) (simp_all add: off_create off_update off_delete off_cleanup off_simps off_tick off_trigger off_begin
      off_end off_load off_rebuild launched_def granted_def)

lemma off_run: "turned_off i (fst sn) \<Longrightarrow> \<forall>op \<in> set ops. \<not> redefines i op \<Longrightarrow> turned_off i (fst (fold (sched_step fp lib) ops sn))"
  by (induction ops arbitrary: sn) (simp_all add: off_step)

text \<open>
  C32. A finished job stays off.  After the tenth failure in a row, after the last run its limit
  allows, after a run without an error past its expiry, and after a successful one-shot run, every
  copy of the job (its row and its index entry) is disabled or gone.  It stays so whatever the
  scheduler does afterwards - ticks, runs still under way, triggers, reloads, rebuilds, other jobs -
  until an administrator defines the job anew, and no tick launches it in the meantime.  A run that
  fails past the expiry does not by itself turn the job off.
\<close>

theorem finished_job_stays_off:
  assumes "end_job lib effects legacy now started out err j s = (s', act)"
    and "err \<noteq> None \<and> st_consecutive (j_state j) + 1 \<ge> 10 \<or>
      err = None \<and> (cs_kind (j_schedule j) = SkAt \<or>
        0 < j_max_runs j \<and> j_max_runs j \<le> st_run_count (j_state j) + 1 \<or>
        j_expires j \<noteq> [] \<and> (\<exists>t. cl_at lib (j_expires j) = Some t \<and> t < now))"
    and "\<forall>op \<in> set ops. \<not> redefines (j_id j) op" "fold (sched_step fp lib) ops (s', n) = (s2, n2)"
  shows "turned_off (j_id j) s2 \<and>
    (\<forall>now' l. l \<in> set (snd (on_tick fp lib now' s2)) \<longrightarrow> j_id (la_job l) \<noteq> j_id j)"
proof -
  have off: "turned_off (j_id j) s'"
  proof (cases err)
    case (Some e)
    then show ?thesis using assms(1,2)
      by (auto simp: end_job_def handle_post_execution_def finish_execution_def Let_def
          max_consecutive_errors_def persist_and_disable_off [of "j_id j", simplified])
  next
    case None
    obtain j1 s1 where s': "s' = apply_lifecycle lib now j1 s1" and id: "j_id j1 = j_id j"
      and k: "j_schedule j1 = j_schedule j" "j_max_runs j1 = j_max_runs j" "j_expires j1 = j_expires j"
      and c: "st_run_count (j_state j1) = st_run_count (j_state j) + 1"
      using assms(1) None
      by (auto simp: end_job_def handle_post_execution_def finish_execution_def Let_def split: if_splits)
    have "cs_kind (j_schedule j1) = SkAt \<or> lifetime_over lib now j1"
      using assms(2) None by (auto simp: lifetime_over_def k c)
    with apply_lifecycle_off show ?thesis unfolding s' id [symmetric] by blast
  qed
  have "turned_off (j_id j) s2" using off_run [OF _ assms(3), of "(s', n)" fp lib] off assms(4) by simp
  with turned_off_not_launched show ?thesis by blast
qed

section \<open>Witnesses\<close>

definition demo_cron_job :: cron_job where
  "demo_cron_job = \<lparr>j_id = ''cron_1'', j_name = ''daily'', j_description = [], j_enabled = True,
     j_schedule = \<lparr>cs_kind = SkEvery, cs_at = [], cs_every = 60000, cs_expr = [], cs_tz = []\<rparr>,
     j_payload = \<lparr>cp_kind = PkIsolated, cp_message = ''go'', cp_target = [], cp_tools = [], cp_worker = []\<rparr>,
     j_work_dir = [], j_bot_id = ''b'', j_bot_name = [], j_owner = ''u'', j_platform = ''slack'',
     j_platform_key = [''channel_id'' \<mapsto> ''C1''], j_mode = DmEmpty, j_timeout = 0, j_delete_after = False,
     j_silent = False, j_max_retries = 0, j_max_runs = 5, j_expires = [],
     j_state = \<lparr>st_next_run = 1000, st_last_run = 0, st_running = 0, st_last_status = JsNone,
                st_consecutive = 9, st_sched_errs = 0, st_retry = 0, st_run_id = [], st_run_count = 4\<rparr>,
     j_created = 0, j_updated = 0\<rparr>"

definition demo_one_shot :: cron_job where
  "demo_one_shot = demo_cron_job\<lparr>j_schedule :=
     \<lparr>cs_kind = SkAt, cs_at = ''t'', cs_every = 0, cs_expr = [], cs_tz = []\<rparr>\<rparr>"

definition demo_cron_lib :: cron_lib where
  "demo_cron_lib = \<lparr>cl_at = (\<lambda>s. Some second), cl_next = (\<lambda>e z now. None), cl_expr_ok = (\<lambda>s. True),
     cl_has_control = (\<lambda>s. False), cl_work_dir_ok = (\<lambda>s. True), cl_prompt_threat = (\<lambda>s. False)\<rparr>"

definition demo_exec_env :: exec_env where
  "demo_exec_env = \<lparr>ev_ledger = True, ev_driver = [], ev_start = None, ev_worker = True,
     ev_dispatch = Some (Inr (''exec_1'', False)), ev_wait = None\<rparr>"

definition demo_manual :: trigger_identity where
  "demo_manual = \<lparr>ti_kind = TkManual, ti_job = ''cron_1'', ti_rev = [], ti_scheduled = 0,
     ti_nonce = ''n1'', ti_source = []\<rparr>"

definition demo_run :: "string \<Rightarrow> occurrence_db \<Rightarrow> occurrence_db \<times> execute_result \<times> string option \<times> bool" where
  "demo_run oid db = execute (\<lambda>s. s) demo_exec_env demo_cron_job demo_manual (\<lambda>n. int n * second) oid db"

definition demo_scheduler :: "cron_job \<Rightarrow> cron_sched" where
  "demo_scheduler j = (new_scheduler (fold job_step [JobCreate j] []) 1 0 0)\<lparr>sc_jobs := [j]\<rparr>"

lemma split_run: "x = (fst x, fst (snd x), fst (snd (snd x)), snd (snd (snd x)))"
  by simp

lemma demo_run_starts: "snd (snd (snd (demo_run ''occ_1'' [])))"
  by (simp add: demo_run_def execute_def new_occurrence_def trigger_key_def demo_manual_def demo_exec_env_def
      demo_cron_job_def claim_occurrence_def normalize_occurrence_def occurrence_get_def Let_def
      run_claimed_starts)

theorem one_run_per_firing_witness:
  "\<not> snd (snd (snd (demo_run ''occ_2'' (fold occurrence_step [] (fst (demo_run ''occ_1'' []))))))"
proof -
  let ?r1 = "demo_run ''occ_1'' []" and ?r2 = "demo_run ''occ_2'' (fold occurrence_step [] (fst (demo_run ''occ_1'' [])))"
  have inv: "occurrence_inv []" by (simp add: occurrence_inv_def unique_index_def)
  have led: "ev_ledger demo_exec_env" by (simp add: demo_exec_env_def)
  have one: "execute (\<lambda>s. s) demo_exec_env demo_cron_job demo_manual (\<lambda>n. int n * second) ''occ_1'' [] =
      (fst ?r1, fst (snd ?r1), fst (snd (snd ?r1)), True)"
    using split_run [of ?r1] demo_run_starts by (simp only: demo_run_def)
  have two: "execute (\<lambda>s. s) demo_exec_env demo_cron_job demo_manual (\<lambda>n. int n * second) ''occ_2''
      (fold occurrence_step [] (fst ?r1)) = (fst ?r2, fst (snd ?r2), fst (snd (snd ?r2)), snd (snd (snd ?r2)))"
    unfolding demo_run_def by (rule split_run)
  show ?thesis by (rule conjunct1 [OF one_run_per_firing [OF inv one led two led refl]])
qed

theorem trigger_key_injective_witness:
  "trigger_key demo_manual = trigger_key (demo_manual\<lparr>ti_rev := ''r''\<rparr>) \<and>
   ti_job (demo_manual\<lparr>ti_rev := ''r''\<rparr>) = ti_job demo_manual"
  using trigger_key_injective [of demo_manual "''manual|cron_1|n1''" "demo_manual\<lparr>ti_rev := ''r''\<rparr>"]
  by (simp add: demo_manual_def trigger_key_def)

lemma demo_one_shot_launch: "\<exists>l. l \<in> set (snd (on_tick (\<lambda>s. s) demo_cron_lib (2 * second) (demo_scheduler demo_one_shot))) \<and>
    la_job l = advance_job demo_cron_lib (2 * second) demo_one_shot"
  by (simp add: on_tick_def demo_scheduler_def collect_due_def job_due_def demo_one_shot_def demo_cron_job_def
      new_scheduler_def unix_milli_def tick_job_def Let_def advance_job_def next_run_def next_run_at_def
      demo_cron_lib_def try_acquire_slot_def merge_job_state_def persist_state_def)

theorem one_shot_never_starts_witness:
  "\<exists>l \<in> set (snd (on_tick (\<lambda>s. s) demo_cron_lib (2 * second) (demo_scheduler demo_one_shot))).
     \<not> snd (snd (snd (execute (\<lambda>s. s) demo_exec_env (la_job l) (la_trigger l) (\<lambda>n. 3 * second) ''occ_1'' [])))"
proof -
  obtain l where l: "l \<in> set (snd (on_tick (\<lambda>s. s) demo_cron_lib (2 * second) (demo_scheduler demo_one_shot)))"
    "la_job l = advance_job demo_cron_lib (2 * second) demo_one_shot"
    using demo_one_shot_launch by blast
  have "\<exists>err. execute (\<lambda>s. s) demo_exec_env (la_job l) (la_trigger l) (\<lambda>n. 3 * second) ''occ_1'' [] =
      ([], \<lparr>er_session = [], er_occurrence = [], er_execution = [], er_mode = DmEmpty, er_duplicate = False\<rparr>,
       Some err, False) \<and> \<not> is_temporary_error (Some err)"
    by (rule one_shot_never_starts [OF l(1), where t = second])
      (simp_all add: l(2) demo_one_shot_def demo_cron_job_def demo_cron_lib_def advance_job_def next_run_def next_run_at_def)
  with l(1) show ?thesis by (intro bexI [of _ l]) auto
qed

lemma demo_every_launch: "\<exists>l. l \<in> set (snd (on_tick (\<lambda>s. s) demo_cron_lib (2 * second) (demo_scheduler demo_cron_job))) \<and>
    la_job l = advance_job demo_cron_lib (2 * second) demo_cron_job"
  by (simp add: on_tick_def demo_scheduler_def collect_due_def job_due_def demo_cron_job_def
      new_scheduler_def unix_milli_def tick_job_def Let_def advance_job_def next_run_def next_run_every_def int64_def
      try_acquire_slot_def merge_job_state_def persist_state_def)

theorem tick_key_is_not_the_due_key_witness:
  "\<exists>l \<in> set (snd (on_tick (\<lambda>s. s) demo_cron_lib (2 * second) (demo_scheduler demo_cron_job))).
     trigger_key (la_trigger l) \<noteq> trigger_key (scheduled_trigger_for (\<lambda>s. s) demo_cron_job)"
proof -
  let ?r = "on_tick (\<lambda>s. s) demo_cron_lib (2 * second) (demo_scheduler demo_cron_job)"
  obtain l where l: "l \<in> set (snd ?r)" "la_job l = advance_job demo_cron_lib (2 * second) demo_cron_job"
    using demo_every_launch by blast
  have "trigger_key (la_trigger l) \<noteq> trigger_key (scheduled_trigger_for (\<lambda>s. s) demo_cron_job)"
    by (rule tick_key_is_not_the_due_key [where s = "demo_scheduler demo_cron_job" and s' = "fst ?r" and
          ls = "snd ?r" and lib = demo_cron_lib and now = "2 * second" and t = "62 * second"])
      (use l in \<open>simp_all add: demo_scheduler_def demo_cron_job_def next_run_def next_run_every_def int64_def
        unix_milli_def\<close>)
  with l(1) show ?thesis by blast
qed

theorem one_delivery_owner_witness:
  "delivery_owners demo_cron_job (route_delivery True True demo_cron_job (fst (snd (demo_run ''occ_1'' [])))) = 1"
proof -
  have "demo_run ''occ_1'' [] = (fst (demo_run ''occ_1'' []), fst (snd (demo_run ''occ_1'' [])),
      fst (snd (snd (demo_run ''occ_1'' []))), True)"
    using split_run [of "demo_run ''occ_1'' []"] demo_run_starts by simp
  from one_delivery_owner [OF this [unfolded demo_run_def], of True True, folded demo_run_def] show ?thesis
    by (simp add: demo_cron_job_def)
qed

theorem finished_job_stays_off_witness:
  "turned_off ''cron_1'' (fst (fold (sched_step (\<lambda>s. s) demo_cron_lib) [SoTick (9 * second), SoLoad (10 * second)]
     (fst (end_job demo_cron_lib True True (3 * second) 2000 (fst (snd (demo_run ''occ_1'' []))) None demo_cron_job
        (demo_scheduler demo_cron_job)), 0)))"
proof -
  let ?r = "end_job demo_cron_lib True True (3 * second) 2000 (fst (snd (demo_run ''occ_1'' []))) None
    demo_cron_job (demo_scheduler demo_cron_job)"
  let ?ops = "[SoTick (9 * second), SoLoad (10 * second)]"
  let ?f = "fold (sched_step (\<lambda>s. s) demo_cron_lib) ?ops (fst ?r, 0)"
  have r: "?r = (fst ?r, snd ?r)" "?f = (fst ?f, snd ?f)" by (rule prod.collapse [symmetric])+
  have d: "None \<noteq> (None :: string option) \<and> st_consecutive (j_state demo_cron_job) + 1 \<ge> 10 \<or>
      (None :: string option) = None \<and> (cs_kind (j_schedule demo_cron_job) = SkAt \<or>
        0 < j_max_runs demo_cron_job \<and> j_max_runs demo_cron_job \<le> st_run_count (j_state demo_cron_job) + 1 \<or>
        j_expires demo_cron_job \<noteq> [] \<and> (\<exists>t. cl_at demo_cron_lib (j_expires demo_cron_job) = Some t \<and> t < 3 * second))"
    by (simp add: demo_cron_job_def)
  have o: "\<forall>op \<in> set ?ops. \<not> redefines (j_id demo_cron_job) op" by simp
  have "turned_off (j_id demo_cron_job) (fst ?f)" by (rule conjunct1 [OF finished_job_stays_off [OF r(1) d o r(2)]])
  moreover have "j_id demo_cron_job = ''cron_1''" by (simp add: demo_cron_job_def)
  ultimately show ?thesis by metis
qed

theorem retry_queue_bounded_witness:
  "length (fold retry_step [RqDeliver 0 (Some ''ok'') (Some (Some ''timeout'')) demo_cron_job] []) \<le> 100"
  using retry_queue_bounded [of "[RqDeliver 0 (Some ''ok'') (Some (Some ''timeout'')) demo_cron_job]"] by (rule conjunct1)

theorem scheduler_inv_witness:
  "sc_running (fst (fold (sched_step (\<lambda>s. s) demo_cron_lib) [SoCreate [] demo_cron_job 0, SoTrigger demo_cron_job ''n'' []]
     (new_scheduler (fold job_step [] []) 2 0 0, 0))) \<le> 3"
proof -
  let ?s = "new_scheduler (fold job_step [] []) 2 0 0"
    and ?ops = "[SoCreate [] demo_cron_job 0, SoTrigger demo_cron_job ''n'' []]"
  have "sc_max_concurrent ?s \<le> 3" "\<forall>op \<in> set ?ops. caps_below 3 op"
    by (simp_all add: new_scheduler_def caps_below_def)
  from scheduler_inv [OF refl this prod.collapse [symmetric]]
  have "sc_running (fst (fold (sched_step (\<lambda>s. s) demo_cron_lib) ?ops (?s, 0))) =
        int (snd (fold (sched_step (\<lambda>s. s) demo_cron_lib) ?ops (?s, 0))) \<and>
      int (snd (fold (sched_step (\<lambda>s. s) demo_cron_lib) ?ops (?s, 0))) \<le> 3"
    by blast
  then show ?thesis by (simp only:)
qed

section \<open>A caught-up job is run again\<close>

text \<open>What a run leaves in the index of an entry that stays enabled.\<close>

lemma merge_entry:
  "x \<in> set (sc_jobs (merge_job_state i st b s)) \<Longrightarrow> j_id x = i \<Longrightarrow> j_state x = st \<and> (b \<longrightarrow> \<not> j_enabled x)"
  by (simp add: merge_job_state_def) (elim imageE; simp split: if_splits)

lemma persist_jobs [simp]:
  "sc_jobs (persist_state i st at s) = sc_jobs s" "sc_jobs (persist_enabled i b at s) = sc_jobs s"
  by (simp_all add: persist_state_def persist_enabled_def)

lemma end_entry:
  assumes "cs_kind (j_schedule j) \<noteq> SkAt" "x \<in> set (sc_jobs (fst (end_job lib effects legacy now started out err j s)))"
    and "j_id x = j_id j" "j_enabled x"
  shows "st_next_run (j_state x) = st_next_run (j_state j) \<and> st_running (j_state x) = 0"
proof (cases err)
  case None
  let ?st = "(j_state j)\<lparr>st_run_id := er_session out, st_running := 0, st_last_run := started,
    st_last_status := JsSuccess, st_consecutive := 0, st_run_count := st_run_count (j_state j) + 1, st_retry := 0\<rparr>"
  obtain s1 b where "fst (end_job lib effects legacy now started out err j s) = merge_job_state (j_id j) ?st b s1"
    using assms(1) None
    by (simp add: end_job_def handle_post_execution_def finish_execution_def apply_lifecycle_def Let_def)
  then have "j_state x = ?st" using merge_entry assms(2,3) by metis
  then show ?thesis by simp
next
  case (Some e)
  let ?st = "(j_state j)\<lparr>st_run_id := er_session out, st_running := 0, st_last_run := started,
    st_last_status := JsFailed, st_consecutive := st_consecutive (j_state j) + 1\<rparr>"
  have "\<exists>s1 b. sc_jobs (fst (end_job lib effects legacy now started out err j s)) = sc_jobs (merge_job_state (j_id j) ?st b s1)"
    using assms(1) Some
    by (auto simp: end_job_def handle_post_execution_def finish_execution_def persist_and_disable_def Let_def)
  then have "j_state x = ?st" using merge_entry assms(2,3) by metis
  then show ?thesis by simp
qed

lemma catch_up_launches:
  assumes "l \<in> set (snd (fold (catch_up_job fp) ijs sl))"
  shows "l \<in> set (snd sl) \<or> (\<exists>ij \<in> set ijs. la_job l = snd ij)"
  using assms
proof (induction ijs arbitrary: sl)
  case (Cons a ijs)
  have "l \<in> set (snd (catch_up_job fp a sl)) \<Longrightarrow> l \<in> set (snd sl) \<or> la_job l = snd a"
    by (auto simp: catch_up_job_def split: prod.splits option.splits)
  then show ?case using Cons.IH [of "catch_up_job fp a sl"] Cons.prems by auto
qed simp

lemma load_launches:
  assumes "l \<in> set (snd (load_from_db fp lib now s))"
  obtains row where "row \<in> set (sc_store s)" "load_one lib now row = (la_job l, LoCatchUp)"
proof -
  let ?js = "map fst (filter (\<lambda>ja. snd ja = LoCatchUp) (map (load_one lib now) (job_list (sc_store s))))"
  obtain ij where ij: "ij \<in> set (enumerate 0 ?js)" "la_job l = snd ij"
    using assms catch_up_launches [of l fp "enumerate 0 ?js"]
    unfolding load_from_db_def Let_def schedule_catch_up_def by fastforce
  obtain n where "ij = (n, la_job l)" using ij(2) by (cases ij) simp
  then have "(n, la_job l) \<in> set (zip [0..<0 + length ?js] ?js)" using ij(1) unfolding enumerate_eq_zip by blast
  then have "la_job l \<in> set ?js" by (rule set_zip_rightD)
  then obtain row where "row \<in> set (job_list (sc_store s))" "snd (load_one lib now row) = LoCatchUp"
    "la_job l = fst (load_one lib now row)" by auto
  moreover have "set (job_list (sc_store s)) = set (sc_store s)" by (simp add: job_list_def sql_select_def)
  ultimately show ?thesis using that by (metis prod.collapse)
qed

lemma load_one_catch_up:
  "load_one lib now row = (j, LoCatchUp) \<Longrightarrow> j_id j = j_id row \<and> st_next_run (j_state j) = st_next_run (j_state row) \<and>
     0 < st_next_run (j_state row) \<and> st_next_run (j_state row) \<le> unix_milli now"
  by (auto simp: load_one_def Let_def split: if_splits sum.splits)

text \<open>
  C26. A job that is caught up at start is fired a second time.  Loading launches the recurring jobs
  that missed their instant and are within their grace period, without advancing that instant; the
  run writes back the instant it was loaded with, however it ends.  So unless the run has turned the
  job off or the job was removed, it is due again, for the same instant, at every later tick.
\<close>

theorem caught_up_job_is_due_again:
  assumes "load_from_db fp lib now0 s = (s0, ls)" "l \<in> set ls" "cs_kind (j_schedule (la_job l)) \<noteq> SkAt"
    and "execute_job hash lib effects legacy ev clk oid (la_job l) (la_trigger l) (s0, db) = ((s', db'), act, started)"
    and "x \<in> set (sc_jobs s')" "j_id x = j_id (la_job l)" "j_enabled x"
  shows "(\<exists>row \<in> set (sc_store s). j_id row = j_id x \<and> st_next_run (j_state row) = st_next_run (j_state x)) \<and>
    (\<forall>now. now0 \<le> now \<longrightarrow> x \<in> set (collect_due now s'))"
proof -
  have "l \<in> set (snd (load_from_db fp lib now0 s))" using assms(1,2) by simp
  then obtain row where row: "row \<in> set (sc_store s)" "load_one lib now0 row = (la_job l, LoCatchUp)"
    by (rule load_launches)
  then have j: "j_id (la_job l) = j_id row" "st_next_run (j_state (la_job l)) = st_next_run (j_state row)"
    "0 < st_next_run (j_state row)" "st_next_run (j_state row) \<le> unix_milli now0"
    using load_one_catch_up [OF row(2)] by simp_all
  obtain s1 j1 where b: "begin_execution (clk 0) (la_job l) s0 = (s1, j1)" by fastforce
  obtain db2 out err started' where e: "execute hash ev j1 (la_trigger l) (\<lambda>n. clk (n + 2)) oid db = (db2, out, err, started')"
    by (metis prod_cases4)
  have j1: "j1 = (la_job l)\<lparr>j_state := (j_state (la_job l))\<lparr>st_running := unix_milli (clk 0)\<rparr>\<rparr>"
    using b by (auto simp: begin_execution_def Let_def)
  have "s' = fst (end_job lib effects legacy (clk 5) (unix_milli (clk 1)) out err j1 s1)"
    using assms(4) b e by (auto simp: execute_job_def split: prod.splits)
  then have x: "st_next_run (j_state x) = st_next_run (j_state (la_job l))" "st_running (j_state x) = 0"
    using end_entry [of j1 x lib effects legacy "clk 5" "unix_milli (clk 1)" out err s1] assms(3,5,6,7) by (simp_all add: j1)
  have "unix_milli now0 \<le> unix_milli now" if "now0 \<le> now" for now
    using that by (simp add: unix_milli_def zdiv_mono1)
  then show ?thesis
    using row(1) j x assms(5,6,7) by (fastforce simp: collect_due_def job_due_def)
qed

definition demo_missed :: cron_job where
  "demo_missed = demo_cron_job\<lparr>j_max_runs := 9, j_state := (j_state demo_cron_job)\<lparr>st_consecutive := 0\<rparr>\<rparr>"

definition demo_started :: "cron_sched \<times> launch list" where
  "demo_started = load_from_db (\<lambda>s. s) demo_cron_lib (9 * second) (new_scheduler [stored_job demo_missed] 1 0 0)"

lemma demo_missed_loaded: "load_one demo_cron_lib (9 * second) (stored_job demo_missed) = (stored_job demo_missed, LoCatchUp)"
  by (simp add: load_one_def stored_job_def demo_missed_def demo_cron_job_def within_grace_period_def schedule_interval_def
      int64_def half_def Let_def unix_milli_def)

lemma demo_started_sel:
  "sc_jobs (fst demo_started) = [stored_job demo_missed]"
  "snd demo_started = [\<lparr>la_job = stored_job demo_missed, la_trigger = scheduled_trigger_for (\<lambda>s. s) (stored_job demo_missed), la_delay = 0\<rparr>]"
  by (simp_all add: demo_started_def load_from_db_def job_list_def sql_select_def new_scheduler_def demo_missed_loaded [simplified]
      load_write_def schedule_catch_up_def Let_def index_put_def catch_up_job_def try_acquire_slot_def enumerate_eq_zip catch_up_delay_def)

lemma demo_still_on:
  "\<exists>x \<in> set (sc_jobs (fst (fst (execute_job hash demo_cron_lib effects legacy ev clk oid (stored_job demo_missed) t
     (fst demo_started, db))))). j_id x = j_id (stored_job demo_missed) \<and> j_enabled x"
proof -
  let ?j = "stored_job demo_missed"
  let ?j1 = "snd (begin_execution (clk 0) ?j (fst demo_started))"
  let ?e = "execute hash ev ?j1 t (\<lambda>n. clk (n + 2)) oid db"
  have j: "cs_kind (j_schedule ?j) = SkEvery" "st_consecutive (j_state ?j) = 0" "j_max_runs ?j = 9"
    "st_run_count (j_state ?j) = 4" "j_expires ?j = []" "j_enabled ?j"
    by (simp_all add: stored_job_def demo_missed_def demo_cron_job_def)
  show ?thesis
    by (cases "fst (snd (snd ?e))")
       (simp_all add: execute_job_def case_prod_unfold begin_execution_def demo_started_sel end_job_def handle_post_execution_def
         finish_execution_def apply_lifecycle_def lifetime_over_def max_consecutive_errors_def merge_job_state_def
         persist_state_def persist_enabled_def Let_def j)
qed

theorem caught_up_job_is_due_again_witness:
  "\<exists>x. x \<in> set (collect_due (10 * second) (fst (fst (execute_job (\<lambda>s. s) demo_cron_lib True True demo_exec_env
       (\<lambda>n. 9 * second) ''occ_1'' (stored_job demo_missed) (scheduled_trigger_for (\<lambda>s. s) (stored_job demo_missed))
       (fst demo_started, [])))))"
proof -
  let ?j = "stored_job demo_missed"
  let ?r = "execute_job (\<lambda>s. s) demo_cron_lib True True demo_exec_env (\<lambda>n. 9 * second) ''occ_1'' ?j
    (scheduled_trigger_for (\<lambda>s. s) ?j) (fst demo_started, [])"
  have r: "?r = ((fst (fst ?r), snd (fst ?r)), fst (snd ?r), snd (snd ?r))" by simp
  have d: "load_from_db (\<lambda>s. s) demo_cron_lib (9 * second) (new_scheduler [?j] 1 0 0) = (fst demo_started, snd demo_started)"
    by (simp add: demo_started_def)
  let ?l = "\<lparr>la_job = ?j, la_trigger = scheduled_trigger_for (\<lambda>s. s) ?j, la_delay = 0\<rparr>"
  have l: "?l \<in> set (snd demo_started)" by (simp add: demo_started_sel)
  obtain x where x: "x \<in> set (sc_jobs (fst (fst ?r)))" "j_id x = j_id ?j" "j_enabled x"
    using demo_still_on by blast
  have k: "cs_kind (j_schedule (la_job ?l)) \<noteq> SkAt" by (simp add: stored_job_def demo_missed_def demo_cron_job_def)
  have "\<forall>now. 9 * second \<le> now \<longrightarrow> x \<in> set (collect_due now (fst (fst ?r)))"
    by (rule conjunct2 [OF caught_up_job_is_due_again [OF d l k, unfolded launch.select_convs, OF r x]])
  then show ?thesis by (intro exI [of _ x]) simp
qed

end
