(* ===== verification/Deliver.thy ===== *)
theory Deliver
  imports EffectProps CronSched
begin

text \<open>
  The gateway's delivery of a finished cron run, \<open>internal/gateway/effect_delivery.go\<close> and
  \<open>effect_recovery.go\<close>: choosing the final answer, planning, claiming, one provider call and
  its classification, and the recovery pass over owed deliveries.  The provider, the fingerprint
  hash, the payload hash and generated ids are arguments.  Every provider call that is made is
  returned in a log.
\<close>

section \<open>Receipts\<close>

datatype send_outcome = ReAccepted | ReRejected | ReUnknown | ReOther string

record send_result =
  re_outcome :: send_outcome
  re_provider :: string
  re_evidence :: string
  re_class :: rejection_class
  re_retry_after :: duration
  re_reason :: string

definition class_text :: "rejection_class \<Rightarrow> string" where
  "class_text c =
     (case c of
        RcNone \<Rightarrow> []
      | RcSafeRetry \<Rightarrow> ''safe_retry''
      | RcPermanent \<Rightarrow> ''permanent''
      | RcUnspecified \<Rightarrow> ''unspecified''
      | RcOther s \<Rightarrow> s)"

section \<open>The final answer of a run\<close>

record turn_record =
  tr_role :: string
  tr_source :: string
  tr_success :: "bool option"
  tr_content :: string

text \<open>\<open>strings.TrimSpace(s) == ""\<close> on the ASCII white space.\<close>

definition white_char :: "char \<Rightarrow> bool" where
  "white_char c \<longleftrightarrow> (let n = (of_char c :: nat) in n = 32 \<or> 9 \<le> n \<and> n \<le> 13)"

definition blank :: "string \<Rightarrow> bool" where
  "blank s \<longleftrightarrow> list_all white_char s"

text \<open>One iteration: the conditions under which a turn is skipped, negated.\<close>

definition publishable :: "turn_record \<Rightarrow> bool" where
  "publishable t \<longleftrightarrow> tr_role t = ''assistant'' \<and> tr_source t \<noteq> ''crash'' \<and> tr_source t \<noteq> ''timeout'' \<and>
     tr_success t \<noteq> Some False \<and> \<not> blank (tr_content t)"

definition select_final_output :: "turn_record list \<Rightarrow> string option" where
  "select_final_output turns = map_option tr_content (find publishable (rev turns))"

section \<open>Targets\<close>

type_synonym platform_key = "string \<Rightarrow> string option"

record delivery_request =
  dr_job :: string
  dr_occurrence :: string
  dr_session :: string
  dr_execution :: string
  dr_platform :: string
  dr_key :: platform_key

text \<open>\<open>deliveryTarget\<close>: \<open>None\<close> is \<open>ErrMissingTarget\<close>.\<close>

definition delivery_target :: "delivery_request \<Rightarrow> (string \<times> string) option" where
  "delivery_target r =
     (if dr_platform r = [] \<or> dr_platform r = ''cron'' then None
      else
        (case required_platform_key (dr_platform r) of
           None \<Rightarrow> None
         | Some k \<Rightarrow>
             if key_value (dr_key r) k = [] then None else Some (dr_platform r, key_value (dr_key r) k)))"

text \<open>\<open>TargetRevision\<close>; \<open>fp\<close> is the hexadecimal form of the first eight bytes of SHA-256.\<close>

definition target_revision :: "(string \<Rightarrow> string) \<Rightarrow> string \<Rightarrow> platform_key \<Rightarrow> string" where
  "target_revision fp platform key =
     fp (platform @ concat (map (\<lambda>k. [CHR 0x00] @ k @ [CHR 0x00] @ key_value key k) (sorted_list_of_set (dom key))))"

section \<open>One provider call\<close>

record deliverer =
  dv_owner :: string
  dv_lease :: duration
  dv_budget :: retry_budget

definition new_deliverer :: "string \<Rightarrow> duration \<Rightarrow> retry_budget \<Rightarrow> deliverer" where
  "new_deliverer owner lease budget =
     \<lparr>dv_owner = owner, dv_lease = (if lease \<le> 0 then 60 * second else lease),
      dv_budget = (if rb_max_attempts budget \<le> 0 then default_retry_budget else budget)\<rparr>"

text \<open>A provider answers with a receipt, or with an error when the request never reached it.\<close>

type_synonym provider = "string \<Rightarrow> platform_key \<Rightarrow> string + send_result"

text \<open>The classification in \<open>sendClaimed\<close>.\<close>

definition completion_for :: "retry_budget \<Rightarrow> effect_claim \<Rightarrow> string + send_result \<Rightarrow> instant \<Rightarrow> effect_completion" where
  "completion_for budget c answer now =
     (let base = \<lparr>co_effect = e_id (ec_effect c), co_attempt = ec_attempt c, co_token = ec_token c,
                  co_version = ec_version c, co_outcome = AtUnknown, co_class = RcNone, co_error = [],
                  co_reason = [], co_provider = [], co_evidence = [], co_retry_after = 0, co_now = now\<rparr>
      in (case answer of
            Inl err \<Rightarrow> base\<lparr>co_outcome := AtNotSent, co_error := ''not_sent'',
                         co_reason := ''delivery could not be attempted''\<rparr>
          | Inr r \<Rightarrow>
              (case re_outcome r of
                 ReAccepted \<Rightarrow> base\<lparr>co_outcome := AtAccepted, co_provider := re_provider r,
                     co_evidence := re_evidence r, co_reason := ''provider accepted the message''\<rparr>
               | ReRejected \<Rightarrow> base\<lparr>co_outcome := AtRejected, co_class := re_class r,
                     co_error := class_text (re_class r), co_reason := re_reason r,
                     co_retry_after := (if re_class r = RcSafeRetry
                       then retry_backoff budget (ec_attempt c) (re_retry_after r) else 0)\<rparr>
               | _ \<Rightarrow> base\<lparr>co_outcome := AtUnknown, co_error := ''unproven'', co_reason := re_reason r\<rparr>)))"

text \<open>A provider call: effect, attempt, content and answer.\<close>

record provider_call =
  pc_effect :: effect_id
  pc_attempt :: int
  pc_content :: string
  pc_answer :: "string + send_result"

datatype deliver_error =
    DeMissingIdentity
  | DeNoSender
  | DeExtract string
  | DeNoOutput
  | DeMissingTarget
  | DePlan effect_error
  | DeClaim effect_error
  | DeRecord effect_error
  | DeUnauthorized target_error
  | DeTargetChanged
  | DePayload effect_error

definition send_claimed ::
    "retry_budget \<Rightarrow> effect_claim \<Rightarrow> string \<Rightarrow> platform_key \<Rightarrow> provider \<Rightarrow> instant \<Rightarrow> effect_db \<Rightarrow>
       effect_db \<times> provider_call \<times> deliver_error option" where
  "send_claimed budget c content key sender now db =
     (let answer = sender content key
      in (case complete_send (completion_for budget c answer now) db of
            (db', err) \<Rightarrow>
              (db', \<lparr>pc_effect = e_id (ec_effect c), pc_attempt = ec_attempt c, pc_content = content,
                     pc_answer = answer\<rparr>, map_option DeRecord err)))"

section \<open>First delivery\<close>

definition request_plan :: "(string \<Rightarrow> string) \<Rightarrow> delivery_request \<Rightarrow> string \<Rightarrow> string \<times> string \<Rightarrow> delivery_plan" where
  "request_plan fp r content target =
     \<lparr>dp_occurrence = dr_occurrence r, dp_ordinal = 0,
      dp_target_revision = target_revision fp (dr_platform r) (dr_key r), dp_session = dr_session r,
      dp_execution = dr_execution r, dp_run = [], dp_content = content, dp_target_kind = fst target,
      dp_target_ref = snd target\<rparr>"

text \<open>
  \<open>DeliverEffect\<close>.  \<open>senders\<close> finds the receipt-capable adapter of a platform, \<open>extract\<close> the
  final answer; \<open>clk\<close> are the readings of the clock and \<open>eid\<close>, \<open>pid\<close>, \<open>aid\<close>, \<open>tok\<close> the
  generated ids and lease token.
\<close>

definition deliver_effect ::
    "deliverer \<Rightarrow> (string \<Rightarrow> string) \<Rightarrow> (string \<Rightarrow> string) \<Rightarrow> planner_config \<Rightarrow> (string \<Rightarrow> provider option) \<Rightarrow>
       (string \<Rightarrow> string \<Rightarrow> string + string) \<Rightarrow> (nat \<Rightarrow> instant) \<Rightarrow> string \<Rightarrow> string \<Rightarrow> string \<Rightarrow> string \<Rightarrow>
       delivery_request \<Rightarrow> effect_db \<Rightarrow> effect_db \<times> provider_call list \<times> deliver_error option" where
  "deliver_effect d fp sha cfg senders extract clk eid pid aid tok r db =
     (if blank (dr_occurrence r) \<or> blank (dr_execution r) then (db, [], Some DeMissingIdentity)
      else
        (case senders (dr_platform r) of
           None \<Rightarrow> (db, [], Some DeNoSender)
         | Some sender \<Rightarrow>
             (case extract (dr_session r) (dr_execution r) of
                Inl err \<Rightarrow> (db, [], Some (DeExtract err))
              | Inr content \<Rightarrow>
                  if blank content then (db, [], Some DeNoOutput)
                  else
                    (case delivery_target r of
                       None \<Rightarrow> (db, [], Some DeMissingTarget)
                     | Some target \<Rightarrow>
                         (case plan_once sha cfg (request_plan fp r content target) (clk 0) eid pid db of
                            (db1, Inl err) \<Rightarrow> (db1, [], Some (DePlan err))
                          | (db1, Inr (e, created)) \<Rightarrow>
                              if \<not> created \<and> e_status e \<noteq> EfPlanned then (db1, [], None)
                              else
                                (case claim_send (e_id e) (dv_owner d) (clk 1 + dv_lease d) (e_attempt e)
                                        (clk 1) aid tok db1 of
                                   (db2, Inl err) \<Rightarrow>
                                     (db2, [], if err = EErrLeaseLost then None else Some (DeClaim err))
                                 | (db2, Inr c) \<Rightarrow>
                                     (case send_claimed (dv_budget d) c content (dr_key r) sender (clk 2) db2 of
                                        (db3, call, err) \<Rightarrow> (db3, [call], err))))))))"

section \<open>Recovery\<close>

text \<open>The claim of \<open>recoverOne\<close>; \<open>None\<close> outside: the effect is decided.\<close>

definition recover_claim ::
    "deliverer \<Rightarrow> effect_row \<Rightarrow> instant \<Rightarrow> string \<Rightarrow> string \<Rightarrow> effect_db \<Rightarrow>
       (effect_db \<times> (effect_error + effect_claim)) option" where
  "recover_claim d e now aid tok db =
     (if e_status e = EfPlanned
      then Some (claim_send (e_id e) (dv_owner d) (now + dv_lease d) (e_attempt e) now aid tok db)
      else if e_status e = EfStarted
      then Some (claim_retry (e_id e) (dv_owner d) (now + dv_lease d) (e_attempt e)
                   (rb_max_attempts (dv_budget d)) now aid tok db)
      else None)"

text \<open>\<open>recoverOne\<close>: the flag tells whether a send was made.\<close>

definition recover_one ::
    "deliverer \<Rightarrow> (string \<Rightarrow> string) \<Rightarrow> (string \<Rightarrow> provider option) \<Rightarrow>
       (string \<Rightarrow> target_error + string \<times> platform_key) \<Rightarrow> (nat \<Rightarrow> instant) \<Rightarrow> string \<Rightarrow> string \<Rightarrow> effect_row \<Rightarrow>
       effect_db \<Rightarrow> effect_db \<times> provider_call list \<times> bool \<times> deliver_error option" where
  "recover_one d fp senders resolve clk aid tok e db =
     (case resolve (e_occurrence e) of
        Inl err \<Rightarrow> (db, [], False, Some (DeUnauthorized err))
      | Inr (platform, key) \<Rightarrow>
          if target_revision fp platform key \<noteq> e_target_revision e
          then (db, [], False, Some DeTargetChanged)
          else
            (case senders platform of
               None \<Rightarrow> (db, [], False, Some DeNoSender)
             | Some sender \<Rightarrow>
                 (case get_payload (e_payload e) db of
                    Inl err \<Rightarrow> (db, [], False, Some (DePayload err))
                  | Inr p \<Rightarrow>
                      (case recover_claim d e (clk 0) aid tok db of
                         None \<Rightarrow> (db, [], False, None)
                       | Some (db1, Inl err) \<Rightarrow>
                           (db1, [], False,
                            if err = EErrLeaseLost \<or> err = EErrNotClaimable then None else Some (DeClaim err))
                       | Some (db1, Inr c) \<Rightarrow>
                           (case send_claimed (dv_budget d) c (d_content p) key sender (clk 1) db1 of
                              (db2, call, None) \<Rightarrow> (db2, [call], True, None)
                            | (db2, call, Some err) \<Rightarrow> (db2, [call], False, Some err))))))"

record recovery_report =
  rr_expired :: int
  rr_sent :: int
  rr_deferred :: int
  rr_skipped :: int

text \<open>
  One item of the loop; the clock, the attempt id and the token of item \<open>n\<close> are functions of
  \<open>n\<close>.
\<close>

definition recover_item ::
    "(nat \<Rightarrow> effect_row \<Rightarrow> effect_db \<Rightarrow> effect_db \<times> provider_call list \<times> bool \<times> deliver_error option) \<Rightarrow>
       nat \<times> effect_row \<Rightarrow> effect_db \<times> provider_call list \<times> recovery_report \<Rightarrow>
       effect_db \<times> provider_call list \<times> recovery_report" where
  "recover_item one ne s =
     (case s of (db, calls, rep) \<Rightarrow>
        (case one (fst ne) (snd ne) db of
           (db', cs, sent, err) \<Rightarrow>
             (db', calls @ cs,
              if err \<noteq> None then rep\<lparr>rr_deferred := rr_deferred rep + 1\<rparr>
              else if sent then rep\<lparr>rr_sent := rr_sent rep + 1\<rparr>
              else rep\<lparr>rr_skipped := rr_skipped rep + 1\<rparr>)))"

text \<open>\<open>RecoverOnce\<close>; the context ends before item \<open>stop\<close>.\<close>

definition recover_once ::
    "deliverer \<Rightarrow> (string \<Rightarrow> string) \<Rightarrow> (string \<Rightarrow> provider option) \<Rightarrow>
       (string \<Rightarrow> target_error + string \<times> platform_key) \<Rightarrow> instant \<Rightarrow> (nat \<Rightarrow> nat \<Rightarrow> instant) \<Rightarrow>
       (nat \<Rightarrow> string) \<Rightarrow> (nat \<Rightarrow> string) \<Rightarrow> int \<Rightarrow> nat \<Rightarrow> effect_db \<Rightarrow>
       effect_db \<times> provider_call list \<times> recovery_report" where
  "recover_once d fp senders resolve now clk aid tok limit stop db =
     (case expire_leases now limit db of
        (db1, expired) \<Rightarrow>
          let work = list_recoverable limit db1 @
                list_due_retries now (rb_max_attempts (dv_budget d)) limit db1
          in fold (recover_item (\<lambda>n. recover_one d fp senders resolve (clk n) (aid n) (tok n)))
               (take stop (enumerate 0 work))
               (db1, [], \<lparr>rr_expired = int (length expired), rr_sent = 0, rr_deferred = 0, rr_skipped = 0\<rparr>))"

end
