(* ===== verification/DeliverProps.thy ===== *)
theory DeliverProps
  imports Deliver
begin

text \<open>
  Deliveries end to end: the deliverer of the gateway is a client of the protocol claim, call,
  record, and over any interleaving of its clients the provider is called again for the same
  delivery only after a rejection that is safe to repeat.
\<close>

section \<open>Deliveries as an interleaving of transactions and provider calls\<close>

text \<open>
  Any number of gateway instances deliver and recover at the same time.  Each of them claims, calls
  the provider and records the outcome in that order; between two of these steps any other
  instance may act, leases may expire, operators may decide, and an instance may stop for ever.
  The state holds the claims not yet used for a call, the outcomes not yet recorded, and the calls
  made so far.
\<close>

record deliver_state =
  dm_db :: effect_db
  dm_held :: "effect_claim list"
  dm_owed :: "effect_completion list"
  dm_calls :: "provider_call list"

definition deliver_start :: deliver_state where
  "deliver_start = \<lparr>dm_db = empty_ledger, dm_held = [], dm_owed = [], dm_calls = []\<rparr>"

datatype deliver_op =
    DvLedger effect_op
  | DvClaimSend effect_id string instant int instant string string
  | DvClaimRetry effect_id string instant int int instant string string
  | DvCall nat retry_budget string "string + send_result" instant
  | DvRecord nat

text \<open>The ledger operations other than claims and completions.\<close>

definition clerical :: "effect_op \<Rightarrow> bool" where
  "clerical op \<longleftrightarrow>
     (case op of OpClaimSend _ _ _ _ _ _ _ \<Rightarrow> False | OpClaimRetry _ _ _ _ _ _ _ _ \<Rightarrow> False
      | OpComplete _ \<Rightarrow> False | _ \<Rightarrow> True)"

definition hold :: "deliver_state \<Rightarrow> effect_db \<times> (effect_error + effect_claim) \<Rightarrow> deliver_state" where
  "hold s r = (case r of
      (db, Inl err) \<Rightarrow> s\<lparr>dm_db := db\<rparr>
    | (db, Inr c) \<Rightarrow> s\<lparr>dm_db := db, dm_held := dm_held s @ [c]\<rparr>)"

definition without :: "nat \<Rightarrow> 'a list \<Rightarrow> 'a list" where
  "without n xs = take n xs @ drop (Suc n) xs"

definition call_of :: "effect_claim \<Rightarrow> string \<Rightarrow> string + send_result \<Rightarrow> provider_call" where
  "call_of c content answer = \<lparr>pc_effect = e_id (ec_effect c), pc_attempt = ec_attempt c,
     pc_content = content, pc_answer = answer\<rparr>"

primrec deliver_step :: "(string \<Rightarrow> string) \<Rightarrow> deliver_op \<Rightarrow> deliver_state \<Rightarrow> deliver_state" where
  "deliver_step sha (DvLedger op) s = (if clerical op then s\<lparr>dm_db := effect_step sha op (dm_db s)\<rparr> else s)"
| "deliver_step sha (DvClaimSend i owner lu n now aid tok) s =
     hold s (claim_send i owner lu n now aid tok (dm_db s))"
| "deliver_step sha (DvClaimRetry i owner lu n m now aid tok) s =
     hold s (claim_retry i owner lu n m now aid tok (dm_db s))"
| "deliver_step sha (DvCall n budget content answer now) s =
     (if n < length (dm_held s)
      then s\<lparr>dm_held := without n (dm_held s),
             dm_owed := dm_owed s @ [completion_for budget (dm_held s ! n) answer now],
             dm_calls := dm_calls s @ [call_of (dm_held s ! n) content answer]\<rparr>
      else s)"
| "deliver_step sha (DvRecord n) s =
     (if n < length (dm_owed s)
      then s\<lparr>dm_db := fst (complete_send (dm_owed s ! n) (dm_db s)), dm_owed := without n (dm_owed s)\<rparr>
      else s)"

section \<open>The deliverer is a client of that machine\<close>











section \<open>At most one call that is not a safe rejection\<close>

definition safe_answer :: "string + send_result \<Rightarrow> bool" where
  "safe_answer x \<longleftrightarrow> (\<exists>r. x = Inr r \<and> re_outcome r = ReRejected \<and> re_class r = RcSafeRetry)"

definition safe_completion :: "effect_completion \<Rightarrow> bool" where
  "safe_completion c \<longleftrightarrow> co_outcome c = AtRejected \<and> co_class c = RcSafeRetry"

definition claim_pair :: "effect_claim \<Rightarrow> effect_id \<times> int" where
  "claim_pair c = (e_id (ec_effect c), ec_attempt c)"

definition call_pair :: "provider_call \<Rightarrow> effect_id \<times> int" where
  "call_pair p = (pc_effect p, pc_attempt p)"

definition completion_pair :: "effect_completion \<Rightarrow> effect_id \<times> int" where
  "completion_pair c = (co_effect c, co_attempt c)"

lemma completion_for_sel [simp]:
  "completion_pair (completion_for budget c x now) = claim_pair c"
  "safe_completion (completion_for budget c x now) = safe_answer x"
  by (auto simp: completion_for_def completion_pair_def claim_pair_def safe_completion_def safe_answer_def Let_def
      split: sum.splits send_outcome.splits)

lemma call_of_sel [simp]:
  "call_pair (call_of c content x) = claim_pair c" "pc_answer (call_of c content x) = x"
  "pc_effect (call_of c content x) = fst (claim_pair c)"
  by (simp_all add: call_of_def call_pair_def claim_pair_def)

text \<open>An attempt is guarded while it is in flight or its effect can never be sent again.\<close>

definition attempt_open :: "effect_id \<times> int \<Rightarrow> effect_db \<Rightarrow> bool" where
  "attempt_open p db \<longleftrightarrow> (\<exists>a \<in> set (t_attempts db). a_effect a = fst p \<and> a_attempt a = snd p \<and> in_flight a)"

definition effect_spent :: "effect_id \<Rightarrow> effect_db \<Rightarrow> bool" where
  "effect_spent i db \<longleftrightarrow> (\<exists>e \<in> set (t_effects db). e_id e = i \<and> spent (attempts_of i db) e)"

definition guarded :: "effect_id \<times> int \<Rightarrow> effect_db \<Rightarrow> bool" where
  "guarded p db \<longleftrightarrow> attempt_open p db \<or> effect_spent (fst p) db"

lemma unsafe_row_spent:
  assumes "ledger_inv db" "a \<in> set (t_attempts db)" "\<not> in_flight a" "\<not> safe_rejection a"
  shows "effect_spent (a_effect a) db"
proof -
  obtain e where e: "e \<in> set (t_effects db)" "e_id e = a_effect a" "a \<in> attempts_of (e_id e) db"
    using attempt_effect [OF assms(1,2)] .
  with assms(3,4) show ?thesis by (auto simp: effect_spent_def spent_def)
qed

lemma effect_spent_le:
  assumes "ledger_inv db" "ledger_le db db'" "effect_spent i db"
  shows "effect_spent i db'"
proof -
  obtain e where e: "e \<in> set (t_effects db)" "e_id e = i" "spent (attempts_of (e_id e) db) e"
    using assms(3) by (auto simp: effect_spent_def)
  then show ?thesis using spent_le [OF assms(1,2) e(1,3)] by (metis effect_spent_def)
qed

lemma effect_spent_step: "effect_inv sha db \<Longrightarrow> effect_spent i db \<Longrightarrow> effect_spent i (effect_step sha op db)"
  using effect_step_inv [of sha db op] effect_spent_le by (auto simp: effect_inv_def)

text \<open>Expiry closes a lapsed attempt as unknown; no other clerical operation touches an open one.\<close>

lemma expire_rows:
  "a \<in> set (t_attempts db) \<Longrightarrow> a \<in> set (t_attempts (fold (expire_one at) es db)) \<or>
     expire_attempt at a \<in> set (t_attempts (fold (expire_one at) es db))"
proof (induction es arbitrary: db a)
  case (Cons e es)
  let ?db = "expire_one at e db"
  have "t_attempts ?db = sql_update (\<lambda>a. a_effect a = e_id e \<and> a_attempt a = e_attempt e \<and> in_flight a)
      (expire_attempt at) (t_attempts db)"
    by (simp add: expire_one_def update_effect_def update_attempt_def)
  then have "a \<in> set (t_attempts ?db) \<or> expire_attempt at a \<in> set (t_attempts ?db)"
    using Cons.prems by (auto simp: set_sql_update)
  moreover have "expire_attempt at (expire_attempt at a) = expire_attempt at a"
    by (simp add: expire_attempt_def)
  ultimately show ?case using Cons.IH [of a ?db] Cons.IH [of "expire_attempt at a" ?db] by auto
qed simp

lemma clerical_rows:
  assumes "ledger_inv db" "clerical op" "a \<in> set (t_attempts db)" "in_flight a"
  shows "a \<in> set (t_attempts (effect_step sha op db)) \<or>
    (\<exists>at. expire_attempt at a \<in> set (t_attempts (effect_step sha op db)))"
proof (cases op)
  case (OpExpire now limit)
  then show ?thesis using assms(3) expire_rows [OF assms(3), of "unix_milli now"]
    by (auto simp: expire_leases_def Let_def)
next
  case (OpPlan cfg p now eid pid)
  have "t_attempts (fst (plan_once sha cfg p now eid pid db)) = t_attempts db"
    by (auto simp: plan_once_def plan_with_payload_def settle_payload_def Let_def split: option.splits sum.splits)
  then show ?thesis using OpPlan assms(3) by simp
next
  case (OpAttemptGc now limit)
  have "a_id a \<notin> a_id ` {b \<in> set (t_attempts db). attempts_released (unix_milli now) db b}"
  proof
    assume "a_id a \<in> a_id ` {b \<in> set (t_attempts db). attempts_released (unix_milli now) db b}"
    then obtain b where b: "b \<in> set (t_attempts db)" "attempts_released (unix_milli now) db b" "a_id a = a_id b"
      by blast
    have "inj_on a_id (set (t_attempts db))"
      using assms(1) by (simp add: ledger_inv_def unique_index_def distinct_map)
    then have "a = b" using inj_onD b(1,3) assms(3) by metis
    with b(2) assms(4) show False by (simp add: attempts_released_def)
  qed
  then have "a_id a \<notin> set (map a_id (take (nat limit)
      (sql_select (attempts_released (unix_milli now) db) attempt_gc_key (t_attempts db))))"
    by (auto dest!: in_set_takeD)
  then show ?thesis using OpAttemptGc assms(3) by (auto simp: delete_settled_attempts_def Let_def)
qed (use assms(2,3) in \<open>auto simp: clerical_def apply_operator_action_def reconcile_unknown_def fence_effect_def
    delete_expired_payloads_def update_effect_def Let_def split: option.splits sum.splits\<close>)

lemma guarded_clerical:
  assumes "effect_inv sha db" "clerical op" "guarded p db"
  shows "guarded p (effect_step sha op db)"
proof -
  let ?db = "effect_step sha op db"
  have inv: "ledger_inv db" "ledger_inv ?db"
    using assms(1) effect_step_inv [OF assms(1), of op] by (auto simp: effect_inv_def)
  show ?thesis
  proof (cases "effect_spent (fst p) db")
    case False
    then obtain a where a: "a \<in> set (t_attempts db)" "a_effect a = fst p" "a_attempt a = snd p" "in_flight a"
      using assms(3) by (auto simp: guarded_def attempt_open_def)
    from clerical_rows [OF inv(1) assms(2) a(1,4), of sha] show ?thesis
    proof
      assume "a \<in> set (t_attempts ?db)"
      with a show ?thesis by (auto simp: guarded_def attempt_open_def)
    next
      assume "\<exists>at. expire_attempt at a \<in> set (t_attempts ?db)"
      then obtain at where "expire_attempt at a \<in> set (t_attempts ?db)" by blast
      from unsafe_row_spent [OF inv(2) this] a(2) show ?thesis by (simp add: guarded_def)
    qed
  qed (simp add: guarded_def effect_spent_step [OF assms(1)])
qed

text \<open>A guarded effect refuses every claim.\<close>

lemma open_attempt_closes:
  assumes "ledger_inv db" "guarded p db"
  shows "claim_send (fst p) owner lu n now aid tok db \<noteq> (db', Inr c)"
    "claim_retry (fst p) owner lu n m now aid tok db \<noteq> (db', Inr c)"
proof -
  have no: "e_status e \<noteq> EfPlanned \<and> e_next e = None"
    if o: "attempt_open p db" "e \<in> set (t_effects db)" "e_id e = fst p" for e
  proof -
    have ok: "effect_ok (attempts_of (e_id e) db) e" using assms(1) o(2) by (simp add: ledger_inv_def)
    obtain a where "a \<in> attempts_of (e_id e) db" "in_flight a"
      using o(1,3) by (auto simp: attempt_open_def attempts_of_def)
    then have l: "e_lease e \<noteq> None" using effect_okD(3) [OF ok] by blast
    then have "e_status e = EfStarted" using effect_okD(6) [OF ok] by simp
    with l effect_okD(9) [OF ok] show ?thesis by auto
  qed
  have sp: "claims_refused (fst p) db" if "effect_spent (fst p) db"
  proof -
    obtain e where e: "e \<in> set (t_effects db)" "e_id e = fst p" "spent (attempts_of (e_id e) db) e"
      using \<open>effect_spent (fst p) db\<close> by (auto simp: effect_spent_def)
    show ?thesis
      using closed_refused [OF assms(1) e(1) spent_closed [OF ledger_effect_ok [OF assms(1) e(1)] e(3)]] e(2) by simp
  qed
  show "claim_send (fst p) owner lu n now aid tok db \<noteq> (db', Inr c)"
  proof
    assume d: "claim_send (fst p) owner lu n now aid tok db = (db', Inr c)"
    have "\<not> effect_spent (fst p) db"
    proof
      assume "effect_spent (fst p) db"
      from claims_refusedD(1) [OF sp [OF this]] d show False by (metis Inl_Inr_False prod.inject)
    qed
    with assms(2) have "attempt_open p db" by (simp add: guarded_def)
    note no = no [OF this]
    from assms(1) d show False by (cases rule: claim_send_cases) (use no in auto)
  qed
  show "claim_retry (fst p) owner lu n m now aid tok db \<noteq> (db', Inr c)"
  proof
    assume d: "claim_retry (fst p) owner lu n m now aid tok db = (db', Inr c)"
    have "\<not> effect_spent (fst p) db"
    proof
      assume "effect_spent (fst p) db"
      from claims_refusedD(2) [OF sp [OF this]] d show False by (metis Inl_Inr_False prod.inject)
    qed
    with assms(2) have "attempt_open p db" by (simp add: guarded_def)
    note no = no [OF this]
    from assms(1) d show False by (cases rule: claim_retry_cases) (use no in auto)
  qed
qed

text \<open>An attempt that was made stays on record while its effect can be sent.\<close>

definition on_record :: "effect_id \<times> int \<Rightarrow> effect_db \<Rightarrow> bool" where
  "on_record p db \<longleftrightarrow> (\<exists>a \<in> set (t_attempts db). a_effect a = fst p \<and> a_attempt a = snd p) \<or> effect_spent (fst p) db"

lemma guarded_on_record: "guarded p db \<Longrightarrow> on_record p db"
  by (auto simp: guarded_def on_record_def attempt_open_def)

lemma emove_pairs:
  assumes "emove (A, e) (A', e')" "a_attempt a = k" "a \<in> A"
  shows "settled_status (e_status e') \<or> (\<exists>a' \<in> A'. a_attempt a' = k)"
  using assms(1) by (cases rule: emoveE) (use assms(2,3) in auto)

lemma emoves_pairs:
  assumes "emove\<^sup>*\<^sup>* (A, e) (A', e')" "\<exists>a \<in> A. a_attempt a = k"
  shows "settled_status (e_status e') \<or> (\<exists>a' \<in> A'. a_attempt a' = k)"
  using assms
proof (induction rule: rtranclp_induct2)
  case (step A1 e1 A2 e2)
  then show ?case using emove_pairs [of A1 e1 A2 e2] emove_keeps(6) [of A1 e1 A2 e2] by blast
qed simp

lemma on_record_le:
  assumes "ledger_inv db" "ledger_le db db'" "on_record p db"
  shows "on_record p db'"
proof (cases "effect_spent (fst p) db")
  case True
  then show ?thesis using effect_spent_le [OF assms(1,2)] by (simp add: on_record_def)
next
  case False
  then obtain a where a: "a \<in> set (t_attempts db)" "a_effect a = fst p" "a_attempt a = snd p"
    using assms(3) by (auto simp: on_record_def)
  obtain e where e: "e \<in> set (t_effects db)" "e_id e = a_effect a" "a \<in> attempts_of (e_id e) db"
    using attempt_effect [OF assms(1) a(1)] .
  obtain e' where e': "e' \<in> set (t_effects db')"
    "emove\<^sup>*\<^sup>* (attempts_of (e_id e) db, e) (attempts_of (e_id e) db', e')"
    using assms(2) e(1) by (auto simp: ledger_le_def)
  have "e_id e' = e_id e" using emoves_keep [OF e'(2)] by simp
  with emoves_pairs [OF e'(2), of "snd p"] e a e'(1) show ?thesis
    by (auto simp: on_record_def effect_spent_def spent_def attempts_of_def)
qed

lemma on_record_step: "effect_inv sha db \<Longrightarrow> on_record p db \<Longrightarrow> on_record p (effect_step sha op db)"
  using effect_step_inv [of sha db op] on_record_le [of db "effect_step sha op db" p] by (auto simp: effect_inv_def)

text \<open>What a successful claim gives.\<close>

lemma claim_rows:
  "set (t_attempts db) \<subseteq> set (t_attempts (fst (claim_send i owner lu n now aid tok db)))"
  "set (t_attempts db) \<subseteq> set (t_attempts (fst (claim_retry i owner lu n m now aid tok db)))"
  by (auto simp: claim_send_def claim_retry_def open_claim_def open_attempt_def update_effect_def
      split: option.splits)

lemma claimed_effect:
  "claim_send i owner lu n now aid tok db = (db', Inr c) \<Longrightarrow> e_id (ec_effect c) = i"
  "claim_retry i owner lu n m now aid tok db = (db', Inr c) \<Longrightarrow> e_id (ec_effect c) = i"
  by (auto simp: claim_send_def claim_retry_def open_claim_def update_effect_def effect_by_id_def
      split: option.splits if_splits dest!: sql_row_Some)

definition fresh_claim :: "effect_claim \<Rightarrow> effect_db \<Rightarrow> effect_db \<Rightarrow> bool" where
  "fresh_claim c db db' \<longleftrightarrow> attempt_open (claim_pair c) db' \<and> \<not> on_record (claim_pair c) db \<and>
     (\<forall>k. \<not> guarded (e_id (ec_effect c), k) db) \<and> set (t_attempts db) \<subseteq> set (t_attempts db')"

lemma fresh_claimI:
  assumes "ledger_inv db" "ledger_move db db'" "\<And>k. \<not> guarded (i, k) db"
    and "e_id (ec_effect c) = i" "set (t_attempts db) \<subseteq> set (t_attempts db')"
    and "a \<notin> set (t_attempts db)" "attempts_of i db' = insert a (attempts_of i db)"
    and "in_flight a" "a_attempt a = ec_attempt c"
  shows "fresh_claim c db db'"
proof -
  have a: "a \<in> set (t_attempts db')" "a_effect a = i"
    using assms(7) by (auto simp: attempts_of_def)
  have inv': "ledger_inv db'" by (rule ledger_move_inv [OF assms(1,2)])
  have "\<not> on_record (claim_pair c) db"
  proof
    assume "on_record (claim_pair c) db"
    then obtain b where "b \<in> set (t_attempts db)" "a_effect b = i" "a_attempt b = ec_attempt c"
      using assms(3) [of "ec_attempt c"] assms(4) by (auto simp: on_record_def guarded_def claim_pair_def)
    then have "b = a" using attempt_pair_unique [OF inv' _ a(1)] assms(5,9) a(2) by auto
    with \<open>b \<in> set (t_attempts db)\<close> assms(6) show False by simp
  qed
  with a assms(3,4,5,8,9) show ?thesis by (auto simp: fresh_claim_def attempt_open_def claim_pair_def)
qed

lemma claims_fresh:
  assumes "ledger_inv db"
  shows "claim_send i owner lu n now aid tok db = (db', Inr c) \<Longrightarrow> fresh_claim c db db'"
    and "claim_retry i owner lu n m now aid tok db = (db', Inr c) \<Longrightarrow> fresh_claim c db db'"
proof -
  assume d: "claim_send i owner lu n now aid tok db = (db', Inr c)"
  have g: "\<not> guarded (i, k) db" for k
    using open_attempt_closes(1) [OF assms, of "(i, k)" owner lu n now aid tok db' c] d by auto
  from assms d show "fresh_claim c db db'"
  proof (cases rule: claim_send_cases)
    case (opened e a)
    with claim_rows(1) [of db i owner lu n now aid tok] d show ?thesis
      by (intro fresh_claimI [OF assms opened(13) g claimed_effect(1) [OF d] _ opened(7,8)])
        (auto simp: fresh_attempt_def)
  qed simp
next
  assume d: "claim_retry i owner lu n m now aid tok db = (db', Inr c)"
  have g: "\<not> guarded (i, k) db" for k
    using open_attempt_closes(2) [OF assms, of "(i, k)" owner lu n m now aid tok db' c] d by auto
  from assms d show "fresh_claim c db db'"
  proof (cases rule: claim_retry_cases)
    case (opened e a)
    with claim_rows(2) [of db i owner lu n m now aid tok] d show ?thesis
      by (intro fresh_claimI [OF assms opened(15) g claimed_effect(2) [OF d] _ opened(9,10)])
        (auto simp: fresh_attempt_def)
  qed simp
qed

text \<open>What recording an outcome does to the open attempts.\<close>

lemma complete_rows:
  assumes "b \<in> set (t_attempts db)"
  shows "b \<in> set (t_attempts (fst (complete_send c db))) \<or>
    completion_pair c = (a_effect b, a_attempt b) \<and> finish_attempt c b \<in> set (t_attempts (fst (complete_send c db)))"
  using assms
  by (auto simp: complete_send_def update_attempt_def update_effect_def completion_pair_def set_sql_update
      split: sum.splits)

lemma guarded_complete:
  assumes "effect_inv sha db" "guarded p db"
  shows "guarded p (fst (complete_send c db)) \<or> completion_pair c = p \<and> safe_completion c"
proof (cases "effect_spent (fst p) db")
  case True
  then show ?thesis using effect_spent_step [OF assms(1), of "fst p" "OpComplete c"] by (simp add: guarded_def)
next
  case False
  let ?db = "fst (complete_send c db)"
  have inv: "ledger_inv ?db" using effect_step_inv [OF assms(1), of "OpComplete c"] by (simp add: effect_inv_def)
  obtain a where a: "a \<in> set (t_attempts db)" "a_effect a = fst p" "a_attempt a = snd p" "in_flight a"
    using False assms(2) by (auto simp: guarded_def attempt_open_def)
  from complete_rows [OF a(1), of c] show ?thesis
  proof
    assume "a \<in> set (t_attempts ?db)"
    with a show ?thesis by (auto simp: guarded_def attempt_open_def)
  next
    assume r: "completion_pair c = (a_effect a, a_attempt a) \<and> finish_attempt c a \<in> set (t_attempts ?db)"
    show ?thesis
    proof (cases "safe_completion c")
      case True
      with r a show ?thesis by (simp add: prod_eq_iff)
    next
      case False
      then have "\<not> safe_rejection (finish_attempt c a)" by (auto simp: safe_completion_def)
      from unsafe_row_spent [OF inv conjunct2 [OF r] finish_attempt_sel(4) this] a(2)
      show ?thesis by (simp add: guarded_def)
    qed
  qed
qed

abbreviation safe_call :: "provider_call \<Rightarrow> bool" where
  "safe_call p \<equiv> safe_answer (pc_answer p)"

text \<open>The invariant of the interleaving.\<close>

definition deliver_inv :: "(string \<Rightarrow> string) \<Rightarrow> deliver_state \<Rightarrow> bool" where
  "deliver_inv sha s \<longleftrightarrow> effect_inv sha (dm_db s) \<and>
     distinct (map claim_pair (dm_held s)) \<and> distinct (map call_pair (dm_calls s)) \<and>
     (\<forall>c \<in> set (dm_held s). \<forall>p \<in> set (dm_calls s). claim_pair c \<noteq> call_pair p) \<and>
     distinct (map (fst \<circ> claim_pair) (dm_held s)) \<and>
     (\<forall>c \<in> set (dm_held s). guarded (claim_pair c) (dm_db s) \<and>
        (\<forall>p \<in> set (dm_calls s). pc_effect p = fst (claim_pair c) \<longrightarrow> safe_call p)) \<and>
     (\<forall>p \<in> set (dm_calls s). on_record (call_pair p) (dm_db s) \<and>
        (safe_call p \<or> guarded (call_pair p) (dm_db s))) \<and>
     (\<forall>o1 \<in> set (dm_owed s). \<exists>p \<in> set (dm_calls s). call_pair p = completion_pair o1 \<and>
        safe_call p = safe_completion o1) \<and>
     sorted_wrt (\<lambda>p q. pc_effect p = pc_effect q \<longrightarrow> safe_call p) (dm_calls s)"

lemma set_without: "set (without n xs) \<subseteq> set xs"
  by (auto simp: without_def dest: in_set_takeD in_set_dropD)

lemma nth_without: "n < length xs \<Longrightarrow> xs = take n xs @ xs ! n # drop (Suc n) xs"
  by (rule id_take_nth_drop)

lemma map_without: "map f (without n xs) = without n (map f xs)"
  by (simp add: without_def take_map drop_map)

lemma distinct_without: "distinct xs \<Longrightarrow> distinct (without n xs)"
  unfolding without_def
  by (auto dest: in_set_takeD in_set_dropD set_take_disj_set_drop_if_distinct [of _ n "Suc n"])

lemma without_other:
  assumes "distinct xs" "n < length xs"
  shows "xs ! n \<notin> set (without n xs)"
proof -
  have "distinct (take n xs @ xs ! n # drop (Suc n) xs)" using assms nth_without [OF assms(2)] by simp
  then show ?thesis by (simp add: without_def)
qed

lemma deliver_invI:
  assumes "effect_inv sha (dm_db s)"
    and "distinct (map claim_pair (dm_held s))" "distinct (map call_pair (dm_calls s))"
    and "\<And>c p. c \<in> set (dm_held s) \<Longrightarrow> p \<in> set (dm_calls s) \<Longrightarrow> claim_pair c \<noteq> call_pair p"
    and "distinct (map (fst \<circ> claim_pair) (dm_held s))"
    and "\<And>c. c \<in> set (dm_held s) \<Longrightarrow> guarded (claim_pair c) (dm_db s)"
    and "\<And>c p. c \<in> set (dm_held s) \<Longrightarrow> p \<in> set (dm_calls s) \<Longrightarrow> pc_effect p = fst (claim_pair c) \<Longrightarrow> safe_call p"
    and "\<And>p. p \<in> set (dm_calls s) \<Longrightarrow> on_record (call_pair p) (dm_db s)"
    and "\<And>p. p \<in> set (dm_calls s) \<Longrightarrow> safe_call p \<or> guarded (call_pair p) (dm_db s)"
    and "\<And>o1. o1 \<in> set (dm_owed s) \<Longrightarrow> \<exists>p \<in> set (dm_calls s). call_pair p = completion_pair o1 \<and>
        safe_call p = safe_completion o1"
    and "sorted_wrt (\<lambda>p q. pc_effect p = pc_effect q \<longrightarrow> safe_call p) (dm_calls s)"
  shows "deliver_inv sha s"
  unfolding deliver_inv_def using assms by (intro conjI ballI impI)

lemma deliver_invD:
  assumes "deliver_inv sha s"
  shows "effect_inv sha (dm_db s)"
    "distinct (map claim_pair (dm_held s))" "distinct (map call_pair (dm_calls s))"
    "c \<in> set (dm_held s) \<Longrightarrow> p \<in> set (dm_calls s) \<Longrightarrow> claim_pair c \<noteq> call_pair p"
    "distinct (map (fst \<circ> claim_pair) (dm_held s))"
    "c \<in> set (dm_held s) \<Longrightarrow> guarded (claim_pair c) (dm_db s)"
    "c \<in> set (dm_held s) \<Longrightarrow> p \<in> set (dm_calls s) \<Longrightarrow> pc_effect p = fst (claim_pair c) \<Longrightarrow> safe_call p"
    "p \<in> set (dm_calls s) \<Longrightarrow> on_record (call_pair p) (dm_db s)"
    "p \<in> set (dm_calls s) \<Longrightarrow> safe_call p \<or> guarded (call_pair p) (dm_db s)"
    "o1 \<in> set (dm_owed s) \<Longrightarrow> \<exists>p \<in> set (dm_calls s). call_pair p = completion_pair o1 \<and>
        safe_call p = safe_completion o1"
    "sorted_wrt (\<lambda>p q. pc_effect p = pc_effect q \<longrightarrow> safe_call p) (dm_calls s)"
  using assms unfolding deliver_inv_def by (elim conjE, blast)+

text \<open>A ledger step that keeps guards and records keeps the invariant.\<close>

lemma deliver_inv_db:
  assumes "deliver_inv sha s" "effect_inv sha db"
    and "\<And>p. guarded p (dm_db s) \<Longrightarrow> guarded p db" "\<And>p. on_record p (dm_db s) \<Longrightarrow> on_record p db"
  shows "deliver_inv sha (s\<lparr>dm_db := db\<rparr>)"
proof -
  note d = deliver_invD [OF assms(1)]
  show ?thesis
  proof (rule deliver_invI, goal_cases)
    case (9 p)
    then show ?case using d(9) [of p] assms(3) [of "call_pair p"] by (simp, blast)
  qed (use assms(2-4) d in simp_all)
qed

lemma deliver_inv_ledger:
  assumes "deliver_inv sha s" "clerical op"
  shows "deliver_inv sha (s\<lparr>dm_db := effect_step sha op (dm_db s)\<rparr>)"
proof -
  note inv = deliver_invD(1) [OF assms(1)]
  show ?thesis
    by (rule deliver_inv_db [OF assms(1)])
      (use effect_step_inv [OF inv, of op] guarded_clerical [OF inv assms(2)] on_record_step [OF inv] in auto)
qed

lemma deliver_inv_claim:
  assumes "deliver_inv sha s" "effect_inv sha db" "ledger_le (dm_db s) db" "fresh_claim c (dm_db s) db"
  shows "deliver_inv sha (s\<lparr>dm_db := db, dm_held := dm_held s @ [c]\<rparr>)"
proof -
  note d = deliver_invD [OF assms(1)]
  note f = assms(4) [unfolded fresh_claim_def]
  have l: "ledger_inv (dm_db s)" using d(1) by (simp add: effect_inv_def)
  have g: "guarded p db" if "guarded p (dm_db s)" for p
    using that f effect_spent_le [OF l assms(3), of "fst p"]
    unfolding guarded_def attempt_open_def by (meson subsetD)
  note r = on_record_le [OF l assms(3)]
  have new: "\<not> guarded (fst (claim_pair c), k) (dm_db s)" for k using f by (simp add: claim_pair_def)
  have held: "fst (claim_pair c') \<noteq> fst (claim_pair c)" if "c' \<in> set (dm_held s)" for c'
  proof
    assume "fst (claim_pair c') = fst (claim_pair c)"
    with d(6) [OF that] new [of "snd (claim_pair c')"] show False by (metis prod.collapse)
  qed
  have calls: "safe_call p" if "p \<in> set (dm_calls s)" "pc_effect p = fst (claim_pair c)" for p
    using new [of "pc_attempt p"] d(9) [OF that(1)] that(2) by (simp add: call_pair_def)
  have pair: "claim_pair c \<noteq> call_pair p" if "p \<in> set (dm_calls s)" for p
    using d(8) [OF that] f by metis
  have gc: "guarded (claim_pair c) db" using f by (simp add: guarded_def)
  show ?thesis
  proof (rule deliver_invI, goal_cases)
    case 2
    then show ?case using d(2) held by fastforce
  next
    case (4 c' p)
    then show ?case using d(4) pair by auto
  next
    case 5
    then show ?case using d(5) held by fastforce
  next
    case (6 c')
    then show ?case using d(6) [THEN g] gc by (cases "c' = c") simp_all
  next
    case (7 c' p)
    then show ?case using d(7) calls by auto
  next
    case (9 p)
    then show ?case using d(9) [of p] g [of "call_pair p"] by (simp, blast)
  qed (use assms(2) d r in simp_all)
qed

lemma deliver_inv_hold:
  assumes "deliver_inv sha s"
    and "\<And>c. snd r = Inr c \<Longrightarrow> fresh_claim c (dm_db s) (fst r)"
    and "effect_inv sha (fst r) \<and> ledger_le (dm_db s) (fst r)" "\<And>err. snd r = Inl err \<Longrightarrow> fst r = dm_db s"
  shows "deliver_inv sha (hold s r)"
proof (cases r)
  case (Pair db x)
  then show ?thesis using assms(2-4) deliver_inv_claim [OF assms(1), of db]
    by (cases x) (simp_all add: hold_def assms(1))
qed

lemma deliver_inv_call:
  assumes "deliver_inv sha s" "n < length (dm_held s)"
  shows "deliver_inv sha (deliver_step sha (DvCall n budget content answer now) s)"
proof -
  note d = deliver_invD [OF assms(1)]
  let ?c = "dm_held s ! n"
  let ?s = "s\<lparr>dm_held := without n (dm_held s),
    dm_owed := dm_owed s @ [completion_for budget ?c answer now], dm_calls := dm_calls s @ [call_of ?c content answer]\<rparr>"
  have c: "?c \<in> set (dm_held s)" using assms(2) by simp
  have sub: "c' \<in> set (dm_held s)" if "c' \<in> set (without n (dm_held s))" for c'
    by (rule subsetD [OF set_without that])
  have other: "fst (claim_pair c') \<noteq> fst (claim_pair ?c)" if "c' \<in> set (without n (dm_held s))" for c'
  proof -
    have "map (fst \<circ> claim_pair) (dm_held s) ! n \<notin> set (without n (map (fst \<circ> claim_pair) (dm_held s)))"
      using d(5) assms(2) by (intro without_other) auto
    then have "fst (claim_pair ?c) \<notin> (\<lambda>x. fst (claim_pair x)) ` set (without n (dm_held s))"
      using assms(2) by (simp flip: map_without)
    then show ?thesis using that by (metis imageI)
  qed
  have "deliver_inv sha ?s"
  proof (rule deliver_invI, goal_cases)
    case 2
    show ?case using distinct_without [OF d(2)] by (simp add: map_without)
  next
    case 3
    show ?case using d(3) d(4) [OF c] by fastforce
  next
    case (4 c' p)
    then show ?case using d(4) [OF sub] other by fastforce
  next
    case 5
    show ?case using distinct_without [OF d(5)] by (simp add: map_without)
  next
    case (7 c' p)
    then show ?case using d(7) [OF sub] other by fastforce
  next
    case (8 p)
    then show ?case using d(8) guarded_on_record [OF d(6) [OF c]] by auto
  next
    case (9 p)
    then show ?case using d(9) d(6) [OF c] by auto
  next
    case (10 o1)
    then show ?case using d(10) by fastforce
  next
    case 11
    show ?case using d(11) d(7) [OF c] by (auto simp: sorted_wrt_append)
  qed (use d sub in simp_all)
  then show ?thesis using assms(2) by simp
qed

lemma deliver_inv_record:
  assumes "deliver_inv sha s" "n < length (dm_owed s)"
  shows "deliver_inv sha (deliver_step sha (DvRecord n) s)"
proof -
  note d = deliver_invD [OF assms(1)]
  let ?o = "dm_owed s ! n" and ?db = "fst (complete_send (dm_owed s ! n) (dm_db s))"
  have inv': "effect_inv sha ?db" using effect_step_inv [OF d(1), of "OpComplete ?o"] by simp
  have rec: "on_record p ?db" if "on_record p (dm_db s)" for p
    using on_record_step [OF d(1) that, of "OpComplete ?o"] by simp
  obtain p0 where p0: "p0 \<in> set (dm_calls s)" "call_pair p0 = completion_pair ?o"
    "safe_call p0 = safe_completion ?o"
    using d(10) [OF nth_mem [OF assms(2)]] by blast
  have held: "guarded (claim_pair c) ?db" if "c \<in> set (dm_held s)" for c
    using guarded_complete [OF d(1) d(6) [OF that], of ?o] d(4) [OF that p0(1)] p0(2) by auto
  have calls: "safe_call p \<or> guarded (call_pair p) ?db" if p: "p \<in> set (dm_calls s)" for p
  proof (cases "safe_call p")
    case False
    then have g: "guarded (call_pair p) (dm_db s)" using d(9) [OF p] by simp
    have "p = p0" if "completion_pair ?o = call_pair p"
      using d(3) p p0(1,2) that by (auto simp: distinct_map dest: inj_onD)
    then show ?thesis using guarded_complete [OF d(1) g, of ?o] False p0(3) by auto
  qed simp
  have "deliver_inv sha (s\<lparr>dm_db := ?db, dm_owed := without n (dm_owed s)\<rparr>)"
  proof (rule deliver_invI, goal_cases)
    case (10 o1)
    then have "o1 \<in> set (dm_owed s)" using subsetD [OF set_without [of n "dm_owed s"]] by simp
    then show ?case using d(10) by simp
  next
    case (9 p)
    then show ?case using calls by simp
  qed (use d inv' rec held in simp_all)
  then show ?thesis using assms(2) by simp
qed

lemma deliver_step_inv: "deliver_inv sha s \<Longrightarrow> deliver_inv sha (deliver_step sha op s)"
proof -
  assume i: "deliver_inv sha s"
  then have inv: "effect_inv sha (dm_db s)" by (simp add: deliver_inv_def)
  then have l: "ledger_inv (dm_db s)" by (simp add: effect_inv_def)
  show ?thesis
  proof (cases op)
    case (DvClaimSend x owner lu n now aid tok)
    show ?thesis unfolding DvClaimSend deliver_step.simps
    proof (rule deliver_inv_hold [OF i], goal_cases)
      case (1 c)
      then show ?case using claims_fresh(1) [OF l] by (metis prod.collapse)
    next
      case 2
      show ?case using effect_step_inv [OF inv, of "OpClaimSend x owner lu n now aid tok"] by simp
    next
      case (3 err)
      then show ?case using claim_send_cases [OF l, of x owner lu n now aid tok]
        by (metis Inl_Inr_False prod.collapse)
    qed
  next
    case (DvClaimRetry x owner lu n m now aid tok)
    show ?thesis unfolding DvClaimRetry deliver_step.simps
    proof (rule deliver_inv_hold [OF i], goal_cases)
      case (1 c)
      then show ?case using claims_fresh(2) [OF l] by (metis prod.collapse)
    next
      case 2
      show ?case using effect_step_inv [OF inv, of "OpClaimRetry x owner lu n m now aid tok"] by simp
    next
      case (3 err)
      then show ?case using claim_retry_cases [OF l, of x owner lu n m now aid tok]
        by (metis Inl_Inr_False prod.collapse)
    qed
  next
    case (DvCall n budget content answer now)
    then show ?thesis using i deliver_inv_call [OF i] by (cases "n < length (dm_held s)") auto
  next
    case (DvRecord n)
    then show ?thesis using i deliver_inv_record [OF i] by (cases "n < length (dm_owed s)") auto
  qed (use i deliver_inv_ledger [OF i] in simp)
qed

interpretation deliveries: invariant_machine "deliver_step sha" "deliver_inv sha"
  by unfold_locales (rule deliver_step_inv)

text \<open>
  C2. The provider is called again only after a rejection that is safe to repeat.  Over any
  interleaving of gateway instances, crashes, lease expiries, operator decisions and retention,
  when two provider calls are made for the same delivery, the provider answered the earlier one
  with an explicit "not done, try again", and the two belong to different attempts.
\<close>

theorem provider_called_again_only_after_safe_rejection:
  assumes "dm_calls (fold (deliver_step sha) ops deliver_start) = xs @ p # ys @ q # zs"
    and "pc_effect q = pc_effect p"
  shows "(\<exists>r. pc_answer p = Inr r \<and> re_outcome r = ReRejected \<and> re_class r = RcSafeRetry) \<and>
    pc_attempt q \<noteq> pc_attempt p"
proof -
  have "deliver_inv sha (fold (deliver_step sha) ops deliver_start)"
    by (rule deliveries.run_inv) (simp add: deliver_inv_def deliver_start_def)
  then have "sorted_wrt (\<lambda>p q. pc_effect p = pc_effect q \<longrightarrow> safe_call p) (xs @ p # ys @ q # zs)"
    and "distinct (map call_pair (xs @ p # ys @ q # zs))"
    using assms(1) by (auto simp: deliver_inv_def)
  then show ?thesis using assms(2) by (auto simp: sorted_wrt_append safe_answer_def call_pair_def)
qed

section \<open>Witnesses\<close>

definition demo_delivery_plan :: delivery_plan where
  "demo_delivery_plan = \<lparr>dp_occurrence = ''o'', dp_ordinal = 0, dp_target_revision = ''r'', dp_session = ''s'',
     dp_execution = ''x'', dp_run = [], dp_content = ''hi'', dp_target_kind = ''slack'', dp_target_ref = ''C1''\<rparr>"

definition demo_later :: send_result where
  "demo_later = \<lparr>re_outcome = ReRejected, re_provider = [], re_evidence = [], re_class = RcSafeRetry,
     re_retry_after = 0, re_reason = []\<rparr>"

definition demo_deliver_ops :: "deliver_op list" where
  "demo_deliver_ops =
    [DvLedger (OpPlan (planner_retention 0 0 []) demo_delivery_plan 0 ''e'' ''p''),
     DvClaimSend ''e'' ''g'' second 0 0 ''a1'' ''t1'',
     DvCall 0 default_retry_budget ''hi'' (Inr demo_later) 0,
     DvRecord 0,
     DvClaimRetry ''e'' ''h'' (90 * second) 0 3 (40 * second) ''a2'' ''t2'',
     DvCall 0 default_retry_budget ''hi'' (Inr (demo_later\<lparr>re_outcome := ReAccepted\<rparr>)) (41 * second)]"

definition demo_call :: "int \<Rightarrow> send_result \<Rightarrow> provider_call" where
  "demo_call n r = \<lparr>pc_effect = ''e'', pc_attempt = n, pc_content = ''hi'', pc_answer = Inr r\<rparr>"

lemma demo_deliver_calls:
  "dm_calls (fold (deliver_step (\<lambda>s. s)) demo_deliver_ops deliver_start) =
     [demo_call 0 demo_later, demo_call 1 (demo_later\<lparr>re_outcome := ReAccepted\<rparr>)]"
  by code_simp

theorem provider_called_again_only_after_safe_rejection_witness:
  "re_outcome demo_later = ReRejected \<and> re_class demo_later = RcSafeRetry \<and>
   dm_calls (fold (deliver_step (\<lambda>s. s)) demo_deliver_ops deliver_start) =
     [demo_call 0 demo_later, demo_call 1 (demo_later\<lparr>re_outcome := ReAccepted\<rparr>)]"
  using provider_called_again_only_after_safe_rejection [of "\<lambda>s. s" demo_deliver_ops "[]" "demo_call 0 demo_later"
      "[]" "demo_call 1 (demo_later\<lparr>re_outcome := ReAccepted\<rparr>)" "[]"] demo_deliver_calls
  by (simp add: demo_call_def)

end
