(* ===== verification/Session.thy ===== *)
theory Session
  imports Tables ExecMachine
begin

text \<open>
  Sessions and their durable store, \<open>internal/session/store.go\<close>, \<open>cleanup_outbox.go\<close>,
  \<open>purge_store.go\<close> and \<open>lifecycle_policy.go\<close> with the statements of \<open>sql/queries\<close>: the session
  rows, the outbox of worker-session cleanups, the purge jobs of deleted sessions and their items.
  Every method runs in one transaction under \<open>writeMu\<close> and is one function on the tables.  The
  execution ledger lives in the same database: its rows block retention and go with their session.
  Time columns are instants; the JSON columns are kept as their parts, the context and the agent
  specification snapshot apart.  Ids drawn from \<open>uuid.NewString\<close> are arguments.
\<close>

section \<open>Session states\<close>

text \<open>\<open>SsEmpty\<close> is the zero value of the string type; the table's \<open>CHECK\<close> refuses it.\<close>

datatype session_state = SsEmpty | SsCreated | SsRunning | SsIdle | SsTerminated | SsDeleted

definition state_text :: "session_state \<Rightarrow> string" where
  "state_text s = (case s of SsEmpty \<Rightarrow> [] | SsCreated \<Rightarrow> ''created'' | SsRunning \<Rightarrow> ''running''
     | SsIdle \<Rightarrow> ''idle'' | SsTerminated \<Rightarrow> ''terminated'' | SsDeleted \<Rightarrow> ''deleted'')"

lemma state_text_deleted [simp]: "state_text s = ''deleted'' \<longleftrightarrow> s = SsDeleted"
  by (cases s) (simp_all add: state_text_def)

definition is_terminal :: "session_state \<Rightarrow> bool" where
  "is_terminal s \<longleftrightarrow> s = SsDeleted"

definition is_active :: "session_state \<Rightarrow> bool" where
  "is_active s \<longleftrightarrow> s = SsRunning \<or> s = SsIdle \<or> s = SsCreated"

fun valid_transitions :: "session_state \<Rightarrow> session_state list" where
  "valid_transitions SsCreated = [SsRunning, SsTerminated]"
| "valid_transitions SsRunning = [SsIdle, SsTerminated, SsDeleted]"
| "valid_transitions SsIdle = [SsRunning, SsTerminated, SsDeleted]"
| "valid_transitions SsTerminated = [SsRunning, SsDeleted]"
| "valid_transitions SsDeleted = []"
| "valid_transitions SsEmpty = []"

definition is_valid_transition :: "session_state \<Rightarrow> session_state \<Rightarrow> bool" where
  "is_valid_transition from to' \<longleftrightarrow> to' \<in> set (valid_transitions from)"

section \<open>Rows\<close>

text \<open>
  \<open>SessionInfo\<close>, both in memory and as a row; an absent time is \<open>None\<close>.  The derived identity and
  the tool list restored from the snapshot are left out.
\<close>

record session_row =
  si_id :: session_id
  si_user :: string
  si_owner :: string
  si_bot :: string
  si_bot_name :: string
  si_wsid :: string
  si_worker_type :: string
  si_state :: session_state
  si_platform :: string
  si_platform_key :: "(string \<times> string) list"
  si_work_dir :: string
  si_title :: string
  si_created :: instant
  si_updated :: instant
  si_expires :: "instant option"
  si_idle :: "instant option"
  si_context :: "string option"
  si_snapshot :: "string option"
  si_source :: string
  si_client :: string
  si_workspace :: string
  si_ceiling :: string
  si_policy :: string
  si_revision :: string
  si_last_input :: "instant option"
  si_runtime_finished :: "instant option"
  si_archive :: "instant option"
  si_conv :: "instant option"
  si_content :: "instant option"
  si_history :: "instant option"
  si_deleted :: "instant option"

record cleanup_task =
  ct_id :: string
  ct_session :: session_id
  ct_worker_type :: string
  ct_wsid :: string
  ct_attempts :: int
  ct_next :: instant
  ct_lease :: "instant option"
  ct_token :: "string option"
  ct_error :: string
  ct_created :: instant
  ct_updated :: instant

datatype purge_job_state = PjPending | PjInProgress | PjBlocked | PjComplete

datatype purge_item_state = PiPending | PiRunning | PiRetrying | PiBlocked | PiUnsupported | PiComplete

datatype purge_kind = PkMetadata | PkContent | PkWorkerSession

record purge_job =
  pj_id :: string
  pj_session :: session_id
  pj_user :: string
  pj_owner :: string
  pj_workspace :: string
  pj_revision :: string
  pj_state :: purge_job_state
  pj_requested :: instant
  pj_completed :: "instant option"
  pj_created :: instant
  pj_updated :: instant

record purge_item =
  pi_id :: string
  pi_job :: string
  pi_session :: session_id
  pi_kind :: purge_kind
  pi_state :: purge_item_state
  pi_attempts :: int
  pi_next :: instant
  pi_lease :: "instant option"
  pi_token :: "string option"
  pi_completed :: "instant option"
  pi_error :: string
  pi_created :: instant
  pi_updated :: instant

record sess_db =
  sd_sessions :: "session_row list"
  sd_tasks :: "cleanup_task list"
  sd_jobs :: "purge_job list"
  sd_items :: "purge_item list"
  sd_exec :: exec_db

datatype session_error =
    SeNotFound | SeNotActive | SeInvalidTransition | SeCleanupPending | SeLeaseLost
  | SePoolExhausted | SeUserQuota | SeMemory | SeOwnership | SeMaxTurns | SeWorkerAttached
  | SeClientKeyTooLong | SeLifecycle | SeAcceptedTime | SePermissionMode | SeSnapshot
  | SeInsert | SePurgeNotFound | SeStore

definition find_session :: "session_id \<Rightarrow> sess_db \<Rightarrow> session_row option" where
  "find_session i db = sql_row (\<lambda>r. si_id r = i) (sd_sessions db)"

definition pending_cleanup :: "session_id \<Rightarrow> sess_db \<Rightarrow> bool" where
  "pending_cleanup i db \<longleftrightarrow> (\<exists>k \<in> set (sd_tasks db). ct_session k = i)"

definition update_sessions ::
    "(session_row \<Rightarrow> bool) \<Rightarrow> (session_row \<Rightarrow> session_row) \<Rightarrow> sess_db \<Rightarrow> sess_db \<times> nat" where
  "update_sessions P f db =
     (db\<lparr>sd_sessions := sql_update P f (sd_sessions db)\<rparr>, sql_count P (sd_sessions db))"

text \<open>
  \<open>INSERT ... ON CONFLICT(key) DO NOTHING\<close> with a primary key \<open>pk\<close>; \<open>None\<close> is a violation of the
  primary key.
\<close>

definition insert_do_nothing :: "('r \<Rightarrow> 'k) \<Rightarrow> ('r \<Rightarrow> 'i) \<Rightarrow> 'r \<Rightarrow> 'r list \<Rightarrow> 'r list option" where
  "insert_do_nothing key pk r t =
     (if \<exists>r' \<in> set t. key r' = key r then Some t
      else if \<exists>r' \<in> set t. pk r' = pk r then None
      else Some (t @ [r]))"

section \<open>Lifecycle policies\<close>

record lifecycle_config =
  lc_policy :: string
  lc_archive_after :: duration
  lc_retention :: duration

record initial_lifecycle =
  il_policy :: string
  il_revision :: string
  il_archive :: "instant option"
  il_conv :: "instant option"
  il_history :: "instant option"

text \<open>\<open>fp\<close> is the hexadecimal SHA-256 digest of the encoded configuration.\<close>

definition new_initial_lifecycle ::
    "(lifecycle_config \<Rightarrow> string) \<Rightarrow> instant \<Rightarrow> lifecycle_config \<Rightarrow> session_error + initial_lifecycle" where
  "new_initial_lifecycle fp now cfg =
     (if lc_policy cfg = ''legacy'' then
        Inr \<lparr>il_policy = ''legacy'', il_revision = [], il_archive = None, il_conv = None,
             il_history = None\<rparr>
      else if lc_policy cfg \<noteq> ''v2'' then Inl SeLifecycle
      else if lc_archive_after cfg \<le> 0 then Inl SeLifecycle
      else if lc_retention cfg \<le> 0 then Inl SeLifecycle
      else if lc_archive_after cfg > lc_retention cfg then Inl SeLifecycle
      else Inr \<lparr>il_policy = ''v2'', il_revision = fp cfg,
                il_archive = Some (now + lc_archive_after cfg),
                il_conv = Some (now + lc_retention cfg),
                il_history = Some (now + lc_retention cfg)\<rparr>)"

definition apply_lifecycle_state :: "initial_lifecycle \<Rightarrow> session_row \<Rightarrow> session_row" where
  "apply_lifecycle_state l r = r\<lparr>si_policy := il_policy l, si_revision := il_revision l,
     si_archive := il_archive l, si_conv := il_conv l, si_history := il_history l\<rparr>"

definition should_notify_termination_cleanup :: "string \<Rightarrow> string \<Rightarrow> bool" where
  "should_notify_termination_cleanup policy reason \<longleftrightarrow>
     policy \<noteq> ''v2'' \<or>
     reason \<notin> set [''idle_timeout'', ''max_lifetime'', ''zombie'', ''gateway_restart'',
                   ''max_turns'', ''gc'', ''cron_complete'']"

definition archived :: "session_row \<Rightarrow> instant \<Rightarrow> bool" where
  "archived r now \<longleftrightarrow> si_policy r = ''v2'' \<and> (\<exists>t \<in> set_option (si_archive r). t \<le> now)"

definition latest_time :: "instant option \<Rightarrow> instant \<Rightarrow> instant" where
  "latest_time current candidate =
     (case current of Some t \<Rightarrow> if t > candidate then t else candidate | None \<Rightarrow> candidate)"

section \<open>Writing a session row\<close>

text \<open>
  The row the \<open>INSERT\<close> writes: an empty policy becomes \<open>legacy\<close>, the permission ceiling has no
  column in the statement and starts empty.
\<close>

definition inserted_row :: "session_row \<Rightarrow> session_row" where
  "inserted_row i = i\<lparr>si_policy := (if si_policy i = [] then ''legacy'' else si_policy i),
                     si_ceiling := []\<rparr>"

text \<open>
  The \<open>ON CONFLICT(id) DO UPDATE\<close>: what it does not assign keeps the stored value, the snapshot
  is the stored one if there is one (\<open>preservePersistedSpecSnapshot\<close>).
\<close>

definition updated_row :: "session_row \<Rightarrow> session_row \<Rightarrow> session_row" where
  "updated_row i r = r
     \<lparr>si_state := si_state i,
      si_owner := (if si_owner i \<noteq> [] then si_owner i else si_owner r),
      si_bot_name := (if si_bot_name i \<noteq> [] then si_bot_name i else si_bot_name r),
      si_updated := si_updated i,
      si_expires := si_expires i,
      si_idle := si_idle i,
      si_title := (if si_title i \<noteq> [] then si_title i else si_title r),
      si_context := si_context i,
      si_snapshot := (if si_snapshot r \<noteq> None then si_snapshot r else si_snapshot i),
      si_source := (if si_source i \<noteq> [] then si_source i else si_source r),
      si_client := (if si_client i \<noteq> [] then si_client i else si_client r),
      si_workspace := (if si_workspace r = [] then si_workspace i else si_workspace r)\<rparr>"

definition row_deleted :: "session_row \<Rightarrow> bool" where
  "row_deleted r \<longleftrightarrow> si_deleted r \<noteq> None \<or> si_state r = SsDeleted"

definition upsert :: "session_row \<Rightarrow> sess_db \<Rightarrow> sess_db \<times> session_error option" where
  "upsert i db =
     (if pending_cleanup (si_id i) db then (db, Some SeCleanupPending)
      else if si_state i = SsEmpty then (db, Some SeStore)
      else
        (case find_session (si_id i) db of
           None \<Rightarrow> (db\<lparr>sd_sessions := sd_sessions db @ [inserted_row i]\<rparr>, None)
         | Some _ \<Rightarrow>
             (case update_sessions (\<lambda>r. si_id r = si_id i \<and> \<not> row_deleted r) (updated_row i) db of
                (_, 0) \<Rightarrow> (db, Some SeCleanupPending)
              | (db', _) \<Rightarrow> (db', None))))"

definition update_worker_session_id_sql ::
    "session_id \<Rightarrow> string \<Rightarrow> sess_db \<Rightarrow> sess_db \<times> session_error option" where
  "update_worker_session_id_sql i w db =
     (case update_sessions (\<lambda>r. si_id r = i) (\<lambda>r. r\<lparr>si_wsid := w\<rparr>) db of
        (_, 0) \<Rightarrow> (db, if pending_cleanup i db then Some SeCleanupPending else None)
      | (db', _) \<Rightarrow> (db', None))"

definition advance :: "instant \<Rightarrow> instant option \<Rightarrow> instant option" where
  "advance t old = (case old of None \<Rightarrow> Some t | Some o' \<Rightarrow> Some (if o' < t then t else o'))"

definition advance_row ::
    "instant \<Rightarrow> instant \<Rightarrow> instant \<Rightarrow> instant \<Rightarrow> instant \<Rightarrow> session_row \<Rightarrow> session_row" where
  "advance_row input archive conv history upd r = r
     \<lparr>si_last_input := advance input (si_last_input r),
      si_archive := advance archive (si_archive r),
      si_conv := advance conv (si_conv r),
      si_history := advance history (si_history r),
      si_updated := (if si_updated r < upd then upd else si_updated r)\<rparr>"

definition advance_lifecycle_deadlines ::
    "session_id \<Rightarrow> string \<Rightarrow> instant \<Rightarrow> instant \<Rightarrow> instant \<Rightarrow> instant \<Rightarrow> instant \<Rightarrow> sess_db \<Rightarrow>
       sess_db \<times> session_error option" where
  "advance_lifecycle_deadlines i revision input archive conv history upd db =
     (case update_sessions
             (\<lambda>r. si_id r = i \<and> si_policy r = ''v2'' \<and> si_revision r = revision \<and> \<not> row_deleted r)
             (advance_row input archive conv history upd) db of
        (_, 0) \<Rightarrow> (db, Some (if pending_cleanup i db then SeCleanupPending else SeNotFound))
      | (db', _) \<Rightarrow> (db', None))"

definition set_permission_ceiling_if_empty ::
    "session_id \<Rightarrow> string \<Rightarrow> sess_db \<Rightarrow> sess_db \<times> (session_error + string)" where
  "set_permission_ceiling_if_empty i ceiling db =
     (let db' = fst (update_sessions (\<lambda>r. si_id r = i \<and> si_ceiling r = [])
                       (\<lambda>r. r\<lparr>si_ceiling := ceiling\<rparr>) db)
      in (case find_session i db' of
            None \<Rightarrow> (db', Inl SeNotFound)
          | Some r \<Rightarrow> (db', Inr (si_ceiling r))))"

text \<open>\<open>snap\<close> is the result of \<open>marshalSpecSnapshot\<close>, \<open>None\<close> when it refuses the snapshot.\<close>

definition update_spec_snapshot ::
    "session_id \<Rightarrow> string option \<Rightarrow> sess_db \<Rightarrow> sess_db \<times> session_error option" where
  "update_spec_snapshot i snap db =
     (case snap of
        None \<Rightarrow> (db, Some SeSnapshot)
      | Some s \<Rightarrow>
          (case update_sessions (\<lambda>r. si_id r = i) (\<lambda>r. r\<lparr>si_snapshot := Some s\<rparr>) db of
             (_, 0) \<Rightarrow> (db, Some SeNotFound)
           | (db', _) \<Rightarrow> (db', None)))"

section \<open>Reads\<close>

definition store_get :: "session_id \<Rightarrow> sess_db \<Rightarrow> session_error + session_row" where
  "store_get i db =
     (case find_session i db of
        Some r \<Rightarrow> Inr r
      | None \<Rightarrow> Inl (if pending_cleanup i db then SeCleanupPending else SeNotFound))"

definition session_limit :: "int \<Rightarrow> int" where
  "session_limit limit = (if limit \<le> 0 then 100 else limit)"

text \<open>\<open>ORDER BY created_at DESC LIMIT ? OFFSET ?\<close>; SQLite reads a negative offset as 0.\<close>

definition list_sessions ::
    "string \<Rightarrow> string \<Rightarrow> string \<Rightarrow> int \<Rightarrow> int \<Rightarrow> sess_db \<Rightarrow> session_row list" where
  "list_sessions user platform workspace limit offset db =
     take (nat (session_limit limit)) (drop (nat offset)
       (sql_select (\<lambda>r. si_state r \<noteq> SsDeleted \<and> (user = [] \<or> si_user r = user) \<and>
                        (platform = [] \<or> si_platform r = platform) \<and>
                        (workspace = [] \<or> si_workspace r = workspace))
                   (\<lambda>r. - si_created r) (sd_sessions db)))"

definition lapsed :: "instant option \<Rightarrow> instant \<Rightarrow> bool" where
  "lapsed t now \<longleftrightarrow> (\<exists>d \<in> set_option t. d \<le> now)"

definition get_expired_max_lifetime :: "instant \<Rightarrow> sess_db \<Rightarrow> session_id list" where
  "get_expired_max_lifetime now db =
     map si_id (filter (\<lambda>r. si_state r \<in> set [SsCreated, SsRunning, SsIdle] \<and> lapsed (si_expires r) now)
                       (sd_sessions db))"

definition get_expired_idle :: "instant \<Rightarrow> sess_db \<Rightarrow> session_id list" where
  "get_expired_idle now db =
     map si_id (filter (\<lambda>r. si_state r = SsIdle \<and> lapsed (si_idle r) now) (sd_sessions db))"

definition get_sessions_by_state :: "session_state \<Rightarrow> sess_db \<Rightarrow> session_id list" where
  "get_sessions_by_state s db = map si_id (filter (\<lambda>r. si_state r = s) (sd_sessions db))"

section \<open>What holds a session back from retention\<close>

text \<open>
  The obligations \<open>lifecycleRetirementBlocked\<close> and the retention queries look for: an execution
  that is not settled, a queued input, a pending cleanup.
\<close>

definition unsettled :: "exec_row \<Rightarrow> bool" where
  "unsettled r \<longleftrightarrow> x_status r = StAccepted \<or> x_status r = StUnknown \<or>
     x_runtime r \<in> set [RtQueued, RtPending, RtRunning, RtUnknown] \<or> x_fence r \<noteq> []"

definition retirement_blocked :: "session_id \<Rightarrow> sess_db \<Rightarrow> bool" where
  "retirement_blocked i db \<longleftrightarrow>
     (\<exists>r \<in> set (t_exec (sd_exec db)). x_session r = i \<and> unsettled r) \<or>
     (\<exists>q \<in> set (t_queue (sd_exec db)). q_session q = i) \<or>
     pending_cleanup i db"

definition lifecycle_session_expired :: "session_row \<Rightarrow> instant \<Rightarrow> bool" where
  "lifecycle_session_expired r now \<longleftrightarrow>
     si_policy r = ''v2'' \<and> si_deleted r = None \<and> si_state r \<noteq> SsRunning \<and> si_state r \<noteq> SsDeleted \<and>
     lapsed (si_conv r) now \<and> (si_content r = None \<or> lapsed (si_content r) now) \<and>
     lapsed (si_history r) now"

definition list_expired_lifecycle_sessions :: "instant \<Rightarrow> int \<Rightarrow> sess_db \<Rightarrow> session_id list" where
  "list_expired_lifecycle_sessions now limit db =
     (if limit \<le> 0 then []
      else take (nat limit) (map si_id
        (sql_select (\<lambda>r. lifecycle_session_expired r now \<and> \<not> retirement_blocked (si_id r) db)
                    (\<lambda>r. the (si_conv r)) (sql_select (\<lambda>_. True) si_id (sd_sessions db)))))"

end
