(* ===== verification/Cleanup.thy ===== *)
theory Cleanup
  imports Session
begin

text \<open>
  Deleting sessions: \<open>internal/session/cleanup_outbox.go\<close>, \<open>purge_store.go\<close>, \<open>purge_runner.go\<close> and
  the retention statements of \<open>store.go\<close>.  A soft delete blanks the row, puts the worker's remote
  session into the outbox and opens a purge job with three items; leased runners work the outbox
  and the content items off.  A physical delete and the retention of terminated sessions remove
  the row and, through the foreign keys, its executions.  The remote cleanup and the content
  deletion are arguments of the runners.
\<close>

section \<open>Purge jobs\<close>

definition item_of :: "session_id \<Rightarrow> purge_item \<Rightarrow> bool" where
  "item_of s i \<longleftrightarrow> pi_session i = s"

definition job_state :: "session_id \<Rightarrow> purge_item list \<Rightarrow> purge_job_state" where
  "job_state s items =
     (if \<exists>i \<in> set items. item_of s i \<and> pi_state i \<in> set [PiBlocked, PiUnsupported] then PjBlocked
      else if \<exists>i \<in> set items. item_of s i \<and> pi_state i \<in> set [PiPending, PiRunning, PiRetrying]
      then PjInProgress else PjComplete)"

definition refresh_job_row :: "purge_item list \<Rightarrow> instant \<Rightarrow> purge_job \<Rightarrow> purge_job" where
  "refresh_job_row items now j = j
     \<lparr>pj_state := job_state (pj_session j) items,
      pj_completed := (if \<exists>i \<in> set items. item_of (pj_session j) i \<and> pi_state i \<noteq> PiComplete then None
                       else coalesce (pj_completed j) now),
      pj_updated := now\<rparr>"

definition refresh_purge_job_status :: "session_id \<Rightarrow> instant \<Rightarrow> sess_db \<Rightarrow> sess_db" where
  "refresh_purge_job_status s now db = db\<lparr>sd_jobs :=
     sql_update (\<lambda>j. pj_session j = s) (refresh_job_row (sd_items db) now) (sd_jobs db)\<rparr>"

text \<open>The ids a deletion draws.\<close>

record deletion_ids =
  dl_task :: string
  dl_job :: string
  dl_item :: "purge_kind \<Rightarrow> string"

definition new_cleanup_task :: "string \<Rightarrow> instant \<Rightarrow> session_row \<Rightarrow> cleanup_task option" where
  "new_cleanup_task tid now r =
     (if si_wsid r = [] then None
      else Some \<lparr>ct_id = tid, ct_session = si_id r, ct_worker_type = si_worker_type r,
                ct_wsid = si_wsid r, ct_attempts = 0, ct_next = now, ct_lease = None,
                ct_token = None, ct_error = [], ct_created = now, ct_updated = now\<rparr>)"

definition worker_item_done :: "session_id \<Rightarrow> sess_db \<Rightarrow> bool" where
  "worker_item_done s db \<longleftrightarrow> (\<exists>i \<in> set (sd_items db). pi_session i = s \<and> pi_kind i = PkWorkerSession \<and>
     pi_state i \<in> set [PiComplete, PiUnsupported])"

definition insert_cleanup_task :: "string \<Rightarrow> instant \<Rightarrow> session_row \<Rightarrow> sess_db \<Rightarrow> sess_db option" where
  "insert_cleanup_task tid now r db =
     (case new_cleanup_task tid now r of
        None \<Rightarrow> Some db
      | Some k \<Rightarrow>
          if worker_item_done (si_id r) db then Some db
          else map_option (\<lambda>t. db\<lparr>sd_tasks := t\<rparr>) (insert_do_nothing ct_session ct_id k (sd_tasks db)))"

definition new_purge_job :: "string \<Rightarrow> instant \<Rightarrow> session_row \<Rightarrow> purge_job" where
  "new_purge_job jid now r =
     \<lparr>pj_id = jid, pj_session = si_id r, pj_user = si_user r, pj_owner = si_owner r,
      pj_workspace = si_workspace r,
      pj_revision = (if si_revision r = [] then ''legacy'' else si_revision r),
      pj_state = PjPending, pj_requested = now, pj_completed = None, pj_created = now,
      pj_updated = now\<rparr>"

definition new_purge_item ::
    "string \<Rightarrow> string \<Rightarrow> session_id \<Rightarrow> instant \<Rightarrow> purge_kind \<Rightarrow> purge_item_state \<Rightarrow> purge_item" where
  "new_purge_item iid jid s now kind st =
     \<lparr>pi_id = iid, pi_job = jid, pi_session = s, pi_kind = kind, pi_state = st, pi_attempts = 0,
      pi_next = now, pi_lease = None, pi_token = None,
      pi_completed = (if st = PiComplete then Some now else None), pi_error = [],
      pi_created = now, pi_updated = now\<rparr>"

fun insert_purge_items ::
    "(purge_kind \<Rightarrow> string) \<Rightarrow> string \<Rightarrow> session_id \<Rightarrow> instant \<Rightarrow>
       (purge_kind \<times> purge_item_state) list \<Rightarrow> purge_item list \<Rightarrow> purge_item list option" where
  "insert_purge_items iid jid s now [] t = Some t"
| "insert_purge_items iid jid s now ((k, st) # ks) t =
     (case insert_do_nothing (\<lambda>i. (pi_job i, pi_kind i)) pi_id (new_purge_item (iid k) jid s now k st) t of
        None \<Rightarrow> None
      | Some t' \<Rightarrow> insert_purge_items iid jid s now ks t')"

definition insert_purge_job_and_items ::
    "deletion_ids \<Rightarrow> instant \<Rightarrow> session_row \<Rightarrow> sess_db \<Rightarrow> sess_db option" where
  "insert_purge_job_and_items ids now r db =
     (case insert_do_nothing pj_session pj_id (new_purge_job (dl_job ids) now r) (sd_jobs db) of
        None \<Rightarrow> None
      | Some jobs \<Rightarrow>
          (case sql_row (\<lambda>j. pj_session j = si_id r) jobs of
             None \<Rightarrow> None
           | Some j \<Rightarrow>
               map_option
                 (\<lambda>items. refresh_purge_job_status (si_id r) now (db\<lparr>sd_jobs := jobs, sd_items := items\<rparr>))
                 (insert_purge_items (dl_item ids) (pj_id j) (si_id r) now
                    [(PkMetadata, PiComplete), (PkContent, PiPending),
                     (PkWorkerSession, if si_wsid r \<noteq> [] then PiPending else PiComplete)]
                    (sd_items db))))"

section \<open>Deleting\<close>

definition mark_deleted_row :: "instant \<Rightarrow> session_row \<Rightarrow> session_row" where
  "mark_deleted_row now r = r
     \<lparr>si_state := SsDeleted, si_deleted := coalesce (si_deleted r) now,
      si_updated := (if si_updated r < now then now else si_updated r),
      si_title := [], si_work_dir := [], si_context := None, si_snapshot := None,
      si_platform_key := [], si_client := [], si_wsid := []\<rparr>"

text \<open>
  \<open>markDeletedAndEnqueueCleanup\<close>; \<open>None\<close> is a failing statement, which rolls back.  A missing row
  is not an error.
\<close>

definition mark_deleted_locked :: "deletion_ids \<Rightarrow> instant \<Rightarrow> session_id \<Rightarrow> sess_db \<Rightarrow> sess_db option" where
  "mark_deleted_locked ids now i db =
     (case find_session i db of
        None \<Rightarrow> Some db
      | Some r \<Rightarrow>
          (case insert_cleanup_task (dl_task ids) now r db of
             None \<Rightarrow> None
           | Some db1 \<Rightarrow>
               map_option (\<lambda>db2. fst (update_sessions (\<lambda>r. si_id r = i) (mark_deleted_row now) db2))
                 (insert_purge_job_and_items ids now r db1)))"

definition mark_deleted_with_cleanup ::
    "deletion_ids \<Rightarrow> instant \<Rightarrow> session_id \<Rightarrow> sess_db \<Rightarrow> sess_db \<times> session_error option" where
  "mark_deleted_with_cleanup ids now i db =
     (case mark_deleted_locked ids now i db of
        None \<Rightarrow> (db, Some SeInsert)
      | Some db' \<Rightarrow> (db', None))"

text \<open>\<open>DELETE FROM sessions\<close>, with the cascade into the execution tables.\<close>

definition delete_row :: "session_id \<Rightarrow> sess_db \<Rightarrow> sess_db" where
  "delete_row i db = db\<lparr>sd_sessions := sql_delete (\<lambda>r. si_id r = i) (sd_sessions db),
                       sd_exec := session_delete i (sd_exec db)\<rparr>"

definition delete_physical_with_cleanup ::
    "string \<Rightarrow> instant \<Rightarrow> session_id \<Rightarrow> sess_db \<Rightarrow> sess_db \<times> (session_error + session_row option)" where
  "delete_physical_with_cleanup tid now i db =
     (case find_session i db of
        None \<Rightarrow> (db, Inr None)
      | Some r \<Rightarrow>
          (case insert_cleanup_task tid now r (delete_row i db) of
             None \<Rightarrow> (db, Inl SeInsert)
           | Some db' \<Rightarrow> (db', Inr (Some r))))"

definition terminated_expired :: "instant \<Rightarrow> instant \<Rightarrow> sess_db \<Rightarrow> session_row \<Rightarrow> bool" where
  "terminated_expired cron_cutoff default_cutoff db r \<longleftrightarrow>
     si_state r = SsTerminated \<and> si_policy r \<noteq> ''v2'' \<and>
     (if si_source r = ''cron'' then si_updated r \<le> cron_cutoff else si_updated r \<le> default_cutoff) \<and>
     \<not> retirement_blocked (si_id r) db"

fun delete_terminated_each ::
    "(session_id \<Rightarrow> string) \<Rightarrow> instant \<Rightarrow> instant \<Rightarrow> instant \<Rightarrow> session_id list \<Rightarrow> sess_db \<Rightarrow>
       (sess_db \<times> session_row list) option" where
  "delete_terminated_each tid now cc dc [] db = Some (db, [])"
| "delete_terminated_each tid now cc dc (i # is) db =
     (case sql_row (\<lambda>r. si_id r = i \<and> terminated_expired cc dc db r) (sd_sessions db) of
        None \<Rightarrow> delete_terminated_each tid now cc dc is db
      | Some r \<Rightarrow>
          (case insert_cleanup_task (tid i) now r (delete_row i db) of
             None \<Rightarrow> None
           | Some db' \<Rightarrow>
               map_option (\<lambda>(db'', rs). (db'', r # rs)) (delete_terminated_each tid now cc dc is db')))"

definition delete_terminated ::
    "(session_id \<Rightarrow> string) \<Rightarrow> instant \<Rightarrow> instant \<Rightarrow> instant \<Rightarrow> sess_db \<Rightarrow>
       sess_db \<times> (session_error + session_row list)" where
  "delete_terminated tid now cc dc db =
     (case delete_terminated_each tid now cc dc
             (map si_id (filter (terminated_expired cc dc db) (sd_sessions db))) db of
        None \<Rightarrow> (db, Inl SeInsert)
      | Some (db', rs) \<Rightarrow> (db', Inr rs))"

definition retire_expired_lifecycle_session ::
    "deletion_ids \<Rightarrow> session_id \<Rightarrow> instant \<Rightarrow> sess_db \<Rightarrow>
       sess_db \<times> (session_error + session_row option)" where
  "retire_expired_lifecycle_session ids i now db =
     (case find_session i db of
        None \<Rightarrow> (db, Inr None)
      | Some r \<Rightarrow>
          if \<not> lifecycle_session_expired r now \<or> retirement_blocked i db then (db, Inr None)
          else
            (case mark_deleted_locked ids now i db of
               None \<Rightarrow> (db, Inl SeInsert)
             | Some db' \<Rightarrow>
                 (db', Inr (Some (r\<lparr>si_state := SsDeleted, si_updated := now, si_deleted := Some now\<rparr>)))))"

section \<open>The cleanup outbox\<close>

definition lease_free :: "instant option \<Rightarrow> instant \<Rightarrow> bool" where
  "lease_free l now \<longleftrightarrow> (case l of None \<Rightarrow> True | Some t \<Rightarrow> t \<le> now)"

text \<open>The worker item of a session, unless it is complete.\<close>

definition worker_item :: "session_id \<Rightarrow> purge_item \<Rightarrow> bool" where
  "worker_item s i \<longleftrightarrow> pi_session i = s \<and> pi_kind i = PkWorkerSession \<and> pi_state i \<noteq> PiComplete"

definition update_items ::
    "(purge_item \<Rightarrow> bool) \<Rightarrow> (purge_item \<Rightarrow> purge_item) \<Rightarrow> sess_db \<Rightarrow> sess_db" where
  "update_items P f db = db\<lparr>sd_items := sql_update P f (sd_items db)\<rparr>"

definition running_item :: "int \<Rightarrow> instant \<Rightarrow> instant \<Rightarrow> string \<Rightarrow> instant \<Rightarrow> purge_item \<Rightarrow> purge_item" where
  "running_item attempts nxt lease tok now i = i
     \<lparr>pi_state := PiRunning, pi_attempts := attempts, pi_next := nxt, pi_lease := Some lease,
      pi_token := Some tok, pi_completed := None, pi_error := [], pi_updated := now\<rparr>"

definition complete_item :: "instant \<Rightarrow> purge_item \<Rightarrow> purge_item" where
  "complete_item now i = i\<lparr>pi_state := PiComplete, pi_lease := None, pi_token := None,
     pi_completed := Some now, pi_error := [], pi_updated := now\<rparr>"

definition unsupported_item :: "instant \<Rightarrow> purge_item \<Rightarrow> purge_item" where
  "unsupported_item now i = i\<lparr>pi_state := PiUnsupported, pi_lease := None, pi_token := None,
     pi_completed := None, pi_error := ''cleanup_unsupported'', pi_updated := now\<rparr>"

definition retrying_item :: "instant \<Rightarrow> instant \<Rightarrow> purge_item \<Rightarrow> purge_item" where
  "retrying_item nxt now i = i\<lparr>pi_state := PiRetrying, pi_next := nxt, pi_lease := None,
     pi_token := None, pi_completed := None, pi_error := ''cleanup_failed'', pi_updated := now\<rparr>"

definition mark_cleanup_item_running ::
    "session_id \<Rightarrow> int \<Rightarrow> instant \<Rightarrow> instant \<Rightarrow> string \<Rightarrow> instant \<Rightarrow> sess_db \<Rightarrow> sess_db" where
  "mark_cleanup_item_running s attempts nxt lease tok now db =
     refresh_purge_job_status s now
       (update_items (worker_item s) (running_item attempts nxt lease tok now) db)"

definition mark_cleanup_item_complete :: "session_id \<Rightarrow> instant \<Rightarrow> sess_db \<Rightarrow> sess_db" where
  "mark_cleanup_item_complete s now db =
     refresh_purge_job_status s now (update_items (worker_item s) (complete_item now) db)"

definition mark_cleanup_item_retrying :: "session_id \<Rightarrow> instant \<Rightarrow> instant \<Rightarrow> sess_db \<Rightarrow> sess_db" where
  "mark_cleanup_item_retrying s nxt now db =
     refresh_purge_job_status s now (update_items (worker_item s) (retrying_item nxt now) db)"

definition cleanup_due :: "instant \<Rightarrow> cleanup_task \<Rightarrow> bool" where
  "cleanup_due now k \<longleftrightarrow> ct_next k \<le> now \<and> lease_free (ct_lease k) now"

definition lease_task :: "instant \<Rightarrow> string \<Rightarrow> instant \<Rightarrow> cleanup_task \<Rightarrow> cleanup_task" where
  "lease_task lease tok now k = k\<lparr>ct_attempts := ct_attempts k + 1, ct_lease := Some lease,
     ct_token := Some tok, ct_updated := now\<rparr>"

fun claim_each ::
    "(string \<Rightarrow> string) \<Rightarrow> instant \<Rightarrow> instant \<Rightarrow> cleanup_task list \<Rightarrow> sess_db \<Rightarrow>
       sess_db \<times> cleanup_task list" where
  "claim_each tok now lease [] db = (db, [])"
| "claim_each tok now lease (k # ks) db =
     (let P = (\<lambda>k'. ct_id k' = ct_id k \<and> lease_free (ct_lease k') now);
          db1 = db\<lparr>sd_tasks := sql_update P (lease_task lease (tok (ct_id k)) now) (sd_tasks db)\<rparr>
      in if sql_count P (sd_tasks db) = 1 then
           (let k' = lease_task lease (tok (ct_id k)) now k;
                db2 = mark_cleanup_item_running (ct_session k) (ct_attempts k') (ct_next k) lease
                        (tok (ct_id k)) now db1;
                (db3, ks') = claim_each tok now lease ks db2
            in (db3, k' # ks'))
         else claim_each tok now lease ks db1)"

text \<open>\<open>ORDER BY next_attempt_at, created_at LIMIT ?\<close>\<close>

definition claim_cleanup_tasks ::
    "(string \<Rightarrow> string) \<Rightarrow> instant \<Rightarrow> instant \<Rightarrow> int \<Rightarrow> sess_db \<Rightarrow> sess_db \<times> cleanup_task list" where
  "claim_cleanup_tasks tok now lease limit db =
     (if limit \<le> 0 then (db, [])
      else claim_each tok now lease
             (take (nat limit) (sql_select (cleanup_due now) (\<lambda>k. (ct_next k, ct_created k)) (sd_tasks db)))
             db)"

definition cleanup_task_session_id :: "string \<Rightarrow> string \<Rightarrow> sess_db \<Rightarrow> session_id option" where
  "cleanup_task_session_id tid tok db =
     map_option ct_session (sql_row (\<lambda>k. ct_id k = tid \<and> ct_token k = Some tok) (sd_tasks db))"

definition delete_task :: "string \<Rightarrow> string \<Rightarrow> sess_db \<Rightarrow> sess_db" where
  "delete_task tid tok db =
     db\<lparr>sd_tasks := sql_delete (\<lambda>k. ct_id k = tid \<and> ct_token k = Some tok) (sd_tasks db)\<rparr>"

definition complete_cleanup_task ::
    "string \<Rightarrow> string \<Rightarrow> instant \<Rightarrow> sess_db \<Rightarrow> sess_db \<times> session_error option" where
  "complete_cleanup_task tid tok now db =
     (case cleanup_task_session_id tid tok db of
        None \<Rightarrow> (db, Some SeLeaseLost)
      | Some s \<Rightarrow> (delete_task tid tok (mark_cleanup_item_complete s now db), None))"

definition retry_task :: "instant \<Rightarrow> instant \<Rightarrow> cleanup_task \<Rightarrow> cleanup_task" where
  "retry_task nxt now k = k\<lparr>ct_next := nxt, ct_lease := None, ct_token := None,
     ct_error := ''cleanup_failed'', ct_updated := now\<rparr>"

definition retry_cleanup_task ::
    "string \<Rightarrow> string \<Rightarrow> instant \<Rightarrow> instant \<Rightarrow> sess_db \<Rightarrow> sess_db \<times> session_error option" where
  "retry_cleanup_task tid tok nxt now db =
     (case cleanup_task_session_id tid tok db of
        None \<Rightarrow> (db, Some SeLeaseLost)
      | Some s \<Rightarrow>
          (mark_cleanup_item_retrying s nxt now
             (db\<lparr>sd_tasks := sql_update (\<lambda>k. ct_id k = tid \<and> ct_token k = Some tok)
                (retry_task nxt now) (sd_tasks db)\<rparr>), None))"

definition fail_unsupported_cleanup_task ::
    "string \<Rightarrow> string \<Rightarrow> instant \<Rightarrow> sess_db \<Rightarrow> sess_db \<times> session_error option" where
  "fail_unsupported_cleanup_task tid tok now db =
     (case cleanup_task_session_id tid tok db of
        None \<Rightarrow> (db, Some SeLeaseLost)
      | Some s \<Rightarrow>
          (refresh_purge_job_status s now
             (delete_task tid tok (update_items (worker_item s) (unsupported_item now) db)), None))"

definition cleanup_batch_size :: int where
  "cleanup_batch_size = 16"

definition cleanup_lease_duration :: duration where
  "cleanup_lease_duration = 30 * second"

definition cleanup_retry_max :: duration where
  "cleanup_retry_max = 5 * minute"

definition cleanup_backoff :: "int \<Rightarrow> duration" where
  "cleanup_backoff attempts =
     (let n = (if attempts < 1 then 1 else attempts);
          shift = min (n - 1) 8;
          delay = second * 2 ^ nat shift
      in if delay > cleanup_retry_max then cleanup_retry_max else delay)"

text \<open>What the worker-specific cleaner answers for a worker type and a remote session.\<close>

datatype clean_result = CleanOk | CleanUnsupported | CleanFailed

text \<open>
  One task of \<open>CleanupRunner.RunOnce\<close>; \<open>now\<close> is the clock after the attempt.  Errors of the
  recording transaction are only logged.
\<close>

definition clean_one ::
    "(string \<Rightarrow> string \<Rightarrow> clean_result) \<Rightarrow> instant \<Rightarrow> cleanup_task \<Rightarrow> sess_db \<Rightarrow> sess_db" where
  "clean_one exec now k db =
     (let tok = (case ct_token k of Some t \<Rightarrow> t | None \<Rightarrow> [])
      in case exec (ct_worker_type k) (ct_wsid k) of
           CleanUnsupported \<Rightarrow> fst (fail_unsupported_cleanup_task (ct_id k) tok now db)
         | CleanOk \<Rightarrow> fst (complete_cleanup_task (ct_id k) tok now db)
         | CleanFailed \<Rightarrow>
             fst (retry_cleanup_task (ct_id k) tok (now + cleanup_backoff (ct_attempts k)) now db))"

definition run_cleanup_once ::
    "(string \<Rightarrow> string \<Rightarrow> clean_result) \<Rightarrow> (string \<Rightarrow> string) \<Rightarrow> (string \<Rightarrow> instant) \<Rightarrow> instant \<Rightarrow>
       sess_db \<Rightarrow> sess_db" where
  "run_cleanup_once exec tok clock now db =
     (case claim_cleanup_tasks tok now (now + cleanup_lease_duration) cleanup_batch_size db of
        (db', ks) \<Rightarrow> fold (\<lambda>k. clean_one exec (clock (ct_id k)) k) ks db')"

section \<open>Conversation content\<close>

definition purge_due :: "instant \<Rightarrow> purge_item \<Rightarrow> bool" where
  "purge_due now i \<longleftrightarrow> pi_kind i = PkContent \<and> pi_state i \<in> set [PiPending, PiRetrying, PiRunning] \<and>
     pi_next i \<le> now \<and> lease_free (pi_lease i) now"

definition leasable_item :: "string \<Rightarrow> instant \<Rightarrow> purge_item \<Rightarrow> bool" where
  "leasable_item iid now i \<longleftrightarrow> pi_id i = iid \<and> pi_kind i = PkContent \<and>
     pi_state i \<in> set [PiPending, PiRetrying, PiRunning] \<and> lease_free (pi_lease i) now"

definition lease_item :: "instant \<Rightarrow> string \<Rightarrow> instant \<Rightarrow> purge_item \<Rightarrow> purge_item" where
  "lease_item lease tok now i = i\<lparr>pi_state := PiRunning, pi_attempts := pi_attempts i + 1,
     pi_lease := Some lease, pi_token := Some tok, pi_completed := None, pi_error := [],
     pi_updated := now\<rparr>"

text \<open>The loop of \<open>ClaimPurgeItems\<close>; an item that cannot be leased rolls the whole claim back.\<close>

fun claim_items_each ::
    "(string \<Rightarrow> string) \<Rightarrow> instant \<Rightarrow> instant \<Rightarrow> purge_item list \<Rightarrow> sess_db \<Rightarrow>
       (sess_db \<times> purge_item list) option" where
  "claim_items_each tok now lease [] db = Some (db, [])"
| "claim_items_each tok now lease (i # is) db =
     (if sql_count (leasable_item (pi_id i) now) (sd_items db) = 0 then None
      else
        map_option (\<lambda>(db', is'). (db', lease_item lease (tok (pi_id i)) now i # is'))
          (claim_items_each tok now lease is
             (refresh_purge_job_status (pi_session i) now
                (update_items (leasable_item (pi_id i) now) (lease_item lease (tok (pi_id i)) now) db))))"

definition claim_purge_items ::
    "(string \<Rightarrow> string) \<Rightarrow> instant \<Rightarrow> instant \<Rightarrow> int \<Rightarrow> sess_db \<Rightarrow>
       sess_db \<times> (session_error + purge_item list)" where
  "claim_purge_items tok now lease limit db =
     (if limit \<le> 0 then (db, Inr [])
      else
        (case claim_items_each tok now lease
                (take (nat limit) (sql_select (purge_due now) (\<lambda>i. (pi_next i, pi_created i)) (sd_items db)))
                db of
           None \<Rightarrow> (db, Inl SeLeaseLost)
         | Some (db', is) \<Rightarrow> (db', Inr is)))"

definition leased_item :: "string \<Rightarrow> string \<Rightarrow> purge_item \<Rightarrow> bool" where
  "leased_item iid tok i \<longleftrightarrow>
     pi_id i = iid \<and> pi_kind i = PkContent \<and> pi_state i = PiRunning \<and> pi_token i = Some tok"

definition purge_item_session_id :: "string \<Rightarrow> string \<Rightarrow> sess_db \<Rightarrow> session_id option" where
  "purge_item_session_id iid tok db = map_option pi_session (sql_row (leased_item iid tok) (sd_items db))"

definition complete_purge_item ::
    "string \<Rightarrow> string \<Rightarrow> instant \<Rightarrow> sess_db \<Rightarrow> sess_db \<times> session_error option" where
  "complete_purge_item iid tok now db =
     (case purge_item_session_id iid tok db of
        None \<Rightarrow> (db, Some SeLeaseLost)
      | Some s \<Rightarrow>
          (refresh_purge_job_status s now (update_items (leased_item iid tok) (complete_item now) db), None))"

definition retry_purge_item ::
    "string \<Rightarrow> string \<Rightarrow> instant \<Rightarrow> instant \<Rightarrow> sess_db \<Rightarrow> sess_db \<times> session_error option" where
  "retry_purge_item iid tok nxt now db =
     (case purge_item_session_id iid tok db of
        None \<Rightarrow> (db, Some SeLeaseLost)
      | Some s \<Rightarrow>
          (refresh_purge_job_status s now (update_items (leased_item iid tok) (retrying_item nxt now) db), None))"

text \<open>
  One item of \<open>PurgeItemRunner.RunOnce\<close>: \<open>ok\<close> tells whether the content of the session was
  deleted.
\<close>

definition purge_one :: "(session_id \<Rightarrow> bool) \<Rightarrow> instant \<Rightarrow> purge_item \<Rightarrow> sess_db \<Rightarrow> sess_db" where
  "purge_one ok now i db =
     (let tok = (case pi_token i of Some t \<Rightarrow> t | None \<Rightarrow> [])
      in if ok (pi_session i) then fst (complete_purge_item (pi_id i) tok now db)
         else fst (retry_purge_item (pi_id i) tok (now + cleanup_backoff (pi_attempts i)) now db))"

text \<open>The pass answers with the sessions whose content the executor was asked to delete.\<close>

definition run_purge_once ::
    "(session_id \<Rightarrow> bool) \<Rightarrow> (string \<Rightarrow> string) \<Rightarrow> (string \<Rightarrow> instant) \<Rightarrow> instant \<Rightarrow> sess_db \<Rightarrow>
       sess_db \<times> session_id list" where
  "run_purge_once ok tok clock now db =
     (case claim_purge_items tok now (now + cleanup_lease_duration) cleanup_batch_size db of
        (db', Inl _) \<Rightarrow> (db', [])
      | (db', Inr is) \<Rightarrow> (fold (\<lambda>i. purge_one ok (clock (pi_id i)) i) is db', map pi_session is))"

section \<open>The status of a deletion\<close>

definition kind_rank :: "purge_kind \<Rightarrow> nat" where
  "kind_rank k = (case k of PkContent \<Rightarrow> 0 | PkMetadata \<Rightarrow> 1 | PkWorkerSession \<Rightarrow> 2)"

record purge_item_status =
  ps_kind :: purge_kind
  ps_state :: purge_item_state
  ps_attempts :: int
  ps_next :: "instant option"
  ps_completed :: "instant option"
  ps_error :: string

definition item_status :: "purge_item \<Rightarrow> purge_item_status" where
  "item_status i =
     \<lparr>ps_kind = pi_kind i, ps_state = pi_state i, ps_attempts = pi_attempts i,
      ps_next = (if pi_state i = PiComplete then None else Some (pi_next i)),
      ps_completed = pi_completed i, ps_error = pi_error i\<rparr>"

definition get_purge_status ::
    "session_id \<Rightarrow> string \<Rightarrow> sess_db \<Rightarrow> session_error + purge_job \<times> purge_item_status list" where
  "get_purge_status s user db =
     (case sql_row (\<lambda>j. pj_session j = s \<and> pj_user j = user) (sd_jobs db) of
        None \<Rightarrow> Inl SePurgeNotFound
      | Some j \<Rightarrow> Inr (j, map item_status
                            (sql_select (\<lambda>i. pi_session i = s) (\<lambda>i. kind_rank (pi_kind i)) (sd_items db))))"

end
