(* ===== verification/CleanupMachine.thy ===== *)
theory CleanupMachine
  imports Cleanup
begin

text \<open>
  The operations on the session store as one machine: every method of the store, every runner's
  transaction and every ledger transaction is a step.  The invariant of the tables - unique keys,
  one job per deleted session, one item per kind, an open worker item exactly while the outbox
  holds a task - is preserved step by step, and the frame lemmas say which tables a step leaves
  alone.
\<close>

section \<open>The operations of the store as one machine\<close>

datatype store_op =
    StExec exec_op
  | StUpsert session_row
  | StWorkerSession session_id string
  | StDeadlines session_id string instant instant instant instant instant
  | StCeiling session_id string
  | StSnapshot session_id "string option"
  | StDelete deletion_ids instant session_id
  | StDeletePhysical string instant session_id
  | StDeleteTerminated "session_id \<Rightarrow> string" instant instant instant
  | StRetire deletion_ids session_id instant
  | StClaim "string \<Rightarrow> string" instant instant int
  | StComplete string string instant
  | StRetry string string instant instant
  | StUnsupported string string instant
  | StClaimItems "string \<Rightarrow> string" instant instant int
  | StCompleteItem string string instant
  | StRetryItem string string instant instant

text \<open>The columns of a session row that the execution ledger reads.\<close>

definition session_columns :: "session_row \<Rightarrow> session_view" where
  "session_columns r = \<lparr>sv_state = state_text (si_state r), sv_policy = si_policy r,
     sv_deleted_at = si_deleted r, sv_conversation_expires = si_conv r\<rparr>"

definition ledger_of :: "sess_db \<Rightarrow> exec_db" where
  "ledger_of db = (sd_exec db)\<lparr>t_sessions := (\<lambda>i. map_option session_columns (find_session i db))\<rparr>"

text \<open>The operations of the execution ledger itself; its session steps stand for this store.\<close>

fun ledger_only :: "exec_op \<Rightarrow> bool" where
  "ledger_only (OpSessionSet s v) = False"
| "ledger_only (OpSessionDelete s) = False"
| "ledger_only _ = True"

fun store_step :: "store_op \<Rightarrow> sess_db \<Rightarrow> sess_db" where
  "store_step (StExec op) db =
     (if ledger_only op then db\<lparr>sd_exec := exec_step op (ledger_of db)\<rparr> else db)"
| "store_step (StUpsert r) db = fst (upsert r db)"
| "store_step (StWorkerSession i w) db = fst (update_worker_session_id_sql i w db)"
| "store_step (StDeadlines i rv a b c d e) db = fst (advance_lifecycle_deadlines i rv a b c d e db)"
| "store_step (StCeiling i c) db = fst (set_permission_ceiling_if_empty i c db)"
| "store_step (StSnapshot i s) db = fst (update_spec_snapshot i s db)"
| "store_step (StDelete ids now i) db = fst (mark_deleted_with_cleanup ids now i db)"
| "store_step (StDeletePhysical tid now i) db = fst (delete_physical_with_cleanup tid now i db)"
| "store_step (StDeleteTerminated tid now cc dc) db = fst (delete_terminated tid now cc dc db)"
| "store_step (StRetire ids i now) db = fst (retire_expired_lifecycle_session ids i now db)"
| "store_step (StClaim tok now lease limit) db = fst (claim_cleanup_tasks tok now lease limit db)"
| "store_step (StComplete tid tok now) db = fst (complete_cleanup_task tid tok now db)"
| "store_step (StRetry tid tok nxt now) db = fst (retry_cleanup_task tid tok nxt now db)"
| "store_step (StUnsupported tid tok now) db = fst (fail_unsupported_cleanup_task tid tok now db)"
| "store_step (StClaimItems tok now lease limit) db = fst (claim_purge_items tok now lease limit db)"
| "store_step (StCompleteItem iid tok now) db = fst (complete_purge_item iid tok now db)"
| "store_step (StRetryItem iid tok nxt now) db = fst (retry_purge_item iid tok nxt now db)"

definition empty_sess_db :: sess_db where
  "empty_sess_db = \<lparr>sd_sessions = [], sd_tasks = [], sd_jobs = [], sd_items = [],
                   sd_exec = empty_db (\<lambda>_. None)\<rparr>"

section \<open>The invariant of the purge tables\<close>

definition open_item :: "purge_item \<Rightarrow> bool" where
  "open_item i \<longleftrightarrow> pi_state i \<in> set [PiPending, PiRunning, PiRetrying]"

text \<open>Keys, references and the item states a kind can have.\<close>

definition purge_keys :: "cleanup_task list \<Rightarrow> purge_job list \<Rightarrow> purge_item list \<Rightarrow> bool" where
  "purge_keys ks js is \<longleftrightarrow>
     unique_index (\<lambda>_. True) ct_session ks \<and> unique_index (\<lambda>_. True) ct_id ks \<and>
     unique_index (\<lambda>_. True) pj_session js \<and> unique_index (\<lambda>_. True) pj_id js \<and>
     unique_index (\<lambda>_. True) (\<lambda>i. (pi_job i, pi_kind i)) is \<and> unique_index (\<lambda>_. True) pi_id is \<and>
     (\<forall>i \<in> set is. \<exists>j \<in> set js. pj_id j = pi_job i \<and> pj_session j = pi_session i) \<and>
     (\<forall>j \<in> set js. \<forall>k. \<exists>i \<in> set is. pi_job i = pj_id j \<and> pi_kind i = k)"

definition has_task :: "session_id \<Rightarrow> cleanup_task list \<Rightarrow> bool" where
  "has_task s ks \<longleftrightarrow> (\<exists>k \<in> set ks. ct_session k = s)"

definition item_ok :: "cleanup_task list \<Rightarrow> purge_item \<Rightarrow> bool" where
  "item_ok ks i \<longleftrightarrow> pi_state i \<noteq> PiBlocked \<and>
     (case pi_kind i of
        PkMetadata \<Rightarrow> pi_state i = PiComplete
      | PkContent \<Rightarrow> pi_state i \<noteq> PiUnsupported
      | PkWorkerSession \<Rightarrow> open_item i \<longleftrightarrow> has_task (pi_session i) ks)"

definition job_ok :: "purge_item list \<Rightarrow> purge_job \<Rightarrow> bool" where
  "job_ok is j \<longleftrightarrow> pj_state j = job_state (pj_session j) is \<and>
     (pj_completed j = None \<longleftrightarrow> (\<exists>i \<in> set is. pi_session i = pj_session j \<and> pi_state i \<noteq> PiComplete))"

definition purge_inv :: "cleanup_task list \<Rightarrow> purge_job list \<Rightarrow> purge_item list \<Rightarrow> bool" where
  "purge_inv ks js is \<longleftrightarrow> purge_keys ks js is \<and> (\<forall>i \<in> set is. item_ok ks i) \<and> (\<forall>j \<in> set js. job_ok is j)"

definition sess_inv :: "sess_db \<Rightarrow> bool" where
  "sess_inv db \<longleftrightarrow>
     unique_index (\<lambda>_. True) si_id (sd_sessions db) \<and>
     purge_inv (sd_tasks db) (sd_jobs db) (sd_items db) \<and>
     (\<forall>r \<in> set (sd_sessions db). pending_cleanup (si_id r) db \<longrightarrow>
        (\<exists>j \<in> set (sd_jobs db). pj_session j = si_id r)) \<and>
     exec_inv (sd_exec db) \<and> queue_inv (sd_exec db)"

lemma empty_sess_inv: "sess_inv empty_sess_db"
  using empty_db_inv [of "\<lambda>_. None"]
  by (simp add: sess_inv_def empty_sess_db_def purge_inv_def purge_keys_def unique_index_def)

lemma job_state_cong:
  assumes "\<And>Q. (\<exists>i \<in> set is'. pi_session i = s \<and> Q i) \<longleftrightarrow> (\<exists>i \<in> set is. pi_session i = s \<and> Q i)"
  shows "job_state s is' = job_state s is"
  by (simp only: job_state_def item_of_def assms)

lemma job_ok_cong:
  assumes "\<And>Q. (\<exists>i \<in> set is'. pi_session i = pj_session j \<and> Q i) \<longleftrightarrow>
                (\<exists>i \<in> set is. pi_session i = pj_session j \<and> Q i)"
  shows "job_ok is' j = job_ok is j"
  by (simp only: job_ok_def job_state_cong [OF assms] assms)

lemma refresh_job_ok: "job_ok is (refresh_job_row is now j)"
  by (auto simp: job_ok_def refresh_job_row_def coalesce_def item_of_def split: option.splits)

lemma refresh_job_sel [simp]:
  "pj_id (refresh_job_row is now j) = pj_id j"
  "pj_session (refresh_job_row is now j) = pj_session j"
  by (simp_all add: refresh_job_row_def)

lemma refresh_keys [simp]:
  "purge_keys ks (sql_update P (refresh_job_row is now) js) is' = purge_keys ks js is'"
proof -
  have u: "unique_index (\<lambda>_. True) key (sql_update P f js) = unique_index (\<lambda>_. True) key js"
    if "\<And>r. key (f r) = key r" for key :: "purge_job \<Rightarrow> 'k" and f
    by (simp add: unique_index_def map_sql_update that)
  have sel: "pj_id (if P j then refresh_job_row is now j else j) = pj_id j"
    "pj_session (if P j then refresh_job_row is now j else j) = pj_session j" for j
    by simp_all
  show ?thesis
    by (simp add: purge_keys_def u set_sql_update sel del: if_image_distrib)
qed
text \<open>
  The shape of every step on the items: some items of one session change, possibly the outbox
  too, and the job of the session is refreshed.
\<close>

lemma purge_step:
  assumes inv: "purge_inv ks js is"
    and ks': "unique_index (\<lambda>_. True) ct_session ks'" "unique_index (\<lambda>_. True) ct_id ks'"
    and keep: "\<And>i. P i \<Longrightarrow> pi_id (f i) = pi_id i \<and> pi_job (f i) = pi_job i \<and>
                 pi_session (f i) = pi_session i \<and> pi_kind (f i) = pi_kind i"
    and loc: "\<And>i. i \<in> set is \<Longrightarrow> P i \<Longrightarrow> pi_session i = s"
    and ok: "\<And>i. i \<in> set is \<Longrightarrow> item_ok ks' (if P i then f i else i)"
  shows "purge_inv ks' (sql_update (\<lambda>j. pj_session j = s) (refresh_job_row (sql_update P f is) now) js)
           (sql_update P f is)"
    (is "purge_inv ks' ?js ?is")
proof -
  have img: "set ?is = (\<lambda>i. if P i then f i else i) ` set is"
    by (rule set_sql_update)
  have keys: "purge_keys ks js is"
    using inv by (simp add: purge_inv_def)
  have u: "unique_index (\<lambda>_. True) (\<lambda>i. (pi_job i, pi_kind i)) ?is" "unique_index (\<lambda>_. True) pi_id ?is"
    using keys by (auto simp: purge_keys_def keep intro: unique_index_update)
  have ref: "\<forall>i \<in> set ?is. \<exists>j \<in> set js. pj_id j = pi_job i \<and> pj_session j = pi_session i"
    using keys unfolding img purge_keys_def by (auto simp: keep)
  have cov: "\<exists>i \<in> set ?is. pi_job i = pj_id j \<and> pi_kind i = k" if "j \<in> set js" for j k
  proof -
    obtain i where "i \<in> set is" "pi_job i = pj_id j" "pi_kind i = k"
      using keys \<open>j \<in> set js\<close> unfolding purge_keys_def by meson
    then show ?thesis
      unfolding img by (intro bexI [of _ "if P i then f i else i"] imageI) (simp_all add: keep)
  qed
  have "purge_keys ks' js ?is"
    using keys ks' u ref cov by (simp add: purge_keys_def)
  then have k: "purge_keys ks' ?js ?is" by simp
  have items: "item_ok ks' i" if "i \<in> set ?is" for i
    using that ok by (auto elim!: sql_update_elim)
  have jobs: "job_ok ?is j'" if j': "j' \<in> set ?js" for j'
  proof -
    obtain j where j: "j \<in> set js" "j' = (if pj_session j = s then refresh_job_row ?is now j else j)"
      using j' by (rule sql_update_elim)
    show ?thesis
    proof (cases "pj_session j = s")
      case True
      then show ?thesis using j(2) by (simp add: refresh_job_ok)
    next
      case False
      have "job_ok ?is j = job_ok is j"
      proof (rule job_ok_cong)
        fix Q
        let ?g = "\<lambda>i. if P i then f i else i"
        have "(\<exists>i \<in> set ?is. pi_session i = pj_session j \<and> Q i) \<longleftrightarrow>
              (\<exists>i \<in> set is. pi_session (?g i) = pj_session j \<and> Q (?g i))"
          unfolding img by blast
        also have "\<dots> \<longleftrightarrow> (\<exists>i \<in> set is. pi_session i = pj_session j \<and> Q i)"
          by (rule bex_cong) (use loc False keep in auto)
        finally show "(\<exists>i \<in> set ?is. pi_session i = pj_session j \<and> Q i) \<longleftrightarrow>
              (\<exists>i \<in> set is. pi_session i = pj_session j \<and> Q i)" .
      qed
      then show ?thesis using False j inv by (simp add: purge_inv_def)
    qed
  qed
  show ?thesis using k items jobs by (simp add: purge_inv_def)
qed
lemma pending_has_task: "pending_cleanup s db = has_task s (sd_tasks db)"
  by (simp add: pending_cleanup_def has_task_def)

lemma has_task_update [simp]:
  "(\<And>k. ct_session (f k) = ct_session k) \<Longrightarrow> has_task s (sql_update P f ks) = has_task s ks"
  by (simp add: has_task_def set_sql_update if_distrib [of ct_session] del: if_image_distrib)

lemma has_task_delete:
  assumes "unique_index (\<lambda>_. True) ct_session ks" "k \<in> set ks" "P k"
    and "\<And>k'. k' \<in> set ks \<Longrightarrow> P k' \<Longrightarrow> k' = k"
  shows "has_task t (sql_delete P ks) \<longleftrightarrow> t \<noteq> ct_session k \<and> has_task t ks"
proof -
  have "P k' \<longleftrightarrow> ct_session k' = ct_session k" if "k' \<in> set ks" for k'
    using unique_index_eq [OF assms(1) that assms(2)] assms(3) assms(4) [OF that] by blast
  then show ?thesis by (auto simp: has_task_def)
qed

lemma item_state_simps [simp]:
  "pi_id (running_item a n l t now i) = pi_id i" "pi_job (running_item a n l t now i) = pi_job i"
  "pi_session (running_item a n l t now i) = pi_session i" "pi_kind (running_item a n l t now i) = pi_kind i"
  "pi_state (running_item a n l t now i) = PiRunning"
  "pi_id (complete_item now i) = pi_id i" "pi_job (complete_item now i) = pi_job i"
  "pi_session (complete_item now i) = pi_session i" "pi_kind (complete_item now i) = pi_kind i"
  "pi_state (complete_item now i) = PiComplete"
  "pi_id (unsupported_item now i) = pi_id i" "pi_job (unsupported_item now i) = pi_job i"
  "pi_session (unsupported_item now i) = pi_session i" "pi_kind (unsupported_item now i) = pi_kind i"
  "pi_state (unsupported_item now i) = PiUnsupported"
  "pi_id (retrying_item n now i) = pi_id i" "pi_job (retrying_item n now i) = pi_job i"
  "pi_session (retrying_item n now i) = pi_session i" "pi_kind (retrying_item n now i) = pi_kind i"
  "pi_state (retrying_item n now i) = PiRetrying"
  "pi_id (lease_item l t now i) = pi_id i" "pi_job (lease_item l t now i) = pi_job i"
  "pi_session (lease_item l t now i) = pi_session i" "pi_kind (lease_item l t now i) = pi_kind i"
  "pi_state (lease_item l t now i) = PiRunning"
  by (simp_all add: running_item_def complete_item_def unsupported_item_def retrying_item_def
      lease_item_def)

lemma task_simps [simp]:
  "ct_id (lease_task l t now k) = ct_id k" "ct_session (lease_task l t now k) = ct_session k"
  "ct_id (retry_task n now k) = ct_id k" "ct_session (retry_task n now k) = ct_session k"
  by (simp_all add: lease_task_def retry_task_def)

lemma task_keys_update:
  "(\<And>k. ct_session (f k) = ct_session k) \<Longrightarrow> (\<And>k. ct_id (f k) = ct_id k) \<Longrightarrow>
   unique_index (\<lambda>_. True) ct_session ks \<and> unique_index (\<lambda>_. True) ct_id ks \<Longrightarrow>
   unique_index (\<lambda>_. True) ct_session (sql_update P f ks) \<and>
   unique_index (\<lambda>_. True) ct_id (sql_update P f ks)"
  by (simp add: unique_index_update)

text \<open>The worker item of a session follows the outbox.\<close>

lemma worker_step:
  assumes inv: "purge_inv ks js is"
    and ks': "unique_index (\<lambda>_. True) ct_session ks' \<and> unique_index (\<lambda>_. True) ct_id ks'"
    and others: "\<And>t. t \<noteq> s \<Longrightarrow> has_task t ks' = has_task t ks"
    and keep: "\<And>i. pi_id (f i) = pi_id i \<and> pi_job (f i) = pi_job i \<and>
                 pi_session (f i) = pi_session i \<and> pi_kind (f i) = pi_kind i"
    and st: "\<And>i. pi_state (f i) \<noteq> PiBlocked \<and> (open_item (f i) \<longleftrightarrow> has_task s ks')"
    and task: "has_task s ks"
  shows "purge_inv ks' (sql_update (\<lambda>j. pj_session j = s)
             (refresh_job_row (sql_update (worker_item s) f is) now) js) (sql_update (worker_item s) f is)"
proof (rule purge_step [OF inv])
  fix i assume i: "i \<in> set is"
  have ok: "item_ok ks i" using inv i by (simp add: purge_inv_def)
  show "item_ok ks' (if worker_item s i then f i else i)"
  proof (cases "worker_item s i")
    case True
    then show ?thesis using keep [of i] st [of i] by (simp add: item_ok_def worker_item_def)
  next
    case False
    then have "pi_session i = s \<Longrightarrow> pi_kind i = PkWorkerSession \<Longrightarrow> False"
      using ok task by (auto simp: worker_item_def item_ok_def open_item_def)
    then show ?thesis
      using False ok others by (auto simp: item_ok_def split: purge_kind.splits)
  qed
qed (use ks' keep in \<open>auto simp: worker_item_def\<close>)

section \<open>The invariant, operation by operation\<close>

text \<open>A row that has a task in the outbox was deleted through a job.\<close>

definition rows_inv :: "sess_db \<Rightarrow> bool" where
  "rows_inv db \<longleftrightarrow> unique_index (\<lambda>_. True) si_id (sd_sessions db) \<and>
     (\<forall>r \<in> set (sd_sessions db). has_task (si_id r) (sd_tasks db) \<longrightarrow>
        (\<exists>j \<in> set (sd_jobs db). pj_session j = si_id r))"

definition tables_inv :: "sess_db \<Rightarrow> bool" where
  "tables_inv db \<longleftrightarrow> purge_inv (sd_tasks db) (sd_jobs db) (sd_items db)"

lemma sess_inv_iff: "sess_inv db \<longleftrightarrow>
    rows_inv db \<and> tables_inv db \<and> exec_inv (sd_exec db) \<and> queue_inv (sd_exec db)"
  by (auto simp: sess_inv_def rows_inv_def tables_inv_def pending_has_task)

lemma sess_invI:
  assumes "sess_inv db" "rows_inv db'" "tables_inv db'" "sd_exec db' = sd_exec db"
  shows "sess_inv db'"
  using assms by (simp add: sess_inv_iff)

text \<open>Steps that only touch session rows.\<close>

lemma update_sessions_inv:
  assumes "sess_inv db" "\<And>r. si_id (f r) = si_id r"
  shows "sess_inv (fst (update_sessions P f db))"
proof (rule sess_invI [OF assms(1)])
  show "rows_inv (fst (update_sessions P f db))"
    using assms by (auto simp: update_sessions_def rows_inv_def sess_inv_iff unique_index_update
        elim!: sql_update_elim split: if_splits)
qed (use assms in \<open>simp_all add: update_sessions_def tables_inv_def sess_inv_iff\<close>)

lemma updated_row_id [simp]: "si_id (updated_row i r) = si_id r"
  by (simp add: updated_row_def)

lemma find_session_None: "find_session i db = None \<longleftrightarrow> (\<forall>r \<in> set (sd_sessions db). si_id r \<noteq> i)"
  by (simp add: find_session_def sql_row_None)

lemma find_session_Some: "find_session i db = Some r \<Longrightarrow> r \<in> set (sd_sessions db) \<and> si_id r = i"
  by (auto simp: find_session_def dest: sql_row_Some)

lemma upsert_inv [inv_intros]: "sess_inv db \<Longrightarrow> sess_inv (fst (upsert i db))"
proof -
  assume inv: "sess_inv db"
  let ?upd = "update_sessions (\<lambda>r. si_id r = si_id i \<and> \<not> row_deleted r) (updated_row i) db"
  have ins: "sess_inv (db\<lparr>sd_sessions := sd_sessions db @ [inserted_row i]\<rparr>)"
    if "\<not> pending_cleanup (si_id i) db" "find_session (si_id i) db = None"
    using inv that
    by (auto simp: sess_inv_iff rows_inv_def tables_inv_def unique_index_snoc find_session_None
        pending_has_task inserted_row_def)
  have "sess_inv (fst ?upd)" by (rule update_sessions_inv [OF inv]) simp
  then show ?thesis
    using inv ins by (auto simp: upsert_def split: option.splits prod.splits nat.splits)
qed

lemma update_worker_session_id_inv [inv_intros]:
  "sess_inv db \<Longrightarrow> sess_inv (fst (update_worker_session_id_sql i w db))"
  using update_sessions_inv [of db "\<lambda>r. r\<lparr>si_wsid := w\<rparr>" "\<lambda>r. si_id r = i"]
  by (auto simp: update_worker_session_id_sql_def split: prod.splits nat.splits)

lemma advance_deadlines_inv [inv_intros]:
  "sess_inv db \<Longrightarrow> sess_inv (fst (advance_lifecycle_deadlines i rv a b c d e db))"
  using update_sessions_inv [of db "advance_row a b c d e"
      "\<lambda>r. si_id r = i \<and> si_policy r = ''v2'' \<and> si_revision r = rv \<and> \<not> row_deleted r"]
  by (auto simp: advance_lifecycle_deadlines_def advance_row_def split: prod.splits nat.splits)

lemma set_ceiling_inv [inv_intros]:
  "sess_inv db \<Longrightarrow> sess_inv (fst (set_permission_ceiling_if_empty i c db))"
  using update_sessions_inv [of db "\<lambda>r. r\<lparr>si_ceiling := c\<rparr>" "\<lambda>r. si_id r = i \<and> si_ceiling r = []"]
  by (auto simp: set_permission_ceiling_if_empty_def Let_def split: option.splits)

lemma update_snapshot_inv [inv_intros]: "sess_inv db \<Longrightarrow> sess_inv (fst (update_spec_snapshot i s db))"
  using update_sessions_inv [of db "\<lambda>r. r\<lparr>si_snapshot := s\<rparr>" "\<lambda>r. si_id r = i"]
  by (auto simp: update_spec_snapshot_def split: option.splits prod.splits nat.splits)

text \<open>Steps on the outbox and the items.\<close>

lemma has_task_sel: "k \<in> set ks \<Longrightarrow> has_task (ct_session k) ks"
  by (auto simp: has_task_def)

lemma refresh_session_sel: "pj_session (if P j then refresh_job_row is now j else j) = pj_session j"
  by simp

lemma refresh_sessions:
  "(\<exists>j \<in> set (sql_update P (refresh_job_row is now) js). pj_session j = s) \<longleftrightarrow>
     (\<exists>j \<in> set js. pj_session j = s)"
  by (simp add: set_sql_update refresh_session_sel del: if_image_distrib)

lemma refresh_rows [simp]: "rows_inv (refresh_purge_job_status s now db) = rows_inv db"
  by (simp add: rows_inv_def refresh_purge_job_status_def refresh_sessions)

lemma update_items_rows [simp]: "rows_inv (update_items P f db) = rows_inv db"
  by (simp add: rows_inv_def update_items_def)

lemma tables_worker_step:
  assumes "tables_inv db"
    and "unique_index (\<lambda>_. True) ct_session ks' \<and> unique_index (\<lambda>_. True) ct_id ks'"
    and "\<And>t. t \<noteq> s \<Longrightarrow> has_task t ks' = has_task t (sd_tasks db)"
    and "\<And>i. pi_id (f i) = pi_id i \<and> pi_job (f i) = pi_job i \<and>
           pi_session (f i) = pi_session i \<and> pi_kind (f i) = pi_kind i"
    and "\<And>i. pi_state (f i) \<noteq> PiBlocked \<and> (open_item (f i) \<longleftrightarrow> has_task s ks')"
    and "has_task s (sd_tasks db)"
  shows "tables_inv (refresh_purge_job_status s now (update_items (worker_item s) f (db\<lparr>sd_tasks := ks'\<rparr>)))"
  using worker_step [OF assms(1) [unfolded tables_inv_def] assms(2-6)]
  by (simp add: tables_inv_def refresh_purge_job_status_def update_items_def)

lemma tables_keys: "tables_inv db \<Longrightarrow>
    unique_index (\<lambda>_. True) ct_session (sd_tasks db) \<and> unique_index (\<lambda>_. True) ct_id (sd_tasks db)"
  by (simp add: tables_inv_def purge_inv_def purge_keys_def)

lemma tables_item_step:
  assumes inv: "tables_inv db"
    and keep: "\<And>i. pi_id (f i) = pi_id i \<and> pi_job (f i) = pi_job i \<and>
           pi_session (f i) = pi_session i \<and> pi_kind (f i) = pi_kind i"
    and st: "\<And>i. pi_state (f i) \<notin> {PiBlocked, PiUnsupported}"
    and P: "\<And>i. P i \<Longrightarrow> pi_id i = iid \<and> pi_kind i = PkContent"
    and it: "it \<in> set (sd_items db)" "pi_id it = iid" "pi_session it = s"
  shows "tables_inv (refresh_purge_job_status s now (update_items P f db))"
proof -
  have pinv: "purge_inv (sd_tasks db) (sd_jobs db) (sd_items db)"
    using inv by (simp add: tables_inv_def)
  have uid: "unique_index (\<lambda>_. True) pi_id (sd_items db)"
    using pinv by (simp add: purge_inv_def purge_keys_def)
  show ?thesis
    unfolding tables_inv_def refresh_purge_job_status_def update_items_def
  proof (simp, rule purge_step [OF pinv])
    fix i assume i: "i \<in> set (sd_items db)"
    show "pi_session i = s" if "P i"
      using unique_index_eq [OF uid i it(1)] P [OF that] it by simp
    show "item_ok (sd_tasks db) (if P i then f i else i)"
      using pinv i P [of i] st [of i] keep [of i] by (auto simp: item_ok_def purge_inv_def)
  qed (use tables_keys [OF inv] keep in auto)
qed

lemma sql_row_elim:
  assumes "sql_row P t = Some r"
  obtains "r \<in> set t" "P r"
  using sql_row_Some [OF assms] by blast

lemma complete_item_inv [inv_intros]: "sess_inv db \<Longrightarrow> sess_inv (fst (complete_purge_item iid tok now db))"
proof (cases "sql_row (leased_item iid tok) (sd_items db)")
  case (Some i)
  assume inv: "sess_inv db"
  have i: "i \<in> set (sd_items db)" "pi_id i = iid"
    using sql_row_Some [OF Some] by (auto simp: leased_item_def)
  have "tables_inv (refresh_purge_job_status (pi_session i) now
          (update_items (leased_item iid tok) (complete_item now) db))"
    by (rule tables_item_step [where iid = iid and it = i]) (use inv i in \<open>auto simp: leased_item_def sess_inv_iff\<close>)
  then show ?thesis
    using inv Some
    by (auto simp: complete_purge_item_def purge_item_session_id_def sess_inv_iff)
       (simp_all add: refresh_purge_job_status_def update_items_def)
qed (simp add: complete_purge_item_def purge_item_session_id_def)

lemma retry_item_inv [inv_intros]: "sess_inv db \<Longrightarrow> sess_inv (fst (retry_purge_item iid tok nxt now db))"
proof (cases "sql_row (leased_item iid tok) (sd_items db)")
  case (Some i)
  assume inv: "sess_inv db"
  have i: "i \<in> set (sd_items db)" "pi_id i = iid"
    using sql_row_Some [OF Some] by (auto simp: leased_item_def)
  have "tables_inv (refresh_purge_job_status (pi_session i) now
          (update_items (leased_item iid tok) (retrying_item nxt now) db))"
    by (rule tables_item_step [where iid = iid and it = i]) (use inv i in \<open>auto simp: leased_item_def sess_inv_iff\<close>)
  then show ?thesis
    using inv Some
    by (auto simp: retry_purge_item_def purge_item_session_id_def sess_inv_iff)
       (simp_all add: refresh_purge_job_status_def update_items_def)
qed (simp add: retry_purge_item_def purge_item_session_id_def)

lemma lease_item_inv:
  assumes "tables_inv db" "it \<in> set (sd_items db)"
  shows "tables_inv (refresh_purge_job_status (pi_session it) now
           (update_items (leasable_item (pi_id it) now) (lease_item lease tok now) db))"
  by (rule tables_item_step [where iid = "pi_id it" and it = it])
     (use assms in \<open>auto simp: leasable_item_def\<close>)

text \<open>The claims keep the identity of the rows they were selected by.\<close>

definition item_named :: "sess_db \<Rightarrow> purge_item \<Rightarrow> bool" where
  "item_named db i \<longleftrightarrow> (\<exists>i' \<in> set (sd_items db). pi_id i' = pi_id i \<and> pi_session i' = pi_session i)"

lemma item_named_step:
  assumes "item_named db i" "\<And>i. pi_id (f i) = pi_id i \<and> pi_session (f i) = pi_session i"
  shows "item_named (refresh_purge_job_status s now (update_items P f db)) i"
proof -
  obtain i' where i': "i' \<in> set (sd_items db)" "pi_id i' = pi_id i" "pi_session i' = pi_session i"
    using assms(1) by (auto simp: item_named_def)
  have "(if P i' then f i' else i') \<in> set (sd_items (refresh_purge_job_status s now (update_items P f db)))"
    using i'(1) by (simp add: refresh_purge_job_status_def update_items_def sql_update_def)
  then show ?thesis using i' assms(2) unfolding item_named_def by (metis (full_types))
qed

lemma claim_items_each_inv:
  assumes "tables_inv db" "rows_inv db" "\<forall>i \<in> set is. item_named db i"
    and "claim_items_each tok now lease is db = Some (db', is')"
  shows "tables_inv db' \<and> rows_inv db' \<and> sd_exec db' = sd_exec db"
  using assms
proof (induction "is" arbitrary: db db' is')
  case (Cons i "is")
  let ?db = "refresh_purge_job_status (pi_session i) now
    (update_items (leasable_item (pi_id i) now) (lease_item lease (tok (pi_id i)) now) db)"
  obtain it where it: "it \<in> set (sd_items db)" "pi_id it = pi_id i" "pi_session it = pi_session i"
    using Cons.prems(3) by (auto simp: item_named_def)
  obtain is'' where c: "claim_items_each tok now lease is ?db = Some (db', is'')"
    using Cons.prems(4) by (auto split: if_splits)
  have "tables_inv ?db"
    using lease_item_inv [OF Cons.prems(1) it(1)] by (simp add: it)
  moreover have "\<forall>i \<in> set is. item_named ?db i"
    using Cons.prems(3) by (auto intro!: item_named_step)
  ultimately have "tables_inv db' \<and> rows_inv db' \<and> sd_exec db' = sd_exec ?db"
    using Cons.IH [OF _ _ _ c] Cons.prems(2) by simp
  then show ?case by (simp add: refresh_purge_job_status_def update_items_def)
qed simp

lemma claim_items_inv [inv_intros]:
  assumes "sess_inv db"
  shows "sess_inv (fst (claim_purge_items tok now lease limit db))"
proof (cases "limit \<le> 0")
  case False
  let ?is = "take (nat limit) (sql_select (purge_due now) (\<lambda>i. (pi_next i, pi_created i)) (sd_items db))"
  have named: "\<forall>i \<in> set ?is. item_named db i"
  proof
    fix i assume "i \<in> set ?is"
    then have "i \<in> set (sd_items db)" by (auto dest!: in_set_takeD)
    then show "item_named db i" by (auto simp: item_named_def)
  qed
  show ?thesis
  proof (cases "claim_items_each tok now lease ?is db")
    case None
    then show ?thesis using assms False by (simp add: claim_purge_items_def)
  next
    case (Some p)
    then show ?thesis
      using claim_items_each_inv [OF _ _ named, of tok now lease] assms False
      by (cases p) (simp add: claim_purge_items_def sess_inv_iff)
  qed
qed (simp add: claim_purge_items_def assms)

definition task_named :: "sess_db \<Rightarrow> cleanup_task \<Rightarrow> bool" where
  "task_named db k \<longleftrightarrow> (\<exists>k' \<in> set (sd_tasks db). ct_id k' = ct_id k \<and> ct_session k' = ct_session k)"

lemma task_named_update:
  assumes "task_named db k" "\<And>k. ct_id (f k) = ct_id k \<and> ct_session (f k) = ct_session k"
    and "sd_tasks db' = sql_update P f (sd_tasks db)"
  shows "task_named db' k"
proof -
  obtain k' where k': "k' \<in> set (sd_tasks db)" "ct_id k' = ct_id k" "ct_session k' = ct_session k"
    using assms(1) by (auto simp: task_named_def)
  have "(if P k' then f k' else k') \<in> set (sd_tasks db')"
    using k'(1) by (simp add: assms(3) sql_update_def)
  then show ?thesis using k' assms(2) unfolding task_named_def by (metis (full_types))
qed

lemma rows_inv_tasks:
  "(\<And>t. has_task t ks' \<Longrightarrow> has_task t (sd_tasks db)) \<Longrightarrow> rows_inv db \<Longrightarrow> rows_inv (db\<lparr>sd_tasks := ks'\<rparr>)"
  by (auto simp: rows_inv_def)

text \<open>Leasing tasks changes no session name and no id.\<close>

lemma purge_inv_tasks:
  assumes "purge_inv ks js is" "unique_index (\<lambda>_. True) ct_session ks' \<and> unique_index (\<lambda>_. True) ct_id ks'"
    and "\<And>t. has_task t ks' = has_task t ks"
  shows "purge_inv ks' js is"
proof -
  have "item_ok ks' = item_ok ks" by (rule ext) (simp only: item_ok_def assms(3))
  then show ?thesis using assms(1,2) by (simp add: purge_inv_def purge_keys_def)
qed

lemma claim_each_inv:
  assumes "tables_inv db" "rows_inv db" "\<forall>k \<in> set ks. task_named db k"
    and "claim_each tok now lease ks db = (db', ks')"
  shows "tables_inv db' \<and> rows_inv db' \<and> sd_exec db' = sd_exec db"
  using assms
proof (induction ks arbitrary: db db' ks')
  case (Cons k ks)
  let ?P = "\<lambda>k'. ct_id k' = ct_id k \<and> lease_free (ct_lease k') now"
  let ?f = "lease_task lease (tok (ct_id k)) now"
  let ?db1 = "db\<lparr>sd_tasks := sql_update ?P ?f (sd_tasks db)\<rparr>"
  let ?db2 = "mark_cleanup_item_running (ct_session k) (ct_attempts k + 1) (ct_next k) lease
                (tok (ct_id k)) now ?db1"
  have keys: "unique_index (\<lambda>_. True) ct_session (sd_tasks ?db1) \<and>
              unique_index (\<lambda>_. True) ct_id (sd_tasks ?db1)"
    using task_keys_update [of ?f] tables_keys [OF Cons.prems(1)] by simp
  have rows: "rows_inv ?db1"
    by (rule rows_inv_tasks [OF _ Cons.prems(2)]) simp
  have task: "has_task (ct_session k) (sd_tasks db)"
    using Cons.prems(3) by (auto simp: task_named_def has_task_def)
  show ?case
  proof (cases "sql_count ?P (sd_tasks db) = 1")
    case True
    have att: "ct_attempts (?f k) = ct_attempts k + 1" by (simp add: lease_task_def)
    obtain ks'' where c: "claim_each tok now lease ks ?db2 = (db', ks'')"
      using Cons.prems(4) True by (auto simp: Let_def att split: prod.splits)
    have "tables_inv ?db2"
      unfolding mark_cleanup_item_running_def
      by (rule tables_worker_step [OF Cons.prems(1) keys [simplified]])
         (use task in \<open>auto simp: open_item_def\<close>)
    moreover have "rows_inv ?db2"
      using rows by (simp add: mark_cleanup_item_running_def)
    moreover have "sd_tasks ?db2 = sql_update ?P ?f (sd_tasks db)"
      by (simp add: mark_cleanup_item_running_def refresh_purge_job_status_def update_items_def)
    then have "\<forall>k \<in> set ks. task_named ?db2 k"
      using Cons.prems(3) task_named_update [of db _ ?f ?db2 ?P] by simp
    ultimately have "tables_inv db' \<and> rows_inv db' \<and> sd_exec db' = sd_exec ?db2"
      using Cons.IH [OF _ _ _ c] by simp
    then show ?thesis
      by (simp add: mark_cleanup_item_running_def refresh_purge_job_status_def update_items_def)
  next
    case False
    then have c: "claim_each tok now lease ks ?db1 = (db', ks')"
      using Cons.prems(4) by (simp add: Let_def)
    have "tables_inv ?db1"
      using purge_inv_tasks [OF _ keys] Cons.prems(1) by (simp add: tables_inv_def)
    moreover have "\<forall>k \<in> set ks. task_named ?db1 k"
      using Cons.prems(3) task_named_update [of db _ ?f ?db1 ?P] by simp
    ultimately have "tables_inv db' \<and> rows_inv db' \<and> sd_exec db' = sd_exec ?db1"
      using Cons.IH [OF _ rows _ c] by simp
    then show ?thesis by simp
  qed
qed simp

lemma claim_tasks_inv [inv_intros]:
  assumes "sess_inv db"
  shows "sess_inv (fst (claim_cleanup_tasks tok now lease limit db))"
proof -
  let ?ks = "take (nat limit) (sql_select (cleanup_due now) (\<lambda>k. (ct_next k, ct_created k)) (sd_tasks db))"
  have named: "\<forall>k \<in> set ?ks. task_named db k"
  proof
    fix k assume "k \<in> set ?ks"
    then have "k \<in> set (sd_tasks db)" by (auto dest!: in_set_takeD)
    then show "task_named db k" by (auto simp: task_named_def)
  qed
  show ?thesis
    using claim_each_inv [OF _ _ named, of tok now lease] assms
    by (cases "claim_each tok now lease ?ks db") (simp add: claim_cleanup_tasks_def sess_inv_iff)
qed

text \<open>A completion names a task by id and token; ids are unique, so it is that task alone.\<close>

lemma delete_task_has:
  assumes "tables_inv db" "sql_row (\<lambda>k. ct_id k = tid \<and> ct_token k = Some tok) (sd_tasks db) = Some k"
  shows "has_task t (sql_delete (\<lambda>k. ct_id k = tid \<and> ct_token k = Some tok) (sd_tasks db)) \<longleftrightarrow>
           t \<noteq> ct_session k \<and> has_task t (sd_tasks db)"
proof -
  have k: "k \<in> set (sd_tasks db)" "ct_id k = tid \<and> ct_token k = Some tok"
    using sql_row_Some [OF assms(2)] by simp_all
  have u: "unique_index (\<lambda>_. True) ct_session (sd_tasks db)" "unique_index (\<lambda>_. True) ct_id (sd_tasks db)"
    using tables_keys [OF assms(1)] by simp_all
  show ?thesis
  proof (rule has_task_delete [OF u(1) k(1)])
    show "ct_id k = tid \<and> ct_token k = Some tok" by (rule k(2))
    fix k' assume "k' \<in> set (sd_tasks db)" "ct_id k' = tid \<and> ct_token k' = Some tok"
    then show "k' = k" by (intro unique_index_eq [OF u(2) _ k(1)]) (simp_all add: k(2))
  qed
qed

lemma delete_task_keys:
  "tables_inv db \<Longrightarrow> unique_index (\<lambda>_. True) ct_session (sql_delete P (sd_tasks db)) \<and>
     unique_index (\<lambda>_. True) ct_id (sql_delete P (sd_tasks db))"
  using tables_keys by (simp add: unique_index_delete)

lemma complete_task_inv [inv_intros]:
  assumes "sess_inv db"
  shows "sess_inv (fst (complete_cleanup_task tid tok now db))"
proof (cases "sql_row (\<lambda>k. ct_id k = tid \<and> ct_token k = Some tok) (sd_tasks db)")
  case (Some k)
  let ?ks = "sql_delete (\<lambda>k. ct_id k = tid \<and> ct_token k = Some tok) (sd_tasks db)"
  have inv: "tables_inv db" "rows_inv db" using assms by (simp_all add: sess_inv_iff)
  note has = delete_task_has [OF inv(1) Some]
  have task: "has_task (ct_session k) (sd_tasks db)"
    using sql_row_Some [OF Some] by (auto simp: has_task_def)
  have e: "fst (complete_cleanup_task tid tok now db) =
      refresh_purge_job_status (ct_session k) now
        (update_items (worker_item (ct_session k)) (complete_item now) (db\<lparr>sd_tasks := ?ks\<rparr>))"
    by (simp add: complete_cleanup_task_def cleanup_task_session_id_def Some delete_task_def
        mark_cleanup_item_complete_def refresh_purge_job_status_def update_items_def)
  show ?thesis
    unfolding e
  proof (rule sess_invI [OF assms])
    show "tables_inv (refresh_purge_job_status (ct_session k) now
        (update_items (worker_item (ct_session k)) (complete_item now) (db\<lparr>sd_tasks := ?ks\<rparr>)))"
      by (rule tables_worker_step [OF inv(1) delete_task_keys [OF inv(1)]])
         (use task has in \<open>auto simp: open_item_def\<close>)
    show "rows_inv (refresh_purge_job_status (ct_session k) now
        (update_items (worker_item (ct_session k)) (complete_item now) (db\<lparr>sd_tasks := ?ks\<rparr>)))"
      using rows_inv_tasks [OF _ inv(2), of ?ks] has by simp
  qed (simp add: refresh_purge_job_status_def update_items_def)
qed (simp add: complete_cleanup_task_def cleanup_task_session_id_def assms)

lemma unsupported_task_inv [inv_intros]:
  assumes "sess_inv db"
  shows "sess_inv (fst (fail_unsupported_cleanup_task tid tok now db))"
proof (cases "sql_row (\<lambda>k. ct_id k = tid \<and> ct_token k = Some tok) (sd_tasks db)")
  case (Some k)
  let ?ks = "sql_delete (\<lambda>k. ct_id k = tid \<and> ct_token k = Some tok) (sd_tasks db)"
  have inv: "tables_inv db" "rows_inv db" using assms by (simp_all add: sess_inv_iff)
  note has = delete_task_has [OF inv(1) Some]
  have task: "has_task (ct_session k) (sd_tasks db)"
    using sql_row_Some [OF Some] by (auto simp: has_task_def)
  have e: "fst (fail_unsupported_cleanup_task tid tok now db) =
      refresh_purge_job_status (ct_session k) now
        (update_items (worker_item (ct_session k)) (unsupported_item now) (db\<lparr>sd_tasks := ?ks\<rparr>))"
    by (simp add: fail_unsupported_cleanup_task_def cleanup_task_session_id_def Some delete_task_def
        refresh_purge_job_status_def update_items_def)
  show ?thesis
    unfolding e
  proof (rule sess_invI [OF assms])
    show "tables_inv (refresh_purge_job_status (ct_session k) now
        (update_items (worker_item (ct_session k)) (unsupported_item now) (db\<lparr>sd_tasks := ?ks\<rparr>)))"
      by (rule tables_worker_step [OF inv(1) delete_task_keys [OF inv(1)]])
         (use task has in \<open>auto simp: open_item_def\<close>)
    show "rows_inv (refresh_purge_job_status (ct_session k) now
        (update_items (worker_item (ct_session k)) (unsupported_item now) (db\<lparr>sd_tasks := ?ks\<rparr>)))"
      using rows_inv_tasks [OF _ inv(2), of ?ks] has by simp
  qed (simp add: refresh_purge_job_status_def update_items_def)
qed (simp add: fail_unsupported_cleanup_task_def cleanup_task_session_id_def assms)

lemma retry_task_inv [inv_intros]:
  assumes "sess_inv db"
  shows "sess_inv (fst (retry_cleanup_task tid tok nxt now db))"
proof (cases "sql_row (\<lambda>k. ct_id k = tid \<and> ct_token k = Some tok) (sd_tasks db)")
  case (Some k)
  let ?ks = "sql_update (\<lambda>k. ct_id k = tid \<and> ct_token k = Some tok) (retry_task nxt now) (sd_tasks db)"
  have inv: "tables_inv db" "rows_inv db" using assms by (simp_all add: sess_inv_iff)
  have keys: "unique_index (\<lambda>_. True) ct_session ?ks \<and> unique_index (\<lambda>_. True) ct_id ?ks"
    by (rule task_keys_update [OF _ _ tables_keys [OF inv(1)]]) simp_all
  have task: "has_task (ct_session k) (sd_tasks db)"
    using sql_row_Some [OF Some] by (auto simp: has_task_def)
  have "tables_inv (refresh_purge_job_status (ct_session k) now
        (update_items (worker_item (ct_session k)) (retrying_item nxt now) (db\<lparr>sd_tasks := ?ks\<rparr>)))"
    by (rule tables_worker_step [OF inv(1) keys]) (use task in \<open>auto simp: open_item_def\<close>)
  moreover have "rows_inv (db\<lparr>sd_tasks := ?ks\<rparr>)"
    by (rule rows_inv_tasks [OF _ inv(2)]) simp
  ultimately show ?thesis
    using assms
    by (simp add: retry_cleanup_task_def cleanup_task_session_id_def Some mark_cleanup_item_retrying_def
        sess_inv_iff) (simp add: refresh_purge_job_status_def update_items_def)
qed (simp add: retry_cleanup_task_def cleanup_task_session_id_def assms)

text \<open>Inserting.\<close>

lemma insert_task_cases:
  assumes "tables_inv db" "insert_cleanup_task tid now r db = Some db'"
  obtains (same) "db' = db"
      "si_wsid r \<noteq> [] \<Longrightarrow> worker_item_done (si_id r) db \<or> has_task (si_id r) (sd_tasks db)"
  | (new) k where "db' = db\<lparr>sd_tasks := sd_tasks db @ [k]\<rparr>" "ct_session k = si_id r"
      "\<forall>k' \<in> set (sd_tasks db). ct_id k' \<noteq> ct_id k" "\<not> has_task (si_id r) (sd_tasks db)"
      "\<forall>i \<in> set (sd_items db). pi_session i = si_id r \<longrightarrow> pi_kind i \<noteq> PkWorkerSession" "si_wsid r \<noteq> []"
proof (cases "si_wsid r = [] \<or> worker_item_done (si_id r) db")
  case True
  then show ?thesis
    using assms(2) same
    by (auto simp: insert_cleanup_task_def new_cleanup_task_def split: if_splits option.splits)
next
  case False
  then obtain k where k: "new_cleanup_task tid now r = Some k" "ct_session k = si_id r"
    by (simp add: new_cleanup_task_def)
  then obtain t where t: "insert_do_nothing ct_session ct_id k (sd_tasks db) = Some t"
      "db' = db\<lparr>sd_tasks := t\<rparr>"
    using assms(2) False by (auto simp: insert_cleanup_task_def)
  show ?thesis
  proof (cases "has_task (si_id r) (sd_tasks db)")
    case True
    then have "t = sd_tasks db"
      using t(1) k(2) by (auto simp: insert_do_nothing_def has_task_def)
    then show ?thesis using same t(2) True by simp
  next
    case no: False
    have conf: "\<not> (\<exists>k' \<in> set (sd_tasks db). ct_session k' = ct_session k)"
      using no k(2) by (auto simp: has_task_def)
    then have "t = sd_tasks db @ [k]" "\<forall>k' \<in> set (sd_tasks db). ct_id k' \<noteq> ct_id k"
      using t(1) by (auto simp: insert_do_nothing_def split: if_splits)
    moreover have "pi_kind i \<noteq> PkWorkerSession" if "i \<in> set (sd_items db)" "pi_session i = si_id r" for i
    proof
      assume w: "pi_kind i = PkWorkerSession"
      have "item_ok (sd_tasks db) i"
        using assms(1) that(1) by (simp add: tables_inv_def purge_inv_def)
      then have "pi_state i \<in> set [PiComplete, PiUnsupported]"
        using w no that(2) by (cases "pi_state i") (auto simp: item_ok_def open_item_def)
      then show False using False that w by (auto simp: worker_item_done_def)
    qed
    ultimately show ?thesis using new t(2) k(2) no False by blast
  qed
qed

lemma has_task_snoc [simp]: "has_task s (ks @ [k]) \<longleftrightarrow> has_task s ks \<or> ct_session k = s"
  by (auto simp: has_task_def)

lemma unique_task_snoc:
  assumes "tables_inv db" "\<forall>k' \<in> set (sd_tasks db). ct_id k' \<noteq> ct_id k"
    and "\<not> has_task (ct_session k) (sd_tasks db)"
  shows "unique_index (\<lambda>_. True) ct_session (sd_tasks db @ [k]) \<and>
         unique_index (\<lambda>_. True) ct_id (sd_tasks db @ [k])"
  using tables_keys [OF assms(1)] assms(2,3) by (auto simp: unique_index_snoc has_task_def)

lemma insert_task_tables:
  assumes "tables_inv db" "insert_cleanup_task tid now r db = Some db'"
  shows "tables_inv db'"
  using assms
proof (cases rule: insert_task_cases)
  case (new k)
  have "item_ok (sd_tasks db @ [k]) i = item_ok (sd_tasks db) i" if "i \<in> set (sd_items db)" for i
    using new(2,5) that by (auto simp: item_ok_def split: purge_kind.splits)
  moreover have "unique_index (\<lambda>_. True) ct_session (sd_tasks db @ [k]) \<and>
         unique_index (\<lambda>_. True) ct_id (sd_tasks db @ [k])"
    by (rule unique_task_snoc [OF assms(1) new(3)]) (simp add: new)
  ultimately show ?thesis
    using assms(1) by (simp add: tables_inv_def purge_inv_def purge_keys_def new(1))
qed (simp add: assms)

lemma insert_task_frame:
  assumes "tables_inv db" "insert_cleanup_task tid now r db = Some db'"
  shows "sd_sessions db' = sd_sessions db \<and> sd_jobs db' = sd_jobs db \<and> sd_items db' = sd_items db \<and>
         sd_exec db' = sd_exec db"
  using assms by (cases rule: insert_task_cases) auto

text \<open>Physical deletion: the new task names a session that has no row any more.\<close>

lemma delete_row_sel [simp]:
  "sd_tasks (delete_row i db) = sd_tasks db" "sd_jobs (delete_row i db) = sd_jobs db"
  "sd_items (delete_row i db) = sd_items db"
  "sd_sessions (delete_row i db) = sql_delete (\<lambda>r. si_id r = i) (sd_sessions db)"
  "sd_exec (delete_row i db) = session_delete i (sd_exec db)"
  "tables_inv (delete_row i db) = tables_inv db"
  by (simp_all add: delete_row_def tables_inv_def)

lemma remove_session_inv:
  assumes inv: "sess_inv db" and ins: "insert_cleanup_task tid now r (delete_row (si_id r) db) = Some db'"
  shows "sess_inv db'"
proof -
  have t: "tables_inv (delete_row (si_id r) db)" using inv by (simp add: sess_inv_iff)
  have rows: "rows_inv (delete_row (si_id r) db)"
    using inv by (auto simp: sess_inv_iff rows_inv_def unique_index_delete)
  have exec: "exec_inv (sd_exec db') \<and> queue_inv (sd_exec db')"
    using inv insert_task_frame [OF t ins] by (simp add: sess_inv_iff session_delete_inv)
  have "rows_inv db'"
    using t ins by (cases rule: insert_task_cases) (use rows in \<open>auto simp: rows_inv_def\<close>)
  then show ?thesis using exec insert_task_tables [OF t ins] by (simp add: sess_inv_iff)
qed

lemma delete_physical_inv [inv_intros]:
  assumes "sess_inv db"
  shows "sess_inv (fst (delete_physical_with_cleanup tid now i db))"
proof (cases "find_session i db")
  case (Some r)
  then have "si_id r = i" by (simp add: find_session_Some)
  then show ?thesis
    using assms remove_session_inv [OF assms, of tid now r] Some
    by (auto simp: delete_physical_with_cleanup_def split: option.splits)
qed (simp add: delete_physical_with_cleanup_def assms)

lemma delete_terminated_each_inv:
  "sess_inv db \<Longrightarrow> delete_terminated_each tid now cc dc ids db = Some (db', rs) \<Longrightarrow> sess_inv db'"
proof (induction ids arbitrary: db rs)
  case (Cons i ids)
  show ?case
  proof (cases "sql_row (\<lambda>r. si_id r = i \<and> terminated_expired cc dc db r) (sd_sessions db)")
    case None
    then show ?thesis using Cons by simp
  next
    case (Some r)
    have r: "si_id r = i" using sql_row_Some [OF Some] by simp
    obtain db1 rs1 where db1: "insert_cleanup_task (tid i) now r (delete_row i db) = Some db1"
        "delete_terminated_each tid now cc dc ids db1 = Some (db', rs1)"
      using Cons.prems(2) Some by (auto split: option.splits)
    have "sess_inv db1"
      using remove_session_inv [OF Cons.prems(1), of "tid i" now r] db1(1) r by simp
    then show ?thesis by (rule Cons.IH [OF _ db1(2)])
  qed
qed simp

lemma delete_terminated_inv [inv_intros]:
  "sess_inv db \<Longrightarrow> sess_inv (fst (delete_terminated tid now cc dc db))"
  by (auto simp: delete_terminated_def split: option.splits dest: delete_terminated_each_inv)

text \<open>The items of a new job.\<close>

lemma insert_purge_items_new:
  assumes "insert_purge_items iid jid s now ks t = Some t'"
    and "\<forall>i \<in> set t. pi_job i = jid \<longrightarrow> pi_kind i \<notin> fst ` set ks" "distinct (map fst ks)"
    and "unique_index (\<lambda>_. True) pi_id t"
    and "unique_index (\<lambda>_. True) (\<lambda>i. (pi_job i, pi_kind i)) t"
  shows "t' = t @ map (\<lambda>(k, st). new_purge_item (iid k) jid s now k st) ks \<and>
         unique_index (\<lambda>_. True) pi_id t' \<and> unique_index (\<lambda>_. True) (\<lambda>i. (pi_job i, pi_kind i)) t'"
  using assms
proof (induction ks arbitrary: t)
  case (Cons p ks)
  obtain k st where p: "p = (k, st)" by (cases p)
  let ?n = "new_purge_item (iid k) jid s now k st"
  have n: "pi_job ?n = jid" "pi_kind ?n = k" by (simp_all add: new_purge_item_def)
  have conf: "\<not> (\<exists>i \<in> set t. (pi_job i, pi_kind i) = (jid, k))"
    using Cons.prems(2) by (force simp: p)
  have pk: "\<forall>i \<in> set t. pi_id i \<noteq> pi_id ?n"
    using Cons.prems(1) conf by (auto simp: p insert_do_nothing_def n split: if_splits)
  have "insert_purge_items iid jid s now ks (t @ [?n]) = Some t'"
    using Cons.prems(1) conf pk by (auto simp: p insert_do_nothing_def n split: if_splits)
  then have "t' = (t @ [?n]) @ map (\<lambda>(k, st). new_purge_item (iid k) jid s now k st) ks \<and>
      unique_index (\<lambda>_. True) pi_id t' \<and> unique_index (\<lambda>_. True) (\<lambda>i. (pi_job i, pi_kind i)) t'"
    using Cons.prems pk conf
    by (intro Cons.IH) (auto simp: p n unique_index_snoc)
  then show ?case by (auto simp: p)
qed simp

lemma insert_purge_items_old:
  assumes "\<forall>k \<in> fst ` set ks. \<exists>i \<in> set t. pi_job i = jid \<and> pi_kind i = k"
  shows "insert_purge_items iid jid s now ks t = Some t"
  using assms
proof (induction ks)
  case (Cons p ks)
  obtain k st where p: "p = (k, st)" by (cases p)
  have "\<exists>i \<in> set t. (pi_job i, pi_kind i) = (jid, k)"
    using Cons.prems by (auto simp: p)
  then have "insert_do_nothing (\<lambda>i. (pi_job i, pi_kind i)) pi_id (new_purge_item (iid k) jid s now k st) t
      = Some t"
    by (simp add: insert_do_nothing_def new_purge_item_def)
  then show ?case using Cons by (simp add: p)
qed simp

text \<open>Soft deletion, with a job from an earlier deletion or with a new one.\<close>

definition job_items :: "deletion_ids \<Rightarrow> string \<Rightarrow> session_row \<Rightarrow> instant \<Rightarrow> purge_item list" where
  "job_items ids jid r now = map (\<lambda>(k, st). new_purge_item (dl_item ids k) jid (si_id r) now k st)
     [(PkMetadata, PiComplete), (PkContent, PiPending),
      (PkWorkerSession, if si_wsid r \<noteq> [] then PiPending else PiComplete)]"

lemma sql_update_False [simp]: "sql_update (\<lambda>_. False) f t = t"
  by (simp add: sql_update_def)

lemma refresh_tables:
  assumes "tables_inv db"
  shows "tables_inv (refresh_purge_job_status s now db)"
  using purge_step [OF assms [unfolded tables_inv_def], of "sd_tasks db" "\<lambda>_. False" "\<lambda>i. i" s now]
    tables_keys [OF assms] assms
  by (simp add: tables_inv_def refresh_purge_job_status_def purge_inv_def)

lemma insert_job_old:
  assumes inv: "tables_inv db" and j: "j \<in> set (sd_jobs db)" "pj_session j = si_id r"
  shows "insert_purge_job_and_items ids now r db = Some (refresh_purge_job_status (si_id r) now db)"
proof -
  have keys: "purge_keys (sd_tasks db) (sd_jobs db) (sd_items db)"
    using inv by (simp add: tables_inv_def purge_inv_def)
  then have u: "unique_index (\<lambda>_. True) pj_session (sd_jobs db)"
    and cov: "\<forall>j \<in> set (sd_jobs db). \<forall>k. \<exists>i \<in> set (sd_items db). pi_job i = pj_id j \<and> pi_kind i = k"
    by (simp_all add: purge_keys_def)
  have "insert_do_nothing pj_session pj_id (new_purge_job (dl_job ids) now r) (sd_jobs db) = Some (sd_jobs db)"
    using j by (auto simp: insert_do_nothing_def new_purge_job_def)
  moreover have "sql_row (\<lambda>j'. pj_session j' = si_id r) (sd_jobs db) = Some j"
    using sql_row_unique [OF u j(1)] by (simp add: j(2))
  moreover have "insert_purge_items (dl_item ids) (pj_id j) (si_id r) now ks (sd_items db) = Some (sd_items db)"
    for ks using cov j(1) by (intro insert_purge_items_old) simp
  ultimately show ?thesis
    by (simp add: insert_purge_job_and_items_def del: insert_purge_items.simps)
qed

lemma insert_job_new:
  assumes inv: "tables_inv db" and no: "\<forall>j \<in> set (sd_jobs db). pj_session j \<noteq> si_id r"
    and ins: "insert_purge_job_and_items ids now r db = Some db'"
  shows "db' = refresh_purge_job_status (si_id r) now
           (db\<lparr>sd_jobs := sd_jobs db @ [new_purge_job (dl_job ids) now r],
               sd_items := sd_items db @ job_items ids (dl_job ids) r now\<rparr>) \<and>
         purge_keys (sd_tasks db) (sd_jobs db @ [new_purge_job (dl_job ids) now r])
           (sd_items db @ job_items ids (dl_job ids) r now)"
proof -
  let ?j = "new_purge_job (dl_job ids) now r"
  let ?ks = "[(PkMetadata, PiComplete), (PkContent, PiPending),
      (PkWorkerSession, if si_wsid r \<noteq> [] then PiPending else PiComplete)]"
  have j: "pj_session ?j = si_id r" "pj_id ?j = dl_job ids" by (simp_all add: new_purge_job_def)
  have keys: "purge_keys (sd_tasks db) (sd_jobs db) (sd_items db)"
    using inv by (simp add: tables_inv_def purge_inv_def)
  have fresh: "\<forall>j \<in> set (sd_jobs db). pj_id j \<noteq> pj_id ?j"
    and d: "insert_do_nothing pj_session pj_id ?j (sd_jobs db) = Some (sd_jobs db @ [?j])"
    using no ins j(1)
    by (auto simp: insert_purge_job_and_items_def insert_do_nothing_def split: if_splits)
  have row: "sql_row (\<lambda>j. pj_session j = si_id r) (sd_jobs db @ [?j]) = Some ?j"
  proof -
    have "sql_row (\<lambda>j. pj_session j = si_id r) (sd_jobs db) = None" using no by (simp add: sql_row_None)
    then show ?thesis by (simp add: sql_row_append) (simp add: sql_row_def j)
  qed
  obtain items where items: "insert_purge_items (dl_item ids) (dl_job ids) (si_id r) now ?ks (sd_items db) = Some items"
      and db': "db' = refresh_purge_job_status (si_id r) now (db\<lparr>sd_jobs := sd_jobs db @ [?j], sd_items := items\<rparr>)"
    using ins d row j(2) by (auto simp: insert_purge_job_and_items_def)
  have nojob: "\<forall>i \<in> set (sd_items db). pi_job i \<noteq> dl_job ids"
    using keys fresh j(2) unfolding purge_keys_def by metis
  have prem: "\<forall>i \<in> set (sd_items db). pi_job i = dl_job ids \<longrightarrow> pi_kind i \<notin> fst ` set ?ks" "distinct (map fst ?ks)"
    using nojob by simp_all
  have u: "unique_index (\<lambda>_. True) pi_id (sd_items db)"
      "unique_index (\<lambda>_. True) (\<lambda>i. (pi_job i, pi_kind i)) (sd_items db)"
    using keys by (simp_all add: purge_keys_def)
  have "items = sd_items db @ job_items ids (dl_job ids) r now \<and> unique_index (\<lambda>_. True) pi_id items \<and>
      unique_index (\<lambda>_. True) (\<lambda>i. (pi_job i, pi_kind i)) items"
    unfolding job_items_def by (rule insert_purge_items_new [OF items prem u])
  moreover have "purge_keys (sd_tasks db) (sd_jobs db @ [?j]) items"
    if "items = sd_items db @ job_items ids (dl_job ids) r now" "unique_index (\<lambda>_. True) pi_id items"
       "unique_index (\<lambda>_. True) (\<lambda>i. (pi_job i, pi_kind i)) items"
  proof -
    have cov: "\<exists>i \<in> set items. pi_job i = pj_id j' \<and> pi_kind i = k" if "j' \<in> set (sd_jobs db @ [?j])" for j' k
    proof (cases "j' = ?j")
      case True
      then show ?thesis
        by (cases k) (simp_all add: \<open>items = _\<close> j new_purge_item_def job_items_def)
    next
      case False
      then show ?thesis using keys that by (simp add: purge_keys_def \<open>items = _\<close> bex_Un)
    qed
    have ref: "\<forall>i \<in> set items. \<exists>j' \<in> set (sd_jobs db @ [?j]). pj_id j' = pi_job i \<and> pj_session j' = pi_session i"
      using keys j by (auto simp: purge_keys_def \<open>items = _\<close> new_purge_item_def job_items_def)
    show ?thesis
      using keys that(2,3) cov ref fresh no j(1) by (simp add: purge_keys_def unique_index_snoc)
  qed
  ultimately show ?thesis using db' by blast
qed

lemma insert_job_new_tables:
  assumes inv: "tables_inv db" and no: "\<forall>j \<in> set (sd_jobs db). pj_session j \<noteq> si_id r"
    and ins: "insert_purge_job_and_items ids now r db = Some db'"
    and task: "has_task (si_id r) (sd_tasks db) \<longleftrightarrow> si_wsid r \<noteq> []"
  shows "tables_inv db'"
proof -
  let ?js = "sd_jobs db @ [new_purge_job (dl_job ids) now r]"
  let ?is = "sd_items db @ job_items ids (dl_job ids) r now"
  let ?js' = "sql_update (\<lambda>j. pj_session j = si_id r) (refresh_job_row ?is now) ?js"
  note new = insert_job_new [OF inv no ins]
  have pinv: "purge_inv (sd_tasks db) (sd_jobs db) (sd_items db)"
    using inv by (simp add: tables_inv_def)
  have "item_ok (sd_tasks db) i" if "i \<in> set ?is" for i
    using that pinv task by (auto simp: purge_inv_def item_ok_def new_purge_item_def open_item_def job_items_def)
  moreover have "job_ok ?is j'" if j': "j' \<in> set ?js'" for j'
  proof -
    obtain j where j: "j \<in> set ?js" "j' = (if pj_session j = si_id r then refresh_job_row ?is now j else j)"
      using j' by (rule sql_update_elim)
    show ?thesis
    proof (cases "pj_session j = si_id r")
      case True
      then show ?thesis using j(2) by (simp add: refresh_job_ok)
    next
      case False
      then have "j \<in> set (sd_jobs db)" using j(1) by (auto simp: new_purge_job_def)
      moreover have "job_ok ?is j = job_ok (sd_items db) j"
        by (rule job_ok_cong) (use False in \<open>auto simp: new_purge_item_def job_items_def\<close>)
      ultimately show ?thesis using pinv False j(2) by (simp add: purge_inv_def)
    qed
  qed
  ultimately show ?thesis
    using new by (simp add: tables_inv_def purge_inv_def refresh_purge_job_status_def)
qed

lemma mark_deleted_locked_inv:
  assumes inv: "sess_inv db" and m: "mark_deleted_locked ids now i db = Some db'"
  shows "sess_inv db'"
proof (cases "find_session i db")
  case None
  then show ?thesis using m inv by (simp add: mark_deleted_locked_def)
next
  case (Some r)
  have t: "tables_inv db" "rows_inv db" using inv by (simp_all add: sess_inv_iff)
  have r: "r \<in> set (sd_sessions db)" "si_id r = i" using find_session_Some [OF Some] by simp_all
  obtain db1 db2 where db1: "insert_cleanup_task (dl_task ids) now r db = Some db1"
      and db2: "insert_purge_job_and_items ids now r db1 = Some db2"
      and db': "db' = fst (update_sessions (\<lambda>r. si_id r = i) (mark_deleted_row now) db2)"
    using m Some by (auto simp: mark_deleted_locked_def split: option.splits)
  note t1 = insert_task_tables [OF t(1) db1] and f1 = insert_task_frame [OF t(1) db1]
  have "sess_inv db2"
  proof (cases "\<exists>j \<in> set (sd_jobs db). pj_session j = i")
    case True
    then obtain j where j: "j \<in> set (sd_jobs db1)" "pj_session j = si_id r" using f1 r(2) by auto
    have e: "db2 = refresh_purge_job_status (si_id r) now db1"
      using insert_job_old [OF t1 j] db2 by simp
    have "rows_inv db1"
      using t(1) db1
      by (cases rule: insert_task_cases) (use t(2) True r(2) in \<open>auto simp: rows_inv_def\<close>)
    then show ?thesis
      using inv f1 refresh_tables [OF t1]
      by (simp add: e sess_inv_iff) (simp add: refresh_purge_job_status_def)
  next
    case False
    have noitem: "\<not> worker_item_done i db"
      using t(1) False by (auto simp: worker_item_done_def tables_inv_def purge_inv_def purge_keys_def)
    have notask: "\<not> has_task i (sd_tasks db)"
      using t(2) r False by (auto simp: rows_inv_def)
    have task: "has_task (si_id r) (sd_tasks db1) \<longleftrightarrow> si_wsid r \<noteq> []"
      using t(1) db1 by (cases rule: insert_task_cases) (use noitem notask r(2) in auto)
    have no: "\<forall>j \<in> set (sd_jobs db1). pj_session j \<noteq> si_id r" using False f1 r(2) by auto
    have "rows_inv db2"
    proof -
      have "\<exists>j \<in> set (sd_jobs db @ [new_purge_job (dl_job ids) now r]). pj_session j = si_id r'"
        if "r' \<in> set (sd_sessions db)" "has_task (si_id r') (sd_tasks db1)" for r'
        using t(1) db1
        by (cases rule: insert_task_cases)
           (use t(2) that in \<open>auto simp: rows_inv_def new_purge_job_def\<close>)
      then show ?thesis
        using insert_job_new [OF t1 no db2] t(2) f1
        by (simp add: rows_inv_def) (simp add: refresh_purge_job_status_def refresh_sessions)
    qed
    moreover have "sd_exec db2 = sd_exec db1"
      using insert_job_new [OF t1 no db2] by (simp add: refresh_purge_job_status_def)
    ultimately show ?thesis
      using insert_job_new_tables [OF t1 no db2 task] f1 inv by (simp add: sess_inv_iff)
  qed
  then show ?thesis
    unfolding db' by (rule update_sessions_inv) (simp add: mark_deleted_row_def)
qed

lemma mark_deleted_inv [inv_intros]:
  "sess_inv db \<Longrightarrow> sess_inv (fst (mark_deleted_with_cleanup ids now i db))"
  by (auto simp: mark_deleted_with_cleanup_def split: option.splits dest: mark_deleted_locked_inv)

lemma retire_inv [inv_intros]:
  "sess_inv db \<Longrightarrow> sess_inv (fst (retire_expired_lifecycle_session ids i now db))"
  by (auto simp: retire_expired_lifecycle_session_def split: option.splits dest: mark_deleted_locked_inv)

lemma ledger_inv: "exec_inv (ledger_of db) = exec_inv (sd_exec db)" "queue_inv (ledger_of db) = queue_inv (sd_exec db)"
  by (simp_all add: ledger_of_def exec_inv_def queue_inv_def counter_value_def)

lemma store_step_inv: "sess_inv db \<Longrightarrow> sess_inv (store_step op db)"
proof (cases op)
  case (StExec o')
  assume "sess_inv db"
  then show ?thesis
    using exec_step_inv [of "ledger_of db" o']
    by (simp add: StExec ledger_inv sess_inv_iff) (simp add: rows_inv_def tables_inv_def)
qed (simp_all add: inv_intros)

interpretation session_store: invariant_machine store_step sess_inv
  by unfold_locales (rule store_step_inv)

section \<open>What each operation leaves alone\<close>

named_theorems store_frame "tables a store operation does not touch"

lemma update_sessions_frame [store_frame]:
  "sd_tasks (fst (update_sessions P f db)) = sd_tasks db"
  "sd_jobs (fst (update_sessions P f db)) = sd_jobs db"
  "sd_items (fst (update_sessions P f db)) = sd_items db"
  "sd_exec (fst (update_sessions P f db)) = sd_exec db"
  by (simp_all add: update_sessions_def)

lemma refresh_frame [store_frame]:
  "sd_sessions (refresh_purge_job_status s now db) = sd_sessions db"
  "sd_tasks (refresh_purge_job_status s now db) = sd_tasks db"
  "sd_items (refresh_purge_job_status s now db) = sd_items db"
  "sd_exec (refresh_purge_job_status s now db) = sd_exec db"
  "sd_sessions (update_items P f db) = sd_sessions db"
  "sd_tasks (update_items P f db) = sd_tasks db"
  "sd_jobs (update_items P f db) = sd_jobs db"
  "sd_exec (update_items P f db) = sd_exec db"
  "sd_items (update_items P f db) = sql_update P f (sd_items db)"
  by (simp_all add: refresh_purge_job_status_def update_items_def)

text \<open>The operations on rows of \<open>sessions\<close> alone.\<close>

fun rows_only :: "store_op \<Rightarrow> bool" where
  "rows_only (StUpsert r) = True"
| "rows_only (StWorkerSession i w) = True"
| "rows_only (StDeadlines i rv a b c d e) = True"
| "rows_only (StCeiling i c) = True"
| "rows_only (StSnapshot i s) = True"
| "rows_only _ = False"

lemma rows_only_frame:
  assumes "rows_only op"
  shows "sd_tasks (store_step op db) = sd_tasks db \<and> sd_jobs (store_step op db) = sd_jobs db \<and>
    sd_items (store_step op db) = sd_items db \<and> sd_exec (store_step op db) = sd_exec db"
  using assms
  by (cases op) (auto simp: upsert_def update_worker_session_id_sql_def advance_lifecycle_deadlines_def
      set_permission_ceiling_if_empty_def update_spec_snapshot_def update_sessions_def Let_def
      split: option.splits nat.splits)

text \<open>The operations on the outbox and the items.\<close>

fun queue_work :: "store_op \<Rightarrow> bool" where
  "queue_work (StClaim tok now lease limit) = True"
| "queue_work (StComplete tid tok now) = True"
| "queue_work (StRetry tid tok nxt now) = True"
| "queue_work (StUnsupported tid tok now) = True"
| "queue_work (StClaimItems tok now lease limit) = True"
| "queue_work (StCompleteItem iid tok now) = True"
| "queue_work (StRetryItem iid tok nxt now) = True"
| "queue_work _ = False"

lemma claim_each_frame:
  "claim_each tok now lease ks db = (db', ks') \<Longrightarrow>
     sd_sessions db' = sd_sessions db \<and> sd_exec db' = sd_exec db"
proof (induction ks arbitrary: db ks')
  case (Cons k ks)
  then show ?case
    by (fastforce simp: Let_def mark_cleanup_item_running_def store_frame split: if_splits prod.splits)
qed simp

lemma claim_items_each_frame:
  "claim_items_each tok now lease is db = Some (db', is') \<Longrightarrow>
     sd_sessions db' = sd_sessions db \<and> sd_exec db' = sd_exec db \<and> sd_tasks db' = sd_tasks db"
proof (induction "is" arbitrary: db is')
  case (Cons i "is")
  then show ?case by (fastforce simp: store_frame split: if_splits)
qed simp

lemma claim_tasks_frame:
  "sd_sessions (fst (claim_cleanup_tasks tok now lease limit db)) = sd_sessions db \<and>
   sd_exec (fst (claim_cleanup_tasks tok now lease limit db)) = sd_exec db"
  using claim_each_frame [of tok now lease _ db]
  by (simp add: claim_cleanup_tasks_def) (metis prod.collapse)

lemma claim_items_frame:
  "sd_sessions (fst (claim_purge_items tok now lease limit db)) = sd_sessions db \<and>
   sd_exec (fst (claim_purge_items tok now lease limit db)) = sd_exec db \<and>
   sd_tasks (fst (claim_purge_items tok now lease limit db)) = sd_tasks db"
  using claim_items_each_frame [of tok now lease _ db]
  by (auto simp: claim_purge_items_def split: option.splits)

lemma queue_work_frame:
  assumes "queue_work op"
  shows "sd_sessions (store_step op db) = sd_sessions db \<and> sd_exec (store_step op db) = sd_exec db"
  using assms claim_tasks_frame claim_items_frame
  by (cases op) (auto simp: complete_cleanup_task_def retry_cleanup_task_def
      fail_unsupported_cleanup_task_def complete_purge_item_def retry_purge_item_def delete_task_def
      mark_cleanup_item_complete_def mark_cleanup_item_retrying_def store_frame split: option.splits)

text \<open>Soft deletion: the row is marked, nothing else happens to sessions and executions.\<close>

lemma insert_job_frame:
  assumes "tables_inv db" "insert_purge_job_and_items ids now r db = Some db'"
  shows "sd_sessions db' = sd_sessions db \<and> sd_exec db' = sd_exec db \<and> sd_tasks db' = sd_tasks db"
proof (cases "\<exists>j \<in> set (sd_jobs db). pj_session j = si_id r")
  case True
  then show ?thesis using insert_job_old [OF assms(1)] assms(2) by (auto simp: store_frame)
next
  case False
  then show ?thesis using insert_job_new [OF assms(1) _ assms(2)] by (simp add: store_frame)
qed

lemma mark_deleted_locked_cases:
  assumes inv: "sess_inv db" and m: "mark_deleted_locked ids now i db = Some db'"
  obtains (absent) "find_session i db = None" "db' = db"
  | (marked) r db1 db2 where "find_session i db = Some r" "r \<in> set (sd_sessions db)" "si_id r = i"
      "insert_cleanup_task (dl_task ids) now r db = Some db1" "tables_inv db1"
      "insert_purge_job_and_items ids now r db1 = Some db2"
      "db' = db2\<lparr>sd_sessions := sql_update (\<lambda>r. si_id r = i) (mark_deleted_row now) (sd_sessions db)\<rparr>"
      "sd_exec db' = sd_exec db" "sd_jobs db1 = sd_jobs db" "sd_items db1 = sd_items db"
proof (cases "find_session i db")
  case None
  then show ?thesis using absent m by (simp add: mark_deleted_locked_def)
next
  case (Some r)
  obtain db1 db2 where db1: "insert_cleanup_task (dl_task ids) now r db = Some db1"
      and db2: "insert_purge_job_and_items ids now r db1 = Some db2"
      and db': "db' = fst (update_sessions (\<lambda>r. si_id r = i) (mark_deleted_row now) db2)"
    using m Some by (auto simp: mark_deleted_locked_def split: option.splits)
  have t: "tables_inv db" using inv by (simp add: sess_inv_iff)
  note t1 = insert_task_tables [OF t db1]
  show ?thesis
    using marked [OF Some _ _ db1 t1 db2] find_session_Some [OF Some] insert_task_frame [OF t db1]
      insert_job_frame [OF t1 db2]
    by (simp add: db' update_sessions_def)
qed

end
