(* ===== verification/CleanupProps.thy ===== *)
theory CleanupProps
  imports CleanupMachine
begin

text \<open>
  What holds of deletions: the purge job of a session tells the state of its items, a lease
  excludes other runners, a soft delete is final, retention never removes an execution that is not
  settled, and what happens to a session id that is deleted and created again.
\<close>

section \<open>Deletion jobs tell the truth\<close>

lemma job_complete_iff: "job_state s is = PjComplete \<longleftrightarrow> (\<forall>i \<in> set is. pi_session i = s \<longrightarrow> pi_state i = PiComplete)"
proof -
  have "x = PiComplete \<longleftrightarrow> x \<notin> {PiBlocked, PiUnsupported} \<and> x \<notin> {PiPending, PiRunning, PiRetrying}" for x
    by (cases x) simp_all
  then show ?thesis by (auto simp: job_state_def item_of_def)
qed

text \<open>
  C28. A deletion reports its real progress and cannot get stuck.  After any operations on the
  session store and the execution ledger, in any order, every purge job has for each kind exactly
  one item; its status is complete exactly when all its items are, and then it has a completion
  time; and its worker item is open exactly as long as the outbox holds a task for the session, so
  no deletion waits for work that no runner will find.
\<close>

theorem purge_job_tracks_items:
  assumes "j \<in> set (sd_jobs (fold store_step ops empty_sess_db))"
  shows "(\<forall>k. \<exists>!i. i \<in> set (sd_items (fold store_step ops empty_sess_db)) \<and>
            pi_session i = pj_session j \<and> pi_kind i = k) \<and>
         (pj_state j = PjComplete \<longleftrightarrow>
            (\<forall>i \<in> set (sd_items (fold store_step ops empty_sess_db)).
               pi_session i = pj_session j \<longrightarrow> pi_state i = PiComplete)) \<and>
         (pj_state j = PjComplete \<longleftrightarrow> pj_completed j \<noteq> None) \<and>
         (\<forall>i \<in> set (sd_items (fold store_step ops empty_sess_db)).
            pi_session i = pj_session j \<and> pi_kind i = PkWorkerSession \<longrightarrow>
            (open_item i \<longleftrightarrow> pending_cleanup (pj_session j) (fold store_step ops empty_sess_db)))"
proof -
  let ?db = "fold store_step ops empty_sess_db"
  have inv: "purge_inv (sd_tasks ?db) (sd_jobs ?db) (sd_items ?db)"
    using session_store.run_inv [OF empty_sess_inv] by (simp add: sess_inv_iff tables_inv_def)
  have keys: "purge_keys (sd_tasks ?db) (sd_jobs ?db) (sd_items ?db)" and ok: "job_ok (sd_items ?db) j"
    using inv assms by (simp_all add: purge_inv_def)
  have u: "unique_index (\<lambda>_. True) pj_session (sd_jobs ?db)" "unique_index (\<lambda>_. True) pj_id (sd_jobs ?db)"
      "unique_index (\<lambda>_. True) (\<lambda>i. (pi_job i, pi_kind i)) (sd_items ?db)"
    and ref: "\<forall>i \<in> set (sd_items ?db). \<exists>j \<in> set (sd_jobs ?db). pj_id j = pi_job i \<and> pj_session j = pi_session i"
    and cov: "\<forall>j \<in> set (sd_jobs ?db). \<forall>k. \<exists>i \<in> set (sd_items ?db). pi_job i = pj_id j \<and> pi_kind i = k"
    using keys by (simp_all add: purge_keys_def)
  have job: "pi_job i = pj_id j \<longleftrightarrow> pi_session i = pj_session j" if "i \<in> set (sd_items ?db)" for i
  proof -
    obtain j' where j': "j' \<in> set (sd_jobs ?db)" "pj_id j' = pi_job i" "pj_session j' = pi_session i"
      using ref \<open>i \<in> _\<close> by auto
    show ?thesis
      using unique_index_eq [OF u(1) j'(1) assms] unique_index_eq [OF u(2) j'(1) assms] j'(2,3) by auto
  qed
  have "\<exists>!i. i \<in> set (sd_items ?db) \<and> pi_session i = pj_session j \<and> pi_kind i = k" for k
  proof -
    obtain i where i: "i \<in> set (sd_items ?db)" "pi_job i = pj_id j" "pi_kind i = k"
      using cov assms by auto
    show ?thesis
    proof (rule ex1I [of _ i])
      show "i \<in> set (sd_items ?db) \<and> pi_session i = pj_session j \<and> pi_kind i = k"
        using i job [OF i(1)] by simp
      fix i' assume i': "i' \<in> set (sd_items ?db) \<and> pi_session i' = pj_session j \<and> pi_kind i' = k"
      then have "pi_job i' = pj_id j" using job by blast
      then show "i' = i" using unique_index_eq [OF u(3), of i' i] i i' by simp
    qed
  qed
  moreover have "open_item i \<longleftrightarrow> pending_cleanup (pj_session j) ?db"
    if "i \<in> set (sd_items ?db)" "pi_session i = pj_session j" "pi_kind i = PkWorkerSession" for i
    using inv that by (auto simp: purge_inv_def item_ok_def pending_has_task)
  ultimately show ?thesis
    using ok by (auto simp: job_ok_def job_complete_iff)
qed

section \<open>A soft delete is final\<close>

text \<open>A blanked row; \<open>d\<close> is the instant it was deleted.\<close>

definition tombstone :: "instant \<Rightarrow> session_row \<Rightarrow> bool" where
  "tombstone d r \<longleftrightarrow> si_state r = SsDeleted \<and> si_deleted r = Some d \<and> si_title r = [] \<and>
     si_work_dir r = [] \<and> si_context r = None \<and> si_platform_key r = [] \<and> si_client r = []"

definition holds_tombstone :: "session_id \<Rightarrow> instant \<Rightarrow> sess_db \<Rightarrow> bool" where
  "holds_tombstone i d db \<longleftrightarrow> (\<exists>r. find_session i db = Some r \<and> tombstone d r)"

lemma find_session_update:
  assumes "\<And>r. si_id (f r) = si_id r"
  shows "find_session i (db\<lparr>sd_sessions := sql_update P f (sd_sessions db)\<rparr>) =
           map_option (\<lambda>r. if P r then f r else r) (find_session i db)"
  unfolding find_session_def using sql_row_update [of P "\<lambda>r. si_id r = i" f] assms by simp

lemma find_session_cong: "sd_sessions db' = sd_sessions db \<Longrightarrow> find_session i db' = find_session i db"
  by (simp add: find_session_def)

lemma update_keeps_tombstone:
  assumes "holds_tombstone i d db" "\<And>r. si_id (f r) = si_id r"
    and "\<And>r. tombstone d r \<Longrightarrow> P r \<Longrightarrow> tombstone d (f r)"
  shows "holds_tombstone i d (fst (update_sessions P f db))"
proof -
  obtain r where "find_session i db = Some r" "tombstone d r"
    using assms(1) by (auto simp: holds_tombstone_def)
  then show ?thesis
    using assms(3) by (cases "P r") (simp_all add: holds_tombstone_def update_sessions_def
      find_session_update [OF assms(2)])
qed

lemma tombstone_deleted: "tombstone d r \<Longrightarrow> row_deleted r"
  by (simp add: tombstone_def row_deleted_def)

lemma rows_only_keeps_tombstone:
  assumes h: "holds_tombstone i d db" and op: "rows_only op"
  shows "holds_tombstone i d (store_step op db)"
proof (cases op)
  case (StUpsert x)
  have upd: "holds_tombstone i d (fst (update_sessions (\<lambda>r. si_id r = si_id x \<and> \<not> row_deleted r)
      (updated_row x) db))"
    by (rule update_keeps_tombstone [OF h]) (auto dest: tombstone_deleted)
  have "holds_tombstone i d (db\<lparr>sd_sessions := sd_sessions db @ [inserted_row x]\<rparr>)"
    using h by (auto simp: holds_tombstone_def find_session_def sql_row_append)
  then show ?thesis
    using h upd by (auto simp: StUpsert upsert_def split: option.splits prod.splits nat.splits)
next
  case (StWorkerSession j w)
  have "holds_tombstone i d (fst (update_sessions (\<lambda>r. si_id r = j) (\<lambda>r. r\<lparr>si_wsid := w\<rparr>) db))"
    by (rule update_keeps_tombstone [OF h]) (simp_all add: tombstone_def)
  then show ?thesis
    using h by (auto simp: StWorkerSession update_worker_session_id_sql_def split: prod.splits nat.splits)
next
  case (StDeadlines j rv a b c e g)
  have "holds_tombstone i d (fst (update_sessions
      (\<lambda>r. si_id r = j \<and> si_policy r = ''v2'' \<and> si_revision r = rv \<and> \<not> row_deleted r)
      (advance_row a b c e g) db))"
    by (rule update_keeps_tombstone [OF h]) (auto simp: advance_row_def dest: tombstone_deleted)
  then show ?thesis
    using h by (auto simp: StDeadlines advance_lifecycle_deadlines_def split: prod.splits nat.splits)
next
  case (StCeiling j c)
  have "holds_tombstone i d (fst (update_sessions (\<lambda>r. si_id r = j \<and> si_ceiling r = [])
      (\<lambda>r. r\<lparr>si_ceiling := c\<rparr>) db))"
    by (rule update_keeps_tombstone [OF h]) (simp_all add: tombstone_def)
  then show ?thesis
    by (auto simp: StCeiling set_permission_ceiling_if_empty_def Let_def split: option.splits)
next
  case (StSnapshot j s)
  have "holds_tombstone i d (fst (update_sessions (\<lambda>r. si_id r = j) (\<lambda>r. r\<lparr>si_snapshot := s\<rparr>) db))"
    by (rule update_keeps_tombstone [OF h]) (simp_all add: tombstone_def)
  then show ?thesis
    using h by (auto simp: StSnapshot update_spec_snapshot_def split: option.splits prod.splits nat.splits)
qed (use op in auto)

lemma mark_deleted_keeps_tombstone:
  assumes inv: "sess_inv db" and h: "holds_tombstone i d db"
    and m: "mark_deleted_locked ids now j db = Some db'"
  shows "holds_tombstone i d db'"
  using inv m
proof (cases rule: mark_deleted_locked_cases)
  case (marked r db1 db2)
  have "sd_sessions db' = sd_sessions (fst (update_sessions (\<lambda>r. si_id r = j) (mark_deleted_row now) db))"
    by (simp add: marked(7) update_sessions_def)
  moreover have "holds_tombstone i d (fst (update_sessions (\<lambda>r. si_id r = j) (mark_deleted_row now) db))"
    by (rule update_keeps_tombstone [OF h]) (simp_all add: mark_deleted_row_def tombstone_def coalesce_def)
  ultimately show ?thesis by (simp add: holds_tombstone_def find_session_def)
qed (simp add: h)

lemma remove_keeps_tombstone:
  assumes "holds_tombstone i d db" "i \<noteq> j" "tables_inv db"
    and "insert_cleanup_task tid now r (delete_row j db) = Some db'"
  shows "holds_tombstone i d db'"
proof -
  have "sd_sessions db' = sql_delete (\<lambda>r. si_id r = j) (sd_sessions db)"
    using insert_task_frame [OF _ assms(4)] assms(3) by simp
  moreover have "sql_row (\<lambda>r. si_id r = i) (sql_delete (\<lambda>r. si_id r = j) (sd_sessions db)) = find_session i db"
    unfolding find_session_def by (rule sql_row_delete_other) (use assms(2) in auto)
  ultimately show ?thesis using assms(1) by (simp add: holds_tombstone_def find_session_def)
qed

text \<open>Terminated rows are other rows: ids are unique and a tombstone is not terminated.\<close>

lemma tombstone_not_terminated:
  assumes "sess_inv db" "holds_tombstone i d db"
    and "sql_row (\<lambda>r. si_id r = j \<and> terminated_expired cc dc db r) (sd_sessions db) = Some r"
  shows "i \<noteq> j"
proof
  assume "i = j"
  obtain r' where r': "r' \<in> set (sd_sessions db)" "si_id r' = i" "tombstone d r'"
    using assms(2) find_session_Some by (auto simp: holds_tombstone_def)
  have r: "r \<in> set (sd_sessions db)" "si_id r = j" "terminated_expired cc dc db r"
    using sql_row_Some [OF assms(3)] by simp_all
  have u: "unique_index (\<lambda>_. True) si_id (sd_sessions db)"
    using assms(1) by (simp add: sess_inv_iff rows_inv_def)
  have "r' = r" by (rule unique_index_eq [OF u r'(1) r(1)]) (simp_all add: r'(2) r(2) \<open>i = j\<close>)
  then show False using r(3) r'(3) by (simp add: terminated_expired_def tombstone_def)
qed

lemma delete_terminated_keeps_tombstone:
  "sess_inv db \<Longrightarrow> holds_tombstone i d db \<Longrightarrow>
     delete_terminated_each tid now cc dc ids db = Some (db', rs) \<Longrightarrow> holds_tombstone i d db'"
proof (induction ids arbitrary: db rs)
  case (Cons j ids)
  show ?case
  proof (cases "sql_row (\<lambda>r. si_id r = j \<and> terminated_expired cc dc db r) (sd_sessions db)")
    case None
    then show ?thesis using Cons by simp
  next
    case (Some r)
    have r: "si_id r = j" using sql_row_Some [OF Some] by simp
    obtain db1 rs1 where db1: "insert_cleanup_task (tid j) now r (delete_row j db) = Some db1"
        "delete_terminated_each tid now cc dc ids db1 = Some (db', rs1)"
      using Cons.prems(3) Some by (auto split: option.splits)
    have "sess_inv db1"
      using remove_session_inv [OF Cons.prems(1), of "tid j" now r] db1(1) r by simp
    moreover have "holds_tombstone i d db1"
      using remove_keeps_tombstone [OF Cons.prems(2) tombstone_not_terminated [OF Cons.prems(1,2) Some] _ db1(1)]
        Cons.prems(1) by (simp add: sess_inv_iff)
    ultimately show ?thesis by (rule Cons.IH [OF _ _ db1(2)])
  qed
qed simp

fun removes :: "session_id \<Rightarrow> store_op \<Rightarrow> bool" where
  "removes i (StDeletePhysical tid now j) \<longleftrightarrow> i = j"
| "removes i _ \<longleftrightarrow> False"

lemma step_keeps_tombstone:
  assumes inv: "sess_inv db" and h: "holds_tombstone i d db" and op: "\<not> removes i op"
  shows "holds_tombstone i d (store_step op db)"
proof (cases "rows_only op \<or> queue_work op")
  case True
  then show ?thesis
    using rows_only_keeps_tombstone [OF h] queue_work_frame [of op db] h
    by (auto simp: holds_tombstone_def find_session_def)
next
  case False
  then show ?thesis
  proof (cases op)
    case (StExec o')
    then show ?thesis using h by (simp add: holds_tombstone_def find_session_def)
  next
    case (StDelete ids now j)
    then show ?thesis
      using h mark_deleted_keeps_tombstone [OF inv h]
      by (auto simp: mark_deleted_with_cleanup_def split: option.splits)
  next
    case (StRetire ids j now)
    then show ?thesis
      using h mark_deleted_keeps_tombstone [OF inv h]
      by (auto simp: retire_expired_lifecycle_session_def split: option.splits)
  next
    case (StDeletePhysical tid now j)
    then show ?thesis
      using h op inv remove_keeps_tombstone [OF h, of j]
      by (auto simp: delete_physical_with_cleanup_def sess_inv_iff split: option.splits)
  next
    case (StDeleteTerminated tid now cc dc)
    then show ?thesis
      using h delete_terminated_keeps_tombstone [OF inv h]
      by (auto simp: delete_terminated_def split: option.splits)
  qed auto
qed

lemma run_keeps_tombstone:
  "sess_inv db \<Longrightarrow> holds_tombstone i d db \<Longrightarrow> list_all (\<lambda>op. \<not> removes i op) ops \<Longrightarrow>
     holds_tombstone i d (fold store_step ops db)"
  by (induction ops arbitrary: db) (simp_all add: step_keeps_tombstone store_step_inv)

lemma tombstone_refuses:
  assumes "holds_tombstone i d db" "ar_session q = i" "accept_valid q" "accept_read q (ledger_of db) = None"
  shows "accept cfg q now tnow dbnow e (ledger_of db) = (ledger_of db, None, False, Some ErrSessionExpired)"
  using assms
  by (auto simp: holds_tombstone_def accept_def accept_tx_def lock_acceptable_session_def ledger_of_def
      session_columns_def tombstone_def)

definition new_queued_input :: "encoder \<Rightarrow> queued_request \<Rightarrow> queue_limits \<Rightarrow> exec_db \<Rightarrow> bool" where
  "new_queued_input enc q limits db \<longleftrightarrow> qr_session q \<noteq> [] \<and> qr_client q \<noteq> [] \<and> qr_hash q \<noteq> [] \<and>
     payload_size enc (qr_payload q) \<le> ql_bytes (with_defaults limits) \<and>
     get_by_client (qr_session q) (qr_client q) db = None"

lemma tombstone_refuses_queued:
  assumes "holds_tombstone i d db" "qr_session q = i" "new_queued_input enc q limits (ledger_of db)"
  shows "accept_queued enc cfg q limits tnow now e pid (ledger_of db) =
    (ledger_of db, None, None, False, Some ErrSessionExpired)"
proof -
  have "lock_acceptable_session tnow i (ledger_of db) = Some ErrSessionExpired"
    using assms(1) by (auto simp: holds_tombstone_def lock_acceptable_session_def ledger_of_def session_columns_def tombstone_def)
  then have "accept_queued_tx enc cfg q (with_defaults limits) tnow now e pid (ledger_of db) =
      (ledger_of db, TxFail ErrSessionExpired False)"
    using assms(2) by (simp add: accept_queued_tx_def)
  moreover have "\<not> ql_bytes (with_defaults limits) < payload_size enc (qr_payload q)" "qr_session q \<noteq> []" "qr_client q \<noteq> []"
    "qr_hash q \<noteq> []" "get_by_client (qr_session q) (qr_client q) (ledger_of db) = None"
    using assms(3) by (auto simp: new_queued_input_def)
  ultimately show ?thesis by (simp add: accept_queued_def)
qed

text \<open>
  C6. A soft delete is final.  When a session has been deleted through its job, whatever the store,
  the ledger, the runners and retention do afterwards - late writes of cached sessions included -
  and short of a physical delete of that session, its row stays deleted with the same deletion
  time, its title, directory, context, platform key and client key stay blank, and the ledger
  refuses every new input for it, direct or queued, with the session's expiry and unchanged tables.
  The worker session id and the spec snapshot are blanked too, but two late writes may put them
  back, so nothing is said of them.
\<close>

theorem soft_delete_is_final:
  assumes "mark_deleted_with_cleanup ids now i (fold store_step ops0 empty_sess_db) = (db, None)"
    and "find_session i (fold store_step ops0 empty_sess_db) \<noteq> None"
    and "list_all (\<lambda>op. \<not> removes i op) ops"
  shows "\<exists>d r. find_session i (fold store_step ops db) = Some r \<and> tombstone d r \<and>
           (\<forall>r0. find_session i db = Some r0 \<longrightarrow> si_deleted r0 = Some d) \<and>
           (\<forall>cfg q tnow acc dbnow e.
              ar_session q = i \<and> accept_valid q \<and> accept_read q (ledger_of (fold store_step ops db)) = None \<longrightarrow>
              accept cfg q acc tnow dbnow e (ledger_of (fold store_step ops db)) =
                (ledger_of (fold store_step ops db), None, False, Some ErrSessionExpired)) \<and>
           (\<forall>enc cfg q limits tnow now e pid.
              qr_session q = i \<and> new_queued_input enc q limits (ledger_of (fold store_step ops db)) \<longrightarrow>
              accept_queued enc cfg q limits tnow now e pid (ledger_of (fold store_step ops db)) =
                (ledger_of (fold store_step ops db), None, None, False, Some ErrSessionExpired))"
proof -
  let ?db0 = "fold store_step ops0 empty_sess_db"
  have inv0: "sess_inv ?db0" by (rule session_store.run_inv [OF empty_sess_inv])
  then have inv: "sess_inv db" using mark_deleted_inv [OF inv0, of ids now i] assms(1) by simp
  have m: "mark_deleted_locked ids now i ?db0 = Some db"
    using assms(1) by (auto simp: mark_deleted_with_cleanup_def split: option.splits)
  obtain r0 where r0: "find_session i ?db0 = Some r0" using assms(2) by blast
  have found: "find_session i db = Some (mark_deleted_row now r0)"
    using inv0 m
  proof (cases rule: mark_deleted_locked_cases)
    case (marked r db1 db2)
    then show ?thesis
      using r0 sql_row_update [of "\<lambda>r. si_id r = i" "\<lambda>r. si_id r = i" "mark_deleted_row now" "sd_sessions ?db0"]
      by (simp add: find_session_def mark_deleted_row_def)
  qed (simp add: r0)
  then obtain d where d: "si_deleted (mark_deleted_row now r0) = Some d" "tombstone d (mark_deleted_row now r0)"
    by (auto simp: mark_deleted_row_def tombstone_def coalesce_def split: option.splits)
  then have h: "holds_tombstone i d (fold store_step ops db)"
    using run_keeps_tombstone [OF inv _ assms(3)] found by (auto simp: holds_tombstone_def)
  then obtain r where r: "find_session i (fold store_step ops db) = Some r" "tombstone d r"
    by (auto simp: holds_tombstone_def)
  have "\<forall>r0. find_session i db = Some r0 \<longrightarrow> si_deleted r0 = Some d" using d found by simp
  then show ?thesis
    using r tombstone_refuses [OF h] tombstone_refuses_queued [OF h] by (intro exI [of _ d] exI [of _ r]) auto
qed

section \<open>What a second deletion of the same session does\<close>

text \<open>The session has a job, and what the runners could work off is worked off.\<close>

definition purged_once :: "session_id \<Rightarrow> sess_db \<Rightarrow> bool" where
  "purged_once s db \<longleftrightarrow> (\<exists>j \<in> set (sd_jobs db). pj_session j = s) \<and> worker_item_done s db \<and>
     (\<forall>i \<in> set (sd_items db). pi_session i = s \<and> pi_kind i = PkContent \<longrightarrow> pi_state i = PiComplete)"

text \<open>
  Steps on items: no item leaves complete, a worker item that is done has no task in the outbox
  any more, and no step renames an item.
\<close>

definition items_le :: "session_id \<Rightarrow> purge_item list \<Rightarrow> purge_item list \<Rightarrow> bool" where
  "items_le s is is' \<longleftrightarrow> (\<exists>g. set is' = g ` set is \<and>
     (\<forall>i \<in> set is. pi_session (g i) = pi_session i \<and> pi_kind (g i) = pi_kind i \<and>
        (pi_session i = s \<and> pi_state i \<in> set [PiComplete, PiUnsupported] \<longrightarrow> pi_state (g i) = pi_state i)))"

lemma items_le_refl [simp]: "items_le s is is"
  unfolding items_le_def by (rule exI [of _ "\<lambda>i. i"]) simp

lemma items_le_trans: "items_le s a b \<Longrightarrow> items_le s b c \<Longrightarrow> items_le s a c"
  unfolding items_le_def by (elim exE, rule_tac x = "ga \<circ> g" in exI) (auto simp: image_comp)

lemma items_le_update:
  assumes "\<And>i. pi_session (f i) = pi_session i \<and> pi_kind (f i) = pi_kind i"
    and "\<And>i. i \<in> set is \<Longrightarrow> P i \<Longrightarrow> pi_session i = s \<Longrightarrow> pi_state i \<notin> set [PiComplete, PiUnsupported]"
  shows "items_le s is (sql_update P f is)"
  unfolding items_le_def
  by (rule exI [of _ "\<lambda>i. if P i then f i else i"]) (use assms in \<open>auto simp: sql_update_def\<close>)

lemma refresh_jobs_sessions:
  "(\<exists>j \<in> set (sd_jobs (refresh_purge_job_status t now db)). pj_session j = s) \<longleftrightarrow>
     (\<exists>j \<in> set (sd_jobs db). pj_session j = s)"
  by (simp add: refresh_purge_job_status_def refresh_sessions)

lemma purged_once_le:
  assumes "purged_once s db" "items_le s (sd_items db) (sd_items db')"
    and "\<exists>j \<in> set (sd_jobs db'). pj_session j = s"
  shows "purged_once s db'"
proof -
  obtain g where g: "set (sd_items db') = g ` set (sd_items db)"
      "\<forall>i \<in> set (sd_items db). pi_session (g i) = pi_session i \<and> pi_kind (g i) = pi_kind i \<and>
        (pi_session i = s \<and> pi_state i \<in> set [PiComplete, PiUnsupported] \<longrightarrow> pi_state (g i) = pi_state i)"
    using assms(2) by (auto simp: items_le_def)
  have w: "\<exists>i \<in> set (sd_items db). pi_session i = s \<and> pi_kind i = PkWorkerSession \<and>
      pi_state i \<in> set [PiComplete, PiUnsupported]"
    and c: "\<forall>i \<in> set (sd_items db). pi_session i = s \<and> pi_kind i = PkContent \<longrightarrow> pi_state i = PiComplete"
    using assms(1) by (auto simp: purged_once_def worker_item_done_def)
  from w obtain i where "i \<in> set (sd_items db)" "pi_session i = s" "pi_kind i = PkWorkerSession"
      "pi_state i \<in> set [PiComplete, PiUnsupported]" by blast
  then have "worker_item_done s db'"
    unfolding worker_item_done_def g(1) using g(2) by (intro bexI [of _ "g i"]) auto
  moreover have "\<forall>i \<in> set (sd_items db'). pi_session i = s \<and> pi_kind i = PkContent \<longrightarrow> pi_state i = PiComplete"
    using g c by auto
  ultimately show ?thesis using assms(3) by (simp add: purged_once_def)
qed

lemma worker_not_done:
  assumes inv: "tables_inv db" and k: "has_task s (sd_tasks db)" and i: "i \<in> set (sd_items db)" "worker_item s i"
  shows "pi_state i \<notin> set [PiComplete, PiUnsupported]"
proof -
  have "item_ok (sd_tasks db) i" using inv i(1) by (simp add: tables_inv_def purge_inv_def)
  then show ?thesis using i(2) k by (auto simp: item_ok_def worker_item_def open_item_def)
qed

lemma claim_each_items:
  assumes "tables_inv db" "\<forall>k \<in> set ks. task_named db k" "claim_each tok now lease ks db = (db', ks')"
  shows "items_le s (sd_items db) (sd_items db') \<and>
     ((\<exists>j \<in> set (sd_jobs db'). pj_session j = s) \<longleftrightarrow> (\<exists>j \<in> set (sd_jobs db). pj_session j = s))"
  using assms
proof (induction ks arbitrary: db ks')
  case (Cons k ks)
  let ?P = "\<lambda>k'. ct_id k' = ct_id k \<and> lease_free (ct_lease k') now"
  let ?f = "lease_task lease (tok (ct_id k)) now"
  let ?db1 = "db\<lparr>sd_tasks := sql_update ?P ?f (sd_tasks db)\<rparr>"
  let ?db2 = "mark_cleanup_item_running (ct_session k) (ct_attempts k + 1) (ct_next k) lease
                (tok (ct_id k)) now ?db1"
  have keys: "unique_index (\<lambda>_. True) ct_session (sd_tasks ?db1) \<and>
              unique_index (\<lambda>_. True) ct_id (sd_tasks ?db1)"
    using task_keys_update [of ?f] tables_keys [OF Cons.prems(1)] by simp
  have task: "has_task (ct_session k) (sd_tasks db)"
    using Cons.prems(2) by (auto simp: task_named_def has_task_def)
  show ?case
  proof (cases "sql_count ?P (sd_tasks db) = 1")
    case True
    have att: "ct_attempts (?f k) = ct_attempts k + 1" by (simp add: lease_task_def)
    obtain ks'' where c: "claim_each tok now lease ks ?db2 = (db', ks'')"
      using Cons.prems(3) True by (auto simp: Let_def att split: prod.splits)
    have t2: "tables_inv ?db2"
      unfolding mark_cleanup_item_running_def
      by (rule tables_worker_step [OF Cons.prems(1) keys [simplified]])
         (use task in \<open>auto simp: open_item_def\<close>)
    have le: "items_le s (sd_items db) (sd_items ?db2)"
      unfolding mark_cleanup_item_running_def store_frame
      by (simp add: store_frame, intro items_le_update)
         (use worker_not_done [OF Cons.prems(1) task] in auto)
    have "\<forall>k \<in> set ks. task_named ?db2 k"
      using Cons.prems(2) task_named_update [of db _ ?f ?db2 ?P]
      by (simp add: mark_cleanup_item_running_def store_frame)
    then have "items_le s (sd_items ?db2) (sd_items db') \<and>
     ((\<exists>j \<in> set (sd_jobs db'). pj_session j = s) \<longleftrightarrow> (\<exists>j \<in> set (sd_jobs ?db2). pj_session j = s))"
      using Cons.IH [OF t2 _ c] by simp
    then show ?thesis
      using items_le_trans [OF le]
      by (simp add: mark_cleanup_item_running_def refresh_jobs_sessions store_frame)
  next
    case False
    then have c: "claim_each tok now lease ks ?db1 = (db', ks')"
      using Cons.prems(3) by (simp add: Let_def)
    have "tables_inv ?db1"
      using purge_inv_tasks [OF _ keys] Cons.prems(1) by (simp add: tables_inv_def)
    moreover have "\<forall>k \<in> set ks. task_named ?db1 k"
      using Cons.prems(2) task_named_update [of db _ ?f ?db1 ?P] by simp
    ultimately show ?thesis using Cons.IH [OF _ _ c] by simp
  qed
qed simp

lemma claim_items_each_items:
  "claim_items_each tok now lease is db = Some (db', is') \<Longrightarrow>
     items_le s (sd_items db) (sd_items db') \<and>
     ((\<exists>j \<in> set (sd_jobs db'). pj_session j = s) \<longleftrightarrow> (\<exists>j \<in> set (sd_jobs db). pj_session j = s))"
proof (induction "is" arbitrary: db is')
  case (Cons i "is")
  let ?db = "refresh_purge_job_status (pi_session i) now
    (update_items (leasable_item (pi_id i) now) (lease_item lease (tok (pi_id i)) now) db)"
  obtain is'' where c: "claim_items_each tok now lease is ?db = Some (db', is'')"
    using Cons.prems by (auto split: if_splits)
  have "items_le s (sd_items db) (sd_items ?db)"
    unfolding store_frame by (intro items_le_update) (auto simp: leasable_item_def)
  then show ?case
    using Cons.IH [OF c] by (auto simp: refresh_jobs_sessions store_frame intro: items_le_trans)
qed simp

lemma mark_deleted_purged_once:
  assumes inv: "sess_inv db" and p: "purged_once s db" and m: "mark_deleted_locked ids now i db = Some db'"
  shows "purged_once s db'"
  using inv m
proof (cases rule: mark_deleted_locked_cases)
  case (marked r db1 db2)
  show ?thesis
  proof (cases "\<exists>j \<in> set (sd_jobs db1). pj_session j = si_id r")
    case True
    then obtain j where "j \<in> set (sd_jobs db1)" "pj_session j = si_id r" by blast
    then have "db2 = refresh_purge_job_status (si_id r) now db1"
      using insert_job_old [OF marked(5)] marked(6) by simp
    then show ?thesis
      using p marked(9,10) by (intro purged_once_le [OF p]) (simp_all add: marked(7) store_frame
          refresh_jobs_sessions, simp add: purged_once_def)
  next
    case False
    then have e: "db2 = refresh_purge_job_status (si_id r) now
           (db1\<lparr>sd_jobs := sd_jobs db1 @ [new_purge_job (dl_job ids) now r],
               sd_items := sd_items db1 @ job_items ids (dl_job ids) r now\<rparr>)"
      using insert_job_new [OF marked(5) _ marked(6)] by blast
    have ne: "si_id r \<noteq> s" using False p marked(9) by (auto simp: purged_once_def)
    have items: "sd_items db' = sd_items db @ job_items ids (dl_job ids) r now"
      using marked(10) by (simp add: marked(7) e store_frame)
    have "\<exists>j \<in> set (sd_jobs db'). pj_session j = s"
      using p marked(9) refresh_jobs_sessions [of "si_id r" now
          "db1\<lparr>sd_jobs := sd_jobs db1 @ [new_purge_job (dl_job ids) now r],
               sd_items := sd_items db1 @ job_items ids (dl_job ids) r now\<rparr>" s]
      by (auto simp: marked(7) e purged_once_def)
    then show ?thesis
      using p ne by (auto simp: purged_once_def worker_item_done_def items job_items_def new_purge_item_def)
  qed
qed (simp add: p)

lemma terminated_each_frame:
  "tables_inv db \<Longrightarrow> delete_terminated_each tid now cc dc ids db = Some (db', rs) \<Longrightarrow>
     sd_items db' = sd_items db \<and> sd_jobs db' = sd_jobs db"
proof (induction ids arbitrary: db rs)
  case (Cons i ids)
  show ?case
  proof (cases "sql_row (\<lambda>r. si_id r = i \<and> terminated_expired cc dc db r) (sd_sessions db)")
    case None
    then show ?thesis using Cons by simp
  next
    case (Some r)
    obtain db1 rs1 where db1: "insert_cleanup_task (tid i) now r (delete_row i db) = Some db1"
        "delete_terminated_each tid now cc dc ids db1 = Some (db', rs1)"
      using Cons.prems(2) Some by (auto split: option.splits)
    have t: "tables_inv (delete_row i db)" using Cons.prems(1) by simp
    show ?thesis
      using Cons.IH [OF insert_task_tables [OF t db1(1)] db1(2)] insert_task_frame [OF t db1(1)] by simp
  qed
qed simp

lemma purged_once_cong:
  "sd_items db' = sd_items db \<Longrightarrow> sd_jobs db' = sd_jobs db \<Longrightarrow> purged_once s db' = purged_once s db"
  by (simp add: purged_once_def worker_item_done_def)

lemma worker_update_purged_once:
  assumes inv: "sess_inv db" and p: "purged_once s db" and t: "cleanup_task_session_id tid tok db = Some s'"
    and f: "\<And>i. pi_session (f i) = pi_session i \<and> pi_kind (f i) = pi_kind i"
    and db': "sd_items db' = sql_update (worker_item s') f (sd_items db)"
      "(\<exists>j \<in> set (sd_jobs db'). pj_session j = s) \<longleftrightarrow> (\<exists>j \<in> set (sd_jobs db). pj_session j = s)"
  shows "purged_once s db'"
proof (rule purged_once_le [OF p])
  have task: "has_task s' (sd_tasks db)"
    using t by (auto simp: cleanup_task_session_id_def has_task_def dest!: sql_row_Some)
  show "items_le s (sd_items db) (sd_items db')"
    unfolding db'(1)
    by (intro items_le_update f worker_not_done [OF _ task]) (use inv in \<open>auto simp: sess_inv_iff\<close>)
  show "\<exists>j \<in> set (sd_jobs db'). pj_session j = s" using p db'(2) by (simp add: purged_once_def)
qed

lemma content_update_purged_once:
  assumes p: "purged_once s db" and f: "\<And>i. pi_session (f i) = pi_session i \<and> pi_kind (f i) = pi_kind i"
  shows "purged_once s (refresh_purge_job_status s' now (update_items (leased_item iid tok) f db))"
proof (rule purged_once_le [OF p])
  show "items_le s (sd_items db)
      (sd_items (refresh_purge_job_status s' now (update_items (leased_item iid tok) f db)))"
    unfolding store_frame by (intro items_le_update f) (auto simp: leased_item_def)
qed (use p in \<open>simp add: refresh_jobs_sessions store_frame purged_once_def\<close>)

lemma queue_work_purged_once:
  assumes inv: "sess_inv db" and p: "purged_once s db" and op: "queue_work op"
  shows "purged_once s (store_step op db)"
proof (cases op)
  case (StClaim tok now lease limit)
  let ?ks = "take (nat limit) (sql_select (cleanup_due now) (\<lambda>k. (ct_next k, ct_created k)) (sd_tasks db))"
  have named: "\<forall>k \<in> set ?ks. task_named db k"
  proof
    fix k assume "k \<in> set ?ks"
    then have "k \<in> set (sd_tasks db)" by (auto dest!: in_set_takeD)
    then show "task_named db k" by (auto simp: task_named_def)
  qed
  obtain db' ks' where c: "claim_each tok now lease ?ks db = (db', ks')" by fastforce
  have "purged_once s db'"
    using claim_each_items [OF _ named c, of s] inv p purged_once_le [OF p, of db']
    by (simp add: sess_inv_iff purged_once_def)
  then show ?thesis using p c by (simp add: StClaim claim_cleanup_tasks_def)
next
  case (StClaimItems tok now lease limit)
  have "purged_once s db'" if "claim_items_each tok now lease is db = Some (db', is')" for "is" db' is'
    using claim_items_each_items [OF that, of s] p
    by (intro purged_once_le [OF p]) (simp_all add: purged_once_def)
  then show ?thesis
    using p by (auto simp: StClaimItems claim_purge_items_def split: option.splits)
next
  case (StComplete tid tok now)
  show ?thesis
  proof (cases "cleanup_task_session_id tid tok db")
    case (Some s')
    show ?thesis
      by (rule worker_update_purged_once [OF inv p Some, where f = "complete_item now"])
         (simp_all add: StComplete complete_cleanup_task_def Some delete_task_def mark_cleanup_item_complete_def refresh_jobs_sessions store_frame)
  qed (simp add: StComplete complete_cleanup_task_def p)
next
  case (StRetry tid tok nxt now)
  show ?thesis
  proof (cases "cleanup_task_session_id tid tok db")
    case (Some s')
    show ?thesis
      by (rule worker_update_purged_once [OF inv p Some, where f = "retrying_item nxt now"])
         (simp_all add: StRetry retry_cleanup_task_def Some mark_cleanup_item_retrying_def refresh_jobs_sessions store_frame)
  qed (simp add: StRetry retry_cleanup_task_def p)
next
  case (StUnsupported tid tok now)
  show ?thesis
  proof (cases "cleanup_task_session_id tid tok db")
    case (Some s')
    show ?thesis
      by (rule worker_update_purged_once [OF inv p Some, where f = "unsupported_item now"])
         (simp_all add: StUnsupported fail_unsupported_cleanup_task_def Some delete_task_def refresh_jobs_sessions store_frame)
  qed (simp add: StUnsupported fail_unsupported_cleanup_task_def p)
qed (use p op in \<open>auto simp: complete_purge_item_def retry_purge_item_def content_update_purged_once
        split: option.splits\<close>)

lemma step_purged_once:
  assumes inv: "sess_inv db" and p: "purged_once s db"
  shows "purged_once s (store_step op db)"
proof (cases "rows_only op")
  case True
  then show ?thesis using rows_only_frame [of op db] p purged_once_cong [of "store_step op db" db] by simp
next
  case no: False
  show ?thesis
  proof (cases "queue_work op")
    case True
    then show ?thesis by (rule queue_work_purged_once [OF inv p])
  next
    case False
    have t: "tables_inv db" "tables_inv (delete_row i db)" for i
      using inv by (simp_all add: sess_inv_iff)
    show ?thesis
    proof (cases op)
      case (StExec o')
      then show ?thesis using p by (simp add: purged_once_def worker_item_done_def)
    next
      case (StDelete ids now j)
      then show ?thesis
        using p mark_deleted_purged_once [OF inv p]
        by (auto simp: mark_deleted_with_cleanup_def split: option.splits)
    next
      case (StRetire ids j now)
      then show ?thesis
        using p mark_deleted_purged_once [OF inv p]
        by (auto simp: retire_expired_lifecycle_session_def split: option.splits)
    next
      case (StDeletePhysical tid now j)
      have "purged_once s db'" if "insert_cleanup_task tid now r (delete_row j db) = Some db'" for r db'
        using insert_task_frame [OF t(2) that] p purged_once_cong [of db' db] by simp
      then show ?thesis
        using p by (auto simp: StDeletePhysical delete_physical_with_cleanup_def split: option.splits)
    next
      case (StDeleteTerminated tid now cc dc)
      have "purged_once s db'" if "delete_terminated_each tid now cc dc ids db = Some (db', rs)" for ids db' rs
        using terminated_each_frame [OF t(1) that] p purged_once_cong [of db' db] by simp
      then show ?thesis
        using p by (auto simp: StDeleteTerminated delete_terminated_def split: option.splits)
    qed (use no False in auto)
  qed
qed

lemma run_purged_once:
  "sess_inv db \<Longrightarrow> purged_once s db \<Longrightarrow> purged_once s (fold store_step ops db)"
  by (induction ops arbitrary: db) (simp_all add: step_purged_once store_step_inv)

text \<open>Nothing is queued for a session that was worked off before.\<close>

lemma purged_once_no_items:
  assumes "purged_once s db" "claim_purge_items tok now lease limit db = (db', Inr is)" "i \<in> set is"
  shows "pi_session i \<noteq> s"
proof -
  have each: "\<forall>i \<in> set is'. \<exists>i' \<in> set ix. pi_session i' = pi_session i"
    if "claim_items_each tok now lease ix db = Some (db', is')" for ix is' db db'
    using that
  proof (induction ix arbitrary: db is')
    case (Cons i ix)
    then show ?case by (fastforce split: if_splits)
  qed simp
  let ?ix = "take (nat limit) (sql_select (purge_due now) (\<lambda>i. (pi_next i, pi_created i)) (sd_items db))"
  have "claim_items_each tok now lease ?ix db = Some (db', is)"
    using assms(2,3) by (auto simp: claim_purge_items_def split: if_splits option.splits)
  then obtain i' where "i' \<in> set ?ix" "pi_session i' = pi_session i" using each assms(3) by blast
  then have "i' \<in> set (sd_items db)" "purge_due now i'" "pi_session i' = pi_session i"
    by (auto dest!: in_set_takeD)
  then show ?thesis using assms(1) by (auto simp: purged_once_def purge_due_def)
qed

lemma purged_once_delete:
  assumes inv: "sess_inv db" and p: "purged_once s db" and m: "mark_deleted_locked ids now s db = Some db'"
  shows "sd_tasks db' = sd_tasks db \<and> sd_items db' = sd_items db"
  using inv m
proof (cases rule: mark_deleted_locked_cases)
  case (marked r db1 db2)
  have t: "tables_inv db" using inv by (simp add: sess_inv_iff)
  have "db1 = db"
    using p marked(3,4) by (auto simp: insert_cleanup_task_def purged_once_def split: option.splits)
  obtain j where "j \<in> set (sd_jobs db)" "pj_session j = si_id r"
    using p marked(3) by (auto simp: purged_once_def)
  then have "db2 = refresh_purge_job_status (si_id r) now db"
    using insert_job_old [OF t] marked(6) by (simp add: \<open>db1 = db\<close>)
  then show ?thesis by (simp add: marked(7) store_frame)
qed simp

text \<open>
  C30. A session that is deleted a second time is never cleaned up again.  Once the deletion job of
  a session id has been worked off, then whatever happens later - the id may be physically deleted,
  created again and used for new conversations - deleting it again queues neither a cleanup of its
  worker session nor a purge of its content, and no runner is ever handed content of that session
  to purge.
\<close>

theorem second_deletion_is_not_purged:
  assumes "purged_once s (fold store_step ops0 empty_sess_db)"
    and "db = fold store_step ops (fold store_step ops0 empty_sess_db)"
  shows "(\<forall>ids now. sd_tasks (fst (mark_deleted_with_cleanup ids now s db)) = sd_tasks db \<and>
             sd_items (fst (mark_deleted_with_cleanup ids now s db)) = sd_items db) \<and>
         (\<forall>tok now lease limit db' is. claim_purge_items tok now lease limit db = (db', Inr is) \<longrightarrow>
             s \<notin> pi_session ` set is)"
proof -
  have inv0: "sess_inv (fold store_step ops0 empty_sess_db)"
    by (rule session_store.run_inv [OF empty_sess_inv])
  then have inv: "sess_inv db" unfolding assms(2) by (rule session_store.run_inv)
  have p: "purged_once s db" unfolding assms(2) by (rule run_purged_once [OF inv0 assms(1)])
  have "sd_tasks (fst (mark_deleted_with_cleanup ids now s db)) = sd_tasks db \<and>
        sd_items (fst (mark_deleted_with_cleanup ids now s db)) = sd_items db" for ids now
    using purged_once_delete [OF inv p] by (simp add: mark_deleted_with_cleanup_def split: option.split)
  moreover have "s \<notin> pi_session ` set is" if "claim_purge_items tok now lease limit db = (db', Inr is)"
    for tok now lease limit db' "is"
    using purged_once_no_items [OF p that] by auto
  ultimately show ?thesis by blast
qed

section \<open>Concrete runs\<close>

definition chat_row :: "session_id \<Rightarrow> string \<Rightarrow> instant \<Rightarrow> session_row" where
  "chat_row i w t =
     \<lparr>si_id = i, si_user = ''u'', si_owner = [], si_bot = [], si_bot_name = [], si_wsid = w,
      si_worker_type = ''claude'', si_state = SsCreated, si_platform = ''webchat'',
      si_platform_key = [], si_work_dir = ''d'', si_title = ''x'', si_created = t, si_updated = t,
      si_expires = None, si_idle = None, si_context = None, si_snapshot = None, si_source = [],
      si_client = [], si_workspace = [], si_ceiling = [], si_policy = ''legacy'', si_revision = [],
      si_last_input = None, si_runtime_finished = None, si_archive = None, si_conv = None,
      si_content = None, si_history = None, si_deleted = None\<rparr>"

definition some_ids :: deletion_ids where
  "some_ids = \<lparr>dl_task = ''k'', dl_job = ''j'',
     dl_item = (\<lambda>k. case k of PkMetadata \<Rightarrow> ''m'' | PkContent \<Rightarrow> ''c'' | PkWorkerSession \<Rightarrow> ''w'')\<rparr>"

definition purged_run :: "store_op list" where
  "purged_run = [StUpsert (chat_row ''s'' [] 1), StDelete some_ids 2 ''s'',
     StClaimItems (\<lambda>_. ''t'') 3 9 16, StCompleteItem ''c'' ''t'' 4]"

lemma purged_run_state: "purged_once ''s'' (fold store_step purged_run empty_sess_db)"
  by code_simp

theorem second_deletion_is_not_purged_witness:
  "sd_items (fst (mark_deleted_with_cleanup some_ids 9 ''s''
     (fold store_step [StDeletePhysical ''q'' 5 ''s'', StUpsert (chat_row ''s'' [] 6),
        StWorkerSession ''s'' ''ws'']
        (fold store_step purged_run empty_sess_db)))) =
   sd_items (fold store_step [StDeletePhysical ''q'' 5 ''s'', StUpsert (chat_row ''s'' [] 6),
        StWorkerSession ''s'' ''ws'']
        (fold store_step purged_run empty_sess_db))"
  using second_deletion_is_not_purged [OF purged_run_state refl] by blast

theorem purge_job_tracks_items_witness:
  "\<exists>j \<in> set (sd_jobs (fold store_step purged_run empty_sess_db)).
     pj_state j = PjComplete \<and> pj_completed j \<noteq> None"
proof -
  obtain j where j: "j \<in> set (sd_jobs (fold store_step purged_run empty_sess_db))" "pj_state j = PjComplete"
  proof -
    have "list_ex (\<lambda>j. pj_state j = PjComplete) (sd_jobs (fold store_step purged_run empty_sess_db))"
      by code_simp
    then show ?thesis using that by (auto simp: list_ex_iff)
  qed
  then show ?thesis using purge_job_tracks_items [OF j(1)] by blast
qed

theorem soft_delete_is_final_witness:
  "\<exists>d r. find_session ''s'' (fold store_step [StUpsert (chat_row ''s'' [] 9), StWorkerSession ''s'' ''w'']
       (fst (mark_deleted_with_cleanup some_ids 2 ''s''
          (fold store_step [StUpsert (chat_row ''s'' ''ws'' 1)] empty_sess_db)))) = Some r \<and> tombstone d r"
proof -
  let ?db0 = "fold store_step [StUpsert (chat_row ''s'' ''ws'' 1)] empty_sess_db"
  have m: "mark_deleted_with_cleanup some_ids 2 ''s'' ?db0 =
      (fst (mark_deleted_with_cleanup some_ids 2 ''s'' ?db0), None)"
  proof -
    have "snd (mark_deleted_with_cleanup some_ids 2 ''s'' ?db0) = None" by code_simp
    then show ?thesis by (metis prod.collapse)
  qed
  have f: "find_session ''s'' ?db0 \<noteq> None" by code_simp
  have r: "list_all (\<lambda>op. \<not> removes ''s'' op)
      [StUpsert (chat_row ''s'' [] 9), StWorkerSession ''s'' ''w'']" by simp
  show ?thesis using soft_delete_is_final [OF m f r] by blast
qed

definition recreated_run :: "store_op list" where
  "recreated_run = [StUpsert (chat_row ''s'' [] 1), StDelete some_ids 2 ''s'',
     StDeletePhysical ''q'' 3 ''s'', StUpsert (chat_row ''s'' [] 4)]"

text \<open>
  A purge hits a session that was created again.  A session is deleted, reconnecting with its id
  deletes the row physically and creates the session again, and the content purge of the first
  deletion, run only then, deletes the conversation of the new session.
\<close>

theorem recreated_session_loses_content:
  "\<exists>r. find_session ''s'' (fold store_step recreated_run empty_sess_db) = Some r \<and>
       si_state r = SsCreated \<and> si_deleted r = None \<and>
       snd (run_purge_once (\<lambda>_. True) (\<lambda>_. ''t'') (\<lambda>_. 6) 5
              (fold store_step recreated_run empty_sess_db)) = [''s'']"
proof (intro exI conjI)
  show "find_session ''s'' (fold store_step recreated_run empty_sess_db) = Some (chat_row ''s'' [] 4)"
    by code_simp
qed code_simp+

section \<open>Retention and unsettled executions\<close>

lemma ledger_exec_sel: "t_exec (ledger_of db) = t_exec (sd_exec db)"
  by (simp add: ledger_of_def)

definition keeps_exec :: "exec_row \<Rightarrow> sess_db \<Rightarrow> bool" where
  "keeps_exec r db \<longleftrightarrow> (\<exists>r' \<in> set (t_exec (sd_exec db)). row_le r r')"

lemma keeps_exec_refl: "r \<in> set (t_exec (sd_exec db)) \<Longrightarrow> keeps_exec r db"
  by (auto simp: keeps_exec_def intro: row_le_refl)

lemma remove_keeps_unsettled:
  assumes "tables_inv db" "r \<in> set (t_exec (sd_exec db))" "x_session r \<noteq> i"
    and "insert_cleanup_task tid now s (delete_row i db) = Some db'"
  shows "r \<in> set (t_exec (sd_exec db'))"
  using insert_task_frame [OF _ assms(4)] assms(1-3)
  by (simp add: session_delete_def Let_def)

lemma delete_terminated_keeps_unsettled:
  "sess_inv db \<Longrightarrow> r \<in> set (t_exec (sd_exec db)) \<Longrightarrow> unsettled r \<Longrightarrow>
     delete_terminated_each tid now cc dc ids db = Some (db', rs) \<Longrightarrow> r \<in> set (t_exec (sd_exec db'))"
proof (induction ids arbitrary: db rs)
  case (Cons i ids)
  show ?case
  proof (cases "sql_row (\<lambda>r. si_id r = i \<and> terminated_expired cc dc db r) (sd_sessions db)")
    case None
    then show ?thesis using Cons by simp
  next
    case (Some s)
    have s: "si_id s = i" "\<not> retirement_blocked i db"
      using sql_row_Some [OF Some] by (auto simp: terminated_expired_def)
    have other: "x_session r \<noteq> i"
      using s(2) Cons.prems(2,3) by (auto simp: retirement_blocked_def)
    obtain db1 rs1 where db1: "insert_cleanup_task (tid i) now s (delete_row i db) = Some db1"
        "delete_terminated_each tid now cc dc ids db1 = Some (db', rs1)"
      using Cons.prems(4) Some by (auto split: option.splits)
    have "sess_inv db1"
      using remove_session_inv [OF Cons.prems(1), of "tid i" now s] db1(1) s(1) by simp
    moreover have "r \<in> set (t_exec (sd_exec db1))"
      using remove_keeps_unsettled [OF _ Cons.prems(2) other db1(1)] Cons.prems(1)
      by (simp add: sess_inv_iff)
    ultimately show ?thesis by (rule Cons.IH [OF _ _ Cons.prems(3) db1(2)])
  qed
qed simp

fun physical :: "store_op \<Rightarrow> bool" where
  "physical (StDeletePhysical tid now i) \<longleftrightarrow> True"
| "physical _ \<longleftrightarrow> False"

lemma step_keeps_unsettled:
  assumes inv: "sess_inv db" and r: "r \<in> set (t_exec (sd_exec db))" "unsettled r" and op: "\<not> physical op"
  shows "keeps_exec r (store_step op db)"
proof (cases "rows_only op \<or> queue_work op")
  case True
  then have "sd_exec (store_step op db) = sd_exec db"
    using rows_only_frame queue_work_frame by blast
  then show ?thesis using keeps_exec_refl [OF r(1)] by (simp add: keeps_exec_def)
next
  case False
  then show ?thesis
  proof (cases op)
    case (StExec o')
    have "good (ledger_of db) (exec_step o' (ledger_of db))" if "ledger_only o'"
      using exec_step_good [of "ledger_of db" o'] that inv
      by (cases o') (simp_all add: ledger_inv sess_inv_iff)
    then show ?thesis
      using keeps_exec_refl [OF r(1)] r(1)
      by (auto simp: StExec keeps_exec_def good_def db_le_def ledger_exec_sel)
  next
    case (StDelete ids now j)
    have "sd_exec db' = sd_exec db" if "mark_deleted_locked ids now j db = Some db'" for db'
      using inv that by (cases rule: mark_deleted_locked_cases) simp_all
    then show ?thesis
      using keeps_exec_refl [OF r(1)]
      by (auto simp: StDelete mark_deleted_with_cleanup_def keeps_exec_def split: option.splits)
  next
    case (StRetire ids j now)
    have "sd_exec db' = sd_exec db" if "mark_deleted_locked ids now j db = Some db'" for db'
      using inv that by (cases rule: mark_deleted_locked_cases) simp_all
    then show ?thesis
      using keeps_exec_refl [OF r(1)]
      by (auto simp: StRetire retire_expired_lifecycle_session_def keeps_exec_def split: option.splits)
  next
    case (StDeleteTerminated tid now cc dc)
    then show ?thesis
      using keeps_exec_refl [OF r(1)] delete_terminated_keeps_unsettled [OF inv r]
      by (auto simp: delete_terminated_def intro: keeps_exec_refl split: option.splits)
  qed (use op in auto)
qed

lemma run_keeps_unsettled:
  "sess_inv db \<Longrightarrow> r \<in> set (t_exec (sd_exec db)) \<Longrightarrow> list_all (\<lambda>op. \<not> physical op) ops \<Longrightarrow>
     keeps_exec r (fold store_step ops db) \<or>
     (\<exists>n \<le> length ops. \<exists>r' \<in> set (t_exec (sd_exec (fold store_step (take n ops) db))).
        row_le r r' \<and> \<not> unsettled r')"
proof (induction ops arbitrary: db r)
  case Nil
  then show ?case by (simp add: keeps_exec_refl)
next
  case (Cons op ops)
  show ?case
  proof (cases "unsettled r")
    case False
    then show ?thesis
      using Cons.prems(2) by (intro disjI2 exI [of _ 0]) (auto intro: row_le_refl)
  next
    case True
    then obtain r1 where r1: "r1 \<in> set (t_exec (sd_exec (store_step op db)))" "row_le r r1"
      using step_keeps_unsettled [OF Cons.prems(1,2)] Cons.prems(3) by (auto simp: keeps_exec_def)
    have "keeps_exec r1 (fold store_step ops (store_step op db)) \<or>
      (\<exists>n \<le> length ops. \<exists>r' \<in> set (t_exec (sd_exec (fold store_step (take n ops) (store_step op db)))).
        row_le r1 r' \<and> \<not> unsettled r')"
      using Cons.IH [OF store_step_inv [OF Cons.prems(1)] r1(1)] Cons.prems(3) by simp
    then show ?thesis
    proof
      assume "keeps_exec r1 (fold store_step ops (store_step op db))"
      then show ?thesis using row_le_trans [OF r1(2)] by (auto simp: keeps_exec_def)
    next
      assume "\<exists>n \<le> length ops. \<exists>r' \<in> set (t_exec (sd_exec (fold store_step (take n ops) (store_step op db)))).
        row_le r1 r' \<and> \<not> unsettled r'"
      then obtain n r' where n: "n \<le> length ops" "row_le r1 r'" "\<not> unsettled r'"
          "r' \<in> set (t_exec (sd_exec (fold store_step (take n ops) (store_step op db))))" by blast
      then show ?thesis
        using row_le_trans [OF r1(2) n(2)] by (intro disjI2 exI [of _ "Suc n"]) auto
    qed
  qed
qed

text \<open>
  C7. Retention never loses work.  An accepted execution stays in the ledger as long as it is not
  settled - not delivered for certain, still queued, running or unknown, or fenced - whatever soft
  deletes, retention of terminated sessions, lifecycle retirement, runners and ledger operations
  interleave: at any later point either its row is still there, moved forward only, or there was a
  point before at which the row had been settled.
\<close>

theorem unsettled_execution_survives:
  assumes "r \<in> set (t_exec (sd_exec (fold store_step ops0 empty_sess_db)))"
    and "list_all (\<lambda>op. \<not> physical op) ops"
  shows "(\<exists>r' \<in> set (t_exec (sd_exec (fold store_step ops (fold store_step ops0 empty_sess_db)))). row_le r r') \<or>
         (\<exists>n \<le> length ops. \<exists>r' \<in> set (t_exec (sd_exec
             (fold store_step (take n ops) (fold store_step ops0 empty_sess_db)))).
            row_le r r' \<and> \<not> unsettled r')"
  using run_keeps_unsettled [OF session_store.run_inv [OF empty_sess_inv] assms]
  by (simp add: keeps_exec_def)

definition plain_config :: store_config where
  "plain_config = \<lparr>sc_facts_ms = 0, sc_revision = []\<rparr>"

definition plain_request :: accept_request where
  "plain_request = \<lparr>ar_session = ''s'', ar_client = ''c'', ar_hash = ''h'', ar_owner = ''o'', ar_run = ''r''\<rparr>"

definition accepted_run :: "store_op list" where
  "accepted_run = [StUpsert (chat_row ''s'' [] 1), StExec (OpAccept plain_config plain_request 1 1 1 ''e'')]"

lemmas accepted_run_simps = accepted_run_def upsert_def pending_cleanup_def find_session_def
  empty_sess_db_def sql_row_def accept_def accept_valid_def plain_request_def plain_config_def
  accept_read_def get_by_client_def accept_tx_def lock_acceptable_session_def ledger_of_def
  session_columns_def chat_row_def inserted_row_def insert_ignoring_def violates_unique_def
  accept_row_def empty_db_def state_text_def delete_terminated_def terminated_expired_def

lemma accepted_run_exec:
  "t_exec (sd_exec (fold store_step accepted_run empty_sess_db)) = [accept_row plain_config plain_request 1 1 ''e'']"
  by (simp add: accepted_run_simps)

lemma accepted_run_retained:
  "t_exec (sd_exec (store_step (StDeleteTerminated (\<lambda>_. ''k'') 9 9 9)
      (fold store_step accepted_run empty_sess_db))) = [accept_row plain_config plain_request 1 1 ''e'']"
  by (simp add: accepted_run_simps)

theorem unsettled_execution_survives_witness:
  "\<exists>r' \<in> set (t_exec (sd_exec (fold store_step [StDeleteTerminated (\<lambda>_. ''k'') 9 9 9]
        (fold store_step accepted_run empty_sess_db)))).
     row_le (accept_row plain_config plain_request 1 1 ''e'') r'"
proof -
  let ?r = "accept_row plain_config plain_request 1 1 ''e''"
  let ?db = "fold store_step accepted_run empty_sess_db"
  let ?ops = "[StDeleteTerminated (\<lambda>_. ''k'') 9 9 9]"
  have r: "?r \<in> set (t_exec (sd_exec ?db))" "unsettled ?r"
    by (simp_all only: accepted_run_exec) (simp_all add: unsettled_def accept_row_def)
  have "list_all (\<lambda>op. \<not> physical op) ?ops" by simp
  note s = unsettled_execution_survives [OF r(1) this]
  have "r' = ?r" if "r' \<in> set (t_exec (sd_exec (fold store_step (take n ?ops) ?db)))" for r' n
    using that accepted_run_exec accepted_run_retained by (cases n) simp_all
  then show ?thesis using s r(2) by blast
qed

section \<open>A lease excludes other runners\<close>

definition lease_held :: "string \<Rightarrow> string \<Rightarrow> instant \<Rightarrow> sess_db \<Rightarrow> bool" where
  "lease_held tid tok lease db \<longleftrightarrow>
     (\<exists>k \<in> set (sd_tasks db). ct_id k = tid \<and> ct_token k = Some tok \<and> ct_lease k = Some lease)"

text \<open>
  The steps a lease survives: every claim before it runs out, and no completion that presents its
  token.
\<close>

fun respects_lease :: "string \<Rightarrow> string \<Rightarrow> instant \<Rightarrow> store_op \<Rightarrow> bool" where
  "respects_lease tid tok lease (StClaim tok' now lease' limit) \<longleftrightarrow> now < lease"
| "respects_lease tid tok lease (StComplete tid' tok' now) \<longleftrightarrow> tid' \<noteq> tid \<or> tok' \<noteq> tok"
| "respects_lease tid tok lease (StRetry tid' tok' nxt now) \<longleftrightarrow> tid' \<noteq> tid \<or> tok' \<noteq> tok"
| "respects_lease tid tok lease (StUnsupported tid' tok' now) \<longleftrightarrow> tid' \<noteq> tid \<or> tok' \<noteq> tok"
| "respects_lease tid tok lease _ \<longleftrightarrow> True"

lemma lease_held_update:
  assumes "lease_held tid tok lease db" "sd_tasks db' = sql_update P f (sd_tasks db)"
    and "\<And>k. ct_id k = tid \<Longrightarrow> ct_token k = Some tok \<Longrightarrow> ct_lease k = Some lease \<Longrightarrow> \<not> P k"
  shows "lease_held tid tok lease db'"
  using assms by (fastforce simp: lease_held_def set_sql_update)

lemma claim_each_keeps_lease:
  "claim_each tok' now lease' ks db = (db', ks') \<Longrightarrow> lease_held tid tok lease db \<Longrightarrow> now < lease \<Longrightarrow>
     lease_held tid tok lease db'"
proof (induction ks arbitrary: db ks')
  case (Cons k ks)
  let ?P = "\<lambda>k'. ct_id k' = ct_id k \<and> lease_free (ct_lease k') now"
  let ?f = "lease_task lease' (tok' (ct_id k)) now"
  have "lease_held tid tok lease d" if "sd_tasks d = sql_update ?P ?f (sd_tasks db)" for d
    using lease_held_update [OF Cons.prems(2) that] Cons.prems(3) by (simp add: lease_free_def)
  then show ?case
    using Cons.prems Cons.IH
    by (auto simp: Let_def mark_cleanup_item_running_def store_frame split: if_splits prod.splits)
qed simp

lemma insert_task_keeps_lease:
  assumes "tables_inv db" "insert_cleanup_task tid' now r db = Some db'" "lease_held tid tok lease db"
  shows "lease_held tid tok lease db'"
  using assms(1,2) by (cases rule: insert_task_cases) (use assms(3) in \<open>auto simp: lease_held_def\<close>)

lemma lease_held_cong: "sd_tasks db' = sd_tasks db \<Longrightarrow> lease_held tid tok lease db' = lease_held tid tok lease db"
  by (simp add: lease_held_def)

lemma mark_deleted_keeps_lease:
  assumes inv: "sess_inv db" and m: "mark_deleted_locked ids now i db = Some db'" and h: "lease_held tid tok lease db"
  shows "lease_held tid tok lease db'"
  using inv m
proof (cases rule: mark_deleted_locked_cases)
  case (marked r db1 db2)
  have "lease_held tid tok lease db1"
    using insert_task_keeps_lease [OF _ marked(4) h] inv by (simp add: sess_inv_iff)
  moreover have "sd_tasks db' = sd_tasks db1"
    using insert_job_frame [OF marked(5,6)] by (simp add: marked(7))
  ultimately show ?thesis by (simp add: lease_held_def)
qed (simp add: h)

lemma delete_terminated_keeps_lease:
  "tables_inv db \<Longrightarrow> lease_held tid tok lease db \<Longrightarrow>
     delete_terminated_each tidf now cc dc ids db = Some (db', rs) \<Longrightarrow> lease_held tid tok lease db'"
proof (induction ids arbitrary: db rs)
  case (Cons i ids)
  show ?case
  proof (cases "sql_row (\<lambda>r. si_id r = i \<and> terminated_expired cc dc db r) (sd_sessions db)")
    case None
    then show ?thesis using Cons by simp
  next
    case (Some r)
    obtain db1 rs1 where db1: "insert_cleanup_task (tidf i) now r (delete_row i db) = Some db1"
        "delete_terminated_each tidf now cc dc ids db1 = Some (db', rs1)"
      using Cons.prems(3) Some by (auto split: option.splits)
    have t: "tables_inv (delete_row i db)" "lease_held tid tok lease (delete_row i db)"
      using Cons.prems(1,2) by (simp_all add: lease_held_def)
    show ?thesis
      by (rule Cons.IH [OF insert_task_tables [OF t(1) db1(1)] insert_task_keeps_lease [OF t(1) db1(1) t(2)] db1(2)])
  qed
qed simp

lemma step_keeps_lease:
  assumes inv: "sess_inv db" and h: "lease_held tid tok lease db" and op: "respects_lease tid tok lease op"
  shows "lease_held tid tok lease (store_step op db)"
proof (cases "rows_only op")
  case True
  then show ?thesis using rows_only_frame [of op db] h by (simp add: lease_held_def)
next
  case no: False
  have t: "tables_inv db" "tables_inv (delete_row i db)" "lease_held tid tok lease (delete_row i db)" for i
    using inv h by (simp_all add: sess_inv_iff lease_held_def)
  show ?thesis
  proof (cases op)
    case (StClaim tok' now lease' limit)
    let ?ks = "take (nat limit) (sql_select (cleanup_due now) (\<lambda>k. (ct_next k, ct_created k)) (sd_tasks db))"
    obtain db' ks' where c: "claim_each tok' now lease' ?ks db = (db', ks')" by fastforce
    then show ?thesis
      using claim_each_keeps_lease [OF c h] op h by (simp add: StClaim claim_cleanup_tasks_def)
  next
    case (StClaimItems tok' now lease' limit)
    then show ?thesis using claim_items_frame [of tok' now lease' limit db] h by (simp add: lease_held_def)
  next
    case (StComplete tid' tok' now)
    then show ?thesis
      using h op by (auto simp: complete_cleanup_task_def delete_task_def mark_cleanup_item_complete_def
          lease_held_def store_frame split: option.splits)
  next
    case (StUnsupported tid' tok' now)
    then show ?thesis
      using h op by (auto simp: fail_unsupported_cleanup_task_def delete_task_def
          lease_held_def store_frame split: option.splits)
  next
    case (StRetry tid' tok' nxt now)
    then show ?thesis
      using h op by (auto simp: retry_cleanup_task_def mark_cleanup_item_retrying_def store_frame
          intro!: lease_held_update [OF h, where P = "\<lambda>k. ct_id k = tid' \<and> ct_token k = Some tok'"]
          split: option.splits)
  next
    case (StDelete ids now j)
    then show ?thesis
      using h mark_deleted_keeps_lease [OF inv _ h]
      by (auto simp: mark_deleted_with_cleanup_def split: option.splits)
  next
    case (StRetire ids j now)
    then show ?thesis
      using h mark_deleted_keeps_lease [OF inv _ h]
      by (auto simp: retire_expired_lifecycle_session_def split: option.splits)
  next
    case (StDeletePhysical tid' now j)
    then show ?thesis
      using h insert_task_keeps_lease [OF t(2) _ t(3)]
      by (auto simp: delete_physical_with_cleanup_def split: option.splits)
  next
    case (StDeleteTerminated tidf now cc dc)
    then show ?thesis
      using h delete_terminated_keeps_lease [OF t(1) h]
      by (auto simp: delete_terminated_def split: option.splits)
  qed (use h no in \<open>auto simp: lease_held_def complete_purge_item_def retry_purge_item_def store_frame
        split: option.splits\<close>)
qed

lemma run_keeps_lease:
  "sess_inv db \<Longrightarrow> lease_held tid tok lease db \<Longrightarrow> list_all (respects_lease tid tok lease) ops \<Longrightarrow>
     lease_held tid tok lease (fold store_step ops db)"
  by (induction ops arbitrary: db) (simp_all add: step_keeps_lease store_step_inv)

lemma claim_each_named:
  "claim_each tok now lease ks db = (db', ks') \<Longrightarrow> k' \<in> set ks' \<Longrightarrow>
     \<exists>k \<in> set ks. ct_id k' = ct_id k \<and> ct_token k' = Some (tok (ct_id k)) \<and> ct_lease k' = Some lease"
proof (induction ks arbitrary: db ks')
  case (Cons k ks)
  then show ?case by (fastforce simp: Let_def lease_task_def split: if_splits prod.splits)
qed simp

text \<open>A claimed task holds the lease it was answered with.\<close>

lemma claim_each_holds:
  assumes "claim_each tok now lease ks db = (db', ks')" "k' \<in> set ks'" "now < lease"
  shows "lease_held (ct_id k') (tok (ct_id k')) lease db'"
  using assms
proof (induction ks arbitrary: db ks')
  case (Cons k ks)
  let ?P = "\<lambda>k'. ct_id k' = ct_id k \<and> lease_free (ct_lease k') now"
  let ?f = "lease_task lease (tok (ct_id k)) now"
  let ?db1 = "db\<lparr>sd_tasks := sql_update ?P ?f (sd_tasks db)\<rparr>"
  let ?db2 = "mark_cleanup_item_running (ct_session k) (ct_attempts (?f k)) (ct_next k) lease
                (tok (ct_id k)) now ?db1"
  show ?case
  proof (cases "sql_count ?P (sd_tasks db) = 1")
    case False
    then show ?thesis using Cons by (simp add: Let_def)
  next
    case True
    then obtain k0 where k0: "k0 \<in> set (sd_tasks db)" "?P k0"
      using sql_count_0_iff [of ?P "sd_tasks db"] by auto
    have "?f k0 \<in> set (sd_tasks ?db1)" using k0 by (force simp: set_sql_update)
    then have held: "lease_held (ct_id k) (tok (ct_id k)) lease ?db2"
      using k0(2) by (auto simp: lease_held_def mark_cleanup_item_running_def store_frame lease_task_def
          intro!: bexI [of _ "?f k0"])
    obtain ks'' where c: "claim_each tok now lease ks ?db2 = (db', ks'')" "ks' = ?f k # ks''"
      using Cons.prems(1) True by (auto simp: Let_def split: prod.splits)
    show ?thesis
    proof (cases "k' \<in> set ks''")
      case True
      then show ?thesis using Cons.IH [OF c(1)] Cons.prems(3) by simp
    next
      case False
      then have "ct_id k' = ct_id k" using Cons.prems(2) c(2) by simp
      then show ?thesis using claim_each_keeps_lease [OF c(1) held Cons.prems(3)] by simp
    qed
  qed
qed simp

text \<open>
  C29. A worker session is cleaned up by one runner at a time.  When a runner has claimed a task
  with a lease, then as long as every claim comes before the lease runs out and nobody completes
  the task with its token, no claim of any gateway hands the task out again, whatever else happens
  to sessions, deletions and other tasks.
\<close>

theorem cleanup_lease_is_exclusive:
  assumes "claim_cleanup_tasks tok now lease limit (fold store_step ops0 empty_sess_db) = (db, ks)"
    and "k \<in> set ks" and "now < lease"
    and "list_all (respects_lease (ct_id k) (tok (ct_id k)) lease) ops"
    and "claim_cleanup_tasks tok' now' lease' limit' (fold store_step ops db) = (db', ks')"
    and "now' < lease"
  shows "ct_id k \<notin> ct_id ` set ks'"
proof -
  let ?db0 = "fold store_step ops0 empty_sess_db"
  have inv0: "sess_inv ?db0" by (rule session_store.run_inv [OF empty_sess_inv])
  then have inv: "sess_inv db" using claim_tasks_inv [OF inv0, of tok now lease limit] assms(1) by simp
  have "lease_held (ct_id k) (tok (ct_id k)) lease db"
    using assms(1-3) claim_each_holds by (auto simp: claim_cleanup_tasks_def split: if_splits)
  then have h: "lease_held (ct_id k) (tok (ct_id k)) lease (fold store_step ops db)"
    by (rule run_keeps_lease [OF inv _ assms(4)])
  then obtain k0 where k0: "k0 \<in> set (sd_tasks (fold store_step ops db))" "ct_id k0 = ct_id k"
      "ct_lease k0 = Some lease"
    by (auto simp: lease_held_def)
  have "sess_inv (fold store_step ops db)" by (rule session_store.run_inv [OF inv])
  then have u: "unique_index (\<lambda>_. True) ct_id (sd_tasks (fold store_step ops db))"
    using tables_keys by (simp add: sess_inv_iff)
  show ?thesis
  proof
    assume "ct_id k \<in> ct_id ` set ks'"
    then obtain k' where k': "k' \<in> set ks'" "ct_id k' = ct_id k" by auto
    let ?sel = "take (nat limit') (sql_select (cleanup_due now') (\<lambda>k. (ct_next k, ct_created k))
                  (sd_tasks (fold store_step ops db)))"
    have "claim_each tok' now' lease' ?sel (fold store_step ops db) = (db', ks')"
      using assms(5) k'(1) by (auto simp: claim_cleanup_tasks_def split: if_splits)
    then obtain k1 where "k1 \<in> set ?sel" "ct_id k' = ct_id k1"
      using claim_each_named k'(1) by blast
    then have k1: "k1 \<in> set (sd_tasks (fold store_step ops db))" "cleanup_due now' k1" "ct_id k1 = ct_id k"
      using k'(2) by (auto dest!: in_set_takeD)
    have "k1 = k0" by (rule unique_index_eq [OF u k1(1) k0(1)]) (simp_all add: k1(3) k0(2))
    then show False using k1(2) k0(3) assms(6) by (simp add: cleanup_due_def lease_free_def)
  qed
qed

definition deleted_run :: "store_op list" where
  "deleted_run = [StUpsert (chat_row ''s'' ''ws'' 1), StDelete some_ids 2 ''s'']"

theorem cleanup_lease_is_exclusive_witness:
  "ct_id ` set (snd (claim_cleanup_tasks (\<lambda>_. ''t2'') 9 39 16
       (fold store_step [StRetry ''k'' ''x'' 5 5]
          (fst (claim_cleanup_tasks (\<lambda>_. ''t'') 3 33 16 (fold store_step deleted_run empty_sess_db))))))
     \<inter> {''k''} = {}"
proof -
  let ?c = "claim_cleanup_tasks (\<lambda>_. ''t'') 3 33 16 (fold store_step deleted_run empty_sess_db)"
  let ?d = "fold store_step [StRetry ''k'' ''x'' 5 5] (fst ?c)"
  obtain db ks where c: "?c = (db, ks)" by fastforce
  obtain db' ks' where d: "claim_cleanup_tasks (\<lambda>_. ''t2'') 9 39 16 (fold store_step [StRetry ''k'' ''x'' 5 5] db) = (db', ks')"
    by fastforce
  have "map ct_id (snd ?c) = [''k'']" by code_simp
  then obtain k where k: "k \<in> set ks" "ct_id k = ''k''" by (cases "snd ?c") (auto simp: c)
  have r: "list_all (respects_lease (ct_id k) ''t'' 33) [StRetry ''k'' ''x'' 5 5]" by (simp add: k(2))
  have "ct_id k \<notin> ct_id ` set ks'"
    by (rule cleanup_lease_is_exclusive [OF c k(1) _ r d]) simp_all
  then show ?thesis using d by (simp add: c k(2))
qed

end
