(* ===== verification/Pool.thy ===== *)
theory Pool
  imports Prelude Interfaces "HOL-Library.Multiset"
begin

text \<open>
  The worker quota of the session layer, \<open>internal/session/pool.go\<close>: counters per user and per
  workspace, a memory estimate per user, the four limits, and the gauge snapshot the metrics
  callback reads without the lock.  Every exported method takes \<open>p.mu\<close> for its whole body, so a
  method is one function on the state and concurrent use is a sequence of such functions.  Log
  lines and the OpenTelemetry counters are left out.
\<close>

section \<open>State\<close>

type_synonym user_id = string
type_synonym workspace_id = string

text \<open>The package-level atomics; the utilization is kept as numerator and denominator.\<close>

record pool_gauges =
  g_active :: int
  g_users :: nat
  g_spaces :: nat
  g_memory :: int
  g_utilization :: "int \<times> int"

record pool =
  p_total :: int
  p_users :: "user_id \<Rightarrow> int option"
  p_memory :: "user_id \<Rightarrow> int option"
  p_memory_total :: int
  p_spaces :: "workspace_id \<Rightarrow> int option"
  p_max_size :: int
  p_max_user :: int
  p_max_memory :: int
  p_max_space :: int
  p_gauges :: pool_gauges

record pool_config =
  pc_max_size :: int
  pc_max_user :: int
  pc_max_memory :: int
  pc_max_space :: int

definition worker_memory_estimate :: int where
  "worker_memory_estimate = 512 * 1024 * 1024"

datatype pool_error =
    PoolExhausted int int
  | UserQuotaExceeded user_id int int
  | WorkspaceQuotaExceeded int int
  | MemoryExceeded user_id

section \<open>Operations\<close>

text \<open>
  The users and workspaces with a slot are counted over the domains of the maps; without a code
  equation for that count an evaluation leaves the gauges as a term.
\<close>

definition gauge_snapshot :: "pool \<Rightarrow> pool_gauges" where
  "gauge_snapshot p =
     \<lparr>g_active = p_total p,
      g_users = card (dom (p_users p)),
      g_spaces = card (dom (p_spaces p)),
      g_memory = p_memory_total p,
      g_utilization = (if p_max_size p > 0 then (p_total p, p_max_size p) else (0, 1))\<rparr>"

declare gauge_snapshot_def [code del]

definition snapshot_metrics :: "pool \<Rightarrow> pool" where
  "snapshot_metrics p = p\<lparr>p_gauges := gauge_snapshot p\<rparr>"

definition new_pool :: "int \<Rightarrow> int \<Rightarrow> int \<Rightarrow> pool" where
  "new_pool max_size max_user max_memory =
     \<lparr>p_total = 0, p_users = Map.empty, p_memory = Map.empty, p_memory_total = 0,
      p_spaces = Map.empty, p_max_size = max_size, p_max_user = max_user,
      p_max_memory = max_memory, p_max_space = 0,
      p_gauges = \<lparr>g_active = 0, g_users = 0, g_spaces = 0, g_memory = 0,
                   g_utilization = (0, 1)\<rparr>\<rparr>"

definition new_pool_with_workspace :: "int \<Rightarrow> int \<Rightarrow> int \<Rightarrow> int \<Rightarrow> pool" where
  "new_pool_with_workspace max_size max_user max_memory max_space =
     (new_pool max_size max_user max_memory)\<lparr>p_max_space := max_space\<rparr>"

definition reserve_memory :: "user_id \<Rightarrow> pool \<Rightarrow> pool" where
  "reserve_memory u p = p
     \<lparr>p_memory := (p_memory p)(u \<mapsto> at0 (p_memory p) u + worker_memory_estimate),
      p_memory_total := p_memory_total p + worker_memory_estimate\<rparr>"

definition memory_full :: "user_id \<Rightarrow> pool \<Rightarrow> bool" where
  "memory_full u p \<longleftrightarrow> at0 (p_memory p) u + worker_memory_estimate > p_max_memory p"

definition take_slot :: "user_id \<Rightarrow> workspace_id \<Rightarrow> pool \<Rightarrow> pool" where
  "take_slot u w p = p
     \<lparr>p_users := (p_users p)(u \<mapsto> at0 (p_users p) u + 1),
      p_total := p_total p + 1,
      p_spaces := (if w \<noteq> [] then (p_spaces p)(w \<mapsto> at0 (p_spaces p) w + 1) else p_spaces p)\<rparr>"

definition acquire_locked ::
    "user_id \<Rightarrow> workspace_id \<Rightarrow> bool \<Rightarrow> pool \<Rightarrow> pool \<times> pool_error option" where
  "acquire_locked u w with_memory p =
     (if p_max_size p > 0 \<and> p_total p \<ge> p_max_size p then
        (p, Some (PoolExhausted (p_total p) (p_max_size p)))
      else if p_max_user p > 0 \<and> at0 (p_users p) u \<ge> p_max_user p then
        (p, Some (UserQuotaExceeded u (at0 (p_users p) u) (p_max_user p)))
      else if w \<noteq> [] \<and> p_max_space p > 0 \<and> at0 (p_spaces p) w \<ge> p_max_space p then
        (p, Some (WorkspaceQuotaExceeded (at0 (p_spaces p) w) (p_max_space p)))
      else if with_memory \<and> p_max_memory p > 0 \<and> memory_full u p then
        (p, Some (MemoryExceeded u))
      else
        let p1 = (if with_memory \<and> p_max_memory p > 0 then reserve_memory u p else p)
        in (snapshot_metrics (take_slot u w p1), None))"

definition acquire :: "user_id \<Rightarrow> pool \<Rightarrow> pool \<times> pool_error option" where
  "acquire u = acquire_locked u [] False"

definition acquire_with_memory :: "user_id \<Rightarrow> pool \<Rightarrow> pool \<times> pool_error option" where
  "acquire_with_memory u = acquire_locked u [] True"

definition acquire_for_workspace ::
    "user_id \<Rightarrow> workspace_id \<Rightarrow> pool \<Rightarrow> pool \<times> pool_error option" where
  "acquire_for_workspace u w = acquire_locked u w True"

definition release_memory_locked :: "user_id \<Rightarrow> pool \<Rightarrow> pool" where
  "release_memory_locked u p =
     (let used = at0 (p_memory p) u;
          delta = (if used \<ge> worker_memory_estimate then worker_memory_estimate
                   else if used > 0 then used else 0);
          m = (if used \<ge> worker_memory_estimate
               then (p_memory p)(u \<mapsto> used - worker_memory_estimate)
               else if used > 0 then (p_memory p)(u \<mapsto> 0) else p_memory p)
      in p\<lparr>p_memory_total := p_memory_total p - delta,
           p_memory := (if at0 m u \<le> 0 then m(u := None) else m)\<rparr>)"

text \<open>Decrement a counter and drop the key when it reaches zero.\<close>

definition dec_counter :: "'k \<Rightarrow> ('k \<Rightarrow> int option) \<Rightarrow> 'k \<Rightarrow> int option" where
  "dec_counter k m = (let n = at0 m k - 1 in if n \<le> 0 then m(k := None) else m(k \<mapsto> n))"

definition double_release :: "user_id \<Rightarrow> pool \<Rightarrow> bool" where
  "double_release u p \<longleftrightarrow> at0 (p_users p) u \<le> 0 \<or> p_total p \<le> 0"

definition release_core_locked :: "user_id \<Rightarrow> pool \<Rightarrow> pool \<times> bool" where
  "release_core_locked u p =
     (if double_release u p then (release_memory_locked u p, False)
      else
        let p1 = p\<lparr>p_users := dec_counter u (p_users p), p_total := p_total p - 1\<rparr>
        in (snapshot_metrics (release_memory_locked u p1), True))"

definition release :: "user_id \<Rightarrow> pool \<Rightarrow> pool" where
  "release u p = fst (release_core_locked u p)"

definition release_for_workspace :: "user_id \<Rightarrow> workspace_id \<Rightarrow> pool \<Rightarrow> pool" where
  "release_for_workspace u w p =
     (case release_core_locked u p of
        (p1, False) \<Rightarrow> p1
      | (p1, True) \<Rightarrow>
          snapshot_metrics
            (if w \<noteq> [] \<and> at0 (p_spaces p1) w > 0
             then p1\<lparr>p_spaces := dec_counter w (p_spaces p1)\<rparr> else p1))"

definition stats :: "pool \<Rightarrow> int \<times> int \<times> nat" where
  "stats p = (p_total p, p_max_size p, card (dom (p_users p)))"

definition update_limits :: "pool_config \<Rightarrow> pool \<Rightarrow> pool" where
  "update_limits l p =
     (let p1 = p\<lparr>p_max_size := pc_max_size l, p_max_user := pc_max_user l,
                 p_max_space := pc_max_space l, p_max_memory := pc_max_memory l\<rparr>;
          p2 = (if p_max_memory p > 0 \<and> pc_max_memory l = 0
                then p1\<lparr>p_memory := Map.empty, p_memory_total := 0\<rparr> else p1)
      in snapshot_metrics p2)"

definition acquire_memory :: "user_id \<Rightarrow> pool \<Rightarrow> pool \<times> pool_error option" where
  "acquire_memory u p =
     (if p_max_memory p > 0 \<and> memory_full u p then (p, Some (MemoryExceeded u))
      else (snapshot_metrics (if p_max_memory p > 0 then reserve_memory u p else p), None))"

definition release_memory :: "user_id \<Rightarrow> pool \<Rightarrow> pool" where
  "release_memory u p = snapshot_metrics (release_memory_locked u p)"

definition user_memory :: "user_id \<Rightarrow> pool \<Rightarrow> int" where
  "user_memory u p = at0 (p_memory p) u"

text \<open>The calls a client can make, one at a time under \<open>p.mu\<close>.\<close>

datatype pool_op =
    Acquire user_id
  | AcquireWithMemory user_id
  | AcquireForWorkspace user_id workspace_id
  | Release user_id
  | ReleaseForWorkspace user_id workspace_id
  | UpdateLimits pool_config
  | AcquireMemory user_id
  | ReleaseMemory user_id

fun pool_step :: "pool_op \<Rightarrow> pool \<Rightarrow> pool" where
  "pool_step (Acquire u) p = fst (acquire u p)"
| "pool_step (AcquireWithMemory u) p = fst (acquire_with_memory u p)"
| "pool_step (AcquireForWorkspace u w) p = fst (acquire_for_workspace u w p)"
| "pool_step (Release u) p = release u p"
| "pool_step (ReleaseForWorkspace u w) p = release_for_workspace u w p"
| "pool_step (UpdateLimits l) p = update_limits l p"
| "pool_step (AcquireMemory u) p = fst (acquire_memory u p)"
| "pool_step (ReleaseMemory u) p = release_memory u p"

section \<open>Well-formedness\<close>

text \<open>
  Every stored counter is positive, the total is the sum over the users and the reserved memory
  the sum over the users.
\<close>

definition pool_inv :: "pool \<Rightarrow> bool" where
  "pool_inv p \<longleftrightarrow>
     counter_map (p_users p) \<and> counter_map (p_memory p) \<and> counter_map (p_spaces p) \<and>
     p_total p = map_total (p_users p) \<and> p_memory_total p = map_total (p_memory p)"

lemma worker_memory_estimate_pos [simp]: "0 < worker_memory_estimate"
  by (simp add: worker_memory_estimate_def)

lemma pool_inv_snapshot [simp]: "pool_inv (snapshot_metrics p) = pool_inv p"
  by (simp add: pool_inv_def snapshot_metrics_def gauge_snapshot_def)

lemma snapshot_sel [simp]:
  "p_total (snapshot_metrics p) = p_total p"
  "p_users (snapshot_metrics p) = p_users p"
  "p_memory (snapshot_metrics p) = p_memory p"
  "p_memory_total (snapshot_metrics p) = p_memory_total p"
  "p_spaces (snapshot_metrics p) = p_spaces p"
  "p_max_size (snapshot_metrics p) = p_max_size p"
  "p_max_user (snapshot_metrics p) = p_max_user p"
  "p_max_space (snapshot_metrics p) = p_max_space p"
  "p_max_memory (snapshot_metrics p) = p_max_memory p"
  by (simp_all add: snapshot_metrics_def gauge_snapshot_def)

lemma counter_map_finite: "counter_map m \<Longrightarrow> finite (dom m)"
  by (simp add: counter_map_def)

lemma at0_dec_counter:
  "counter_map m \<Longrightarrow>
     at0 (dec_counter k m) j = (if j = k then max 0 (at0 m k - 1) else at0 m j)"
  by (auto simp: dec_counter_def Let_def)

lemma counter_map_dec: "counter_map m \<Longrightarrow> counter_map (dec_counter k m)"
  by (simp add: dec_counter_def Let_def counter_map_del counter_map_upd)

lemma map_total_dec:
  assumes "counter_map m" "0 < at0 m k"
  shows "map_total (dec_counter k m) = map_total m - 1"
proof (cases "at0 m k = 1")
  case True
  then show ?thesis
    using assms by (simp add: dec_counter_def map_total_del counter_map_finite)
next
  case False
  then have "dec_counter k m = m(k \<mapsto> at0 m k - 1)"
    using assms(2) by (simp add: dec_counter_def Let_def)
  then show ?thesis
    using assms(1) by (simp add: map_total_upd counter_map_finite del: fun_upd_apply)
qed

lemma new_pool_inv [inv_intros]: "pool_inv (new_pool_with_workspace a b c d)"
  by (simp add: pool_inv_def new_pool_with_workspace_def new_pool_def)

lemma reserve_memory_inv [inv_intros]:
  assumes "pool_inv p"
  shows "pool_inv (reserve_memory u p)"
proof -
  have "0 < at0 (p_memory p) u + worker_memory_estimate"
    using assms counter_map_nonneg [of "p_memory p" u]
    by (auto simp: pool_inv_def intro: add_nonneg_pos)
  then show ?thesis
    using assms
    by (simp add: pool_inv_def reserve_memory_def counter_map_upd map_total_upd
        counter_map_finite del: fun_upd_apply)
qed

lemma take_slot_inv [inv_intros]:
  assumes "pool_inv p"
  shows "pool_inv (take_slot u w p)"
proof -
  have "0 < at0 (p_users p) u + 1" "0 < at0 (p_spaces p) w + 1"
    using assms counter_map_nonneg [of "p_users p" u] counter_map_nonneg [of "p_spaces p" w]
    by (auto simp: pool_inv_def)
  then show ?thesis
    using assms
    by (simp add: pool_inv_def take_slot_def counter_map_upd map_total_upd
        counter_map_finite del: fun_upd_apply)
qed

lemma acquire_locked_inv [inv_intros]: "pool_inv p \<Longrightarrow> pool_inv (fst (acquire_locked u w m p))"
  by (simp add: acquire_locked_def Let_def take_slot_inv reserve_memory_inv)

lemma release_memory_locked_inv [inv_intros]:
  assumes "pool_inv p"
  shows "pool_inv (release_memory_locked u p)"
proof -
  have "0 \<le> at0 (p_memory p) u"
    using assms by (simp add: pool_inv_def counter_map_nonneg)
  then show ?thesis
    using assms
    by (auto simp: pool_inv_def release_memory_locked_def Let_def counter_map_upd
        counter_map_del map_total_upd map_total_del counter_map_finite simp del: fun_upd_apply)
qed

lemma release_core_inv [inv_intros]:
  assumes "pool_inv p"
  shows "pool_inv (fst (release_core_locked u p))"
proof (cases "double_release u p")
  case True
  then show ?thesis
    using assms by (simp add: release_core_locked_def release_memory_locked_inv)
next
  case False
  then have "pool_inv (p\<lparr>p_users := dec_counter u (p_users p), p_total := p_total p - 1\<rparr>)"
    using assms by (simp add: pool_inv_def double_release_def counter_map_dec map_total_dec)
  then show ?thesis
    using False by (simp add: release_core_locked_def Let_def release_memory_locked_inv)
qed

lemma release_for_workspace_inv [inv_intros]:
  assumes "pool_inv p"
  shows "pool_inv (release_for_workspace u w p)"
proof -
  obtain p1 ok where core: "release_core_locked u p = (p1, ok)"
    by (cases "release_core_locked u p")
  then have "pool_inv p1"
    using release_core_inv [OF assms, of u] by simp
  then show ?thesis
    by (cases ok) (auto simp: release_for_workspace_def core pool_inv_def counter_map_dec)
qed

lemma update_limits_inv [inv_intros]: "pool_inv p \<Longrightarrow> pool_inv (update_limits l p)"
  by (simp add: update_limits_def Let_def pool_inv_def)

lemma pool_step_inv: "pool_inv p \<Longrightarrow> pool_inv (pool_step op p)"
  by (cases op) (simp_all add: inv_intros acquire_def acquire_with_memory_def
      acquire_for_workspace_def release_def acquire_memory_def release_memory_def)

interpretation pool_machine: invariant_machine pool_step pool_inv
  by unfold_locales (rule pool_step_inv)

section \<open>Limits\<close>

text \<open>No counter above its limit; a limit that is not positive is switched off.\<close>

definition within_limits :: "pool \<Rightarrow> bool" where
  "within_limits p \<longleftrightarrow>
     (p_max_size p > 0 \<longrightarrow> p_total p \<le> p_max_size p) \<and>
     (p_max_user p > 0 \<longrightarrow> (\<forall>u. at0 (p_users p) u \<le> p_max_user p)) \<and>
     (p_max_space p > 0 \<longrightarrow> (\<forall>w. w \<noteq> [] \<longrightarrow> at0 (p_spaces p) w \<le> p_max_space p)) \<and>
     (p_max_memory p > 0 \<longrightarrow> (\<forall>u. at0 (p_memory p) u \<le> p_max_memory p))"

fun keeps_limits :: "pool_op \<Rightarrow> bool" where
  "keeps_limits (UpdateLimits l) = False"
| "keeps_limits _ = True"

text \<open>The four checks of \<open>acquireLocked\<close>, as one predicate.\<close>

definition room :: "user_id \<Rightarrow> workspace_id \<Rightarrow> bool \<Rightarrow> pool \<Rightarrow> bool" where
  "room u w with_memory p \<longleftrightarrow>
     (p_max_size p > 0 \<longrightarrow> p_total p < p_max_size p) \<and>
     (p_max_user p > 0 \<longrightarrow> at0 (p_users p) u < p_max_user p) \<and>
     (w \<noteq> [] \<and> p_max_space p > 0 \<longrightarrow> at0 (p_spaces p) w < p_max_space p) \<and>
     (with_memory \<and> p_max_memory p > 0 \<longrightarrow>
        at0 (p_memory p) u + worker_memory_estimate \<le> p_max_memory p)"

lemma acquire_locked_room:
  "acquire_locked u w m p =
     (if room u w m p
      then (snapshot_metrics (take_slot u w
              (if m \<and> p_max_memory p > 0 then reserve_memory u p else p)), None)
      else (p, snd (acquire_locked u w m p)))"
  by (auto simp: acquire_locked_def room_def memory_full_def Let_def)

lemma acquire_locked_granted: "snd (acquire_locked u w m p) = None \<longleftrightarrow> room u w m p"
  by (auto simp: acquire_locked_def room_def memory_full_def Let_def)

lemma acquire_locked_cases:
  assumes "acquire_locked u w m p = (p', e)"
  obtains "room u w m p" "e = None"
      "p' = snapshot_metrics (take_slot u w
              (if m \<and> p_max_memory p > 0 then reserve_memory u p else p))"
    | "\<not> room u w m p" "e \<noteq> None" "p' = p"
  using assms acquire_locked_room [of u w m p] acquire_locked_granted [of u w m p]
  by (cases "room u w m p") auto

lemma within_limits_snapshot [simp]: "within_limits (snapshot_metrics p) = within_limits p"
  by (simp add: within_limits_def)

lemma take_slot_within:
  assumes "within_limits p" "room u w m p"
  shows "within_limits (take_slot u w (if m \<and> p_max_memory p > 0 then reserve_memory u p else p))"
    (is "within_limits ?q")
proof -
  have sel: "p_total ?q = p_total p + 1" "p_max_size ?q = p_max_size p"
    "p_max_user ?q = p_max_user p" "p_max_space ?q = p_max_space p"
    "p_max_memory ?q = p_max_memory p"
    "at0 (p_users ?q) v = (if v = u then at0 (p_users p) u + 1 else at0 (p_users p) v)"
    "at0 (p_spaces ?q) x =
       (if w \<noteq> [] \<and> x = w then at0 (p_spaces p) w + 1 else at0 (p_spaces p) x)"
    "at0 (p_memory ?q) v =
       (if m \<and> p_max_memory p > 0 \<and> v = u then at0 (p_memory p) u + worker_memory_estimate
        else at0 (p_memory p) v)" for v x
    by (simp_all add: take_slot_def reserve_memory_def)
  show ?thesis
    using assms unfolding within_limits_def room_def sel
    by (intro conjI impI allI) (auto split: if_splits)
qed

lemma acquire_locked_within: "within_limits p \<Longrightarrow> within_limits (fst (acquire_locked u w m p))"
  using take_slot_within [of p u w m]
  by (subst acquire_locked_room) simp

lemma dec_counter_le: "counter_map m \<Longrightarrow> at0 (dec_counter k m) j \<le> at0 m j"
  using counter_map_nonneg [of m k] by (simp add: at0_dec_counter)

lemma release_memory_locked_sel [simp]:
  "p_total (release_memory_locked u p) = p_total p"
  "p_users (release_memory_locked u p) = p_users p"
  "p_spaces (release_memory_locked u p) = p_spaces p"
  "p_max_size (release_memory_locked u p) = p_max_size p"
  "p_max_user (release_memory_locked u p) = p_max_user p"
  "p_max_space (release_memory_locked u p) = p_max_space p"
  "p_max_memory (release_memory_locked u p) = p_max_memory p"
  "p_gauges (release_memory_locked u p) = p_gauges p"
  by (simp_all add: release_memory_locked_def Let_def)

text \<open>One worker's estimate is handed back, never below zero.\<close>

lemma release_memory_locked_at0:
  assumes "counter_map (p_memory p)"
  shows "at0 (p_memory (release_memory_locked u p)) v =
           (if v = u then max 0 (at0 (p_memory p) u - worker_memory_estimate)
            else at0 (p_memory p) v)"
  using counter_map_nonneg [OF assms, of u]
  by (auto simp: release_memory_locked_def Let_def)

lemma release_memory_locked_le:
  assumes "counter_map (p_memory p)"
  shows "at0 (p_memory (release_memory_locked u p)) v \<le> at0 (p_memory p) v"
  using counter_map_nonneg [OF assms, of u] less_imp_le [OF worker_memory_estimate_pos]
  by (auto simp: release_memory_locked_at0 [OF assms])

lemma release_core_sel:
  assumes "pool_inv p"
  shows "p_total (fst (release_core_locked u p)) \<le> p_total p"
    "at0 (p_users (fst (release_core_locked u p))) v \<le> at0 (p_users p) v"
    "p_spaces (fst (release_core_locked u p)) = p_spaces p"
    "at0 (p_memory (fst (release_core_locked u p))) v \<le> at0 (p_memory p) v"
    "p_max_size (fst (release_core_locked u p)) = p_max_size p"
    "p_max_user (fst (release_core_locked u p)) = p_max_user p"
    "p_max_space (fst (release_core_locked u p)) = p_max_space p"
    "p_max_memory (fst (release_core_locked u p)) = p_max_memory p"
  using assms
  by (auto simp: release_core_locked_def Let_def pool_inv_def dec_counter_le
      intro!: order_trans [OF release_memory_locked_le])

lemma release_core_within:
  assumes "pool_inv p" "within_limits p"
  shows "within_limits (fst (release_core_locked u p))"
  using assms(2) release_core_sel [OF assms(1), of u]
  unfolding within_limits_def by (metis order_trans)

lemma release_for_workspace_within:
  assumes "pool_inv p" "within_limits p"
  shows "within_limits (release_for_workspace u w p)"
proof -
  obtain p1 ok where core: "release_core_locked u p = (p1, ok)"
    by (cases "release_core_locked u p")
  have "within_limits p1" "counter_map (p_spaces p1)"
    using release_core_within [OF assms, of u] release_core_inv [OF assms(1), of u]
    by (simp_all add: core pool_inv_def)
  then show ?thesis
    by (cases ok)
       (auto simp: release_for_workspace_def core within_limits_def
         intro: order_trans [OF dec_counter_le])
qed

lemma release_memory_within:
  assumes "pool_inv p" "within_limits p"
  shows "within_limits (release_memory u p)"
  using assms unfolding within_limits_def pool_inv_def release_memory_def
  by (auto intro: order_trans [OF release_memory_locked_le])

lemma acquire_memory_within: "within_limits p \<Longrightarrow> within_limits (fst (acquire_memory u p))"
  by (auto simp: acquire_memory_def within_limits_def memory_full_def reserve_memory_def)

lemma pool_step_within:
  "pool_inv p \<Longrightarrow> within_limits p \<Longrightarrow> keeps_limits op \<Longrightarrow> within_limits (pool_step op p)"
  by (cases op) (simp_all add: acquire_locked_within release_core_within
      release_for_workspace_within release_memory_within acquire_memory_within
      acquire_def acquire_with_memory_def acquire_for_workspace_def release_def)

text \<open>The limits as an invariant of the runs that leave them alone.\<close>

definition pool_step_fixed :: "pool_op \<Rightarrow> pool \<Rightarrow> pool" where
  "pool_step_fixed op p = (if keeps_limits op then pool_step op p else p)"

interpretation pool_fixed: invariant_machine pool_step_fixed "\<lambda>p. pool_inv p \<and> within_limits p"
  by unfold_locales (simp add: pool_step_fixed_def pool_step_inv pool_step_within)

lemma fold_step_fixed:
  "list_all keeps_limits ops \<Longrightarrow> fold pool_step_fixed ops p = fold pool_step ops p"
  by (induction ops arbitrary: p) (simp_all add: pool_step_fixed_def)

lemma new_pool_within: "within_limits (new_pool_with_workspace a b c d)"
  by (simp add: within_limits_def new_pool_with_workspace_def new_pool_def)

section \<open>Tickets: what the counters stand for\<close>

text \<open>
  A session holds a ticket \<open>(user, workspace)\<close> from a granted \<open>AcquireForWorkspace\<close> to its
  \<open>ReleaseForWorkspace\<close>.  A client that returns only tickets it holds, and each once, finds in
  the pool exactly the count of the outstanding tickets.
\<close>

type_synonym ticket = "user_id \<times> workspace_id"

definition holds_tickets :: "ticket multiset \<Rightarrow> pool \<Rightarrow> bool" where
  "holds_tickets T p \<longleftrightarrow>
     p_total p = int (size T) \<and>
     (\<forall>u. at0 (p_users p) u = int (size (filter_mset (\<lambda>t. fst t = u) T))) \<and>
     (\<forall>w. w \<noteq> [] \<longrightarrow> at0 (p_spaces p) w = int (size (filter_mset (\<lambda>t. snd t = w) T)))"

datatype client_op = Take ticket | Return ticket | Reconfigure pool_config

fun client_step :: "client_op \<Rightarrow> ticket multiset \<times> pool \<Rightarrow> ticket multiset \<times> pool" where
  "client_step (Take (u, w)) (T, p) =
     (case acquire_for_workspace u w p of
        (p', None) \<Rightarrow> (add_mset (u, w) T, p')
      | (p', Some _) \<Rightarrow> (T, p'))"
| "client_step (Return (u, w)) (T, p) =
     (if (u, w) \<in># T then (T - {#(u, w)#}, release_for_workspace u w p) else (T, p))"
| "client_step (Reconfigure l) (T, p) = (T, update_limits l p)"

definition client_inv :: "ticket multiset \<times> pool \<Rightarrow> bool" where
  "client_inv s \<longleftrightarrow> pool_inv (snd s) \<and> holds_tickets (fst s) (snd s)"

lemma holds_snapshot [simp]: "holds_tickets T (snapshot_metrics p) = holds_tickets T p"
  by (simp add: holds_tickets_def)

lemma take_ticket:
  assumes "holds_tickets T p" "acquire_for_workspace u w p = (p', None)"
  shows "holds_tickets (add_mset (u, w) T) p'"
proof -
  have "acquire_locked u w True p = (p', None)"
    using assms(2) by (simp add: acquire_for_workspace_def)
  then show ?thesis
    using assms(1)
    by (cases rule: acquire_locked_cases) (simp_all add: holds_tickets_def take_slot_def reserve_memory_def)
qed

text \<open>The double-release branch is never taken for a ticket that is held.\<close>

lemma held_not_double:
  assumes "holds_tickets T p" "(u, w) \<in># T"
  shows "\<not> double_release u p" "w \<noteq> [] \<Longrightarrow> 0 < at0 (p_spaces p) w"
proof -
  obtain U where "T = add_mset (u, w) U"
    using assms(2) by (metis insert_DiffM)
  then show "\<not> double_release u p" "w \<noteq> [] \<Longrightarrow> 0 < at0 (p_spaces p) w"
    using assms(1) by (simp_all add: holds_tickets_def double_release_def)
qed

lemma return_ticket:
  assumes inv: "pool_inv p" and T: "holds_tickets T p" and t: "(u, w) \<in># T"
  shows "holds_tickets (T - {#(u, w)#}) (release_for_workspace u w p)"
proof -
  let ?p1 = "release_memory_locked u
               (p\<lparr>p_users := dec_counter u (p_users p), p_total := p_total p - 1\<rparr>)"
  have rel: "release_for_workspace u w p = snapshot_metrics
      (if w \<noteq> [] then (snapshot_metrics ?p1)\<lparr>p_spaces := dec_counter w (p_spaces p)\<rparr>
       else snapshot_metrics ?p1)"
    using held_not_double [OF T t]
    by (auto simp: release_for_workspace_def release_core_locked_def Let_def)
  obtain U where U: "T = add_mset (u, w) U"
    using t by (metis insert_DiffM)
  have "counter_map (p_users p)" "counter_map (p_spaces p)"
    using inv by (simp_all add: pool_inv_def)
  then show ?thesis
    using T by (simp add: rel holds_tickets_def at0_dec_counter U)
qed

lemma client_step_inv: "client_inv s \<Longrightarrow> client_inv (client_step op s)"
proof (cases s)
  case (Pair T p)
  assume "client_inv s"
  then have inv: "pool_inv p" "holds_tickets T p"
    by (simp_all add: client_inv_def Pair)
  show ?thesis
  proof (cases op)
    case (Take t)
    obtain u w where t: "t = (u, w)" by (cases t)
    obtain p' e where acq: "acquire_for_workspace u w p = (p', e)"
      by (cases "acquire_for_workspace u w p")
    have "pool_inv p'"
      using acquire_locked_inv [OF inv(1), of u w True] acq
      by (simp add: acquire_for_workspace_def)
    moreover have "p' = p" if "e \<noteq> None"
      using acq that unfolding acquire_for_workspace_def
      by (cases rule: acquire_locked_cases) auto
    ultimately show ?thesis
      using inv take_ticket [OF inv(2)] acq
      by (cases e) (auto simp: client_inv_def Pair Take t)
  next
    case (Return t)
    then show ?thesis
      using inv return_ticket [OF inv]
      by (cases t) (simp add: client_inv_def Pair release_for_workspace_inv)
  next
    case (Reconfigure l)
    then show ?thesis
      using inv update_limits_inv [OF inv(1), of l]
      by (simp add: client_inv_def Pair holds_tickets_def update_limits_def Let_def)
  qed
qed

interpretation pool_clients: invariant_machine client_step client_inv
  by unfold_locales (rule client_step_inv)

lemma new_pool_client_inv: "client_inv ({#}, new_pool_with_workspace a b c d)"
  using new_pool_inv [of a b c d]
  by (simp add: client_inv_def holds_tickets_def) (simp add: new_pool_with_workspace_def new_pool_def)

section \<open>Properties\<close>

text \<open>
  Quota accounting.  After any sequence of calls on a new pool every stored counter is
  positive, the global count is the sum of the per-user counts and the reserved memory the sum
  of the per-user estimates.
\<close>

theorem pool_accounting: "pool_inv (fold pool_step ops (new_pool_with_workspace a b c d))"
  by (rule pool_machine.run_inv) (rule new_pool_inv)

text \<open>
  C10. Quota safety.  Whatever the interleaving of acquires and releases, double releases
  included, as long as the limits are not reconfigured no counter exceeds its limit: neither
  the pool nor a user, a workspace or a user's memory estimate.
\<close>

theorem pool_never_over_limit:
  assumes "list_all keeps_limits ops"
  shows "within_limits (fold pool_step ops (new_pool_with_workspace a b c d))"
  using pool_fixed.run_inv [of "new_pool_with_workspace a b c d" ops] assms
  by (simp add: new_pool_inv new_pool_within fold_step_fixed)

theorem pool_never_over_limit_witness:
  "within_limits (fold pool_step
     [AcquireForWorkspace ''a'' ''w'', AcquireForWorkspace ''a'' ''w'', Release ''b'']
     (new_pool_with_workspace 1 1 0 1))"
  by (rule pool_never_over_limit) simp

text \<open>
  Admission.  An acquire is granted exactly when every enabled limit has room; a refused
  acquire leaves the pool as it was, a granted one adds one to the global, the user's and (for a
  WebChat session) the workspace's count.
\<close>

theorem acquire_for_workspace_spec:
  "acquire_for_workspace u w p = (p', e) \<Longrightarrow>
     (e = None \<longleftrightarrow> room u w True p) \<and>
     (e \<noteq> None \<longrightarrow> p' = p) \<and>
     (e = None \<longrightarrow> p_total p' = p_total p + 1 \<and>
        (\<forall>v. at0 (p_users p') v = at0 (p_users p) v + (if v = u then 1 else 0)) \<and>
        (\<forall>x. at0 (p_spaces p') x =
               at0 (p_spaces p) x + (if w \<noteq> [] \<and> x = w then 1 else 0)) \<and>
        at0 (p_memory p') u =
          at0 (p_memory p) u + (if p_max_memory p > 0 then worker_memory_estimate else 0))"
  unfolding acquire_for_workspace_def
  by (erule acquire_locked_cases) (simp_all add: take_slot_def reserve_memory_def)

theorem acquire_for_workspace_spec_witness:
  "acquire_for_workspace ''a'' ''w'' (new_pool_with_workspace 1 1 0 1) =
     (snapshot_metrics (take_slot ''a'' ''w'' (new_pool_with_workspace 1 1 0 1)), None) \<and>
   room ''a'' ''w'' True (new_pool_with_workspace 1 1 0 1)"
proof -
  let ?p = "new_pool_with_workspace 1 1 0 1"
  have a: "acquire_for_workspace ''a'' ''w'' ?p = (snapshot_metrics (take_slot ''a'' ''w'' ?p), None)"
    by (simp add: acquire_for_workspace_def acquire_locked_def new_pool_with_workspace_def
        new_pool_def)
  show ?thesis using a acquire_for_workspace_spec [OF a] by simp
qed

text \<open>
  C14. The counters are the outstanding tickets.  For clients that return only what they hold,
  whatever the order of acquires, releases and reconfigurations, the global, per-user and
  per-workspace counts are the numbers of outstanding tickets; in particular no release ends in
  the double-release branch and a drained pool is empty.
\<close>

theorem pool_counts_outstanding_tickets:
  assumes "fold client_step ops ({#}, new_pool_with_workspace a b c d) = (T, p)"
  shows "holds_tickets T p \<and> (\<forall>u w. (u, w) \<in># T \<longrightarrow> \<not> double_release u p) \<and>
         (T = {#} \<longrightarrow> p_total p = 0 \<and> p_users p = Map.empty)"
proof -
  have inv: "client_inv (T, p)"
    using pool_clients.run_inv [OF new_pool_client_inv, of ops a b c d] by (simp add: assms)
  then have T: "holds_tickets T p" and c: "counter_map (p_users p)"
    by (simp_all add: client_inv_def pool_inv_def)
  have "p_users p u = None" if "T = {#}" for u
    using counter_map_none [OF c, of u] T that by (simp add: holds_tickets_def)
  then show ?thesis
    using T held_not_double(1) [OF T] by (auto simp: holds_tickets_def)
qed

theorem pool_counts_outstanding_tickets_witness:
  "p_total (snd (fold client_step [Take (''a'', ''w''), Return (''a'', ''w'')]
     ({#}, new_pool_with_workspace 1 1 0 1))) = 0"
proof -
  obtain T p where r: "fold client_step [Take (''a'', ''w''), Return (''a'', ''w'')]
      ({#}, new_pool_with_workspace 1 1 0 1) = (T, p)"
    by (metis surj_pair)
  have "T = {#}"
    using r by (auto simp: acquire_for_workspace_def acquire_locked_def new_pool_with_workspace_def
        new_pool_def split: prod.splits)
  with pool_counts_outstanding_tickets [OF r] r show ?thesis by simp
qed

section \<open>The gauge snapshot\<close>

definition gauges_fresh :: "pool \<Rightarrow> bool" where
  "gauges_fresh p \<longleftrightarrow> p_gauges (snapshot_metrics p) = p_gauges p"

fun released_user :: "pool_op \<Rightarrow> user_id option" where
  "released_user (Release u) = Some u"
| "released_user (ReleaseForWorkspace u w) = Some u"
| "released_user _ = None"

lemma gauges_fresh_snapshot [simp]: "gauges_fresh (snapshot_metrics p)"
  by (simp add: gauges_fresh_def snapshot_metrics_def gauge_snapshot_def)

lemma acquire_locked_fresh: "gauges_fresh p \<Longrightarrow> gauges_fresh (fst (acquire_locked u w m p))"
  by (subst acquire_locked_room) simp

lemma release_core_fresh:
  "\<not> double_release u p \<Longrightarrow> gauges_fresh (fst (release_core_locked u p))"
  by (simp add: release_core_locked_def Let_def)

text \<open>
  Gauge snapshot.  After every call the gauges the metrics callback reads equal the
  counters, unless the call is a double release: \<open>releaseCoreLocked\<close> then still frees the
  user's leftover memory estimate but takes no new snapshot.
\<close>

theorem pool_step_gauges:
  assumes "gauges_fresh p"
    and "\<And>u. released_user op = Some u \<Longrightarrow> \<not> double_release u p"
  shows "gauges_fresh (pool_step op p)"
  using assms
  by (cases op) (auto simp: acquire_locked_fresh release_core_fresh acquire_def
      acquire_with_memory_def acquire_for_workspace_def release_def release_for_workspace_def
      update_limits_def acquire_memory_def release_memory_def Let_def
      split: prod.splits bool.splits dest: release_core_fresh)

theorem pool_step_gauges_witness:
  "gauges_fresh (pool_step (Release ''a'') (pool_step (Acquire ''a'') (new_pool 1 1 0)))"
proof (rule pool_step_gauges)
  show "gauges_fresh (pool_step (Acquire ''a'') (new_pool 1 1 0))"
    by (simp add: acquire_def acquire_locked_def new_pool_def)
  show "\<not> double_release u (pool_step (Acquire ''a'') (new_pool 1 1 0))"
    if "released_user (Release ''a'') = Some u" for u
    using that by (simp add: acquire_def acquire_locked_def new_pool_def double_release_def
        take_slot_def)
qed

text \<open>The exception is real: the gauge keeps reporting a reservation that is gone.\<close>

lemma double_release_stale_gauge:
  "p_memory_total (fold pool_step [AcquireMemory ''a'', Release ''a''] (new_pool 0 0 (2^30))) = 0 \<and>
   g_memory (p_gauges (fold pool_step [AcquireMemory ''a'', Release ''a''] (new_pool 0 0 (2^30))))
     = worker_memory_estimate"
  by (simp add: acquire_memory_def memory_full_def reserve_memory_def new_pool_def
      release_def release_core_locked_def double_release_def release_memory_locked_def
      snapshot_metrics_def gauge_snapshot_def worker_memory_estimate_def)

end
