(* ===== verification/Manager.thy ===== *)
theory Manager
  imports CleanupMachine Pool
begin

text \<open>
  The session manager, \<open>internal/session/manager.go\<close>: the cached sessions with their workers, over
  the store and the quota pool.  A \<open>managedSession\<close> is an object with an identity: goroutines keep
  pointers to it after the map of sessions has dropped it.  An operation is not one step.  It
  takes and gives back \<open>m.mu\<close>, \<open>ms.mu\<close> and the pool's mutex and calls the store between them,
  so each stretch between two such points is one section here, and a frame holds what the
  goroutine carries from one section to the next.  The clock calls of one section read the same
  instant.  Log lines, metrics, audit events, callbacks and the termination of worker processes
  are left out; a worker is its identity.
\<close>

section \<open>State\<close>

type_synonym worker_id = nat
type_synonym mref = nat

record managed =
  ms_info :: session_row
  ms_worker :: "worker_id option"
  ms_attached :: workspace_id
  ms_turns :: int
  ms_deleting :: bool

text \<open>
  Configuration and the parts of the environment that do not change: the digest of a lifecycle
  configuration and \<open>MaxTurns\<close> of a worker.
\<close>

record mgr_config =
  mc_lifecycle :: lifecycle_config
  mc_retention :: duration
  mc_idle :: duration
  mc_execution :: duration
  mc_digest :: "lifecycle_config \<Rightarrow> string"
  mc_max_turns :: "worker_id \<Rightarrow> int"

record manager =
  mg_objs :: "managed list"
  mg_index :: "session_id \<Rightarrow> mref option"
  mg_running :: "session_id \<Rightarrow> bool"
  mg_pool :: pool
  mg_db :: sess_db

definition new_manager :: "int \<Rightarrow> int \<Rightarrow> int \<Rightarrow> int \<Rightarrow> sess_db \<Rightarrow> manager" where
  "new_manager limit per_user mem per_ws db =
     \<lparr>mg_objs = [], mg_index = Map.empty, mg_running = (\<lambda>_. False),
      mg_pool = new_pool_with_workspace limit per_user mem per_ws, mg_db = db\<rparr>"

definition managed_at :: "mref \<Rightarrow> manager \<Rightarrow> managed" where
  "managed_at r m = mg_objs m ! r"

definition set_managed :: "mref \<Rightarrow> (managed \<Rightarrow> managed) \<Rightarrow> manager \<Rightarrow> manager" where
  "set_managed r f m = m\<lparr>mg_objs := (mg_objs m)[r := f (mg_objs m ! r)]\<rparr>"

definition fresh_managed :: "session_row \<Rightarrow> managed" where
  "fresh_managed i = \<lparr>ms_info = i, ms_worker = None, ms_attached = [], ms_turns = 0, ms_deleting = False\<rparr>"

definition install :: "session_id \<Rightarrow> managed \<Rightarrow> manager \<Rightarrow> manager" where
  "install i ms m = m\<lparr>mg_objs := mg_objs m @ [ms], mg_index := (mg_index m)(i \<mapsto> length (mg_objs m))\<rparr>"

definition drop_index :: "session_id \<Rightarrow> manager \<Rightarrow> manager" where
  "drop_index i m = m\<lparr>mg_index := (mg_index m)(i := None)\<rparr>"

definition add_to_running_index :: "session_id \<Rightarrow> manager \<Rightarrow> manager" where
  "add_to_running_index i m = m\<lparr>mg_running := (mg_running m)(i := True)\<rparr>"

definition remove_from_running_index :: "session_id \<Rightarrow> manager \<Rightarrow> manager" where
  "remove_from_running_index i m = m\<lparr>mg_running := (mg_running m)(i := False)\<rparr>"

definition update_running_index_for_transition ::
    "session_id \<Rightarrow> session_state \<Rightarrow> session_state \<Rightarrow> manager \<Rightarrow> manager" where
  "update_running_index_for_transition i from to' m =
     (let m1 = (if from = SsRunning then remove_from_running_index i m else m)
      in if to' = SsRunning then add_to_running_index i m1 else m1)"

text \<open>\<open>SessionInfo{ID: id}\<close>, what the tombstone of a session that is not cached holds.\<close>

definition zero_info :: "session_id \<Rightarrow> session_row" where
  "zero_info i =
     \<lparr>si_id = i, si_user = [], si_owner = [], si_bot = [], si_bot_name = [], si_wsid = [],
      si_worker_type = [], si_state = SsEmpty, si_platform = [], si_platform_key = [],
      si_work_dir = [], si_title = [], si_created = zero_time, si_updated = zero_time,
      si_expires = None, si_idle = None, si_context = None, si_snapshot = None, si_source = [],
      si_client = [], si_workspace = [], si_ceiling = [], si_policy = [], si_revision = [],
      si_last_input = None, si_runtime_finished = None, si_archive = None, si_conv = None,
      si_content = None, si_history = None, si_deleted = None\<rparr>"

definition tombstone_managed :: "session_id \<Rightarrow> managed" where
  "tombstone_managed i = (fresh_managed (zero_info i))\<lparr>ms_deleting := True\<rparr>"

definition release_worker_quota :: "mref \<Rightarrow> manager \<Rightarrow> manager" where
  "release_worker_quota r m =
     m\<lparr>mg_pool := release_for_workspace (si_user (ms_info (managed_at r m)))
                    (ms_attached (managed_at r m)) (mg_pool m)\<rparr>"

section \<open>Creating a session\<close>

record create_args =
  ca_id :: session_id
  ca_user :: user_id
  ca_bot :: string
  ca_bot_name :: string
  ca_worker_type :: string
  ca_snapshot :: "string option"
  ca_platform :: string
  ca_platform_key :: "(string \<times> string) list"
  ca_workspace :: workspace_id
  ca_work_dir :: string
  ca_title :: string
  ca_client :: string

definition max_client_key_len :: nat where
  "max_client_key_len = 256"

text \<open>
  \<open>ca_snapshot\<close> is what \<open>bindSpecSnapshot\<close> makes of the allowed tools, \<open>None\<close> without tools; the
  derived identity is left out.
\<close>

definition created_info :: "mgr_config \<Rightarrow> instant \<Rightarrow> create_args \<Rightarrow> initial_lifecycle \<Rightarrow> session_row" where
  "created_info cfg now a l = apply_lifecycle_state l
     ((zero_info (ca_id a))
       \<lparr>si_user := ca_user a, si_bot := ca_bot a, si_bot_name := ca_bot_name a,
        si_worker_type := ca_worker_type a, si_state := SsCreated, si_created := now,
        si_updated := now, si_expires := Some (now + mc_retention cfg), si_platform := ca_platform a,
        si_platform_key := ca_platform_key a, si_work_dir := ca_work_dir a, si_title := ca_title a,
        si_source := (if ''cron_job_id'' \<in> fst ` set (ca_platform_key a) then ''cron'' else []),
        si_client := ca_client a, si_workspace := ca_workspace a, si_snapshot := ca_snapshot a\<rparr>)"

definition create_with_bot :: "mgr_config \<Rightarrow> instant \<Rightarrow> create_args \<Rightarrow> session_error + session_row" where
  "create_with_bot cfg now a =
     (if length (ca_client a) > max_client_key_len then Inl SeClientKeyTooLong
      else
        (case new_initial_lifecycle (mc_digest cfg) now (mc_lifecycle cfg) of
           Inl e \<Rightarrow> Inl e
         | Inr l \<Rightarrow> Inr (created_info cfg now a l)))"

section \<open>Frames\<close>

text \<open>Operations that find their session with \<open>getManagedSession\<close>, with their arguments.\<close>

datatype session_op =
    DoTransition session_state string
  | DoInput session_state
  | DoDetach "worker_id option"
  | DoClearContext
  | DoWorkerSession string bool
  | DoRecordInput instant initial_lifecycle

text \<open>A state transition between two sections: \<open>tr_info\<close> is the candidate that replaces the info.\<close>

record transition =
  tr_ref :: mref
  tr_from :: session_state
  tr_to :: session_state
  tr_reason :: string
  tr_max :: bool
  tr_info :: session_row

datatype answer = Ok | Refused | Err session_error

datatype frame =
    Returned answer
  | CreateCall create_args
  | CreateStore session_row
  | CreateInstall session_row
  | GetCall session_id
  | GetLoad session_id
  | GetInstall session_id session_row
  | RecordCall session_id instant lifecycle_config
  | Lookup session_id session_op
  | Load session_id session_op
  | Install session_id session_row session_op
  | Locked session_id mref session_op
  | TransStore transition
  | TransCommit transition "session_error option"
  | TransGuard transition
  | TransGuarded transition "session_error option"
  | AttachCheck session_id worker_id
  | AttachAcquire session_id worker_id user_id workspace_id
  | AttachPin session_id worker_id user_id workspace_id
  | AttachGiveBack user_id workspace_id session_error
  | DetachRelease user_id workspace_id
  | BindWorkspace session_id workspace_id
  | WorkDirCall session_id string
  | WorkDirCheck mref string
  | ResetExpiryCall session_id
  | Mutate mref "instant \<Rightarrow> session_row \<Rightarrow> session_row" "session_row \<Rightarrow> session_row \<Rightarrow> session_row"
  | MutateStore mref session_row "session_row \<Rightarrow> session_row"
  | MutateBack mref "session_row \<Rightarrow> session_row" session_error
  | WorkerSessionSet session_id mref string
  | WorkerSessionStore session_id mref string string
  | WorkerSessionBack mref string session_error
  | DeleteCall session_id
  | DeleteLoad session_id mref
  | DeleteAbort session_id mref session_error
  | DeleteStore session_id mref session_row "session_row option" bool
  | DeleteRestore session_id mref "session_row option" session_error
  | DeleteCommit session_id mref session_row bool
  | PhysicalCall session_id
  | PhysicalStore session_id mref
  | PhysicalUnmark session_id mref "session_error option"
  | RetireCall session_id
  | RetireStore session_id mref bool
  | RetireUndo session_id mref bool "session_error option"
  | RetireCommit session_id mref

text \<open>What a section draws from its surroundings: the clock, a store that fails, generated ids.\<close>

record section_env =
  ev_now :: instant
  ev_fail :: bool
  ev_ids :: deletion_ids

text \<open>A call of the store, which fails with an error of the driver or answers.\<close>

definition store_call ::
    "section_env \<Rightarrow> (sess_db \<Rightarrow> sess_db \<times> session_error option) \<Rightarrow> manager \<Rightarrow>
       manager \<times> session_error option" where
  "store_call ev f m =
     (if ev_fail ev then (m, Some SeStore)
      else (case f (mg_db m) of (db, e) \<Rightarrow> (m\<lparr>mg_db := db\<rparr>, e)))"

definition store_read :: "section_env \<Rightarrow> session_id \<Rightarrow> manager \<Rightarrow> session_error + session_row" where
  "store_read ev i m = (if ev_fail ev then Inl SeStore else store_get i (mg_db m))"

section \<open>Creating and getting\<close>

definition create_call :: "mgr_config \<Rightarrow> section_env \<Rightarrow> create_args \<Rightarrow> manager \<Rightarrow> manager \<times> frame" where
  "create_call cfg ev a m =
     (m, case create_with_bot cfg (ev_now ev) a of
           Inl e \<Rightarrow> Returned (Err e)
         | Inr i \<Rightarrow> CreateStore i)"

definition create_store :: "section_env \<Rightarrow> session_row \<Rightarrow> manager \<Rightarrow> manager \<times> frame" where
  "create_store ev i m =
     (case store_call ev (upsert i) m of
        (m', Some e) \<Rightarrow> (m', Returned (Err e))
      | (m', None) \<Rightarrow> (m', CreateInstall i))"

definition create_install :: "session_row \<Rightarrow> manager \<Rightarrow> manager \<times> frame" where
  "create_install i m = (install (si_id i) (fresh_managed i) m, Returned Ok)"

definition get_cached :: "mref \<Rightarrow> manager \<Rightarrow> answer" where
  "get_cached r m = (if ms_deleting (managed_at r m) then Err SeCleanupPending else Ok)"

definition get_call :: "session_id \<Rightarrow> manager \<Rightarrow> manager \<times> frame" where
  "get_call i m =
     (m, case mg_index m i of Some r \<Rightarrow> Returned (get_cached r m) | None \<Rightarrow> GetLoad i)"

definition get_load :: "section_env \<Rightarrow> session_id \<Rightarrow> manager \<Rightarrow> manager \<times> frame" where
  "get_load ev i m =
     (m, case store_read ev i m of Inl e \<Rightarrow> Returned (Err e) | Inr r \<Rightarrow> GetInstall i r)"

definition get_install :: "session_id \<Rightarrow> session_row \<Rightarrow> manager \<Rightarrow> manager \<times> frame" where
  "get_install i row m =
     (case mg_index m i of
        Some r \<Rightarrow> (m, Returned (get_cached r m))
      | None \<Rightarrow> (install i (fresh_managed row) m, Returned Ok))"

text \<open>\<open>getManagedSession\<close>, the first sections of every operation below.\<close>

definition lookup_managed :: "session_id \<Rightarrow> session_op \<Rightarrow> manager \<Rightarrow> manager \<times> frame" where
  "lookup_managed i op m =
     (m, case mg_index m i of Some r \<Rightarrow> Locked i r op | None \<Rightarrow> Load i op)"

text \<open>A session that cannot be loaded is not found; a detach then answers false.\<close>

definition load_managed :: "section_env \<Rightarrow> session_id \<Rightarrow> session_op \<Rightarrow> manager \<Rightarrow> manager \<times> frame" where
  "load_managed ev i op m =
     (m, case store_read ev i m of
           Inl e \<Rightarrow> Returned (case op of DoDetach _ \<Rightarrow> Refused | _ \<Rightarrow> Err SeNotFound)
         | Inr r \<Rightarrow> Install i r op)"

definition install_managed :: "session_id \<Rightarrow> session_row \<Rightarrow> session_op \<Rightarrow> manager \<Rightarrow> manager \<times> frame" where
  "install_managed i row op m =
     (case mg_index m i of
        Some r \<Rightarrow> (m, Locked i r op)
      | None \<Rightarrow>
          (let m' = install i (fresh_managed row) m
           in (if si_state row = SsRunning then add_to_running_index i m' else m',
               Locked i (length (mg_objs m)) op)))"

section \<open>Transitions\<close>

definition transition_candidate :: "mgr_config \<Rightarrow> instant \<Rightarrow> session_state \<Rightarrow> session_row \<Rightarrow> session_row" where
  "transition_candidate cfg now to' i = i
     \<lparr>si_state := to', si_updated := now,
      si_idle := (if to' = SsIdle then Some (now + mc_idle cfg) else None)\<rparr>"

text \<open>The first section of \<open>transitionState\<close>; the caller holds \<open>ms.mu\<close>.\<close>

definition transition_state ::
    "mgr_config \<Rightarrow> instant \<Rightarrow> mref \<Rightarrow> session_state \<Rightarrow> session_state \<Rightarrow> string \<Rightarrow> bool \<Rightarrow>
       manager \<Rightarrow> frame" where
  "transition_state cfg now r from to' reason mx m =
     (if ms_deleting (managed_at r m) then Returned (Err SeCleanupPending)
      else TransStore \<lparr>tr_ref = r, tr_from = from, tr_to = to', tr_reason = reason, tr_max = mx,
                       tr_info = transition_candidate cfg now to' (ms_info (managed_at r m))\<rparr>)"

definition force_terminate_in_memory :: "instant \<Rightarrow> mref \<Rightarrow> session_state \<Rightarrow> manager \<Rightarrow> manager" where
  "force_terminate_in_memory now r from m =
     (let m1 = set_managed r (\<lambda>ms. ms\<lparr>ms_info := (ms_info ms)\<lparr>si_state := SsTerminated,
                 si_updated := now\<rparr>\<rparr>) m;
          m2 = (if ms_worker (managed_at r m) \<noteq> None then release_worker_quota r m1 else m1);
          m3 = set_managed r (\<lambda>ms. ms\<lparr>ms_worker := None\<rparr>) m2
      in update_running_index_for_transition (si_id (ms_info (managed_at r m))) from SsTerminated m3)"

text \<open>\<open>TransitionWithReason\<close> once it holds \<open>ms.mu\<close>.\<close>

definition do_transition ::
    "mgr_config \<Rightarrow> section_env \<Rightarrow> mref \<Rightarrow> session_state \<Rightarrow> string \<Rightarrow> manager \<Rightarrow> manager \<times> frame" where
  "do_transition cfg ev r to' reason m =
     (let from = si_state (ms_info (managed_at r m))
      in if from = to' then (m, Returned Ok)
         else if \<not> is_valid_transition from to' then (m, Returned (Err SeInvalidTransition))
         else (m, transition_state cfg (ev_now ev) r from to' reason False m))"

definition turns_exceeded :: "mgr_config \<Rightarrow> managed \<Rightarrow> bool" where
  "turns_exceeded cfg ms \<longleftrightarrow>
     (case ms_worker ms of
        None \<Rightarrow> False
      | Some w \<Rightarrow> mc_max_turns cfg w > 0 \<and> ms_turns ms > mc_max_turns cfg w)"

text \<open>
  \<open>TransitionWithInput\<close> once it holds \<open>ms.mu\<close>.  Past the worker's turn limit the session is
  terminated, in memory only when it cannot be done through the store.
\<close>

definition do_input ::
    "mgr_config \<Rightarrow> section_env \<Rightarrow> mref \<Rightarrow> session_state \<Rightarrow> manager \<Rightarrow> manager \<times> frame" where
  "do_input cfg ev r to' m =
     (let from = si_state (ms_info (managed_at r m));
          m1 = set_managed r (\<lambda>ms. ms\<lparr>ms_turns := ms_turns ms + 1\<rparr>) m
      in if \<not> is_valid_transition from to' then (m, Returned (Err SeInvalidTransition))
         else if turns_exceeded cfg (managed_at r m1) then
           (if is_valid_transition from SsTerminated \<and> \<not> ms_deleting (managed_at r m) then
              (m1, transition_state cfg (ev_now ev) r from SsTerminated ''max_turns'' True m1)
            else (force_terminate_in_memory (ev_now ev) r from m1, Returned (Err SeMaxTurns)))
         else (m1, transition_state cfg (ev_now ev) r from to' ''client_input'' False m1))"

definition transition_store :: "section_env \<Rightarrow> transition \<Rightarrow> manager \<Rightarrow> manager \<times> frame" where
  "transition_store ev t m =
     (case store_call ev (upsert (tr_info t)) m of (m', e) \<Rightarrow> (m', TransCommit t e))"

text \<open>The commit: the candidate replaces the info, an ended session gives its worker up.\<close>

definition commit_transition :: "transition \<Rightarrow> manager \<Rightarrow> manager \<times> frame" where
  "commit_transition t m =
     (let r = tr_ref t;
          m1 = set_managed r (\<lambda>ms. ms\<lparr>ms_info := tr_info t\<rparr>) m;
          m2 = (if tr_to t \<in> {SsTerminated, SsDeleted} \<and> ms_worker (managed_at r m1) \<noteq> None
                then set_managed r (\<lambda>ms. ms\<lparr>ms_worker := None\<rparr>) (release_worker_quota r m1)
                else m1)
      in (update_running_index_for_transition (si_id (tr_info t)) (tr_from t) (tr_to t) m2,
          Returned (if tr_max t then Err SeMaxTurns else Ok)))"

definition transition_commit ::
    "section_env \<Rightarrow> transition \<Rightarrow> session_error option \<Rightarrow> manager \<Rightarrow> manager \<times> frame" where
  "transition_commit ev t e m =
     (let wsid = si_wsid (ms_info (managed_at (tr_ref t) m))
      in case e of
           Some e \<Rightarrow>
             if tr_max t
             then (force_terminate_in_memory (ev_now ev) (tr_ref t) (tr_from t) m, Returned (Err SeMaxTurns))
             else (m, Returned (Err e))
         | None \<Rightarrow>
             if si_wsid (tr_info t) = [] \<and> wsid \<noteq> []
             then (m, TransGuard (t\<lparr>tr_info := (tr_info t)\<lparr>si_wsid := wsid\<rparr>\<rparr>))
             else commit_transition t m)"

definition transition_guard :: "section_env \<Rightarrow> transition \<Rightarrow> manager \<Rightarrow> manager \<times> frame" where
  "transition_guard ev t m =
     (case store_call ev (update_worker_session_id_sql (si_id (tr_info t)) (si_wsid (tr_info t))) m of
        (m', e) \<Rightarrow> (m', TransGuarded t e))"

definition transition_guarded ::
    "transition \<Rightarrow> session_error option \<Rightarrow> manager \<Rightarrow> manager \<times> frame" where
  "transition_guarded t e m =
     (let wsid = (if e \<noteq> None then [] else si_wsid (ms_info (managed_at (tr_ref t) m)))
      in commit_transition (t\<lparr>tr_info := (tr_info t)\<lparr>si_wsid := wsid\<rparr>\<rparr>) m)"

section \<open>Workers\<close>

definition attach_check :: "session_id \<Rightarrow> worker_id \<Rightarrow> manager \<Rightarrow> manager \<times> frame" where
  "attach_check i w m =
     (m, case mg_index m i of
           None \<Rightarrow> Returned (Err SeNotFound)
         | Some r \<Rightarrow>
             (let ms = managed_at r m
              in if ms_deleting ms then Returned (Err SeCleanupPending)
                 else if ms_worker ms \<noteq> None then Returned (Err SeWorkerAttached)
                 else AttachAcquire i w (si_user (ms_info ms)) (si_workspace (ms_info ms))))"

definition attach_error :: "pool_error \<Rightarrow> session_error" where
  "attach_error e =
     (case e of
        UserQuotaExceeded _ _ _ \<Rightarrow> SeUserQuota
      | MemoryExceeded _ \<Rightarrow> SeMemory
      | _ \<Rightarrow> SePoolExhausted)"

definition attach_acquire ::
    "session_id \<Rightarrow> worker_id \<Rightarrow> user_id \<Rightarrow> workspace_id \<Rightarrow> manager \<Rightarrow> manager \<times> frame" where
  "attach_acquire i w u ws m =
     (case acquire_for_workspace u ws (mg_pool m) of
        (p, None) \<Rightarrow> (m\<lparr>mg_pool := p\<rparr>, AttachPin i w u ws)
      | (p, Some e) \<Rightarrow> (m\<lparr>mg_pool := p\<rparr>, Returned (Err (attach_error e))))"

definition attach_pin ::
    "session_id \<Rightarrow> worker_id \<Rightarrow> user_id \<Rightarrow> workspace_id \<Rightarrow> manager \<Rightarrow> manager \<times> frame" where
  "attach_pin i w u ws m =
     (case mg_index m i of
        None \<Rightarrow> (m, AttachGiveBack u ws SeNotFound)
      | Some r \<Rightarrow>
          (let ms = managed_at r m
           in if ms_deleting ms then (m, AttachGiveBack u ws SeCleanupPending)
              else if ms_worker ms \<noteq> None then (m, AttachGiveBack u ws SeWorkerAttached)
              else if \<not> is_active (si_state (ms_info ms)) then (m, AttachGiveBack u ws SeNotActive)
              else (set_managed r (\<lambda>ms. ms\<lparr>ms_worker := Some w, ms_attached := ws\<rparr>) m, Returned Ok)))"

definition give_back :: "user_id \<Rightarrow> workspace_id \<Rightarrow> answer \<Rightarrow> manager \<Rightarrow> manager \<times> frame" where
  "give_back u ws a m = (m\<lparr>mg_pool := release_for_workspace u ws (mg_pool m)\<rparr>, Returned a)"

text \<open>\<open>detachWorkerUnchecked\<close> once it holds \<open>ms.mu\<close>; the quota goes back in a section of its own.\<close>

definition do_detach :: "mref \<Rightarrow> worker_id option \<Rightarrow> manager \<Rightarrow> manager \<times> frame" where
  "do_detach r expected m =
     (let ms = managed_at r m
      in if expected \<noteq> None \<and> ms_worker ms \<noteq> expected then (m, Returned Refused)
         else (set_managed r (\<lambda>ms. ms\<lparr>ms_worker := None\<rparr>) m,
               if ms_worker ms \<noteq> None then DetachRelease (si_user (ms_info ms)) (ms_attached ms)
               else Returned Ok))"

section \<open>Field updates\<close>

text \<open>
  \<open>updateSession\<close>: \<open>edit\<close> changes the info, \<open>undo old\<close> is the rollback closure made from the
  info before the change.
\<close>

definition mutate ::
    "section_env \<Rightarrow> mref \<Rightarrow> (instant \<Rightarrow> session_row \<Rightarrow> session_row) \<Rightarrow>
       (session_row \<Rightarrow> session_row \<Rightarrow> session_row) \<Rightarrow> manager \<Rightarrow> manager \<times> frame" where
  "mutate ev r edit undo m =
     (let old = ms_info (managed_at r m);
          info = (edit (ev_now ev) old)\<lparr>si_updated := ev_now ev\<rparr>
      in (set_managed r (\<lambda>ms. ms\<lparr>ms_info := info\<rparr>) m, MutateStore r info (undo old)))"

definition mutate_store ::
    "section_env \<Rightarrow> mref \<Rightarrow> session_row \<Rightarrow> (session_row \<Rightarrow> session_row) \<Rightarrow> manager \<Rightarrow> manager \<times> frame" where
  "mutate_store ev r info undo m =
     (case store_call ev (upsert info) m of
        (m', Some e) \<Rightarrow> (m', MutateBack r undo e)
      | (m', None) \<Rightarrow> (m', Returned Ok))"

definition mutate_back ::
    "mref \<Rightarrow> (session_row \<Rightarrow> session_row) \<Rightarrow> session_error \<Rightarrow> manager \<Rightarrow> manager \<times> frame" where
  "mutate_back r undo e m =
     (set_managed r (\<lambda>ms. ms\<lparr>ms_info := undo (ms_info ms)\<rparr>) m, Returned (Err e))"

text \<open>\<open>SetWorkspaceID\<close> changes the info under both locks and leaves \<open>UpdatedAt\<close> alone.\<close>

definition bind_workspace :: "session_id \<Rightarrow> workspace_id \<Rightarrow> manager \<Rightarrow> manager \<times> frame" where
  "bind_workspace i ws m =
     (if ws = [] then (m, Returned Ok)
      else
        (case mg_index m i of
           None \<Rightarrow> (m, Returned (Err SeNotFound))
         | Some r \<Rightarrow>
             (let old = ms_info (managed_at r m); info = old\<lparr>si_workspace := ws\<rparr>
              in (set_managed r (\<lambda>ms. ms\<lparr>ms_info := info\<rparr>) m,
                  MutateStore r info (\<lambda>i. i\<lparr>si_workspace := si_workspace old\<rparr>)))))"

definition edit_work_dir :: "string \<Rightarrow> instant \<Rightarrow> session_row \<Rightarrow> session_row" where
  "edit_work_dir d now i = i\<lparr>si_work_dir := d\<rparr>"

definition undo_work_dir :: "session_row \<Rightarrow> session_row \<Rightarrow> session_row" where
  "undo_work_dir old i = i\<lparr>si_work_dir := si_work_dir old\<rparr>"

definition work_dir_call :: "session_id \<Rightarrow> string \<Rightarrow> manager \<Rightarrow> manager \<times> frame" where
  "work_dir_call i d m =
     (m, case mg_index m i of None \<Rightarrow> Returned (Err SeNotFound) | Some r \<Rightarrow> WorkDirCheck r d)"

definition work_dir_check :: "mref \<Rightarrow> string \<Rightarrow> manager \<Rightarrow> manager \<times> frame" where
  "work_dir_check r d m =
     (m, if si_work_dir (ms_info (managed_at r m)) = d then Returned Ok
         else Mutate r (edit_work_dir d) undo_work_dir)"

definition edit_expiry :: "mgr_config \<Rightarrow> instant \<Rightarrow> session_row \<Rightarrow> session_row" where
  "edit_expiry cfg now i = i\<lparr>si_expires := Some (now + mc_retention cfg)\<rparr>"

definition undo_expiry :: "session_row \<Rightarrow> session_row \<Rightarrow> session_row" where
  "undo_expiry old i = i\<lparr>si_expires := si_expires old\<rparr>"

definition reset_expiry_call :: "mgr_config \<Rightarrow> session_id \<Rightarrow> manager \<Rightarrow> manager \<times> frame" where
  "reset_expiry_call cfg i m =
     (m, case mg_index m i of
           None \<Rightarrow> Returned (Err SeNotFound)
         | Some r \<Rightarrow> Mutate r (edit_expiry cfg) undo_expiry)"

definition edit_context :: "instant \<Rightarrow> session_row \<Rightarrow> session_row" where
  "edit_context now i = i\<lparr>si_context := None\<rparr>"

definition undo_context :: "session_row \<Rightarrow> session_row \<Rightarrow> session_row" where
  "undo_context old i = i\<lparr>si_context := si_context old\<rparr>"

text \<open>\<open>ClearContext\<close> once the session is found; an empty context is \<open>None\<close>.\<close>

definition do_clear_context :: "mref \<Rightarrow> manager \<Rightarrow> manager \<times> frame" where
  "do_clear_context r m =
     (m, if si_context (ms_info (managed_at r m)) = None then Returned Ok
         else Mutate r edit_context undo_context)"

definition do_worker_session :: "session_id \<Rightarrow> mref \<Rightarrow> string \<Rightarrow> bool \<Rightarrow> manager \<Rightarrow> manager \<times> frame" where
  "do_worker_session i r w force m =
     (m, if \<not> force \<and> si_wsid (ms_info (managed_at r m)) = w then Returned Ok
         else WorkerSessionSet i r w)"

definition worker_session_set :: "session_id \<Rightarrow> mref \<Rightarrow> string \<Rightarrow> manager \<Rightarrow> manager \<times> frame" where
  "worker_session_set i r w m =
     (set_managed r (\<lambda>ms. ms\<lparr>ms_info := (ms_info ms)\<lparr>si_wsid := w\<rparr>\<rparr>) m,
      WorkerSessionStore i r w (si_wsid (ms_info (managed_at r m))))"

definition worker_session_store ::
    "section_env \<Rightarrow> session_id \<Rightarrow> mref \<Rightarrow> string \<Rightarrow> string \<Rightarrow> manager \<Rightarrow> manager \<times> frame" where
  "worker_session_store ev i r w prev m =
     (case store_call ev (update_worker_session_id_sql i w) m of
        (m', Some e) \<Rightarrow> (m', WorkerSessionBack r prev e)
      | (m', None) \<Rightarrow> (m', Returned Ok))"

definition worker_session_back :: "mref \<Rightarrow> string \<Rightarrow> session_error \<Rightarrow> manager \<Rightarrow> manager \<times> frame" where
  "worker_session_back r prev e m =
     (set_managed r (\<lambda>ms. ms\<lparr>ms_info := (ms_info ms)\<lparr>si_wsid := prev\<rparr>\<rparr>) m, Returned (Err e))"

section \<open>Accepted inputs\<close>

definition record_call ::
    "mgr_config \<Rightarrow> session_id \<Rightarrow> instant \<Rightarrow> lifecycle_config \<Rightarrow> manager \<Rightarrow> manager \<times> frame" where
  "record_call cfg i accepted lc m =
     (m, if accepted = zero_time then Returned (Err SeAcceptedTime)
         else
           (case new_initial_lifecycle (mc_digest cfg) accepted lc of
              Inl e \<Rightarrow> Returned (Err e)
            | Inr l \<Rightarrow> if il_policy l \<noteq> ''v2'' then Returned Ok else Lookup i (DoRecordInput accepted l)))"

definition lifecycle_projection :: "session_row \<Rightarrow> session_row \<Rightarrow> session_row" where
  "lifecycle_projection p i = i
     \<lparr>si_policy := si_policy p, si_revision := si_revision p, si_last_input := si_last_input p,
      si_archive := si_archive p, si_conv := si_conv p, si_content := si_content p,
      si_history := si_history p\<rparr>"

text \<open>
  \<open>RecordInputAccepted\<close> once it holds \<open>ms.mu\<close>, which it keeps to the end; its two statements on the
  row are one step here.
\<close>

definition do_record_input ::
    "section_env \<Rightarrow> session_id \<Rightarrow> mref \<Rightarrow> instant \<Rightarrow> initial_lifecycle \<Rightarrow> manager \<Rightarrow> manager \<times> frame" where
  "do_record_input ev i r accepted l m =
     (case store_read ev i m of
        Inl e \<Rightarrow> (m, Returned (Err e))
      | Inr p \<Rightarrow>
          if ms_deleting (managed_at r m) \<or> row_deleted p then (m, Returned (Err SeNotFound))
          else if si_policy p \<noteq> ''v2'' \<or> si_revision p = [] then (m, Returned Ok)
          else
            (let info = lifecycle_projection p (ms_info (managed_at r m));
                 input = latest_time (si_last_input info) accepted;
                 archive = latest_time (si_archive info) (the (il_archive l));
                 conv = latest_time (si_conv info) (the (il_conv l));
                 history = latest_time (si_history info) (the (il_history l));
                 upd = latest_time (Some (si_updated info)) (ev_now ev)
             in (case store_call ev (advance_lifecycle_deadlines i (si_revision p) input archive conv history upd) m of
                   (m', Some e) \<Rightarrow> (set_managed r (\<lambda>ms. ms\<lparr>ms_info := info\<rparr>) m', Returned (Err e))
                 | (m', None) \<Rightarrow>
                     (set_managed r (\<lambda>ms. ms\<lparr>ms_info := info
                        \<lparr>si_last_input := Some input, si_archive := Some archive, si_conv := Some conv,
                         si_history := Some history, si_updated := upd\<rparr>\<rparr>) m', Returned Ok))))"

section \<open>Deleting\<close>

definition deletion_candidate :: "instant \<Rightarrow> session_row \<Rightarrow> session_row" where
  "deletion_candidate now i = i\<lparr>si_state := SsDeleted, si_updated := now,
     si_deleted := (if si_deleted i = None then Some now else si_deleted i)\<rparr>"

definition delete_call :: "section_env \<Rightarrow> session_id \<Rightarrow> manager \<Rightarrow> manager \<times> frame" where
  "delete_call ev i m =
     (case mg_index m i of
        Some r \<Rightarrow>
          (let info = ms_info (managed_at r m)
           in if ms_deleting (managed_at r m) then (m, Returned (Err SeCleanupPending))
              else (set_managed r (\<lambda>ms. ms\<lparr>ms_deleting := True\<rparr>) m,
                    DeleteStore i r (deletion_candidate (ev_now ev) info) None (si_state info = SsRunning)))
      | None \<Rightarrow> (install i (tombstone_managed i) m, DeleteLoad i (length (mg_objs m))))"

definition delete_load :: "section_env \<Rightarrow> session_id \<Rightarrow> mref \<Rightarrow> manager \<Rightarrow> manager \<times> frame" where
  "delete_load ev i r m =
     (m, case store_read ev i m of
           Inl e \<Rightarrow> DeleteAbort i r e
         | Inr row \<Rightarrow> DeleteStore i r (deletion_candidate (ev_now ev) row) (Some row) (si_state row = SsRunning))"

text \<open>Takes the entry out of the map if it is still this goroutine's.\<close>

definition drop_own :: "session_id \<Rightarrow> mref \<Rightarrow> manager \<Rightarrow> manager" where
  "drop_own i r m = (if mg_index m i = Some r then drop_index i m else m)"

definition delete_abort :: "session_id \<Rightarrow> mref \<Rightarrow> session_error \<Rightarrow> manager \<Rightarrow> manager \<times> frame" where
  "delete_abort i r e m = (drop_own i r m, Returned (if e = SeNotFound then Ok else Err e))"

definition delete_store ::
    "section_env \<Rightarrow> session_id \<Rightarrow> mref \<Rightarrow> session_row \<Rightarrow> session_row option \<Rightarrow> bool \<Rightarrow> manager \<Rightarrow>
       manager \<times> frame" where
  "delete_store ev i r cand orig run m =
     (case store_call ev (mark_deleted_with_cleanup (ev_ids ev) (ev_now ev) i) m of
        (m', Some e) \<Rightarrow> (m', DeleteRestore i r orig e)
      | (m', None) \<Rightarrow> (m', DeleteCommit i r cand run))"

definition delete_restore ::
    "session_id \<Rightarrow> mref \<Rightarrow> session_row option \<Rightarrow> session_error \<Rightarrow> manager \<Rightarrow> manager \<times> frame" where
  "delete_restore i r orig e m =
     (if mg_index m i \<noteq> Some r then m
      else (case orig of
              Some row \<Rightarrow> install i (fresh_managed row) m
            | None \<Rightarrow> set_managed r (\<lambda>ms. ms\<lparr>ms_deleting := False\<rparr>) m), Returned (Err e))"

definition delete_commit ::
    "session_id \<Rightarrow> mref \<Rightarrow> session_row \<Rightarrow> bool \<Rightarrow> manager \<Rightarrow> manager \<times> frame" where
  "delete_commit i r cand run m =
     (if mg_index m i \<noteq> Some r then m
      else
        (let m1 = set_managed r (\<lambda>ms. ms\<lparr>ms_info := cand\<rparr>) m;
             m2 = (if ms_worker (managed_at r m) \<noteq> None then release_worker_quota r m1 else m1);
             m3 = drop_index i m2
         in if run then remove_from_running_index i m3 else m3), Returned Ok)"

definition physical_call :: "session_id \<Rightarrow> manager \<Rightarrow> manager \<times> frame" where
  "physical_call i m =
     (case mg_index m i of
        None \<Rightarrow> (install i (tombstone_managed i) m, PhysicalStore i (length (mg_objs m)))
      | Some r \<Rightarrow>
          if ms_deleting (managed_at r m) then (m, Returned (Err SeCleanupPending))
          else
            (let m1 = set_managed r (\<lambda>ms. ms\<lparr>ms_deleting := True\<rparr>) m;
                 m2 = (if ms_worker (managed_at r m) \<noteq> None then release_worker_quota r m1 else m1)
             in (if si_state (ms_info (managed_at r m)) = SsRunning
                 then remove_from_running_index i m2 else m2,
                 PhysicalStore i r)))"

definition physical_delete ::
    "string \<Rightarrow> instant \<Rightarrow> session_id \<Rightarrow> sess_db \<Rightarrow> sess_db \<times> session_error option" where
  "physical_delete tid now i db =
     (case delete_physical_with_cleanup tid now i db of
        (db', Inl e) \<Rightarrow> (db', Some e)
      | (db', Inr _) \<Rightarrow> (db', None))"

definition physical_store :: "section_env \<Rightarrow> session_id \<Rightarrow> mref \<Rightarrow> manager \<Rightarrow> manager \<times> frame" where
  "physical_store ev i r m =
     (case store_call ev (physical_delete (dl_task (ev_ids ev)) (ev_now ev) i) m of
        (m', e) \<Rightarrow> (m', PhysicalUnmark i r e))"

definition physical_unmark ::
    "session_id \<Rightarrow> mref \<Rightarrow> session_error option \<Rightarrow> manager \<Rightarrow> manager \<times> frame" where
  "physical_unmark i r e m =
     (drop_own i r m, Returned (case e of Some e \<Rightarrow> Err e | None \<Rightarrow> Ok))"

section \<open>Retention\<close>

definition retire_call :: "session_id \<Rightarrow> manager \<Rightarrow> manager \<times> frame" where
  "retire_call i m =
     (case mg_index m i of
        None \<Rightarrow> (install i (tombstone_managed i) m, RetireStore i (length (mg_objs m)) False)
      | Some r \<Rightarrow>
          (let ms = managed_at r m
           in if ms_deleting ms \<or> ms_worker ms \<noteq> None \<or> si_state (ms_info ms) = SsRunning \<or>
                 si_policy (ms_info ms) \<noteq> ''v2'' then (m, Returned Refused)
              else (set_managed r (\<lambda>ms. ms\<lparr>ms_deleting := True\<rparr>) m, RetireStore i r True)))"

definition retire_store :: "section_env \<Rightarrow> session_id \<Rightarrow> mref \<Rightarrow> bool \<Rightarrow> manager \<Rightarrow> manager \<times> frame" where
  "retire_store ev i r cached m =
     (if ev_fail ev then (m, RetireUndo i r cached (Some SeStore))
      else
        (case retire_expired_lifecycle_session (ev_ids ev) i (ev_now ev) (mg_db m) of
           (db, Inl e) \<Rightarrow> (m\<lparr>mg_db := db\<rparr>, RetireUndo i r cached (Some e))
         | (db, Inr None) \<Rightarrow> (m\<lparr>mg_db := db\<rparr>, RetireUndo i r cached None)
         | (db, Inr (Some _)) \<Rightarrow> (m\<lparr>mg_db := db\<rparr>, RetireCommit i r)))"

definition retire_undo ::
    "session_id \<Rightarrow> mref \<Rightarrow> bool \<Rightarrow> session_error option \<Rightarrow> manager \<Rightarrow> manager \<times> frame" where
  "retire_undo i r cached e m =
     (if mg_index m i \<noteq> Some r then m
      else if cached then set_managed r (\<lambda>ms. ms\<lparr>ms_deleting := False\<rparr>) m
      else drop_index i m,
      Returned (case e of Some e \<Rightarrow> Err e | None \<Rightarrow> Refused))"

definition retire_commit :: "section_env \<Rightarrow> session_id \<Rightarrow> mref \<Rightarrow> manager \<Rightarrow> manager \<times> frame" where
  "retire_commit ev i r m =
     (if mg_index m i \<noteq> Some r then m
      else drop_index i (set_managed r (\<lambda>ms. ms\<lparr>ms_info := (ms_info ms)
             \<lparr>si_state := SsDeleted, si_deleted := Some (ev_now ev), si_updated := ev_now ev\<rparr>\<rparr>) m),
      Returned Ok)"

definition terminated_session_ttl :: duration where
  "terminated_session_ttl = 24 * 60 * minute"

definition evictable :: "instant \<Rightarrow> managed \<Rightarrow> bool" where
  "evictable now ms \<longleftrightarrow> si_state (ms_info ms) = SsTerminated \<and>
     now - si_updated (ms_info ms) > terminated_session_ttl"

text \<open>The third part of \<open>gc\<close>; the rows stay.\<close>

definition gc_evict :: "instant \<Rightarrow> manager \<Rightarrow> manager" where
  "gc_evict now m = m\<lparr>mg_index := (\<lambda>i. case mg_index m i of
     Some r \<Rightarrow> if evictable now (managed_at r m) then None else Some r | None \<Rightarrow> None)\<rparr>"

definition zombie_timeout :: "mgr_config \<Rightarrow> duration" where
  "zombie_timeout cfg = (if mc_execution cfg > 0 then mc_execution cfg else 30 * minute)"

definition zombie :: "mgr_config \<Rightarrow> (worker_id \<Rightarrow> instant) \<Rightarrow> instant \<Rightarrow> worker_id option \<Rightarrow> bool" where
  "zombie cfg last_io now w =
     (case w of
        None \<Rightarrow> False
      | Some w \<Rightarrow> last_io w \<noteq> zero_time \<and> now - last_io w > zombie_timeout cfg)"

text \<open>
  \<open>runningWorkers\<close>: the workers of those running ids that are cached.  The loop reads it at the
  positions of all running ids; it panics at the first position that is not there, having
  terminated the zombies before it.  The answer lists these and tells whether the pass panics.
\<close>

definition running_workers :: "session_id list \<Rightarrow> manager \<Rightarrow> worker_id option list" where
  "running_workers ids m =
     concat (map (\<lambda>i. case mg_index m i of Some r \<Rightarrow> [ms_worker (managed_at r m)] | None \<Rightarrow> []) ids)"

definition gc_zombies ::
    "mgr_config \<Rightarrow> (worker_id \<Rightarrow> instant) \<Rightarrow> instant \<Rightarrow> session_id list \<Rightarrow> manager \<Rightarrow>
       session_id list \<times> bool" where
  "gc_zombies cfg last_io now ids m =
     (map fst (filter (\<lambda>(i, w). zombie cfg last_io now w) (zip ids (running_workers ids m))),
      length (running_workers ids m) < length ids)"

definition gc_expired_ids :: "instant \<Rightarrow> sess_db \<Rightarrow> session_id list" where
  "gc_expired_ids now db = get_expired_max_lifetime now db @ get_expired_idle now db"

definition expiry_reason :: "instant \<Rightarrow> sess_db \<Rightarrow> session_id \<Rightarrow> string" where
  "expiry_reason now db i =
     (if i \<in> set (get_expired_max_lifetime now db) then ''max_lifetime'' else ''idle_timeout'')"

text \<open>The operations the other parts of \<open>gc\<close> start.\<close>

definition gc_transitions :: "instant \<Rightarrow> session_id list \<Rightarrow> manager \<Rightarrow> frame list" where
  "gc_transitions now zombies m =
     map (\<lambda>i. Lookup i (DoTransition SsTerminated ''zombie'')) zombies @
     map (\<lambda>i. Lookup i (DoTransition SsTerminated (expiry_reason now (mg_db m) i)))
       (gc_expired_ids now (mg_db m))"

definition gc_retirements :: "instant \<Rightarrow> int \<Rightarrow> manager \<Rightarrow> frame list" where
  "gc_retirements now batch m = map RetireCall (list_expired_lifecycle_sessions now batch (mg_db m))"

definition repair_running_sessions :: "manager \<Rightarrow> frame list" where
  "repair_running_sessions m =
     map (\<lambda>i. Lookup i (DoTransition SsTerminated ''gateway_restart''))
       (get_sessions_by_state SsRunning (mg_db m))"

section \<open>Reads\<close>

definition is_seq_active :: "session_id \<Rightarrow> manager \<Rightarrow> bool" where
  "is_seq_active i m =
     (case mg_index m i of
        Some r \<Rightarrow> \<not> ms_deleting (managed_at r m) \<and> si_state (ms_info (managed_at r m)) \<noteq> SsDeleted
      | None \<Rightarrow> (case store_get i (mg_db m) of Inl _ \<Rightarrow> False | Inr r \<Rightarrow> si_state r \<noteq> SsDeleted))"

text \<open>The worker \<open>GetWorker\<close> answers with when the session is cached.\<close>

definition cached_worker :: "session_id \<Rightarrow> manager \<Rightarrow> worker_id option" where
  "cached_worker i m = (case mg_index m i of Some r \<Rightarrow> ms_worker (managed_at r m) | None \<Rightarrow> None)"

text \<open>\<open>ValidateOwnership\<close>, given what \<open>Get\<close> answered.\<close>

definition validate_ownership ::
    "session_error + session_row \<Rightarrow> user_id \<Rightarrow> user_id \<Rightarrow> session_error option" where
  "validate_ownership got user admin =
     (case got of
        Inl e \<Rightarrow> Some e
      | Inr i \<Rightarrow> if admin \<noteq> [] then None else if si_user i \<noteq> user then Some SeOwnership else None)"

section \<open>One section of a goroutine\<close>

definition locked_section ::
    "mgr_config \<Rightarrow> section_env \<Rightarrow> session_id \<Rightarrow> mref \<Rightarrow> session_op \<Rightarrow> manager \<Rightarrow> manager \<times> frame" where
  "locked_section cfg ev i r op m =
     (case op of
        DoTransition to' reason \<Rightarrow> do_transition cfg ev r to' reason m
      | DoInput to' \<Rightarrow> do_input cfg ev r to' m
      | DoDetach expected \<Rightarrow> do_detach r expected m
      | DoClearContext \<Rightarrow> do_clear_context r m
      | DoWorkerSession w force \<Rightarrow> do_worker_session i r w force m
      | DoRecordInput accepted l \<Rightarrow> do_record_input ev i r accepted l m)"

fun section_step :: "mgr_config \<Rightarrow> section_env \<Rightarrow> frame \<Rightarrow> manager \<Rightarrow> manager \<times> frame" where
  "section_step cfg ev (Returned a) m = (m, Returned a)"
| "section_step cfg ev (CreateCall a) m = create_call cfg ev a m"
| "section_step cfg ev (CreateStore i) m = create_store ev i m"
| "section_step cfg ev (CreateInstall i) m = create_install i m"
| "section_step cfg ev (GetCall i) m = get_call i m"
| "section_step cfg ev (GetLoad i) m = get_load ev i m"
| "section_step cfg ev (GetInstall i row) m = get_install i row m"
| "section_step cfg ev (RecordCall i t lc) m = record_call cfg i t lc m"
| "section_step cfg ev (Lookup i op) m = lookup_managed i op m"
| "section_step cfg ev (Load i op) m = load_managed ev i op m"
| "section_step cfg ev (Install i row op) m = install_managed i row op m"
| "section_step cfg ev (Locked i r op) m = locked_section cfg ev i r op m"
| "section_step cfg ev (TransStore t) m = transition_store ev t m"
| "section_step cfg ev (TransCommit t e) m = transition_commit ev t e m"
| "section_step cfg ev (TransGuard t) m = transition_guard ev t m"
| "section_step cfg ev (TransGuarded t e) m = transition_guarded t e m"
| "section_step cfg ev (AttachCheck i w) m = attach_check i w m"
| "section_step cfg ev (AttachAcquire i w u ws) m = attach_acquire i w u ws m"
| "section_step cfg ev (AttachPin i w u ws) m = attach_pin i w u ws m"
| "section_step cfg ev (AttachGiveBack u ws e) m = give_back u ws (Err e) m"
| "section_step cfg ev (DetachRelease u ws) m = give_back u ws Ok m"
| "section_step cfg ev (BindWorkspace i ws) m = bind_workspace i ws m"
| "section_step cfg ev (WorkDirCall i d) m = work_dir_call i d m"
| "section_step cfg ev (WorkDirCheck r d) m = work_dir_check r d m"
| "section_step cfg ev (ResetExpiryCall i) m = reset_expiry_call cfg i m"
| "section_step cfg ev (Mutate r edit undo) m = mutate ev r edit undo m"
| "section_step cfg ev (MutateStore r info undo) m = mutate_store ev r info undo m"
| "section_step cfg ev (MutateBack r undo e) m = mutate_back r undo e m"
| "section_step cfg ev (WorkerSessionSet i r w) m = worker_session_set i r w m"
| "section_step cfg ev (WorkerSessionStore i r w prev) m = worker_session_store ev i r w prev m"
| "section_step cfg ev (WorkerSessionBack r prev e) m = worker_session_back r prev e m"
| "section_step cfg ev (DeleteCall i) m = delete_call ev i m"
| "section_step cfg ev (DeleteLoad i r) m = delete_load ev i r m"
| "section_step cfg ev (DeleteAbort i r e) m = delete_abort i r e m"
| "section_step cfg ev (DeleteStore i r cand orig run) m = delete_store ev i r cand orig run m"
| "section_step cfg ev (DeleteRestore i r orig e) m = delete_restore i r orig e m"
| "section_step cfg ev (DeleteCommit i r cand run) m = delete_commit i r cand run m"
| "section_step cfg ev (PhysicalCall i) m = physical_call i m"
| "section_step cfg ev (PhysicalStore i r) m = physical_store ev i r m"
| "section_step cfg ev (PhysicalUnmark i r e) m = physical_unmark i r e m"
| "section_step cfg ev (RetireCall i) m = retire_call i m"
| "section_step cfg ev (RetireStore i r cached) m = retire_store ev i r cached m"
| "section_step cfg ev (RetireUndo i r cached e) m = retire_undo i r cached e m"
| "section_step cfg ev (RetireCommit i r) m = retire_commit ev i r m"

end
