(* ===== verification/ManagerMachine.thy ===== *)
theory ManagerMachine
  imports Manager
begin

text \<open>
  The session manager under interleaving.  Goroutines run their operations section by section in
  any order; garbage collection evicts, the limits of the pool change, and everything else that
  writes the database - other gateways, runners, the ledger - takes its steps in between.  Each
  section is shown to keep the sessions and users of the objects, to mark for deletion only what
  nobody else has marked, and to leave a frame that fits the objects; from this follows the
  invariant of a world.
\<close>

section \<open>Goroutines\<close>

text \<open>
  A world is the manager, the goroutines that are inside one of its operations, and a history
  variable: the objects whose quota a deletion has given back while leaving their worker in
  place.  A goroutine that has returned stays in the list with its answer.
\<close>

record world =
  w_mgr :: manager
  w_threads :: "frame list"
  w_settled :: "mref list"

datatype world_op =
    Spawn frame
  | Section nat section_env
  | Evict instant
  | Resize pool_config
  | Elsewhere store_op

text \<open>The calls of the manager's methods.\<close>

fun method_call :: "frame \<Rightarrow> bool" where
  "method_call (CreateCall a) = True"
| "method_call (GetCall i) = True"
| "method_call (RecordCall i t lc) = True"
| "method_call (Lookup i (DoRecordInput t l)) = False"
| "method_call (Lookup i op) = True"
| "method_call (AttachCheck i w) = True"
| "method_call (BindWorkspace i ws) = True"
| "method_call (WorkDirCall i d) = True"
| "method_call (ResetExpiryCall i) = True"
| "method_call (DeleteCall i) = True"
| "method_call (PhysicalCall i) = True"
| "method_call (RetireCall i) = True"
| "method_call _ = False"

fun settles :: "frame \<Rightarrow> manager \<Rightarrow> mref list" where
  "settles (PhysicalCall i) m =
     (case mg_index m i of
        Some r \<Rightarrow> if \<not> ms_deleting (managed_at r m) \<and> ms_worker (managed_at r m) \<noteq> None then [r] else []
      | None \<Rightarrow> [])"
| "settles (DeleteCommit i r cand run) m =
     (if mg_index m i = Some r \<and> ms_worker (managed_at r m) \<noteq> None then [r] else [])"
| "settles _ m = []"

definition new_world :: "manager \<Rightarrow> world" where
  "new_world m = \<lparr>w_mgr = m, w_threads = [], w_settled = []\<rparr>"

definition run_section :: "mgr_config \<Rightarrow> nat \<Rightarrow> section_env \<Rightarrow> world \<Rightarrow> world" where
  "run_section cfg k ev w =
     (case section_step cfg ev (w_threads w ! k) (w_mgr w) of
        (m, f) \<Rightarrow> w\<lparr>w_mgr := m, w_threads := (w_threads w)[k := f],
                   w_settled := settles (w_threads w ! k) (w_mgr w) @ w_settled w\<rparr>)"

fun world_step :: "mgr_config \<Rightarrow> world_op \<Rightarrow> world \<Rightarrow> world" where
  "world_step cfg (Spawn f) w = (if method_call f then w\<lparr>w_threads := w_threads w @ [f]\<rparr> else w)"
| "world_step cfg (Section k ev) w = (if k < length (w_threads w) then run_section cfg k ev w else w)"
| "world_step cfg (Evict now) w = w\<lparr>w_mgr := gc_evict now (w_mgr w)\<rparr>"
| "world_step cfg (Resize l) w = w\<lparr>w_mgr := (w_mgr w)\<lparr>mg_pool := update_limits l (mg_pool (w_mgr w))\<rparr>\<rparr>"
| "world_step cfg (Elsewhere op) w = w\<lparr>w_mgr := (w_mgr w)\<lparr>mg_db := store_step op (mg_db (w_mgr w))\<rparr>\<rparr>"

section \<open>Reading the manager after a section\<close>

abbreviation objects :: "manager \<Rightarrow> nat" where
  "objects m \<equiv> length (mg_objs m)"

lemma managed_at_update [simp]:
  "managed_at r (m\<lparr>mg_db := x\<rparr>) = managed_at r m"
  "managed_at r (m\<lparr>mg_pool := p\<rparr>) = managed_at r m"
  "managed_at r (m\<lparr>mg_index := y\<rparr>) = managed_at r m"
  "managed_at r (m\<lparr>mg_running := z\<rparr>) = managed_at r m"
  by (simp_all add: managed_at_def)

lemma set_managed_frame [simp]:
  "mg_index (set_managed r f m) = mg_index m" "mg_running (set_managed r f m) = mg_running m"
  "mg_pool (set_managed r f m) = mg_pool m" "mg_db (set_managed r f m) = mg_db m"
  "objects (set_managed r f m) = objects m"
  by (simp_all add: set_managed_def)

lemma managed_at_set [simp]:
  "managed_at r (set_managed r' f m) =
     (if r = r' \<and> r' < objects m then f (managed_at r' m) else managed_at r m)"
  by (cases "r' < objects m") (auto simp: managed_at_def set_managed_def nth_list_update list_update_beyond not_less)

lemma install_frame [simp]:
  "mg_pool (install i ms m) = mg_pool m" "mg_db (install i ms m) = mg_db m"
  "objects (install i ms m) = Suc (objects m)"
  "mg_index (install i ms m) = (mg_index m)(i \<mapsto> objects m)"
  by (simp_all add: install_def)

lemma managed_at_install [simp]:
  "r < objects m \<Longrightarrow> managed_at r (install i ms m) = managed_at r m"
  "managed_at (objects m) (install i ms m) = ms"
  by (simp_all add: managed_at_def install_def nth_append)

lemma index_frame [simp]:
  "mg_pool (drop_index i m) = mg_pool m" "mg_db (drop_index i m) = mg_db m"
  "objects (drop_index i m) = objects m" "managed_at r (drop_index i m) = managed_at r m"
  "mg_index (drop_index i m) = (mg_index m)(i := None)"
  "mg_pool (drop_own i r' m) = mg_pool m" "mg_db (drop_own i r' m) = mg_db m"
  "objects (drop_own i r' m) = objects m" "managed_at r (drop_own i r' m) = managed_at r m"
  by (simp_all add: drop_index_def drop_own_def)

lemma running_frame [simp]:
  "mg_pool (add_to_running_index i m) = mg_pool m" "mg_db (add_to_running_index i m) = mg_db m"
  "objects (add_to_running_index i m) = objects m" "managed_at r (add_to_running_index i m) = managed_at r m"
  "mg_index (add_to_running_index i m) = mg_index m"
  "mg_pool (remove_from_running_index i m) = mg_pool m" "mg_db (remove_from_running_index i m) = mg_db m"
  "objects (remove_from_running_index i m) = objects m"
  "managed_at r (remove_from_running_index i m) = managed_at r m"
  "mg_index (remove_from_running_index i m) = mg_index m"
  by (simp_all add: add_to_running_index_def remove_from_running_index_def)

lemma update_running_frame [simp]:
  "mg_pool (update_running_index_for_transition i s t m) = mg_pool m"
  "mg_db (update_running_index_for_transition i s t m) = mg_db m"
  "objects (update_running_index_for_transition i s t m) = objects m"
  "managed_at r (update_running_index_for_transition i s t m) = managed_at r m"
  "mg_index (update_running_index_for_transition i s t m) = mg_index m"
  by (simp_all add: update_running_index_for_transition_def Let_def)

lemma release_quota_frame [simp]:
  "mg_db (release_worker_quota r m) = mg_db m" "mg_index (release_worker_quota r m) = mg_index m"
  "objects (release_worker_quota r m) = objects m" "managed_at r' (release_worker_quota r m) = managed_at r' m"
  by (simp_all add: release_worker_quota_def)

lemma store_call_frame:
  assumes "store_call ev f m = (m', e)"
  shows "objects m' = objects m" "managed_at r m' = managed_at r m" "mg_index m' = mg_index m"
    "mg_pool m' = mg_pool m"
  using assms by (auto simp: store_call_def split: if_splits prod.splits)

lemma store_read_id: "store_read ev i m = Inr row \<Longrightarrow> si_id row = i"
  by (auto simp: store_read_def store_get_def find_session_def dest: sql_row_Some
      split: if_splits option.splits)

section \<open>What a section may do to objects it does not own\<close>

text \<open>
  \<open>owner\<close>: the object a deleting goroutine has marked; \<open>trans_ref\<close>: the object of a transition.
\<close>

fun owner :: "frame \<Rightarrow> mref option" where
  "owner (DeleteLoad i r) = Some r"
| "owner (DeleteAbort i r e) = Some r"
| "owner (DeleteStore i r cand orig run) = Some r"
| "owner (DeleteRestore i r orig e) = Some r"
| "owner (DeleteCommit i r cand run) = Some r"
| "owner (PhysicalStore i r) = Some r"
| "owner (PhysicalUnmark i r e) = Some r"
| "owner (RetireStore i r cached) = Some r"
| "owner (RetireUndo i r cached e) = Some r"
| "owner (RetireCommit i r) = Some r"
| "owner _ = None"

fun physical_frame :: "frame \<Rightarrow> bool" where
  "physical_frame (PhysicalStore i r) = True"
| "physical_frame (PhysicalUnmark i r e) = True"
| "physical_frame _ = False"

fun transition_of :: "frame \<Rightarrow> transition option" where
  "transition_of (TransStore t) = Some t"
| "transition_of (TransCommit t e) = Some t"
| "transition_of (TransGuard t) = Some t"
| "transition_of (TransGuarded t e) = Some t"
| "transition_of _ = None"

text \<open>A deletion that loaded its row: its object is a tombstone without the session's user.\<close>

fun cold :: "manager \<Rightarrow> frame \<Rightarrow> bool" where
  "cold m (DeleteLoad i r) = True"
| "cold m (DeleteStore i r cand orig run) = (orig \<noteq> None)"
| "cold m (DeleteCommit i r cand run) = (si_user cand \<noteq> si_user (ms_info (managed_at r m)))"
| "cold m _ = False"

definition same_session :: "session_row \<Rightarrow> session_row \<Rightarrow> bool" where
  "same_session a b \<longleftrightarrow> si_id a = si_id b \<and> si_user a = si_user b \<and> si_state a = si_state b"

definition transition_ok :: "manager \<Rightarrow> transition \<Rightarrow> bool" where
  "transition_ok m t \<longleftrightarrow> tr_ref t < objects m \<and>
     si_id (tr_info t) = si_id (ms_info (managed_at (tr_ref t) m)) \<and>
     si_user (tr_info t) = si_user (ms_info (managed_at (tr_ref t) m)) \<and>
     is_valid_transition (tr_from t) (tr_to t) \<and> si_state (tr_info t) = tr_to t"

text \<open>A goroutine has marked \<open>r\<close>, an object of session \<open>i\<close>.\<close>

definition marked :: "manager \<Rightarrow> session_id \<Rightarrow> mref \<Rightarrow> bool" where
  "marked m i r \<longleftrightarrow> r < objects m \<and> si_id (ms_info (managed_at r m)) = i \<and> ms_deleting (managed_at r m)"

abbreviation worker_of :: "mref \<Rightarrow> manager \<Rightarrow> worker_id option" where
  "worker_of r m \<equiv> ms_worker (managed_at r m)"

abbreviation info_of :: "mref \<Rightarrow> manager \<Rightarrow> session_row" where
  "info_of r m \<equiv> ms_info (managed_at r m)"

fun frame_ok :: "mref list \<Rightarrow> manager \<Rightarrow> frame \<Rightarrow> bool" where
  "frame_ok S m (GetInstall i row) = (si_id row = i)"
| "frame_ok S m (Install i row op) = (si_id row = i)"
| "frame_ok S m (Locked i r op) = (r < objects m \<and> si_id (info_of r m) = i)"
| "frame_ok S m (TransStore t) = transition_ok m t"
| "frame_ok S m (TransCommit t e) = transition_ok m t"
| "frame_ok S m (TransGuard t) = transition_ok m t"
| "frame_ok S m (TransGuarded t e) = transition_ok m t"
| "frame_ok S m (WorkDirCheck r d) = (r < objects m)"
| "frame_ok S m (Mutate r edit undo) =
     (r < objects m \<and> (\<forall>t i. same_session (edit t i) i) \<and> (\<forall>old i. same_session (undo old i) i))"
| "frame_ok S m (MutateStore r info undo) = (r < objects m \<and> (\<forall>i. same_session (undo i) i))"
| "frame_ok S m (MutateBack r undo e) = (r < objects m \<and> (\<forall>i. same_session (undo i) i))"
| "frame_ok S m (WorkerSessionSet i r w) = (r < objects m)"
| "frame_ok S m (WorkerSessionStore i r w prev) = (r < objects m)"
| "frame_ok S m (WorkerSessionBack r prev e) = (r < objects m)"
| "frame_ok S m (DeleteLoad i r) = (marked m i r \<and> worker_of r m = None)"
| "frame_ok S m (DeleteAbort i r e) = (marked m i r \<and> worker_of r m = None)"
| "frame_ok S m (DeleteStore i r cand orig run) =
     (marked m i r \<and> si_id cand = i \<and>
      (case orig of None \<Rightarrow> si_user cand = si_user (info_of r m)
       | Some row \<Rightarrow> si_id row = i \<and> worker_of r m = None))"
| "frame_ok S m (DeleteRestore i r orig e) =
     (marked m i r \<and> (case orig of None \<Rightarrow> True | Some row \<Rightarrow> si_id row = i \<and> worker_of r m = None))"
| "frame_ok S m (DeleteCommit i r cand run) =
     (marked m i r \<and> si_id cand = i \<and> (si_user cand = si_user (info_of r m) \<or> worker_of r m = None))"
| "frame_ok S m (PhysicalStore i r) = (marked m i r \<and> (worker_of r m = None \<or> r \<in> set S))"
| "frame_ok S m (PhysicalUnmark i r e) = (marked m i r \<and> (worker_of r m = None \<or> r \<in> set S))"
| "frame_ok S m (RetireStore i r cached) = (marked m i r \<and> worker_of r m = None)"
| "frame_ok S m (RetireUndo i r cached e) = (marked m i r \<and> worker_of r m = None)"
| "frame_ok S m (RetireCommit i r) = (marked m i r \<and> worker_of r m = None)"
| "frame_ok S m _ = True"

definition index_ok :: "manager \<Rightarrow> bool" where
  "index_ok m \<longleftrightarrow> (\<forall>i r. mg_index m i = Some r \<longrightarrow> r < objects m \<and> si_id (info_of r m) = i)"

definition evolves :: "mref option \<Rightarrow> manager \<Rightarrow> manager \<Rightarrow> bool" where
  "evolves own m m' \<longleftrightarrow> objects m \<le> objects m' \<and>
     (\<forall>r < objects m.
        si_id (info_of r m') = si_id (info_of r m) \<and>
        (own \<noteq> Some r \<longrightarrow> si_user (info_of r m') = si_user (info_of r m)) \<and>
        (own \<noteq> Some r \<and> ms_deleting (managed_at r m) \<longrightarrow> ms_deleting (managed_at r m')) \<and>
        (ms_deleting (managed_at r m) \<and> worker_of r m = None \<longrightarrow> worker_of r m' = None))"

lemma evolves_same:
  "objects m' = objects m \<Longrightarrow> (\<And>r. managed_at r m' = managed_at r m) \<Longrightarrow> evolves own m m'"
  by (simp add: evolves_def)

lemma frame_ok_evolves:
  assumes "evolves own m m'" "frame_ok S m f" "set S \<subseteq> set S'" "owner f \<noteq> None \<Longrightarrow> owner f \<noteq> own"
    and "\<And>t. transition_of f = Some t \<Longrightarrow>
           si_user (info_of (tr_ref t) m') = si_user (info_of (tr_ref t) m)"
  shows "frame_ok S' m' f"
  using assms
  by (cases f) (auto simp: evolves_def transition_ok_def marked_def split: option.splits)

section \<open>What the sections of an operation do\<close>

lemmas section_defs = create_call_def create_store_def create_install_def get_call_def get_load_def
  get_install_def lookup_managed_def load_managed_def install_managed_def record_call_def
  locked_section_def do_transition_def transition_state_def do_input_def transition_store_def
  transition_commit_def transition_guard_def transition_guarded_def attach_check_def
  attach_acquire_def attach_pin_def give_back_def do_detach_def mutate_def mutate_store_def
  mutate_back_def bind_workspace_def work_dir_call_def work_dir_check_def reset_expiry_call_def
  do_clear_context_def do_worker_session_def worker_session_set_def worker_session_store_def
  worker_session_back_def delete_call_def delete_load_def delete_abort_def
  delete_store_def delete_restore_def delete_commit_def physical_call_def physical_store_def
  physical_unmark_def retire_call_def retire_store_def retire_undo_def retire_commit_def

lemmas section_splits = if_splits option.splits sum.splits prod.splits session_op.splits

lemma evolves_set:
  assumes "r < objects m \<Longrightarrow> si_id (ms_info (f (managed_at r m))) = si_id (info_of r m)"
    and "r < objects m \<Longrightarrow> own \<noteq> Some r \<Longrightarrow>
           si_user (ms_info (f (managed_at r m))) = si_user (info_of r m) \<and>
           (ms_deleting (managed_at r m) \<longrightarrow> ms_deleting (f (managed_at r m)))"
    and "r < objects m \<Longrightarrow> ms_deleting (managed_at r m) \<Longrightarrow> worker_of r m = None \<Longrightarrow>
           ms_worker (f (managed_at r m)) = None"
  shows "evolves own m (set_managed r f m)"
  using assms by (auto simp: evolves_def)

lemma evolves_install: "evolves own m (install i ms m)"
  by (simp add: evolves_def)

lemma force_terminate_managed:
  "managed_at r' (force_terminate_in_memory now r from m) =
     (if r = r' \<and> r < objects m
      then (managed_at r m)\<lparr>ms_info := (info_of r m)\<lparr>si_state := SsTerminated, si_updated := now\<rparr>,
                            ms_worker := None\<rparr>
      else managed_at r' m)"
  "objects (force_terminate_in_memory now r from m) = objects m"
  "mg_index (force_terminate_in_memory now r from m) = mg_index m"
  "mg_db (force_terminate_in_memory now r from m) = mg_db m"
  by (simp_all add: force_terminate_in_memory_def Let_def)

lemma commit_managed:
  "managed_at r' (fst (commit_transition t m)) =
     (if tr_ref t = r' \<and> r' < objects m
      then (managed_at r' m)\<lparr>ms_info := tr_info t,
              ms_worker := (if tr_to t \<in> {SsTerminated, SsDeleted} then None else worker_of r' m)\<rparr>
      else managed_at r' m)"
  "objects (fst (commit_transition t m)) = objects m"
  "mg_index (fst (commit_transition t m)) = mg_index m"
  "mg_db (fst (commit_transition t m)) = mg_db m"
  by (auto simp: commit_transition_def Let_def)

lemma commit_frame: "snd (commit_transition t m) = Returned (if tr_max t then Err SeMaxTurns else Ok)"
  by (simp add: commit_transition_def Let_def)

lemma store_call_db: "store_call ev f m = (m', e) \<Longrightarrow> \<exists>db. m' = m\<lparr>mg_db := db\<rparr>"
  by (cases m) (auto simp: store_call_def split: if_splits prod.splits)

lemma do_record_cases:
  assumes "do_record_input ev i r accepted l m = (m', f)"
  obtains (unchanged) a where "f = Returned a" "m' = m"
    | (changed) a info db where "f = Returned a" "same_session info (info_of r m)"
        "m' = set_managed r (\<lambda>ms. ms\<lparr>ms_info := info\<rparr>) (m\<lparr>mg_db := db\<rparr>)"
proof -
  have same: "same_session (lifecycle_projection p (info_of r m)) (info_of r m)"
    "same_session (lifecycle_projection p (info_of r m)
       \<lparr>si_last_input := a, si_archive := b, si_conv := c, si_history := d, si_updated := u\<rparr>) (info_of r m)"
    for p a b c d u
    by (simp_all add: same_session_def lifecycle_projection_def)
  show thesis
    using assms unchanged changed [OF _ same(1)] changed [OF _ same(2)]
    by (auto simp: do_record_input_def Let_def dest!: store_call_db split: if_splits sum.splits prod.splits option.splits)
qed

text \<open>A frame that is neither deleting nor in a transition.\<close>

definition plain :: "frame \<Rightarrow> bool" where
  "plain f \<longleftrightarrow> owner f = None \<and> transition_of f = None"

text \<open>
  What a section from \<open>f\<close> to \<open>f'\<close> does: it evolves the objects, keeps the map of sessions
  consistent, leaves a frame that fits, marks only objects that nobody has marked, and takes the
  activity of a session away only together with its worker.
\<close>

definition section_ok :: "mref list \<Rightarrow> frame \<Rightarrow> manager \<Rightarrow> mref list \<Rightarrow> frame \<Rightarrow> manager \<Rightarrow> bool" where
  "section_ok S f m S' f' m' \<longleftrightarrow>
     evolves (owner f) m m' \<and> index_ok m' \<and> frame_ok S' m' f' \<and>
     (\<forall>r. owner f' = Some r \<longrightarrow> owner f = Some r \<or> objects m \<le> r \<or> \<not> ms_deleting (managed_at r m)) \<and>
     (\<forall>t. transition_of f' = Some t \<longrightarrow>
        (\<exists>t0. transition_of f = Some t0 \<and> tr_ref t0 = tr_ref t) \<or> \<not> ms_deleting (managed_at (tr_ref t) m)) \<and>
     (cold m' f' \<longrightarrow> cold m f \<or> (\<exists>r \<ge> objects m. owner f' = Some r)) \<and>
     (\<forall>r < objects m. worker_of r m' \<noteq> None \<and> r \<notin> set S' \<longrightarrow>
        is_active (si_state (info_of r m')) \<or>
        worker_of r m \<noteq> None \<and> r \<notin> set S \<and> si_state (info_of r m') = si_state (info_of r m)) \<and>
     (\<forall>r. objects m \<le> r \<and> r < objects m' \<longrightarrow> worker_of r m' = None)"

lemma section_quiet:
  assumes "index_ok m" "mg_objs m' = mg_objs m" "mg_index m' = mg_index m" "set S \<subseteq> set S'"
    and "frame_ok S' m' f'"
    and "owner f' = None \<or> owner f' = owner f"
    and "\<And>t. transition_of f' = Some t \<Longrightarrow>
           (\<exists>t0. transition_of f = Some t0 \<and> tr_ref t0 = tr_ref t) \<or> \<not> ms_deleting (managed_at (tr_ref t) m)"
    and "cold m' f' \<Longrightarrow> cold m f"
  shows "section_ok S f m S' f' m'"
proof -
  have "managed_at r m' = managed_at r m" for r by (simp add: managed_at_def assms(2))
  then show ?thesis
    using assms by (auto simp: section_ok_def evolves_def index_ok_def)
qed

definition changed_at :: "mref \<Rightarrow> managed \<Rightarrow> manager \<Rightarrow> manager \<Rightarrow> bool" where
  "changed_at r ms m m' \<longleftrightarrow> objects m' = objects m \<and> r < objects m \<and>
     (\<forall>r'. managed_at r' m' = (if r' = r then ms else managed_at r' m))"

lemma section_change:
  assumes "changed_at r ms m m'" "set S \<subseteq> set S'" "plain f'" "frame_ok S' m' f'"
    and "index_ok m" "\<And>i x. mg_index m' i = Some x \<Longrightarrow> mg_index m i = Some x"
    and "si_id (ms_info ms) = si_id (info_of r m)"
    and "owner f \<noteq> Some r \<Longrightarrow> si_user (ms_info ms) = si_user (info_of r m) \<and>
           (ms_deleting (managed_at r m) \<longrightarrow> ms_deleting ms)"
    and "ms_deleting (managed_at r m) \<Longrightarrow> worker_of r m = None \<Longrightarrow> ms_worker ms = None"
    and "ms_worker ms \<noteq> None \<Longrightarrow> r \<notin> set S' \<Longrightarrow>
           is_active (si_state (ms_info ms)) \<or> worker_of r m \<noteq> None \<and> si_state (ms_info ms) = si_state (info_of r m)"
  shows "section_ok S f m S' f' m'"
proof -
  have at: "managed_at r' m' = (if r' = r then ms else managed_at r' m)" "objects m' = objects m" "r < objects m" for r'
    using assms(1) by (simp_all add: changed_at_def)
  have "index_ok m'"
    unfolding index_ok_def
  proof (intro allI impI)
    fix i x assume "mg_index m' i = Some x"
    then have "mg_index m i = Some x" by (rule assms(6))
    then show "x < objects m' \<and> si_id (info_of x m') = i"
      using assms(5,7) by (auto simp: at index_ok_def)
  qed
  moreover have "\<not> cold m' f'" using assms(3) by (cases f') (simp_all add: plain_def)
  ultimately show ?thesis
    using assms(2-4,7-) by (auto simp: section_ok_def evolves_def at plain_def)
qed

lemma section_mark:
  assumes "changed_at r ms m m'" "set S \<subseteq> set S'" "frame_ok S' m' f'" "owner f' = Some r" "transition_of f' = None"
    and "\<not> cold m' f'" "\<not> ms_deleting (managed_at r m)" "index_ok m" "mg_index m' = mg_index m"
    and "ms_info ms = info_of r m" "ms_deleting ms" "ms_worker ms = worker_of r m"
  shows "section_ok S f m S' f' m'"
  using assms by (auto simp: section_ok_def evolves_def index_ok_def changed_at_def)

lemma section_install:
  assumes "index_ok m" "set S \<subseteq> set S'" "frame_ok S' m' f'" "objects m' = Suc (objects m)"
    and "\<And>r. r < objects m \<Longrightarrow> managed_at r m' = managed_at r m" "managed_at (objects m) m' = ms"
    and "mg_index m' = (mg_index m)(i \<mapsto> objects m)" "si_id (ms_info ms) = i" "ms_worker ms = None"
    and "owner f' = None \<or> owner f' = Some (objects m)" "transition_of f' = None"
    and "cold m' f' \<Longrightarrow> owner f' = Some (objects m)"
  shows "section_ok S f m S' f' m'"
  using assms by (auto simp: section_ok_def evolves_def index_ok_def less_Suc_eq)

lemma changed_at_set:
  "r < objects m \<Longrightarrow> changed_at r (f (managed_at r m)) m (set_managed r f m)"
  by (simp add: changed_at_def)

lemma section_ok_Returned:
  "index_ok m \<Longrightarrow> mg_objs m' = mg_objs m \<Longrightarrow> mg_index m' = mg_index m \<Longrightarrow>
     section_ok S f m S (Returned a) m'"
  by (rule section_quiet) simp_all

lemma index_at: "index_ok m \<Longrightarrow> mg_index m i = Some r \<Longrightarrow> r < objects m \<and> si_id (info_of r m) = i"
  by (simp add: index_ok_def)

text \<open>The sections that only read the cache, or call the store.\<close>

lemma store_sections_ok:
  assumes "index_ok m" "frame_ok S m f" "section_step cfg ev f m = (m', f')"
    and "f = CreateStore a \<or> f = TransStore t \<or> f = TransGuard t \<or> f = MutateStore r a undo \<or>
         f = WorkerSessionStore i r w prev \<or> f = DeleteStore i r a orig run \<or> f = PhysicalStore i r \<or>
         f = RetireStore i r cached"
  shows "section_ok S f m S f' m'"
  using assms(3-)
proof (elim disjE)
  assume f: "f = DeleteStore i r a orig run"
  obtain m1 e where c: "store_call ev (mark_deleted_with_cleanup (ev_ids ev) (ev_now ev) i) m = (m1, e)"
    by fastforce
  obtain db where db: "m1 = m\<lparr>mg_db := db\<rparr>" using store_call_db [OF c] ..
  show ?thesis
    using assms(1-3) c
    by (intro section_quiet) (auto simp: f db delete_store_def marked_def split: option.splits)
next
  assume f: "f = RetireStore i r cached"
  show ?thesis
    using assms(1-3)
    by (intro section_quiet) (auto simp: f retire_store_def marked_def split: if_splits prod.splits sum.splits option.splits)
qed (use assms(1-3) in \<open>intro section_quiet; auto simp: section_defs marked_def transition_ok_def
       dest!: store_call_db split: prod.splits option.splits\<close>)+

lemma read_sections_ok:
  assumes "index_ok m" "frame_ok S m f" "section_step cfg ev f m = (m', f')"
    and "f = CreateCall a \<or> f = GetCall i \<or> f = GetLoad i \<or> f = RecordCall i t lc \<or> f = Lookup i op \<or>
         f = Load i op \<or> f = AttachCheck i w \<or> f = WorkDirCall i d \<or> f = WorkDirCheck r d \<or>
         f = ResetExpiryCall i \<or> f = DeleteLoad i r \<or> f = Returned ans"
  shows "section_ok S f m S f' m'"
  using assms(3-)
proof (elim disjE)
  assume f: "f = WorkDirCheck r d"
  show ?thesis
    using assms(1-3)
    by (intro section_quiet)
      (auto simp: f work_dir_check_def edit_work_dir_def undo_work_dir_def same_session_def split: if_splits)
next
  assume f: "f = ResetExpiryCall i"
  show ?thesis
    using assms(1-3)
    by (intro section_quiet)
      (auto simp: f reset_expiry_call_def edit_expiry_def undo_expiry_def same_session_def
        dest: index_at split: option.splits)
next
  assume f: "f = DeleteLoad i r"
  show ?thesis
    using assms(1-3)
    by (intro section_quiet)
      (auto simp: f delete_load_def deletion_candidate_def marked_def dest: store_read_id split: sum.splits)
next
  assume f: "f = Load i op"
  show ?thesis
    using assms(1-3)
    by (intro section_quiet) (auto simp: f load_managed_def dest: store_read_id split: sum.splits)
next
  assume f: "f = GetLoad i"
  show ?thesis
    using assms(1-3)
    by (intro section_quiet) (auto simp: f get_load_def dest: store_read_id split: sum.splits)
qed (use assms(1-3) in \<open>intro section_quiet; auto simp: section_defs Let_def dest: index_at
       split: sum.splits option.splits if_splits\<close>)+

text \<open>The sections that put an object into the map.\<close>

lemma fresh_sel [simp]:
  "ms_info (fresh_managed row) = row" "ms_worker (fresh_managed row) = None"
  "\<not> ms_deleting (fresh_managed row)"
  by (simp_all add: fresh_managed_def)

lemma create_install_ok: "index_ok m \<Longrightarrow> section_ok S (CreateInstall i) m S (Returned Ok) (install (si_id i) (fresh_managed i) m)"
  by (rule section_install [where ms = "fresh_managed i" and i = "si_id i"]) simp_all

lemma get_install_ok:
  assumes "index_ok m" "frame_ok S m (GetInstall i row)" "get_install i row m = (m', f')"
  shows "section_ok S (GetInstall i row) m S f' m'"
proof (cases "mg_index m i")
  case (Some r)
  then show ?thesis using assms by (auto simp: get_install_def intro!: section_ok_Returned)
next
  case None
  then show ?thesis
    using assms
    by (intro section_install [where ms = "fresh_managed row" and i = i]) (auto simp: get_install_def)
qed

lemma install_managed_ok:
  assumes "index_ok m" "frame_ok S m (Install i row op)" "install_managed i row op m = (m', f')"
  shows "section_ok S (Install i row op) m S f' m'"
proof (cases "mg_index m i")
  case (Some r)
  then show ?thesis
    using assms index_at [OF assms(1) Some] by (intro section_quiet) (auto simp: install_managed_def)
next
  case None
  then show ?thesis
    using assms
    by (intro section_install [where ms = "fresh_managed row" and i = i])
      (auto simp: install_managed_def Let_def)
qed

lemma tombstone_sel [simp]:
  "ms_worker (tombstone_managed i) = None" "ms_deleting (tombstone_managed i)"
  "si_id (ms_info (tombstone_managed i)) = i" "si_user (ms_info (tombstone_managed i)) = []"
  by (simp_all add: tombstone_managed_def fresh_managed_def zero_info_def)

lemma tombstone_installed_ok:
  assumes "index_ok m" "owner f' = Some (objects m)" "frame_ok S (install i (tombstone_managed i) m) f'"
  shows "section_ok S f m S f' (install i (tombstone_managed i) m)"
  by (rule section_install [where ms = "tombstone_managed i" and i = i])
    (use assms in \<open>cases f'; simp\<close>)+

text \<open>The sections that change one object.\<close>

lemma plain_Returned [simp]: "plain (Returned a)" "plain (MutateStore r info u)" "plain (DetachRelease user ws)"
    "plain (WorkerSessionStore i r w p)"
  by (simp_all add: plain_def)

lemma candidate_sel [simp]:
  "si_id (transition_candidate cfg now s i) = si_id i" "si_user (transition_candidate cfg now s i) = si_user i"
  "si_state (transition_candidate cfg now s i) = s"
  by (simp_all add: transition_candidate_def)

lemma force_terminate_ok:
  assumes "index_ok m" "r < objects m" "owner f = None"
  shows "section_ok S f m S (Returned a) (force_terminate_in_memory now r from m)"
  by (rule section_change [where r = r and ms = "(managed_at r m)\<lparr>ms_info := (info_of r m)\<lparr>si_state := SsTerminated,
              si_updated := now\<rparr>, ms_worker := None\<rparr>"])
    (use assms in \<open>auto simp: changed_at_def force_terminate_managed\<close>)

lemma commit_transition_ok:
  assumes "index_ok m" "transition_ok m t" "commit_transition t m = (m', f')"
  shows "section_ok S f m S f' m'"
proof -
  have m': "m' = fst (commit_transition t m)" "\<exists>a. f' = Returned a"
    using assms(3) commit_frame [of t m] by auto
  have "is_active (tr_to t)" if "tr_to t \<noteq> SsTerminated" "tr_to t \<noteq> SsDeleted"
    using assms(2) that by (cases "tr_from t"; cases "tr_to t")
      (auto simp: transition_ok_def is_valid_transition_def is_active_def)
  then show ?thesis
    using assms(1,2) m'
    by (intro section_change [where r = "tr_ref t" and ms = "(managed_at (tr_ref t) m)\<lparr>ms_info := tr_info t,
            ms_worker := (if tr_to t \<in> {SsTerminated, SsDeleted} then None else worker_of (tr_ref t) m)\<rparr>"])
      (auto simp: changed_at_def commit_managed transition_ok_def split: if_splits)
qed

lemma transition_ok_wsid: "transition_ok m (t\<lparr>tr_info := (tr_info t)\<lparr>si_wsid := w\<rparr>\<rparr>) = transition_ok m t"
  by (simp add: transition_ok_def)

lemma transition_commit_ok:
  assumes "index_ok m" "transition_ok m t" "transition_commit ev t e m = (m', f')"
  shows "section_ok S (TransCommit t e) m S f' m'"
proof (cases e)
  case (Some err)
  have "section_ok S (TransCommit t e) m S (Returned a) (force_terminate_in_memory now (tr_ref t) from m)" for a now "from"
    using assms(1,2) by (intro force_terminate_ok) (simp_all add: transition_ok_def)
  moreover have "section_ok S (TransCommit t e) m S (Returned a) m" for a
    by (rule section_ok_Returned) (simp_all add: assms(1))
  ultimately show ?thesis
    using assms(3) by (auto simp: transition_commit_def Some Let_def split: if_splits)
next
  case None
  show ?thesis
  proof (cases "si_wsid (tr_info t) = [] \<and> si_wsid (info_of (tr_ref t) m) \<noteq> []")
    case True
    then show ?thesis
      using assms None by (intro section_quiet) (auto simp: transition_commit_def Let_def transition_ok_wsid)
  next
    case False
    then have "commit_transition t m = (m', f')"
      using assms(3) by (simp add: transition_commit_def Let_def None split: if_splits)
    then show ?thesis by (rule commit_transition_ok [OF assms(1,2)])
  qed
qed

lemma transition_guarded_ok:
  assumes "index_ok m" "transition_ok m t" "transition_guarded t e m = (m', f')"
  shows "section_ok S f m S f' m'"
  by (rule commit_transition_ok [OF assms(1) _ assms(3) [unfolded transition_guarded_def Let_def]])
    (simp add: transition_ok_wsid assms(2))

lemma transition_state_frame:
  assumes "r < objects m" "is_valid_transition (si_state (info_of r m)) to'"
  shows "frame_ok S m (transition_state cfg now r (si_state (info_of r m)) to' reason mx m)"
  using assms by (simp add: transition_state_def transition_ok_def)

lemma do_transition_ok:
  assumes "index_ok m" "r < objects m" "do_transition cfg ev r to' reason m = (m', f')"
  shows "section_ok S (Locked i r op) m S f' m'"
  using assms
  by (intro section_quiet) (auto simp: do_transition_def Let_def transition_state_def transition_ok_def split: if_splits)

lemma do_input_ok:
  assumes "index_ok m" "r < objects m" "do_input cfg ev r to' m = (m', f')"
  shows "section_ok S (Locked i r op) m S f' m'"
proof -
  let ?ms = "(managed_at r m)\<lparr>ms_turns := ms_turns (managed_at r m) + 1\<rparr>"
  let ?m1 = "set_managed r (\<lambda>ms. ms\<lparr>ms_turns := ms_turns ms + 1\<rparr>) m"
  have count: "section_ok S (Locked i r op) m S
      (transition_state cfg (ev_now ev) r (si_state (info_of r m)) s reason mx ?m1) ?m1"
    if "is_valid_transition (si_state (info_of r m)) s" for s reason mx
    using that assms(1,2)
    by (auto simp: section_ok_def evolves_def index_ok_def transition_state_def transition_ok_def)
  have i1: "index_ok ?m1" using assms(1) by (auto simp: index_ok_def)
  have force: "section_ok S (Locked i r op) m S (Returned a)
      (force_terminate_in_memory (ev_now ev) r (si_state (info_of r m)) ?m1)" for a
    by (rule section_change [where r = r and ms = "?ms\<lparr>ms_info := (info_of r m)\<lparr>si_state := SsTerminated,
              si_updated := ev_now ev\<rparr>, ms_worker := None\<rparr>"])
      (use assms(1,2) in \<open>auto simp: changed_at_def force_terminate_managed\<close>)
  have "section_ok S (Locked i r op) m S (Returned a) m" for a
    by (rule section_ok_Returned) (simp_all add: assms(1))
  then show ?thesis
    using assms(3) count force by (auto simp: do_input_def Let_def split: if_splits)
qed

lemma do_detach_ok:
  assumes "index_ok m" "r < objects m" "do_detach r expected m = (m', f')"
  shows "section_ok S (Locked i r op) m S f' m'"
proof (cases "expected \<noteq> None \<and> worker_of r m \<noteq> expected")
  case True
  then show ?thesis using assms by (auto simp: do_detach_def Let_def intro!: section_ok_Returned)
next
  case False
  then show ?thesis
    using assms
    by (intro section_change [where r = r and ms = "(managed_at r m)\<lparr>ms_worker := None\<rparr>"])
      (auto simp: do_detach_def Let_def changed_at_def)
qed

lemma do_record_ok:
  assumes "index_ok m" "r < objects m" "do_record_input ev i r accepted l m = (m', f')"
  shows "section_ok S (Locked i r op) m S f' m'"
  using assms(3)
proof (cases rule: do_record_cases)
  case (changed a info db)
  then show ?thesis
    using assms(1,2)
    by (intro section_change [where r = r and ms = "(managed_at r m)\<lparr>ms_info := info\<rparr>"])
      (auto simp: changed_at_def same_session_def)
qed (use assms(1) in \<open>auto intro!: section_ok_Returned\<close>)

lemma locked_section_ok:
  assumes "index_ok m" "frame_ok S m (Locked i r op)" "locked_section cfg ev i r op m = (m', f')"
  shows "section_ok S (Locked i r op) m S f' m'"
proof (cases op)
  case DoClearContext
  then show ?thesis
    using assms by (intro section_quiet)
      (auto simp: locked_section_def do_clear_context_def edit_context_def undo_context_def same_session_def split: if_splits)
next
  case (DoWorkerSession w force)
  then show ?thesis
    using assms by (intro section_quiet) (auto simp: locked_section_def do_worker_session_def split: if_splits)
qed (use assms do_transition_ok do_input_ok do_detach_ok do_record_ok in \<open>auto simp: locked_section_def\<close>)

lemma attach_pin_ok:
  assumes "index_ok m" "attach_pin i w u ws m = (m', f')"
  shows "section_ok S (AttachPin i w u ws) m S f' m'"
proof -
  have same: "section_ok S (AttachPin i w u ws) m S (AttachGiveBack u ws e) m" for e
    by (rule section_quiet) (use assms(1) in simp_all)
  have pin: "section_ok S (AttachPin i w u ws) m S (Returned Ok)
      (set_managed r (\<lambda>ms. ms\<lparr>ms_worker := Some w, ms_attached := ws\<rparr>) m)"
    if "mg_index m i = Some r" "\<not> ms_deleting (managed_at r m)" "is_active (si_state (info_of r m))" for r
    by (rule section_change [where r = r and ms = "(managed_at r m)\<lparr>ms_worker := Some w, ms_attached := ws\<rparr>"])
      (use that index_at [OF assms(1) that(1)] assms(1) in \<open>auto simp: changed_at_def\<close>)
  show ?thesis
    using assms(2) same pin by (auto simp: attach_pin_def Let_def split: option.splits if_splits)
qed

text \<open>A section that changes the info within its session.\<close>

lemma section_info:
  assumes "index_ok m" "r < objects m" "same_session (ms_info (g (managed_at r m))) (info_of r m)"
    and "ms_worker (g (managed_at r m)) = worker_of r m"
    and "ms_deleting (g (managed_at r m)) = ms_deleting (managed_at r m)"
    and "plain f'" "frame_ok S (set_managed r g m) f'"
  shows "section_ok S f m S f' (set_managed r g m)"
  by (rule section_change [where r = r and ms = "g (managed_at r m)"])
    (use assms in \<open>auto simp: changed_at_def same_session_def\<close>)

lemma mutate_ok:
  assumes "index_ok m" "frame_ok S m (Mutate r edit undo)" "mutate ev r edit undo m = (m', f')"
  shows "section_ok S (Mutate r edit undo) m S f' m'"
  using assms by (auto simp: mutate_def Let_def same_session_def intro!: section_info)

lemma mutate_back_ok:
  assumes "index_ok m" "frame_ok S m (MutateBack r undo e)" "mutate_back r undo e m = (m', f')"
  shows "section_ok S (MutateBack r undo e) m S f' m'"
  using assms by (auto simp: mutate_back_def intro!: section_info)

lemma bind_workspace_ok:
  assumes "index_ok m" "bind_workspace i ws m = (m', f')"
  shows "section_ok S (BindWorkspace i ws) m S f' m'"
proof -
  have "section_ok S (BindWorkspace i ws) m S (Returned a) m" for a
    by (rule section_ok_Returned) (simp_all add: assms(1))
  then show ?thesis
    using assms
    by (auto simp: bind_workspace_def Let_def same_session_def dest: index_at
        intro!: section_info split: if_splits option.splits)
qed

lemma worker_session_set_ok:
  assumes "index_ok m" "r < objects m" "worker_session_set i r w m = (m', f')"
  shows "section_ok S f m S f' m'"
  using assms by (auto simp: worker_session_set_def same_session_def intro!: section_info)

lemma worker_session_back_ok:
  assumes "index_ok m" "r < objects m" "worker_session_back r prev e m = (m', f')"
  shows "section_ok S f m S f' m'"
  using assms by (auto simp: worker_session_back_def same_session_def intro!: section_info)

lemma delete_call_ok:
  assumes "index_ok m" "delete_call ev i m = (m', f')"
  shows "section_ok S (DeleteCall i) m S f' m'"
proof (cases "mg_index m i")
  case None
  then show ?thesis
    using assms by (auto simp: delete_call_def marked_def intro!: tombstone_installed_ok)
next
  case (Some r)
  note r = index_at [OF assms(1) Some]
  show ?thesis
  proof (cases "ms_deleting (managed_at r m)")
    case True
    then show ?thesis
      using assms Some by (auto simp: delete_call_def Let_def intro!: section_ok_Returned)
  next
    case False
    then show ?thesis
      using assms Some r
      by (intro section_mark [where r = r and ms = "(managed_at r m)\<lparr>ms_deleting := True\<rparr>"])
        (auto simp: delete_call_def Let_def changed_at_def marked_def deletion_candidate_def)
  qed
qed

lemma drop_own_ok:
  assumes "index_ok m"
  shows "section_ok S f m S (Returned a) (drop_own i r m)"
  using assms by (auto simp: section_ok_def evolves_def index_ok_def drop_own_def drop_index_def)

lemma delete_restore_ok:
  assumes "index_ok m" "frame_ok S m (DeleteRestore i r orig e)" "delete_restore i r orig e m = (m', f')"
  shows "section_ok S (DeleteRestore i r orig e) m S f' m'"
proof -
  have "section_ok S (DeleteRestore i r orig e) m S (Returned a) m" for a
    by (rule section_ok_Returned) (simp_all add: assms(1))
  moreover have "section_ok S (DeleteRestore i r orig e) m S (Returned a) (install i (fresh_managed row) m)"
    if "si_id row = i" for a row
    by (rule section_install [where ms = "fresh_managed row" and i = i]) (use that assms(1) in simp_all)
  moreover have "section_ok S (DeleteRestore i r orig e) m S (Returned a)
      (set_managed r (\<lambda>ms. ms\<lparr>ms_deleting := False\<rparr>) m)" for a
    by (rule section_change [where r = r and ms = "(managed_at r m)\<lparr>ms_deleting := False\<rparr>"])
      (use assms(1,2) in \<open>auto simp: changed_at_def marked_def\<close>)
  ultimately show ?thesis
    using assms(2,3) by (auto simp: delete_restore_def split: if_splits option.splits)
qed

lemma delete_commit_ok:
  assumes "index_ok m" "frame_ok S m (DeleteCommit i r cand run)" "delete_commit i r cand run m = (m', f')"
  shows "section_ok S (DeleteCommit i r cand run) m (settles (DeleteCommit i r cand run) m @ S) f' m'"
proof (cases "mg_index m i = Some r")
  case False
  then show ?thesis using assms by (auto simp: delete_commit_def intro!: section_ok_Returned)
next
  case True
  then show ?thesis
    using assms
    by (intro section_change [where r = r and ms = "(managed_at r m)\<lparr>ms_info := cand\<rparr>"])
      (auto simp: delete_commit_def Let_def changed_at_def marked_def split: if_splits)
qed

lemma physical_call_ok:
  assumes "index_ok m" "physical_call i m = (m', f')"
  shows "section_ok S (PhysicalCall i) m (settles (PhysicalCall i) m @ S) f' m'"
proof (cases "mg_index m i")
  case None
  then show ?thesis
    using assms by (auto simp: physical_call_def marked_def intro!: tombstone_installed_ok)
next
  case (Some r)
  note r = index_at [OF assms(1) Some]
  show ?thesis
  proof (cases "ms_deleting (managed_at r m)")
    case True
    then show ?thesis
      using assms Some by (auto simp: physical_call_def intro!: section_ok_Returned)
  next
    case False
    then show ?thesis
      using assms Some r
      by (intro section_mark [where r = r and ms = "(managed_at r m)\<lparr>ms_deleting := True\<rparr>"])
        (auto simp: physical_call_def Let_def changed_at_def marked_def split: if_splits)
  qed
qed

lemma retire_call_ok:
  assumes "index_ok m" "retire_call i m = (m', f')"
  shows "section_ok S (RetireCall i) m S f' m'"
proof (cases "mg_index m i")
  case None
  then show ?thesis
    using assms by (auto simp: retire_call_def marked_def intro!: tombstone_installed_ok)
next
  case (Some r)
  note r = index_at [OF assms(1) Some]
  let ?skip = "ms_deleting (managed_at r m) \<or> worker_of r m \<noteq> None \<or> si_state (info_of r m) = SsRunning \<or>
     si_policy (info_of r m) \<noteq> ''v2''"
  show ?thesis
  proof (cases ?skip)
    case True
    then have "m' = m" "f' = Returned Refused"
      using assms(2) Some by (auto simp: retire_call_def Let_def split: if_splits)
    then show ?thesis by (simp add: section_ok_Returned assms(1))
  next
    case False
    then show ?thesis
      using assms Some r
      by (intro section_mark [where r = r and ms = "(managed_at r m)\<lparr>ms_deleting := True\<rparr>"])
        (auto simp: retire_call_def Let_def changed_at_def marked_def split: if_splits)
  qed
qed

lemma retire_undo_ok:
  assumes "index_ok m" "frame_ok S m (RetireUndo i r cached e)" "retire_undo i r cached e m = (m', f')"
  shows "section_ok S (RetireUndo i r cached e) m S f' m'"
proof -
  have "section_ok S (RetireUndo i r cached e) m S (Returned a) m" for a
    by (rule section_ok_Returned) (simp_all add: assms(1))
  moreover have "section_ok S (RetireUndo i r cached e) m S (Returned a) (drop_index i m)"
    if "mg_index m i = Some r" for a
    using drop_own_ok [OF assms(1), of S "RetireUndo i r cached e" a i r] that by (simp add: drop_own_def)
  moreover have "section_ok S (RetireUndo i r cached e) m S (Returned a)
      (set_managed r (\<lambda>ms. ms\<lparr>ms_deleting := False\<rparr>) m)" for a
    by (rule section_change [where r = r and ms = "(managed_at r m)\<lparr>ms_deleting := False\<rparr>"])
      (use assms(1,2) in \<open>auto simp: changed_at_def marked_def\<close>)
  ultimately show ?thesis
    using assms(2,3) by (auto simp: retire_undo_def split: if_splits)
qed

lemma retire_commit_ok:
  assumes "index_ok m" "frame_ok S m (RetireCommit i r)" "retire_commit ev i r m = (m', f')"
  shows "section_ok S (RetireCommit i r) m S f' m'"
proof (cases "mg_index m i = Some r")
  case False
  then show ?thesis using assms by (auto simp: retire_commit_def intro!: section_ok_Returned)
next
  case True
  then show ?thesis
    using assms
    by (intro section_change [where r = r and ms = "(managed_at r m)\<lparr>ms_info := (info_of r m)
          \<lparr>si_state := SsDeleted, si_deleted := Some (ev_now ev), si_updated := ev_now ev\<rparr>\<rparr>"])
      (auto simp: retire_commit_def changed_at_def marked_def split: if_splits)
qed

lemma pool_sections_ok:
  assumes "index_ok m"
  shows "attach_acquire i w u ws m = (m', f') \<Longrightarrow> section_ok S (AttachAcquire i w u ws) m S f' m'"
    and "give_back u ws a m = (m', f') \<Longrightarrow> section_ok S f m S f' m'"
  using assms by (auto simp: attach_acquire_def give_back_def intro!: section_quiet split: prod.splits option.splits)

lemma section_step_ok:
  assumes "index_ok m" "frame_ok S m f" "section_step cfg ev f m = (m', f')"
  shows "section_ok S f m (settles f m @ S) f' m'"
proof (cases f)
  case (CreateInstall i)
  then show ?thesis using assms(2,3) create_install_ok [OF assms(1), of S i] by (auto simp: create_install_def)
next
  case (GetInstall i row)
  then show ?thesis using assms(2,3) get_install_ok [OF assms(1)] by simp
next
  case (Install i row op)
  then show ?thesis using assms(2,3) install_managed_ok [OF assms(1)] by simp
next
  case (Locked i r op)
  then show ?thesis using assms(2,3) locked_section_ok [OF assms(1)] by auto
next
  case (TransCommit t e)
  then show ?thesis using assms(2,3) transition_commit_ok [OF assms(1)] by simp
next
  case (TransGuarded t e)
  then show ?thesis using assms(2,3) transition_guarded_ok [OF assms(1)] by simp
next
  case (AttachPin i w u ws)
  then show ?thesis using assms(2,3) attach_pin_ok [OF assms(1)] by simp
next
  case (AttachAcquire i w u ws)
  then show ?thesis using assms(2,3) pool_sections_ok(1) [OF assms(1)] by simp
next
  case (AttachGiveBack u ws e)
  then show ?thesis using assms(2,3) pool_sections_ok(2) [OF assms(1)] by simp
next
  case (DetachRelease u ws)
  then show ?thesis using assms(2,3) pool_sections_ok(2) [OF assms(1)] by simp
next
  case (BindWorkspace i ws)
  then show ?thesis using assms(2,3) bind_workspace_ok [OF assms(1)] by simp
next
  case (Mutate r edit undo)
  then show ?thesis using assms(2,3) mutate_ok [OF assms(1)] by simp
next
  case (MutateBack r undo e)
  then show ?thesis using assms(2,3) mutate_back_ok [OF assms(1)] by simp
next
  case (WorkerSessionSet i r w)
  then show ?thesis using assms(2,3) worker_session_set_ok [OF assms(1)] by simp
next
  case (WorkerSessionBack r prev e)
  then show ?thesis using assms(2,3) worker_session_back_ok [OF assms(1)] by simp
next
  case (DeleteCall i)
  then show ?thesis using assms(2,3) delete_call_ok [OF assms(1)] by simp
next
  case (DeleteAbort i r e)
  then show ?thesis using assms(2,3) drop_own_ok [OF assms(1)] by (auto simp: delete_abort_def)
next
  case (DeleteRestore i r orig e)
  then show ?thesis using assms(2,3) delete_restore_ok [OF assms(1)] by simp
next
  case (DeleteCommit i r cand run)
  then show ?thesis using assms(2,3) delete_commit_ok [OF assms(1)] by (simp del: settles.simps frame_ok.simps)
next
  case (PhysicalCall i)
  then show ?thesis using assms(2,3) physical_call_ok [OF assms(1)] by (simp del: settles.simps)
next
  case (PhysicalUnmark i r e)
  then show ?thesis using assms(2,3) drop_own_ok [OF assms(1)] by (auto simp: physical_unmark_def)
next
  case (RetireCall i)
  then show ?thesis using assms(2,3) retire_call_ok [OF assms(1)] by simp
next
  case (RetireUndo i r cached e)
  then show ?thesis using assms(2,3) retire_undo_ok [OF assms(1)] by simp
next
  case (RetireCommit i r)
  then show ?thesis using assms(2,3) retire_commit_ok [OF assms(1)] by simp
qed (use store_sections_ok [OF assms] read_sections_ok [OF assms] in \<open>simp_all\<close>)

section \<open>The invariant of a world\<close>

definition threads_ok :: "mref list \<Rightarrow> manager \<Rightarrow> frame list \<Rightarrow> bool" where
  "threads_ok S m T \<longleftrightarrow>
     (\<forall>k < length T. frame_ok S m (T ! k)) \<and>
     (\<forall>j < length T. \<forall>k < length T. j \<noteq> k \<longrightarrow> owner (T ! j) \<noteq> None \<longrightarrow> owner (T ! j) \<noteq> owner (T ! k)) \<and>
     (\<forall>j < length T. \<forall>k < length T. \<forall>t. transition_of (T ! j) = Some t \<longrightarrow>
        owner (T ! k) = Some (tr_ref t) \<longrightarrow> \<not> cold m (T ! k))"

definition settled_ok :: "mref list \<Rightarrow> manager \<Rightarrow> frame list \<Rightarrow> bool" where
  "settled_ok S m T \<longleftrightarrow>
     (\<forall>r \<in> set S. r < objects m \<and> ms_deleting (managed_at r m) \<and>
        (\<forall>k < length T. owner (T ! k) = Some r \<longrightarrow> physical_frame (T ! k)))"

definition active_ok :: "mref list \<Rightarrow> manager \<Rightarrow> bool" where
  "active_ok S m \<longleftrightarrow>
     (\<forall>r < objects m. worker_of r m \<noteq> None \<and> r \<notin> set S \<longrightarrow> is_active (si_state (info_of r m)))"

definition world_inv :: "world \<Rightarrow> bool" where
  "world_inv w \<longleftrightarrow> index_ok (w_mgr w) \<and> threads_ok (w_settled w) (w_mgr w) (w_threads w) \<and>
     settled_ok (w_settled w) (w_mgr w) (w_threads w) \<and> active_ok (w_settled w) (w_mgr w)"

lemma owner_marked: "frame_ok S m f \<Longrightarrow> owner f = Some r \<Longrightarrow> r < objects m \<and> ms_deleting (managed_at r m)"
  by (cases f) (auto simp: marked_def)

lemma transition_ref: "frame_ok S m f \<Longrightarrow> transition_of f = Some t \<Longrightarrow> tr_ref t < objects m"
  by (cases f) (auto simp: transition_ok_def)

lemma cold_owner: "cold m f \<Longrightarrow> owner f \<noteq> None"
  by (cases f) simp_all

lemma owner_kept:
  assumes "section_step cfg ev f m = (m', f')" "owner f \<noteq> None"
  shows "owner f' = None \<or> owner f' = owner f"
  using assms
  by (cases f) (auto simp: delete_load_def delete_abort_def delete_store_def delete_restore_def
      delete_commit_def physical_store_def physical_unmark_def retire_store_def retire_undo_def
      retire_commit_def split: if_splits option.splits sum.splits prod.splits)

lemma user_changes_only_cold:
  assumes "index_ok m" "frame_ok S m f" "section_step cfg ev f m = (m', f')" "r < objects m"
    and "si_user (info_of r m') \<noteq> si_user (info_of r m)"
  shows "owner f = Some r \<and> cold m f"
proof -
  have "section_ok S f m (settles f m @ S) f' m'" by (rule section_step_ok [OF assms(1-3)])
  then have o: "owner f = Some r" using assms(4,5) by (auto simp: section_ok_def evolves_def)
  then have "cold m f"
    using assms(2-)
    by (cases f) (auto simp: delete_load_def delete_abort_def delete_store_def delete_restore_def
      delete_commit_def physical_store_def physical_unmark_def retire_store_def retire_undo_def
      retire_commit_def marked_def Let_def dest!: store_call_db split: if_splits option.splits sum.splits prod.splits)
  with o show ?thesis ..
qed

lemma settles_cases:
  assumes "r \<in> set (settles f m)" "section_step cfg ev f m = (m', f')" "index_ok m" "frame_ok S m f"
  shows "r < objects m \<and> ms_deleting (managed_at r m') \<and>
     (\<not> ms_deleting (managed_at r m) \<and> physical_frame f' \<or>
      owner f = Some r \<and> \<not> physical_frame f \<and> owner f' = None)"
proof (cases f)
  case (PhysicalCall i)
  then show ?thesis
    using assms(1,2) index_at [OF assms(3), of i r]
    by (auto simp: physical_call_def Let_def split: option.splits if_splits)
next
  case (DeleteCommit i r' cand run)
  then show ?thesis
    using assms(1,2,4) by (auto simp: delete_commit_def Let_def marked_def split: if_splits)
qed (use assms(1) in simp_all)

lemma physical_stays:
  assumes "physical_frame f" "section_step cfg ev f m = (m', f')" "owner f' = Some r"
  shows "physical_frame f'"
  using assms by (cases f) (auto simp: physical_store_def physical_unmark_def split: prod.splits)

lemma unmark_by_owner:
  assumes "index_ok m" "frame_ok S m f" "section_step cfg ev f m = (m', f')" "r < objects m"
    "ms_deleting (managed_at r m)" "\<not> ms_deleting (managed_at r m')"
  shows "owner f = Some r \<and> \<not> physical_frame f"
proof -
  have "section_ok S f m (settles f m @ S) f' m'" by (rule section_step_ok [OF assms(1-3)])
  then have "owner f = Some r" using assms(4-) by (auto simp: section_ok_def evolves_def)
  moreover have "\<not> physical_frame f"
    using assms(3-) by (cases f) (auto simp: physical_store_def physical_unmark_def dest!: store_call_db split: prod.splits)
  ultimately show ?thesis ..
qed

lemma section_threads_ok:
  assumes inv: "world_inv w" and k: "k < length (w_threads w)"
    and step: "section_step cfg ev (w_threads w ! k) (w_mgr w) = (m', f')"
  shows "world_inv (run_section cfg k ev w)"
proof -
  let ?m = "w_mgr w" and ?T = "w_threads w" and ?S = "w_settled w"
  let ?f = "?T ! k" and ?T' = "?T[k := f']" and ?S' = "settles (?T ! k) ?m @ ?S"
  have I: "index_ok ?m" "\<And>j. j < length ?T \<Longrightarrow> frame_ok ?S ?m (?T ! j)" "settled_ok ?S ?m ?T" "active_ok ?S ?m"
      "\<And>i j. i < length ?T \<Longrightarrow> j < length ?T \<Longrightarrow> i \<noteq> j \<Longrightarrow> owner (?T ! i) \<noteq> None \<Longrightarrow> owner (?T ! i) \<noteq> owner (?T ! j)"
      "\<And>i j t. i < length ?T \<Longrightarrow> j < length ?T \<Longrightarrow> transition_of (?T ! i) = Some t \<Longrightarrow>
         owner (?T ! j) = Some (tr_ref t) \<Longrightarrow> \<not> cold ?m (?T ! j)"
    using inv by (auto simp: world_inv_def threads_ok_def)
  have ok: "section_ok ?S ?f ?m ?S' f' m'"
    by (rule section_step_ok [OF I(1) I(2) [OF k] step])
  have ev: "evolves (owner ?f) ?m m'" and fo: "frame_ok ?S' m' f'" and io: "index_ok m'"
    using ok by (auto simp: section_ok_def)
  have users: "si_user (info_of r m') = si_user (info_of r ?m)" if "r < objects ?m" "\<not> (owner ?f = Some r \<and> cold ?m ?f)" for r
    using user_changes_only_cold [OF I(1) I(2) [OF k] step that(1)] that(2) by blast
  have other: "frame_ok ?S' m' (?T ! j)" if j: "j < length ?T" "j \<noteq> k" for j
  proof (rule frame_ok_evolves [OF ev I(2) [OF j(1)]])
    show "owner (?T ! j) \<noteq> owner ?f" if "owner (?T ! j) \<noteq> None" using I(5) [OF j(1) k j(2) that] .
    show "si_user (info_of (tr_ref t) m') = si_user (info_of (tr_ref t) ?m)" if "transition_of (?T ! j) = Some t" for t
      using users transition_ref [OF I(2) [OF j(1)] that] I(6) [OF j(1) k that] by blast
  qed simp
  have frames: "frame_ok ?S' m' (?T' ! j)" if "j < length ?T" for j
    using that fo other by (cases "j = k") (simp_all add: k)
  have new_owner: "owner ?f = Some r \<or> objects ?m \<le> r \<or> \<not> ms_deleting (managed_at r ?m)" if "owner f' = Some r" for r
    using ok that by (auto simp: section_ok_def)
  have apart: "owner f' \<noteq> owner (?T ! j)" if j: "j < length ?T" "j \<noteq> k" "owner f' \<noteq> None" for j
  proof
    assume "owner f' = owner (?T ! j)"
    with j(3) obtain r where r: "owner f' = Some r" "owner (?T ! j) = Some r" by auto
    then show False
      using new_owner [OF r(1)] owner_marked [OF I(2) [OF j(1)] r(2)] I(5) [OF j(1) k j(2)] by auto
  qed
  have cold_same: "cold m' (?T ! j) \<longleftrightarrow> cold ?m (?T ! j)" if "j < length ?T" "j \<noteq> k" for j
  proof (cases "owner (?T ! j)")
    case (Some r)
    have "si_user (info_of r m') = si_user (info_of r ?m)"
      using users [of r] owner_marked [OF I(2) [OF that(1)] Some] I(5) [OF that(1) k that(2)] Some by auto
    then show ?thesis using Some by (cases "?T ! j") auto
  qed (cases "?T ! j"; simp)
  have cold_ok: "\<not> cold m' (?T' ! j)"
    if "i < length ?T" "j < length ?T" "transition_of (?T' ! i) = Some t" "owner (?T' ! j) = Some (tr_ref t)" for i j t
  proof (cases "i = k")
    case True
    have "j \<noteq> k" using that True k by (cases f') auto
    have tr: "(\<exists>t0. transition_of ?f = Some t0 \<and> tr_ref t0 = tr_ref t) \<or> \<not> ms_deleting (managed_at (tr_ref t) ?m)"
      using ok that True k by (auto simp: section_ok_def)
    have o: "owner (?T ! j) = Some (tr_ref t)" using that \<open>j \<noteq> k\<close> by simp
    show ?thesis
      using tr owner_marked [OF I(2) [OF that(2)] o] I(6) [OF k that(2)] o cold_same [OF that(2) \<open>j \<noteq> k\<close>] \<open>j \<noteq> k\<close>
      by auto
  next
    case False
    have t: "transition_of (?T ! i) = Some t" using that False by simp
    show ?thesis
    proof (cases "j = k")
      case True
      have "cold ?m ?f \<or> (\<exists>r \<ge> objects ?m. owner f' = Some r)" if "cold m' f'" using ok that by (simp add: section_ok_def)
      moreover have "owner f' = Some (tr_ref t)" using that True k by simp
      moreover have "tr_ref t < objects ?m" by (rule transition_ref [OF I(2) [OF that(1)] t])
      moreover have "owner ?f = Some (tr_ref t)" if "cold ?m ?f" "owner f' = Some (tr_ref t)"
        using owner_kept [OF step cold_owner [OF that(1)]] that(2) by simp
      ultimately show ?thesis using I(6) [OF that(1) k t] True k by auto
    next
      case j: False
      then show ?thesis using that I(6) [OF that(1,2) t] cold_same [OF that(2) j] by simp
    qed
  qed
  have settled: "settled_ok ?S' m' ?T'"
    unfolding settled_ok_def
  proof (intro ballI conjI allI impI)
    fix r assume r: "r \<in> set ?S'"
    have old: "r < objects ?m" "ms_deleting (managed_at r ?m)"
      "\<And>j. j < length ?T \<Longrightarrow> owner (?T ! j) = Some r \<Longrightarrow> physical_frame (?T ! j)" if "r \<in> set ?S"
      using I(3) that by (auto simp: settled_ok_def)
    note new = settles_cases [OF _ step I(1) I(2) [OF k]]
    have "r < objects ?m" using r old new by auto
    then show "r < objects m'" using ev by (simp add: evolves_def)
    show "ms_deleting (managed_at r m')"
      using r new old(1-3) unmark_by_owner [OF I(1) I(2) [OF k] step] k by auto
    fix j assume j: "j < length ?T'" "owner (?T' ! j) = Some r"
    show "physical_frame (?T' ! j)"
    proof (cases "j = k")
      case True
      then have o: "owner f' = Some r" using j k by simp
      show ?thesis
        using r new [of r] new_owner [OF o] old physical_stays [OF _ step o] True k o \<open>r < objects ?m\<close> by auto
    next
      case False
      then have o: "owner (?T ! j) = Some r" "j < length ?T" using j by simp_all
      show ?thesis
        using r new [of r] old(3) [OF _ o(2,1)] o False I(5) [OF o(2) k False] owner_marked [OF I(2) [OF o(2)] o(1)] by auto
    qed
  qed
  have "active_ok ?S' m'"
    unfolding active_ok_def
  proof (intro allI impI)
    fix r assume r: "r < objects m'" "worker_of r m' \<noteq> None \<and> r \<notin> set ?S'"
    then have "r < objects ?m" using ok by (auto simp: section_ok_def not_less)
    then show "is_active (si_state (info_of r m'))"
      using ok r I(4) by (auto simp: section_ok_def active_ok_def)
  qed
  moreover have "owner (?T' ! i) \<noteq> owner (?T' ! j)"
    if ij: "i < length ?T" "j < length ?T" "i \<noteq> j" "owner (?T' ! i) \<noteq> None" for i j
  proof
    assume eq: "owner (?T' ! i) = owner (?T' ! j)"
    consider "i = k" "j \<noteq> k" | "i \<noteq> k" "j = k" | "i \<noteq> k" "j \<noteq> k" using ij(3) by blast
    then show False
      by cases (use eq ij k apart [of j] apart [of i] I(5) [OF ij(1,2,3)] in \<open>simp_all\<close>)
  qed
  then have "threads_ok ?S' m' ?T'"
    unfolding threads_ok_def using frames cold_ok by auto
  ultimately show ?thesis
    using io settled by (simp add: world_inv_def run_section_def step)
qed

lemma frame_ok_same:
  assumes "objects m' = objects m" "\<And>r. managed_at r m' = managed_at r m"
  shows "frame_ok S m' f = frame_ok S m f"
  by (cases f) (simp_all add: assms transition_ok_def marked_def cong: option.case_cong)

lemma cold_same:
  assumes "\<And>r. managed_at r m' = managed_at r m"
  shows "cold m' f = cold m f"
  by (cases f) (simp_all add: assms)

lemma world_inv_same:
  assumes "objects m = objects (w_mgr w)" "\<And>r. managed_at r m = managed_at r (w_mgr w)"
    and "\<And>i r. mg_index m i = Some r \<Longrightarrow> mg_index (w_mgr w) i = Some r"
    and "world_inv w"
  shows "world_inv (w\<lparr>w_mgr := m\<rparr>)"
proof -
  have "index_ok m"
    using assms(4) by (auto simp: world_inv_def index_ok_def assms(1,2) dest!: assms(3))
  then show ?thesis
    using assms(4) by (simp add: world_inv_def threads_ok_def settled_ok_def active_ok_def assms(1,2)
      frame_ok_same [OF assms(1,2)] cold_same [OF assms(2)])
qed

lemma method_call_frame:
  "method_call f \<Longrightarrow> frame_ok S m f" "method_call f \<Longrightarrow> owner f = None"
  "method_call f \<Longrightarrow> transition_of f = None"
  by (cases f; simp)+

lemma spawn_inv:
  assumes "world_inv w" "method_call f"
  shows "world_inv (w\<lparr>w_threads := w_threads w @ [f]\<rparr>)"
  using assms method_call_frame [OF assms(2)]
  by (auto simp: world_inv_def threads_ok_def settled_ok_def nth_append less_Suc_eq)

lemma gc_evict_sel [simp]:
  "mg_pool (gc_evict now m) = mg_pool m" "objects (gc_evict now m) = objects m"
  "managed_at r (gc_evict now m) = managed_at r m" "mg_db (gc_evict now m) = mg_db m"
  by (simp_all add: gc_evict_def managed_at_def)

lemma gc_evict_index: "mg_index (gc_evict now m) i = Some r \<Longrightarrow> mg_index m i = Some r"
  by (simp add: gc_evict_def split: option.splits if_splits)

lemma world_step_inv: "world_inv w \<Longrightarrow> world_inv (world_step cfg op w)"
proof (cases op)
  case (Section k ev)
  assume "world_inv w"
  then show ?thesis
    using section_threads_ok [of w k cfg ev "fst (section_step cfg ev (w_threads w ! k) (w_mgr w))"
        "snd (section_step cfg ev (w_threads w ! k) (w_mgr w))"]
    by (simp add: Section)
qed (auto intro: spawn_inv world_inv_same dest: gc_evict_index)

lemma new_world_inv: "mg_objs m = [] \<Longrightarrow> mg_index m = Map.empty \<Longrightarrow> world_inv (new_world m)"
  by (simp add: world_inv_def new_world_def index_ok_def threads_ok_def settled_ok_def active_ok_def)

interpretation session_manager: invariant_machine "world_step cfg" world_inv
  by unfold_locales (rule world_step_inv)

end
