(* ===== verification/ManagerProps.thy ===== *)
theory ManagerProps
  imports ManagerMachine CleanupProps
begin

text \<open>
  The properties of the session manager that need no account of its tickets: attached workers
  belong to active sessions, deletions exclude each other, and the interleavings
  in which a collected session comes back, the collector panics or a change is not stored.
\<close>

section \<open>Concrete runs\<close>

definition the_env :: "instant \<Rightarrow> section_env" where
  "the_env t = \<lparr>ev_now = t, ev_fail = False, ev_ids = some_ids\<rparr>"

definition a_config :: mgr_config where
  "a_config = \<lparr>mc_lifecycle = \<lparr>lc_policy = ''legacy'', lc_archive_after = 0, lc_retention = 0\<rparr>,
     mc_retention = 100, mc_idle = 10, mc_execution = 0, mc_digest = (\<lambda>_. ''d''), mc_max_turns = (\<lambda>_. 0)\<rparr>"

definition chat_args :: "session_id \<Rightarrow> create_args" where
  "chat_args i = \<lparr>ca_id = i, ca_user = ''u'', ca_bot = [], ca_bot_name = [], ca_worker_type = ''claude'',
     ca_snapshot = None, ca_platform = ''webchat'', ca_platform_key = [], ca_workspace = [],
     ca_work_dir = ''/a'', ca_title = [], ca_client = []\<rparr>"

text \<open>A call that is goroutine \<open>k\<close> and runs \<open>n\<close> sections.\<close>

definition alone :: "nat \<Rightarrow> nat \<Rightarrow> frame \<Rightarrow> world_op list" where
  "alone k n f = Spawn f # replicate n (Section k (the_env 1))"

definition start_world :: world where
  "start_world = new_world (new_manager 9 9 0 9 empty_sess_db)"

definition two_attached :: "world_op list" where
  "two_attached = alone 0 3 (CreateCall (chat_args ''s'')) @ alone 1 3 (CreateCall (chat_args ''t''))
    @ alone 2 3 (AttachCheck ''s'' 7) @ alone 3 3 (AttachCheck ''t'' 8)"

abbreviation run_world :: "world_op list \<Rightarrow> world" where
  "run_world ops \<equiv> fold (world_step a_config) ops start_world"

lemma reachable_inv: "world_inv (fold (world_step cfg) ops (new_world (new_manager l u mem ws db)))"
  by (rule session_manager.run_inv [OF new_world_inv]) (simp_all add: new_manager_def)

lemma threads_apart:
  assumes "threads_ok S m T" "j < length T" "k < length T" "j \<noteq> k" "owner (T ! j) \<noteq> None"
  shows "owner (T ! j) \<noteq> owner (T ! k)"
  using assms(1)[unfolded threads_ok_def, THEN conjunct2, THEN conjunct1, rule_format, OF assms(2-5)] .

section \<open>Attached workers\<close>

text \<open>
  C12. A worker is attached to an active session.  In every interleaving of calls, collection,
  resizing and foreign writes, a cached session that has a worker (and is not the leftover of a
  deletion that has given its quota back) is created, running or idle, and eviction keeps it, so
  its worker can still be found by the session's id.
\<close>

theorem attached_session_is_active:
  assumes "w = fold (world_step cfg) ops (new_world (new_manager l u mem ws db))"
    and "mg_index (w_mgr w) i = Some r" "worker_of r (w_mgr w) \<noteq> None" "r \<notin> set (w_settled w)"
  shows "si_id (info_of r (w_mgr w)) = i \<and> is_active (si_state (info_of r (w_mgr w))) \<and>
    cached_worker i (gc_evict now (w_mgr w)) = worker_of r (w_mgr w)"
proof -
  have inv: "world_inv w" by (simp only: assms(1) reachable_inv)
  then have at: "r < objects (w_mgr w)" "si_id (info_of r (w_mgr w)) = i"
    using assms(2) by (auto simp: world_inv_def index_ok_def)
  then have act: "is_active (si_state (info_of r (w_mgr w)))"
    using inv assms(3,4) by (simp add: world_inv_def active_ok_def)
  then have "\<not> evictable now (managed_at r (w_mgr w))"
    by (auto simp: evictable_def is_active_def)
  then show ?thesis
    using at act assms(2) by (simp add: cached_worker_def gc_evict_def managed_at_def)
qed

theorem attached_session_is_active_witness:
  "cached_worker ''s'' (gc_evict (10 ^ 20) (w_mgr (run_world two_attached))) = Some 7"
proof -
  let ?w = "run_world two_attached"
  have f: "mg_index (w_mgr ?w) ''s'' = Some 0" "worker_of 0 (w_mgr ?w) = Some 7" "0 \<notin> set (w_settled ?w)"
    by code_simp+
  show ?thesis
    using attached_session_is_active [OF _ f(1) _ f(3), of a_config two_attached 9 9 0 9 empty_sess_db "10 ^ 20"] f(2)
    by (simp add: start_world_def)
qed

text \<open>
  One deletion at a time.  Two goroutines are never inside the durable part of a deletion,
  a physical deletion or a retirement of the same cached object, and the object is marked as being
  deleted all that time, so that every other call that finds it refuses to attach, to transition
  or to delete.
\<close>

theorem one_deleter:
  assumes "w = fold (world_step cfg) ops (new_world (new_manager l u mem ws db))"
    and "j < length (w_threads w)" "k < length (w_threads w)" "owner (w_threads w ! j) = Some r"
  shows "ms_deleting (managed_at r (w_mgr w)) \<and> (owner (w_threads w ! k) = Some r \<longrightarrow> j = k)"
proof -
  have "world_inv w" by (simp only: assms(1) reachable_inv)
  then have T: "threads_ok (w_settled w) (w_mgr w) (w_threads w)" by (simp add: world_inv_def)
  then have "frame_ok (w_settled w) (w_mgr w) (w_threads w ! j)" using assms(2) by (simp add: threads_ok_def)
  moreover have "owner (w_threads w ! j) \<noteq> owner (w_threads w ! k)" if "j \<noteq> k"
    using threads_apart [OF T assms(2,3) that] assms(4) by simp
  ultimately show ?thesis using owner_marked assms(4) by fastforce
qed

theorem one_deleter_witness:
  "ms_deleting (managed_at 0 (w_mgr (run_world (two_attached @ alone 4 1 (DeleteCall ''s'')))))"
proof -
  let ?ops = "two_attached @ alone 4 1 (DeleteCall ''s'')"
  have "length (w_threads (run_world ?ops)) = 5" "owner (w_threads (run_world ?ops) ! 4) = Some 0"
    by code_simp+
  then show ?thesis
    using one_deleter [of "run_world ?ops" a_config ?ops 9 9 0 9 empty_sess_db 4 4 0]
    by (simp add: start_world_def)
qed

section \<open>Interleavings that go wrong\<close>

text \<open>The upsert of a session whose row is there and not deleted.\<close>

lemma upsert_row:
  assumes "find_session (si_id info) db = Some row" "\<not> row_deleted row" "\<not> pending_cleanup (si_id info) db" "si_state info \<noteq> SsEmpty"
  obtains db' where "upsert info db = (db', None)"
    "sd_sessions db' = sql_update (\<lambda>r. si_id r = si_id info \<and> \<not> row_deleted r) (updated_row info) (sd_sessions db)"
proof -
  have "row \<in> set (sd_sessions db) \<and> si_id row = si_id info" using assms(1) sql_row_Some unfolding find_session_def by fast
  then have n: "sql_count (\<lambda>r. si_id r = si_id info \<and> \<not> row_deleted r) (sd_sessions db) \<noteq> 0"
    using assms(2) by (auto simp: sql_count_0_iff)
  then show ?thesis
    using assms by (intro that) (auto simp: upsert_def update_sessions_def split: nat.splits)
qed

lemma only_row:
  assumes "distinct (map si_id (sd_sessions db))" "find_session i db = Some row" "r \<in> set (sd_sessions db)" "si_id r = i"
  shows "r = row"
proof -
  have "row \<in> set (sd_sessions db) \<and> si_id row = i" using assms(2) sql_row_Some unfolding find_session_def by fast
  then show ?thesis using assms(1,3,4) by (auto simp: distinct_map dest: inj_onD)
qed

lemma terminated_not_expired:
  assumes "\<And>r. r \<in> set (sd_sessions db) \<Longrightarrow> si_id r = i \<Longrightarrow> si_state r = SsTerminated"
  shows "i \<notin> set (gc_expired_ids now db)"
  using assms by (auto simp: gc_expired_ids_def get_expired_max_lifetime_def get_expired_idle_def)

lemma running_workers_aligned:
  "\<forall>i \<in> set ids. mg_index m i \<noteq> None \<Longrightarrow> running_workers ids m = map (\<lambda>i. cached_worker i m) ids"
  unfolding running_workers_def by (induction ids) (auto simp: cached_worker_def)

lemma no_worker_no_zombie:
  assumes "\<forall>j \<in> set ids. mg_index m j \<noteq> None" "cached_worker i m = None"
  shows "i \<notin> set (fst (gc_zombies cfg last_io now ids m))"
proof -
  have "(i, w) \<in> set (zip ids (map (\<lambda>i. cached_worker i m) ids)) \<Longrightarrow> w = None" for w
    using assms(2) by (auto simp: set_zip)
  then show ?thesis unfolding gc_zombies_def running_workers_aligned [OF assms(1)] by (fastforce simp: zombie_def)
qed

text \<open>The collector ends a session: four sections of a goroutine that nobody interrupts.\<close>

lemma collected:
  fixes w :: world
  assumes c: "c < length (w_threads w)" "w_threads w ! c = Lookup i (DoTransition SsTerminated reason)"
    and at: "mg_index (w_mgr w) i = Some r" "r < objects (w_mgr w)" "si_id (info_of r (w_mgr w)) = i"
      "\<not> ms_deleting (managed_at r (w_mgr w))" "is_valid_transition (si_state (info_of r (w_mgr w))) SsTerminated"
    and row: "find_session i (mg_db (w_mgr w)) = Some row" "\<not> row_deleted row" "\<not> pending_cleanup i (mg_db (w_mgr w))"
    and ev: "\<not> ev_fail e3"
    and w1: "w1 = fold (world_step cfg) [Section c e1, Section c e2, Section c e3, Section c e4] w"
  shows "w_threads w1 = (w_threads w)[c := Returned Ok] \<and> mg_index (w_mgr w1) = mg_index (w_mgr w) \<and>
    objects (w_mgr w1) = objects (w_mgr w) \<and> worker_of r (w_mgr w1) = None \<and>
    si_wsid (info_of r (w_mgr w1)) = si_wsid (info_of r (w_mgr w)) \<and>
    (\<exists>f. sd_sessions (mg_db (w_mgr w1)) = sql_update (\<lambda>r. si_id r = i \<and> \<not> row_deleted r) f (sd_sessions (mg_db (w_mgr w))) \<and>
       (\<forall>r. si_id (f r) = si_id r \<and> si_state (f r) = SsTerminated))"
proof -
  let ?m = "w_mgr w" and ?s = "si_state (info_of r (w_mgr w))"
  define info where "info = transition_candidate cfg (ev_now e2) SsTerminated (info_of r ?m)"
  define t where "t = \<lparr>tr_ref = r, tr_from = ?s, tr_to = SsTerminated, tr_reason = reason, tr_max = False, tr_info = info\<rparr>"
  have sel: "tr_ref t = r" "tr_to t = SsTerminated" "tr_info t = info" "\<not> tr_max t" by (simp_all add: t_def)
  have i: "si_id info = i" "si_state info = SsTerminated" "si_wsid info = si_wsid (info_of r ?m)"
    using at(3) by (simp_all add: info_def transition_candidate_def)
  have s2: "locked_section cfg e2 i r (DoTransition SsTerminated reason) ?m = (?m, TransStore t)"
  proof -
    have "?s \<noteq> SsTerminated" using at(5) by (auto simp: is_valid_transition_def)
    then show ?thesis
      using at by (simp add: locked_section_def do_transition_def transition_state_def t_def info_def Let_def)
  qed
  obtain db where u: "upsert info (mg_db ?m) = (db, None)"
    "sd_sessions db = sql_update (\<lambda>r. si_id r = si_id info \<and> \<not> row_deleted r) (updated_row info) (sd_sessions (mg_db ?m))"
    by (rule upsert_row [of info "mg_db ?m" row]) (use row i in simp_all)
  let ?m3 = "?m\<lparr>mg_db := db\<rparr>"
  have s3: "transition_store e3 t ?m = (?m3, TransCommit t None)"
    using ev u(1) by (simp add: transition_store_def store_call_def sel)
  have s4: "transition_commit e4 t None ?m3 = commit_transition t ?m3"
    using i(3) by (simp add: transition_commit_def Let_def sel)
  have w1': "w_threads w1 = (w_threads w)[c := Returned Ok]" "w_mgr w1 = fst (commit_transition t ?m3)"
    using c at(1) unfolding w1
    by (simp_all add: run_section_def lookup_managed_def s2 s3 s4 commit_frame sel case_prod_unfold)
  have "\<forall>x. si_id (updated_row info x) = si_id x \<and> si_state (updated_row info x) = SsTerminated"
    using i(2) by (simp add: updated_row_def)
  then show ?thesis
    using at(2) i u(2) unfolding w1' by (auto simp: commit_managed sel)
qed

text \<open>
  C23. An input can bring a collected session back without a worker.  A transition that has
  stored its row commits whatever happened to the session meanwhile.  Let a goroutine of any
  reachable state be about to commit a stored transition to running, and let the collector end the
  session in between (whether it was idle, over its lifetime or a zombie): both calls succeed, the
  cached session is running without a worker and its row says terminated.  From then on the passes
  of the collector that end sessions pass it by: it is neither expired nor idle, no pass over cached
  running sessions takes it for a zombie, and it is not evicted.  The retirement of conversations
  past their retention, which is about rows, is not spoken of.
\<close>

theorem input_revives_collected_session:
  assumes w: "w = fold (world_step cfg) ops (new_world (new_manager l u mem ws db0))"
    and k: "k < length (w_threads w)" "w_threads w ! k = TransCommit t None" "tr_to t = SsRunning" "tr_ref t = r" "\<not> tr_max t"
      "si_wsid (tr_info t) \<noteq> [] \<or> si_wsid (info_of r (w_mgr w)) = []"
    and c: "c < length (w_threads w)" "w_threads w ! c = Lookup i (DoTransition SsTerminated reason)"
    and at: "mg_index (w_mgr w) i = Some r" "\<not> ms_deleting (managed_at r (w_mgr w))"
      "is_valid_transition (si_state (info_of r (w_mgr w))) SsTerminated"
    and row: "find_session i (mg_db (w_mgr w)) = Some row" "\<not> row_deleted row" "\<not> pending_cleanup i (mg_db (w_mgr w))"
      "distinct (map si_id (sd_sessions (mg_db (w_mgr w))))"
    and ev: "\<not> ev_fail e3"
    and w': "w' = fold (world_step cfg) [Section c e1, Section c e2, Section c e3, Section c e4, Section k e5] w"
  shows "w_threads w' ! c = Returned Ok \<and> w_threads w' ! k = Returned Ok \<and>
    mg_index (w_mgr w') i = Some r \<and> si_state (info_of r (w_mgr w')) = SsRunning \<and> worker_of r (w_mgr w') = None \<and>
    (\<forall>x \<in> set (sd_sessions (mg_db (w_mgr w'))). si_id x = i \<longrightarrow> si_state x = SsTerminated) \<and>
    (\<forall>now. i \<notin> set (gc_expired_ids now (mg_db (w_mgr w')))) \<and>
    (\<forall>last_io now ids. (\<forall>j \<in> set ids. mg_index (w_mgr w') j \<noteq> None) \<longrightarrow>
       i \<notin> set (fst (gc_zombies cfg last_io now ids (w_mgr w')))) \<and>
    (\<forall>now. mg_index (gc_evict now (w_mgr w')) i = Some r)"
proof -
  have inv: "world_inv w" by (simp only: w reachable_inv)
  then have r: "r < objects (w_mgr w)" "si_id (info_of r (w_mgr w)) = i"
    using at(1) by (auto simp: world_inv_def index_ok_def)
  have "frame_ok (w_settled w) (w_mgr w) (w_threads w ! k)" using inv k(1) by (auto simp: world_inv_def threads_ok_def)
  then have t: "si_state (tr_info t) = SsRunning" by (simp add: k(2,3) transition_ok_def)
  have ck: "c \<noteq> k" using c(2) k(2) by auto
  define w1 where "w1 = fold (world_step cfg) [Section c e1, Section c e2, Section c e3, Section c e4] w"
  from collected [OF c at(1) r at(2,3) row(1-3) ev w1_def] obtain f where
    w1: "w_threads w1 = (w_threads w)[c := Returned Ok]" "mg_index (w_mgr w1) = mg_index (w_mgr w)"
      "objects (w_mgr w1) = objects (w_mgr w)" "worker_of r (w_mgr w1) = None"
      "si_wsid (info_of r (w_mgr w1)) = si_wsid (info_of r (w_mgr w))"
    and f: "sd_sessions (mg_db (w_mgr w1)) = sql_update (\<lambda>r. si_id r = i \<and> \<not> row_deleted r) f (sd_sessions (mg_db (w_mgr w)))"
      "\<And>x. si_id (f x) = si_id x" "\<And>x. si_state (f x) = SsTerminated" by blast
  have "w' = world_step cfg (Section k e5) w1" by (simp add: w' w1_def)
  moreover have "transition_commit e5 t None (w_mgr w1) = commit_transition t (w_mgr w1)"
    using k(4,6) w1(5) by (auto simp: transition_commit_def Let_def)
  ultimately have w'1: "w_mgr w' = fst (commit_transition t (w_mgr w1))"
    "w_threads w' = (w_threads w1)[k := Returned Ok]"
    using k(1,2,5) ck by (simp_all add: w1(1) run_section_def commit_frame case_prod_unfold)
  have rows: "si_state x = SsTerminated" if "x \<in> set (sd_sessions (mg_db (w_mgr w')))" "si_id x = i" for x
  proof -
    have "x \<in> (\<lambda>r. if si_id r = i \<and> \<not> row_deleted r then f r else r) ` set (sd_sessions (mg_db (w_mgr w)))"
      using that(1) by (simp add: w'1 commit_managed f(1) set_sql_update)
    then obtain y where y: "y \<in> set (sd_sessions (mg_db (w_mgr w)))" "x = (if si_id y = i \<and> \<not> row_deleted y then f y else y)"
      by blast
    then have "si_id y = i" using that(2) f(2) by (auto split: if_splits)
    then have "y = row" using only_row [OF row(4,1) y(1)] by simp
    then show ?thesis using y(2) \<open>si_id y = i\<close> row(2) f(3) by simp
  qed
  have at': "mg_index (w_mgr w') i = Some r" "worker_of r (w_mgr w') = None" "info_of r (w_mgr w') = tr_info t"
    using at(1) r(1) k(3,4) w1 by (simp_all add: w'1 commit_managed)
  have "cached_worker i (w_mgr w') = None" using at' by (simp add: cached_worker_def)
  then show ?thesis
    using at' t rows terminated_not_expired [of "mg_db (w_mgr w')" i] no_worker_no_zombie [of _ "w_mgr w'" i] k(1) c(1) ck
    by (simp add: w'1(2) w1(1) gc_evict_def evictable_def)
qed

text \<open>An input that has stored its candidate, and the collection of its session for its lifetime.\<close>

definition input_under_way :: "world_op list" where
  "input_under_way = alone 0 3 (CreateCall (chat_args ''s'')) @ alone 1 3 (AttachCheck ''s'' 7) @
     [Spawn (Lookup ''s'' (DoInput SsRunning)), Section 2 (the_env 2), Section 2 (the_env 2), Section 2 (the_env 2),
      Spawn (Lookup ''s'' (DoTransition SsTerminated ''max_lifetime''))]"

fun to_commit :: "frame \<Rightarrow> transition option" where
  "to_commit (TransCommit t None) = Some t"
| "to_commit f = None"

lemma to_commit_Some: "to_commit f = Some t \<Longrightarrow> f = TransCommit t None"
  by (induction f rule: to_commit.induct) simp_all

fun called :: "frame \<Rightarrow> (session_id \<times> session_state \<times> string) option" where
  "called (Lookup i (DoTransition s reason)) = Some (i, s, reason)"
| "called f = None"

lemma called_Some: "called f = Some (i, s, reason) \<Longrightarrow> f = Lookup i (DoTransition s reason)"
  by (induction f rule: called.induct) simp_all

theorem input_revives_collected_session_witness:
  "worker_of 0 (w_mgr (fold (world_step a_config) [Section 3 (the_env 2), Section 3 (the_env 2), Section 3 (the_env 2),
     Section 3 (the_env 2), Section 2 (the_env 2)] (run_world input_under_way))) = None \<and>
   worker_of 0 (w_mgr (run_world input_under_way)) = Some 7"
proof -
  let ?w = "run_world input_under_way"
  have "to_commit (w_threads ?w ! 2) \<noteq> None" by code_simp
  then obtain t where t0: "to_commit (w_threads ?w ! 2) = Some t" by blast
  then have t: "w_threads ?w ! 2 = TransCommit t None" by (rule to_commit_Some)
  have "(case to_commit (w_threads ?w ! 2) of Some t \<Rightarrow> tr_to t = SsRunning \<and> tr_ref t = 0 \<and> \<not> tr_max t | None \<Rightarrow> False)"
    by code_simp
  then have tf: "tr_to t = SsRunning" "tr_ref t = 0" "\<not> tr_max t" by (simp_all add: t0)
  have n: "length (w_threads ?w) = 4" by code_simp
  have "called (w_threads ?w ! 3) = Some (''s'', SsTerminated, ''max_lifetime'')" by code_simp
  then have c: "w_threads ?w ! 3 = Lookup ''s'' (DoTransition SsTerminated ''max_lifetime'')" by (rule called_Some)
  have f: "mg_index (w_mgr ?w) ''s'' = Some 0" "\<not> ms_deleting (managed_at 0 (w_mgr ?w))"
    "is_valid_transition (si_state (info_of 0 (w_mgr ?w))) SsTerminated"
    by code_simp+
  have g: "\<not> pending_cleanup ''s'' (mg_db (w_mgr ?w))" "distinct (map si_id (sd_sessions (mg_db (w_mgr ?w))))"
    "si_wsid (info_of 0 (w_mgr ?w)) = []" "\<not> ev_fail (the_env 2)"
    by code_simp+
  have "(case find_session ''s'' (mg_db (w_mgr ?w)) of None \<Rightarrow> False | Some row \<Rightarrow> \<not> row_deleted row)" by code_simp
  then obtain row where row: "find_session ''s'' (mg_db (w_mgr ?w)) = Some row" "\<not> row_deleted row"
    by (auto split: option.splits)
  have o: "worker_of 0 (w_mgr ?w) = Some 7" by code_simp
  show ?thesis
    using input_revives_collected_session [OF _ _ t tf _ _ c f row g(1,2,4) refl, of a_config input_under_way 9 9 0 9 empty_sess_db]
      g(3) n o by (simp add: start_world_def del: fold_simps)
qed

lemma gc_zombies_panics:
  "snd (gc_zombies cfg last_io now ids m) \<longleftrightarrow> (\<exists>i \<in> set ids. mg_index m i = None)"
proof -
  have "length (running_workers ids m) \<le> length ids \<and>
      (length (running_workers ids m) < length ids \<longleftrightarrow> (\<exists>i \<in> set ids. mg_index m i = None))"
    unfolding running_workers_def by (induction ids) (auto split: option.splits)
  then show ?thesis by (simp add: gc_zombies_def)
qed

text \<open>
  C24. The collector can panic.  Let one goroutine of any reachable state be about to commit the
  deletion of a cached session and another one a stored transition of it to running.  Both succeed,
  and the session's id is left in the running index without being cached.  Every zombie scan over
  running ids with that one among them reads past the end of its list of workers.
\<close>

theorem collector_panics_after_deletion:
  assumes w: "w = fold (world_step cfg) ops (new_world (new_manager l u mem ws db0))"
    and d: "d < length (w_threads w)" "w_threads w ! d = DeleteCommit i r cand run" "mg_index (w_mgr w) i = Some r"
    and k: "k < length (w_threads w)" "w_threads w ! k = TransCommit t None" "tr_ref t = r" "tr_to t = SsRunning" "\<not> tr_max t"
      "si_wsid (tr_info t) \<noteq> [] \<or> si_wsid cand = []"
    and w': "w' = fold (world_step cfg) [Section d e1, Section k e2] w"
  shows "w_threads w' ! d = Returned Ok \<and> w_threads w' ! k = Returned Ok \<and>
    mg_running (w_mgr w') i \<and> mg_index (w_mgr w') i = None \<and>
    (\<forall>last_io now ids. i \<in> set ids \<longrightarrow> snd (gc_zombies cfg last_io now ids (w_mgr w')))"
proof -
  have inv: "world_inv w" by (simp only: w reachable_inv)
  then have r: "r < objects (w_mgr w)" "si_id (info_of r (w_mgr w)) = i"
    using d(3) by (auto simp: world_inv_def index_ok_def)
  have "frame_ok (w_settled w) (w_mgr w) (w_threads w ! k)" using inv k(1) by (auto simp: world_inv_def threads_ok_def)
  then have t: "si_id (tr_info t) = i" using r(2) by (simp add: k(2,3) transition_ok_def)
  have dk: "d \<noteq> k" using d(2) k(2) by auto
  define m1 where "m1 = fst (delete_commit i r cand run (w_mgr w))"
  have s1: "delete_commit i r cand run (w_mgr w) = (m1, Returned Ok)" by (simp add: m1_def delete_commit_def)
  have m1: "mg_index m1 i = None" "info_of r m1 = cand"
    using d(3) r(1) by (simp_all add: m1_def delete_commit_def Let_def)
  have s2: "transition_commit e2 t None m1 = commit_transition t m1"
    using k(3,6) m1(2) by (auto simp: transition_commit_def Let_def)
  have w'1: "w_mgr w' = fst (commit_transition t m1)" "w_threads w' = (w_threads w)[d := Returned Ok, k := Returned Ok]"
    using d k(1,2,5) dk unfolding w' by (simp_all add: run_section_def s1 s2 commit_frame case_prod_unfold)
  have "mg_running (w_mgr w') i"
    using k(4) t by (simp add: w'1 commit_transition_def Let_def update_running_index_for_transition_def add_to_running_index_def)
  moreover have "mg_index (w_mgr w') i = None" by (simp add: w'1 commit_managed m1(1))
  ultimately show ?thesis using d(1) k(1) dk by (auto simp: w'1(2) gc_zombies_panics)
qed

text \<open>The transition to running stores its row; the deletion stores after it and is ready to commit.\<close>

definition deletion_under_way :: "world_op list" where
  "deletion_under_way = alone 0 3 (CreateCall (chat_args ''s'')) @ [Spawn (Lookup ''s'' (DoTransition SsRunning [])),
     Section 1 (the_env 2), Section 1 (the_env 2), Spawn (DeleteCall ''s''), Section 2 (the_env 2), Section 1 (the_env 2),
     Section 2 (the_env 2)]"

fun to_delete :: "frame \<Rightarrow> (session_id \<times> mref \<times> session_row \<times> bool) option" where
  "to_delete (DeleteCommit i r cand run) = Some (i, r, cand, run)"
| "to_delete f = None"

lemma to_delete_Some: "to_delete f = Some (i, r, cand, run) \<Longrightarrow> f = DeleteCommit i r cand run"
  by (cases f) simp_all

theorem collector_panics_after_deletion_witness:
  "snd (gc_zombies a_config (\<lambda>_. 0) 9 [''s''] (w_mgr (fold (world_step a_config)
     [Section 2 (the_env 2), Section 1 (the_env 2)] (run_world deletion_under_way))))"
proof -
  let ?w = "run_world deletion_under_way"
  have "to_commit (w_threads ?w ! 1) \<noteq> None" by code_simp
  then obtain t where t0: "to_commit (w_threads ?w ! 1) = Some t" by blast
  then have t: "w_threads ?w ! 1 = TransCommit t None" by (rule to_commit_Some)
  have "(case to_commit (w_threads ?w ! 1) of Some t \<Rightarrow> tr_to t = SsRunning \<and> tr_ref t = 0 \<and> \<not> tr_max t | None \<Rightarrow> False)"
    by code_simp
  then have tf: "tr_ref t = 0" "tr_to t = SsRunning" "\<not> tr_max t" unfolding t0 by simp_all
  have "(case to_delete (w_threads ?w ! 2) of Some (i, r, cand, run) \<Rightarrow> i = ''s'' \<and> r = 0 \<and> si_wsid cand = [] | None \<Rightarrow> False)"
    by code_simp
  then obtain cand run where d0: "to_delete (w_threads ?w ! 2) = Some (''s'', 0, cand, run)" "si_wsid cand = []"
    by (cases "to_delete (w_threads ?w ! 2)") auto
  note d = to_delete_Some [OF d0(1)] d0(2)
  have f: "length (w_threads ?w) = 3" "mg_index (w_mgr ?w) ''s'' = Some 0" by code_simp+
  show ?thesis
    using collector_panics_after_deletion [OF _ _ d(1) f(2) _ t tf _ refl, of a_config deletion_under_way 9 9 0 9 empty_sess_db]
      f(1) d(2) by (simp add: start_world_def del: fold_simps)
qed

section \<open>The working directory\<close>

lemma find_first: "find P t = Some r \<Longrightarrow> find P (t @ u) = Some r"
  by (induction t) auto

text \<open>The answer of a call that has returned.\<close>

fun answer_of :: "frame \<Rightarrow> answer option" where
  "answer_of (Returned a) = Some a"
| "answer_of f = None"

lemma answer_of_Some: "answer_of f = Some a \<Longrightarrow> f = Returned a"
  by (cases f) simp_all

lemma upsert_keeps_work_dir:
  assumes "upsert info db = (db', None)" "find_session i db = Some row"
  shows "\<exists>row'. find_session i db' = Some row' \<and> si_work_dir row' = si_work_dir row"
proof (cases "find_session (si_id info) db")
  case None
  then have "db' = db\<lparr>sd_sessions := sd_sessions db @ [inserted_row info]\<rparr>"
    using assms(1) by (simp add: upsert_def split: if_splits)
  then show ?thesis
    using assms(2) by (auto simp: find_session_def sql_row_def find_first)
next
  case (Some old)
  let ?P = "\<lambda>r. si_id r = si_id info \<and> \<not> row_deleted r"
  have "db' = db\<lparr>sd_sessions := sql_update ?P (updated_row info) (sd_sessions db)\<rparr>"
    using assms(1) by (auto simp: upsert_def Some update_sessions_def split: if_splits nat.splits)
  moreover have "sql_row (\<lambda>r. si_id r = i) (sql_update ?P (updated_row info) (sd_sessions db)) =
      map_option (\<lambda>r. if ?P r then updated_row info r else r) (sql_row (\<lambda>r. si_id r = i) (sd_sessions db))"
    by (rule sql_row_update) (simp add: updated_row_def)
  ultimately show ?thesis
    using assms(2) by (auto simp: find_session_def updated_row_def)
qed

text \<open>
  A changed working directory is never stored.  When \<open>UpdateWorkDir\<close> answers without an
  error the cached session has the new directory and the session's row still has the old one: the
  upsert does not assign the column of an existing row.  The next manager over the database, or
  this one once the session was evicted, works in the old directory.
\<close>

theorem work_dir_change_not_stored:
  assumes "k < length (w_threads w)" "w_threads w ! k = WorkDirCall i d"
    and "mg_index (w_mgr w) i = Some r" "r < objects (w_mgr w)"
    and "si_work_dir (info_of r (w_mgr w)) \<noteq> d" "find_session i (mg_db (w_mgr w)) = Some row"
    and "w' = fold (world_step cfg) [Section k e1, Section k e2, Section k e3, Section k e4] w"
    and "w_threads w' ! k = Returned Ok"
  shows "si_work_dir (info_of r (w_mgr w')) = d \<and>
    (\<exists>row'. find_session i (mg_db (w_mgr w')) = Some row' \<and> si_work_dir row' = si_work_dir row)"
proof -
  let ?m = "w_mgr w"
  define info where "info = (edit_work_dir d (ev_now e3) (info_of r ?m))\<lparr>si_updated := ev_now e3\<rparr>"
  define m1 where "m1 = set_managed r (\<lambda>ms. ms\<lparr>ms_info := info\<rparr>) ?m"
  have s: "mutate e3 r (edit_work_dir d) undo_work_dir ?m = (m1, MutateStore r info (undo_work_dir (info_of r ?m)))"
    by (simp add: mutate_def Let_def info_def m1_def)
  have w': "w_mgr w' = fst (mutate_store e4 r info (undo_work_dir (info_of r ?m)) m1)"
    "w_threads w' ! k = snd (mutate_store e4 r info (undo_work_dir (info_of r ?m)) m1)"
    using assms(1-5) by (simp_all add: assms(7) run_section_def work_dir_call_def work_dir_check_def s split: prod.splits)
  then obtain db where "upsert info (mg_db m1) = (db, None)" "w_mgr w' = m1\<lparr>mg_db := db\<rparr>"
    using assms(8) by (auto simp: mutate_store_def store_call_def split: prod.splits option.splits if_splits)
  moreover have "si_work_dir (info_of r m1) = d" "mg_db m1 = mg_db ?m"
    using assms(4) by (simp_all add: m1_def info_def edit_work_dir_def)
  ultimately show ?thesis using upsert_keeps_work_dir [OF _ assms(6)] by simp
qed

theorem work_dir_change_not_stored_witness:
  "si_work_dir (info_of 0 (w_mgr (fold (world_step a_config)
     [Section 4 (the_env 2), Section 4 (the_env 2), Section 4 (the_env 2), Section 4 (the_env 2)]
     (run_world (two_attached @ [Spawn (WorkDirCall ''s'' ''/b'')]))))) = ''/b''"
proof -
  let ?w = "run_world (two_attached @ [Spawn (WorkDirCall ''s'' ''/b'')])"
  let ?w' = "fold (world_step a_config) [Section 4 (the_env 2), Section 4 (the_env 2), Section 4 (the_env 2), Section 4 (the_env 2)] ?w"
  have n: "length (w_threads (run_world two_attached)) = 4" by code_simp
  have f: "mg_index (w_mgr ?w) ''s'' = Some 0" "0 < objects (w_mgr ?w)" "si_work_dir (info_of 0 (w_mgr ?w)) \<noteq> ''/b''"
    by code_simp+
  have "find_session ''s'' (mg_db (w_mgr ?w)) \<noteq> None" "answer_of (w_threads ?w' ! 4) = Some Ok" by code_simp+
  then obtain row where "find_session ''s'' (mg_db (w_mgr ?w)) = Some row" "w_threads ?w' ! 4 = Returned Ok"
    by (auto dest: answer_of_Some)
  then show ?thesis
    by (intro conjunct1 [OF work_dir_change_not_stored [OF _ _ f _ refl]]) (simp_all add: n nth_append)
qed

end
