(* ===== verification/ManagerTickets.thy ===== *)
theory ManagerTickets
  imports ManagerProps
begin

text \<open>
  The session manager as a client of the quota pool: the counters are the workers that are attached
  or about to be, less one for every quota that is returned twice; and an interleaving that does so.
\<close>

section \<open>The pool counts the workers\<close>

text \<open>
  What the manager holds of the pool: a ticket for every attached worker whose quota has not been
  given back, and one for every goroutine that has acquired and not yet pinned or returned.
\<close>

definition ticket_at :: "mref list \<Rightarrow> manager \<Rightarrow> mref \<Rightarrow> ticket multiset" where
  "ticket_at S m r =
     (if worker_of r m \<noteq> None \<and> r \<notin> set S then {#(si_user (info_of r m), ms_attached (managed_at r m))#} else {#})"

fun ticket_of :: "frame \<Rightarrow> ticket multiset" where
  "ticket_of (AttachPin i w u ws) = {#(u, ws)#}"
| "ticket_of (AttachGiveBack u ws e) = {#(u, ws)#}"
| "ticket_of (DetachRelease u ws) = {#(u, ws)#}"
| "ticket_of _ = {#}"

definition held :: "mref list \<Rightarrow> manager \<Rightarrow> ticket multiset" where
  "held S m = (\<Sum>r < objects m. ticket_at S m r)"

definition in_flight_tickets :: "frame list \<Rightarrow> ticket multiset" where
  "in_flight_tickets T = (\<Sum>f \<leftarrow> T. ticket_of f)"

definition tickets :: "world \<Rightarrow> ticket multiset" where
  "tickets w = held (w_settled w) (w_mgr w) + in_flight_tickets (w_threads w)"

lemma in_flight_update:
  "k < length T \<Longrightarrow> in_flight_tickets (T[k := f]) + ticket_of (T ! k) = in_flight_tickets T + ticket_of f"
  unfolding in_flight_tickets_def
  by (induction T arbitrary: k) (auto simp: ac_simps split: nat.splits)

lemma held_same:
  assumes "objects m \<le> objects m'" "\<And>r. r < objects m \<Longrightarrow> ticket_at S' m' r = ticket_at S m r"
    and "\<And>r. objects m \<le> r \<Longrightarrow> r < objects m' \<Longrightarrow> worker_of r m' = None"
  shows "held S' m' = held S m"
proof -
  have "held S' m' = (\<Sum>r < objects m. ticket_at S' m' r)"
    unfolding held_def using assms(1,3) by (intro sum.mono_neutral_right) (auto simp: ticket_at_def)
  also have "\<dots> = held S m" unfolding held_def using assms(2) by (intro sum.cong) simp_all
  finally show ?thesis .
qed

lemma held_at:
  assumes "objects m' = objects m" "r < objects m" "\<And>r'. r' < objects m \<Longrightarrow> r' \<noteq> r \<Longrightarrow> ticket_at S' m' r' = ticket_at S m r'"
  shows "held S' m' + ticket_at S m r = held S m + ticket_at S' m' r"
proof -
  have "held S m = ticket_at S m r + (\<Sum>r' \<in> {..<objects m} - {r}. ticket_at S m r')"
    unfolding held_def using assms(2) by (intro sum.remove) simp_all
  moreover have "held S' m' = ticket_at S' m' r + (\<Sum>r' \<in> {..<objects m} - {r}. ticket_at S' m' r')"
    unfolding held_def assms(1) using assms(2) by (intro sum.remove) simp_all
  moreover have "(\<Sum>r' \<in> {..<objects m} - {r}. ticket_at S' m' r') = (\<Sum>r' \<in> {..<objects m} - {r}. ticket_at S m r')"
    using assms(3) by (intro sum.cong) simp_all
  ultimately show ?thesis by (simp add: ac_simps)
qed

text \<open>Sections that leave workers and pool alone.\<close>

fun quiet :: "frame \<Rightarrow> bool" where
  "quiet (Locked i r (DoInput to')) = False"
| "quiet (Locked i r (DoDetach e)) = False"
| "quiet (TransCommit t e) = False"
| "quiet (TransGuarded t e) = False"
| "quiet (AttachAcquire i w u ws) = False"
| "quiet (AttachPin i w u ws) = False"
| "quiet (AttachGiveBack u ws e) = False"
| "quiet (DetachRelease u ws) = False"
| "quiet (DeleteCommit i r cand run) = False"
| "quiet (PhysicalCall i) = False"
| "quiet f = True"

definition keeps_workers :: "manager \<Rightarrow> manager \<Rightarrow> bool" where
  "keeps_workers m m' \<longleftrightarrow> mg_pool m' = mg_pool m \<and>
     (\<forall>r < objects m. worker_of r m' = worker_of r m \<and> ms_attached (managed_at r m') = ms_attached (managed_at r m))"

definition quiet_step :: "manager \<Rightarrow> manager \<times> frame \<Rightarrow> bool" where
  "quiet_step m res \<longleftrightarrow> keeps_workers m (fst res) \<and> ticket_of (snd res) = {#}"

lemma quiet_store_call: "store_call ev g m = (m', e) \<Longrightarrow> keeps_workers m m'"
  by (simp add: keeps_workers_def store_call_frame)

lemma quiet_create:
  "quiet_step m (create_call cfg ev a m)" "quiet_step m (create_store ev i' m)"
  "quiet_step m (create_install i' m)"
  "quiet_step m (get_call i m)" "quiet_step m (get_load ev i m)" "quiet_step m (get_install i row m)"
  by (auto simp: create_call_def create_store_def create_install_def get_call_def get_load_def
      get_install_def quiet_step_def keeps_workers_def store_call_frame split: option.splits sum.splits prod.splits)

lemma quiet_lookup:
  "quiet_step m (lookup_managed i op m)" "quiet_step m (load_managed ev i op m)"
  "quiet_step m (install_managed i row op m)" "quiet_step m (record_call cfg i t lc m)"
  by (auto simp: lookup_managed_def load_managed_def install_managed_def record_call_def Let_def
      quiet_step_def keeps_workers_def split: option.splits sum.splits)

lemma quiet_locked:
  "quiet (Locked i r op) \<Longrightarrow> quiet_step m (locked_section cfg ev i r op m)"
proof (cases op)
  case (DoRecordInput accepted l)
  have "quiet_step m (m', f)" if "do_record_input ev i r accepted l m = (m', f)" for m' f
    using that by (cases rule: do_record_cases) (auto simp: quiet_step_def keeps_workers_def)
  then show ?thesis
    by (cases "do_record_input ev i r accepted l m") (simp add: DoRecordInput locked_section_def)
qed (auto simp: locked_section_def do_transition_def transition_state_def do_clear_context_def
      do_worker_session_def Let_def quiet_step_def keeps_workers_def)

lemma quiet_trans: "quiet_step m (transition_store ev t m)" "quiet_step m (transition_guard ev t m)"
  by (simp_all add: transition_store_def transition_guard_def quiet_step_def keeps_workers_def
      store_call_frame split: prod.splits)

lemma quiet_attach: "quiet_step m (attach_check i w m)"
  by (auto simp: attach_check_def quiet_step_def keeps_workers_def Let_def split: option.splits)

lemma quiet_update:
  "quiet_step m (bind_workspace i ws m)" "quiet_step m (work_dir_call i d m)"
  "quiet_step m (work_dir_check r d m)" "quiet_step m (reset_expiry_call cfg i m)"
  "quiet_step m (mutate ev r edit undo m)" "quiet_step m (mutate_store ev r info undo' m)"
  "quiet_step m (mutate_back r undo' e m)"
  "quiet_step m (worker_session_set i r w' m)" "quiet_step m (worker_session_store ev i r w' prev m)"
  "quiet_step m (worker_session_back r prev e m)"
  by (auto simp: bind_workspace_def work_dir_call_def work_dir_check_def reset_expiry_call_def mutate_def
      mutate_store_def mutate_back_def worker_session_set_def worker_session_store_def store_call_frame
      worker_session_back_def Let_def quiet_step_def keeps_workers_def split: option.splits prod.splits)

lemma quiet_delete:
  "quiet_step m (delete_call ev i m)" "quiet_step m (delete_load ev i r m)"
  "quiet_step m (delete_abort i r e m)" "quiet_step m (delete_store ev i r cand orig run m)"
  "quiet_step m (delete_restore i r orig e m)"
  by (auto simp: delete_call_def delete_load_def delete_abort_def delete_store_def delete_restore_def
      Let_def quiet_step_def keeps_workers_def store_call_frame split: option.splits prod.splits sum.splits)

lemma quiet_retire:
  "quiet_step m (physical_store ev i r m)" "quiet_step m (physical_unmark i r e' m)"
  "quiet_step m (retire_call i m)" "quiet_step m (retire_store ev i r cached m)"
  "quiet_step m (retire_undo i r cached e' m)" "quiet_step m (retire_commit ev i r m)"
  by (auto simp: physical_store_def physical_unmark_def retire_call_def store_call_frame
      retire_store_def retire_undo_def retire_commit_def Let_def quiet_step_def keeps_workers_def
      split: option.splits prod.splits sum.splits)

lemma quiet_section:
  assumes "quiet f"
  shows "quiet_step m (section_step cfg ev f m) \<and> ticket_of f = {#} \<and> settles f m = []"
  using assms
  by (cases f) (simp_all add: quiet_create quiet_lookup quiet_locked quiet_trans quiet_attach quiet_update
      quiet_delete quiet_retire, simp add: quiet_step_def keeps_workers_def)

lemma cold_worker: "frame_ok S m f \<Longrightarrow> owner f = Some r \<Longrightarrow> cold m f \<Longrightarrow> worker_of r m = None"
  by (cases f) auto

lemma quiet_held:
  assumes "index_ok m" "frame_ok S m f" "section_step cfg ev f m = (m', f')" "quiet f"
  shows "held S m' = held S m \<and> mg_pool m' = mg_pool m \<and> ticket_of f' = {#} \<and> ticket_of f = {#} \<and> settles f m = []"
proof -
  have q: "keeps_workers m m'" "ticket_of f' = {#}" "ticket_of f = {#}" "settles f m = []"
    using quiet_section [OF assms(4), of m cfg ev] by (simp_all add: assms(3) quiet_step_def)
  have ok: "section_ok S f m S f' m'"
    using section_step_ok [OF assms(1-3)] by (simp add: q(4))
  have "ticket_at S m' r = ticket_at S m r" if r: "r < objects m" for r
  proof (cases "worker_of r m = None")
    case False
    have "si_user (info_of r m') = si_user (info_of r m)"
    proof (rule ccontr)
      assume "si_user (info_of r m') \<noteq> si_user (info_of r m)"
      then have "owner f = Some r \<and> cold m f" by (rule user_changes_only_cold [OF assms(1-3) r])
      then show False using cold_worker [OF assms(2)] False by simp
    qed
    then show ?thesis using q(1) r by (simp add: ticket_at_def keeps_workers_def)
  qed (use q(1) r in \<open>simp add: ticket_at_def keeps_workers_def\<close>)
  moreover have "objects m \<le> objects m'" "objects m \<le> r \<Longrightarrow> r < objects m' \<Longrightarrow> worker_of r m' = None" for r
    using ok by (simp_all add: section_ok_def evolves_def)
  ultimately have "held S m' = held S m" by (intro held_same)
  then show ?thesis using q by (simp add: keeps_workers_def)
qed

definition changes_only :: "mref \<Rightarrow> manager \<Rightarrow> manager \<Rightarrow> bool" where
  "changes_only r m m' \<longleftrightarrow> r < objects m \<and> objects m' = objects m \<and>
     (\<forall>r'. r' \<noteq> r \<longrightarrow> managed_at r' m' = managed_at r' m)"

abbreviation ticket_for :: "mref \<Rightarrow> manager \<Rightarrow> ticket" where
  "ticket_for r m \<equiv> (si_user (info_of r m), ms_attached (managed_at r m))"

lemma held_dropped:
  assumes "changes_only r m m'" "worker_of r m \<noteq> None" "r \<notin> set S"
    and "worker_of r m' = None \<and> S' = S \<or> S' = r # S"
  shows "held S m = add_mset (ticket_for r m) (held S' m')"
proof -
  have "held S' m' + ticket_at S m r = held S m + ticket_at S' m' r"
    using assms by (intro held_at) (auto simp: changes_only_def ticket_at_def)
  then show ?thesis using assms(2-4) by (auto simp: ticket_at_def)
qed

lemma held_unchanged:
  assumes "changes_only r m m'" "worker_of r m' = worker_of r m"
    and "worker_of r m \<noteq> None \<Longrightarrow> ticket_for r m' = ticket_for r m"
  shows "held S m' = held S m"
proof (rule held_same)
  show "ticket_at S m' r' = ticket_at S m r'" for r'
    using assms by (cases "r' = r") (auto simp: changes_only_def ticket_at_def)
qed (use assms(1) in \<open>simp_all add: changes_only_def\<close>)

lemma held_taken:
  assumes "changes_only r m m'" "worker_of r m = None" "worker_of r m' \<noteq> None" "r \<notin> set S"
  shows "held S m' = add_mset (ticket_for r m') (held S m)"
proof -
  have "held S m' + ticket_at S m r = held S m + ticket_at S m' r"
    using assms by (intro held_at) (auto simp: changes_only_def ticket_at_def)
  then show ?thesis using assms(2-4) by (simp add: ticket_at_def)
qed

text \<open>What a section does to the tickets and the pool is what one of its clients may do.\<close>

definition pays :: "ticket multiset \<Rightarrow> pool \<Rightarrow> ticket multiset \<Rightarrow> pool \<Rightarrow> bool" where
  "pays T p T' p' \<longleftrightarrow> T' = T \<and> p' = p \<or>
     (\<exists>u ws. (\<exists>e. acquire_for_workspace u ws p = (p', e) \<and> T' = (if e = None then add_mset (u, ws) T else T)) \<or>
             T = add_mset (u, ws) T' \<and> p' = release_for_workspace u ws p)"

lemma pays_client:
  assumes "pays T p T' p'"
  shows "\<exists>ops. fold client_step ops (T + X, p) = (T' + X, p')"
proof -
  consider (same) "T' = T" "p' = p"
    | (take) u ws e where "acquire_for_workspace u ws p = (p', e)" "T' = (if e = None then add_mset (u, ws) T else T)"
    | (give) u ws where "T = add_mset (u, ws) T'" "p' = release_for_workspace u ws p"
    using assms by (auto simp: pays_def)
  then show ?thesis
  proof cases
    case same
    then show ?thesis by (intro exI [of _ "[]"]) simp
  next
    case take
    then show ?thesis by (intro exI [of _ "[Take (u, ws)]"]) (auto split: option.split)
  next
    case give
    then show ?thesis by (intro exI [of _ "[Return (u, ws)]"]) simp
  qed
qed

lemma pays_same: "pays T p T p"
  by (simp add: pays_def)

lemma pays_give: "pays (add_mset (u, ws) T) p T (release_for_workspace u ws p)"
  by (simp add: pays_def)

text \<open>A section that ends a session in memory gives the ticket of its worker back.\<close>

lemma pays_worker_gone:
  assumes c: "changes_only r m m'" and w: "worker_of r m' = None" "worker_of r m \<noteq> None \<Longrightarrow> r \<notin> set S"
    and p: "mg_pool m' = (if worker_of r m \<noteq> None
              then release_for_workspace (fst (ticket_for r m)) (snd (ticket_for r m)) (mg_pool m) else mg_pool m)"
  shows "pays (held S m) (mg_pool m) (held S m') (mg_pool m')"
proof (cases "worker_of r m = None")
  case True
  then have "held S m' = held S m" using held_unchanged [OF c, of S] w by simp
  with True p show ?thesis by (simp add: pays_same)
next
  case False
  then show ?thesis
    using held_dropped [OF c False w(2) [OF False], of S] w(1) p pays_give by simp
qed

lemma force_terminate_pool:
  "mg_pool (force_terminate_in_memory now r from m) =
     (if worker_of r m \<noteq> None
      then release_for_workspace (si_user (info_of r m)) (ms_attached (managed_at r m)) (mg_pool m) else mg_pool m)"
  by (simp add: force_terminate_in_memory_def release_worker_quota_def Let_def)

lemma commit_pool:
  "tr_ref t < objects m \<Longrightarrow> mg_pool (fst (commit_transition t m)) =
     (if tr_to t \<in> {SsTerminated, SsDeleted} \<and> worker_of (tr_ref t) m \<noteq> None
      then release_for_workspace (si_user (tr_info t)) (ms_attached (managed_at (tr_ref t) m)) (mg_pool m)
      else mg_pool m)"
  by (simp add: commit_transition_def release_worker_quota_def Let_def)

lemma turn_counted:
  assumes "r < objects m" "m1 = set_managed r (\<lambda>ms. ms\<lparr>ms_turns := ms_turns ms + 1\<rparr>) m"
  shows "changes_only r m m1" "mg_pool m1 = mg_pool m"
    "worker_of r m1 = worker_of r m" "ticket_for r m1 = ticket_for r m" "objects m1 = objects m"
  using assms by (simp_all add: changes_only_def)

lemma force_terminate_pays:
  assumes "r < objects m" "r \<in> set S \<Longrightarrow> worker_of r m = None"
  shows "pays (held S m) (mg_pool m) (held S (force_terminate_in_memory now r from m))
           (mg_pool (force_terminate_in_memory now r from m))"
  by (rule pays_worker_gone [where r = r])
    (use assms in \<open>auto simp: changes_only_def force_terminate_managed force_terminate_pool\<close>)

lemma do_input_pays:
  assumes r: "r < objects m" and step: "do_input cfg ev r to' m = (m', f')"
    and kept: "r \<in> set S \<Longrightarrow> worker_of r m' \<noteq> None"
  shows "pays (held S m) (mg_pool m) (held S m' + ticket_of f') (mg_pool m')"
proof -
  define m1 where "m1 = set_managed r (\<lambda>ms. ms\<lparr>ms_turns := ms_turns ms + 1\<rparr>) m"
  note t = turn_counted [OF r m1_def]
  have h: "held S m1 = held S m" by (rule held_unchanged [OF t(1)]) (simp_all add: t)
  let ?from = "si_state (info_of r m)"
  consider a where "m' = m" "f' = Returned a" | "m' = m1" "ticket_of f' = {#}"
    | "m' = force_terminate_in_memory (ev_now ev) r ?from m1" "f' = Returned (Err SeMaxTurns)"
    using step by (auto simp: do_input_def Let_def m1_def transition_state_def split: if_splits)
  then show ?thesis
  proof cases
    case 3
    have "pays (held S m1) (mg_pool m1) (held S m') (mg_pool m')"
      unfolding 3(1) by (rule force_terminate_pays) (use kept r 3(1) in \<open>auto simp: t force_terminate_managed\<close>)
    then show ?thesis by (simp add: t h 3(2))
  qed (simp_all add: pays_same t h)
qed

lemma do_detach_pays:
  assumes r: "r < objects m" and step: "do_detach r expected m = (m', f')"
    and kept: "r \<in> set S \<Longrightarrow> worker_of r m' \<noteq> None"
  shows "pays (held S m) (mg_pool m) (held S m' + ticket_of f') (mg_pool m')"
proof (cases "expected \<noteq> None \<and> worker_of r m \<noteq> expected")
  case True
  then show ?thesis using step by (auto simp: do_detach_def pays_same Let_def)
next
  case False
  then have m': "m' = set_managed r (\<lambda>ms. ms\<lparr>ms_worker := None\<rparr>) m"
    "f' = (if worker_of r m \<noteq> None then DetachRelease (si_user (info_of r m)) (ms_attached (managed_at r m)) else Returned Ok)"
    using step by (auto simp: do_detach_def Let_def)
  have c: "changes_only r m m'" "mg_pool m' = mg_pool m" "worker_of r m' = None"
    using r by (simp_all add: m' changes_only_def)
  show ?thesis
  proof (cases "worker_of r m = None")
    case True
    then show ?thesis using held_unchanged [OF c(1), of S] c by (simp add: m'(2) pays_same)
  next
    case False
    have "r \<notin> set S" using kept c(3) by blast
    then have "held S m = add_mset (ticket_for r m) (held S m')"
      by (intro held_dropped [OF c(1) False]) (simp_all add: c(3))
    then have "held S m' + ticket_of f' = held S m" using False by (simp add: m'(2))
    then show ?thesis by (simp add: c(2) pays_same)
  qed
qed

lemma commit_pays:
  assumes ok: "transition_ok m t" and step: "commit_transition t m = (m', f')"
    and kept: "tr_ref t \<in> set S \<Longrightarrow> worker_of (tr_ref t) m' \<noteq> None"
  shows "pays (held S m) (mg_pool m) (held S m' + ticket_of f') (mg_pool m')"
proof -
  let ?r = "tr_ref t"
  have r: "?r < objects m" and user: "si_user (tr_info t) = si_user (info_of ?r m)"
    using ok by (simp_all add: transition_ok_def)
  have f': "ticket_of f' = {#}" using commit_frame [of t m] by (simp add: step)
  have at: "\<And>r'. managed_at r' m' = (if ?r = r' \<and> r' < objects m
      then (managed_at r' m)\<lparr>ms_info := tr_info t,
              ms_worker := (if tr_to t \<in> {SsTerminated, SsDeleted} then None else worker_of r' m)\<rparr>
      else managed_at r' m)" "objects m' = objects m"
    using commit_managed(1) [of _ t m] commit_managed(2) [of t m] by (simp_all add: step)
  have c: "changes_only ?r m m'" using r by (simp add: changes_only_def at)
  have p: "mg_pool m' = (if tr_to t \<in> {SsTerminated, SsDeleted} \<and> worker_of ?r m \<noteq> None
      then release_for_workspace (si_user (tr_info t)) (ms_attached (managed_at ?r m)) (mg_pool m)
      else mg_pool m)"
    using commit_pool [OF r] by (simp add: step)
  have "pays (held S m) (mg_pool m) (held S m') (mg_pool m')"
  proof (cases "tr_to t \<in> {SsTerminated, SsDeleted}")
    case True
    then show ?thesis
      by (intro pays_worker_gone [OF c]) (use r kept user p in \<open>auto simp: at\<close>)
  next
    case False
    then have "held S m' = held S m" by (intro held_unchanged [OF c]) (use r user in \<open>auto simp: at\<close>)
    with False p show ?thesis by (simp add: pays_same)
  qed
  then show ?thesis by (simp add: f')
qed

lemma transition_commit_pays:
  assumes "transition_ok m t" "transition_commit ev t e m = (m', f')"
    and "tr_ref t \<in> set S \<Longrightarrow> worker_of (tr_ref t) m' \<noteq> None"
  shows "pays (held S m) (mg_pool m) (held S m' + ticket_of f') (mg_pool m')"
proof -
  have r: "tr_ref t < objects m" using assms(1) by (simp add: transition_ok_def)
  show ?thesis
  proof (cases e)
    case (Some x)
    show ?thesis
    proof (cases "tr_max t")
      case True
      have m': "m' = force_terminate_in_memory (ev_now ev) (tr_ref t) (tr_from t) m" "f' = Returned (Err SeMaxTurns)"
        using assms(2) by (simp_all add: transition_commit_def Some True)
      have "tr_ref t \<in> set S \<Longrightarrow> worker_of (tr_ref t) m = None"
        using assms(3) r by (simp add: m' force_terminate_managed)
      then show ?thesis using force_terminate_pays [OF r, of S] by (simp add: m')
    next
      case False
      then have "m' = m" "f' = Returned (Err x)" using assms(2) by (simp_all add: transition_commit_def Some)
      then show ?thesis by (simp add: pays_same)
    qed
  next
    case None
    show ?thesis
    proof (cases "si_wsid (tr_info t) = [] \<and> si_wsid (info_of (tr_ref t) m) \<noteq> []")
      case True
      then have "m' = m" "ticket_of f' = {#}" using assms(2) by (auto simp: transition_commit_def None Let_def)
      then show ?thesis by (simp add: pays_same)
    next
      case False
      have "commit_transition t m = (m', f')"
        using assms(2) unfolding transition_commit_def Let_def None option.case if_not_P [OF False] .
      then show ?thesis using commit_pays [OF assms(1) _ assms(3)] by simp
    qed
  qed
qed

lemma transition_guarded_pays:
  assumes "transition_ok m t" "transition_guarded t e m = (m', f')"
    and "tr_ref t \<in> set S \<Longrightarrow> worker_of (tr_ref t) m' \<noteq> None"
  shows "pays (held S m) (mg_pool m) (held S m' + ticket_of f') (mg_pool m')"
proof -
  define t' where "t' = t\<lparr>tr_info := (tr_info t)\<lparr>si_wsid :=
      if e \<noteq> None then [] else si_wsid (info_of (tr_ref t) m)\<rparr>\<rparr>"
  have "transition_ok m t'" "tr_ref t' = tr_ref t" using assms(1) by (simp_all add: t'_def transition_ok_def)
  moreover have "commit_transition t' m = (m', f')"
    using assms(2) by (simp only: transition_guarded_def Let_def t'_def)
  ultimately show ?thesis using commit_pays [of m t' m' f' S] assms(3) by simp
qed

lemma attach_pin_pays:
  assumes io: "index_ok m" and step: "attach_pin i w u ws m = (m', f')"
    and S: "\<And>r. r \<in> set S \<Longrightarrow> ms_deleting (managed_at r m)"
    and user: "\<And>r. mg_index m i = Some r \<Longrightarrow> \<not> ms_deleting (managed_at r m) \<Longrightarrow> si_user (info_of r m) = u"
  shows "pays (add_mset (u, ws) (held S m)) (mg_pool m) (held S m' + ticket_of f') (mg_pool m')"
proof -
  consider e where "m' = m" "f' = AttachGiveBack u ws e"
    | r where "mg_index m i = Some r" "\<not> ms_deleting (managed_at r m)" "worker_of r m = None" "f' = Returned Ok"
        "m' = set_managed r (\<lambda>ms. ms\<lparr>ms_worker := Some w, ms_attached := ws\<rparr>) m"
    using step by (auto simp: attach_pin_def Let_def split: option.splits if_splits)
  then show ?thesis
  proof cases
    case 2
    have r: "r < objects m" using io 2(1) by (auto simp: index_ok_def)
    have "held S m' = add_mset (ticket_for r m') (held S m)"
      by (rule held_taken) (use 2 r S [of r] in \<open>auto simp: changes_only_def\<close>)
    moreover have "ticket_for r m' = (u, ws)" "mg_pool m' = mg_pool m"
      using r user [OF 2(1,2)] by (simp_all add: 2(5))
    ultimately show ?thesis by (simp add: 2(4) pays_same)
  qed (simp add: pays_same)
qed

lemma attach_acquire_pays:
  assumes "attach_acquire i w u ws m = (m', f')"
  shows "pays (held S m) (mg_pool m) (held S m' + ticket_of f') (mg_pool m')"
proof (cases "acquire_for_workspace u ws (mg_pool m)")
  case (Pair p e)
  have "held S (m\<lparr>mg_pool := p\<rparr>) = held S m" by (intro held_same) (simp_all add: ticket_at_def)
  moreover have "pays (held S m) (mg_pool m) (if e = None then add_mset (u, ws) (held S m) else held S m) p"
    using Pair unfolding pays_def by blast
  ultimately show ?thesis
    using assms by (cases e) (auto simp: attach_acquire_def Pair)
qed

lemma give_back_pays:
  assumes "give_back u ws a m = (m', f')"
  shows "pays (add_mset (u, ws) (held S m)) (mg_pool m) (held S m' + ticket_of f') (mg_pool m')"
proof -
  have m': "m' = m\<lparr>mg_pool := release_for_workspace u ws (mg_pool m)\<rparr>" "f' = Returned a"
    using assms by (simp_all add: give_back_def)
  have "held S m' = held S m" by (intro held_same) (simp_all add: m' ticket_at_def)
  then show ?thesis by (simp add: m' pays_give)
qed

lemma delete_commit_pays:
  assumes ok: "frame_ok S m (DeleteCommit i r cand run)" and step: "delete_commit i r cand run m = (m', f')"
    and S: "r \<notin> set S"
  shows "pays (held S m) (mg_pool m) (held (settles (DeleteCommit i r cand run) m @ S) m' + ticket_of f') (mg_pool m')"
proof (cases "mg_index m i = Some r")
  case True
  have r: "r < objects m" using ok by (simp add: marked_def)
  have f': "ticket_of f' = {#}" using step by (auto simp: delete_commit_def)
  have m': "\<And>r'. managed_at r' m' = (if r' = r then (managed_at r m)\<lparr>ms_info := cand\<rparr> else managed_at r' m)"
    "objects m' = objects m"
    "mg_pool m' = (if worker_of r m \<noteq> None then release_for_workspace (si_user cand) (ms_attached (managed_at r m)) (mg_pool m)
       else mg_pool m)"
    using step True r by (auto simp: delete_commit_def Let_def release_worker_quota_def split: if_splits)
  have c: "changes_only r m m'" using r by (simp add: changes_only_def m')
  show ?thesis
  proof (cases "worker_of r m = None")
    case True
    have "held S m' = held S m" by (rule held_unchanged [OF c]) (simp_all add: m' True)
    then show ?thesis by (simp add: True f' m' pays_same)
  next
    case False
    then have s: "settles (DeleteCommit i r cand run) m @ S = r # S" using True by simp
    have "si_user cand = si_user (info_of r m)" using ok False by simp
    moreover have "held S m = add_mset (ticket_for r m) (held (r # S) m')"
      by (rule held_dropped [OF c False S]) simp
    ultimately show ?thesis using False unfolding s by (simp add: f' m' pays_give)
  qed
next
  case False
  then show ?thesis using step by (auto simp: delete_commit_def pays_same)
qed

lemma physical_call_pays:
  assumes io: "index_ok m" and step: "physical_call i m = (m', f')"
    and S: "\<And>r. r \<in> set S \<Longrightarrow> ms_deleting (managed_at r m)"
  shows "pays (held S m) (mg_pool m) (held (settles (PhysicalCall i) m @ S) m' + ticket_of f') (mg_pool m')"
proof (cases "mg_index m i")
  case None
  then have "held S m' = held S m" "mg_pool m' = mg_pool m" "ticket_of f' = {#}"
    using step by (auto simp: physical_call_def tombstone_managed_def fresh_managed_def ticket_at_def less_Suc_eq
        intro!: held_same)
  then show ?thesis by (simp add: None pays_same)
next
  case (Some r)
  show ?thesis
  proof (cases "ms_deleting (managed_at r m)")
    case True
    have "settles (PhysicalCall i) m = []" by (simp add: Some True)
    moreover have "m' = m" "ticket_of f' = {#}" using step True by (auto simp: physical_call_def Some)
    ultimately show ?thesis by (simp only: pays_same append_Nil add_0_right)
  next
    case False
    have r: "r < objects m" using io Some by (auto simp: index_ok_def)
    have f': "ticket_of f' = {#}" using step False by (auto simp: physical_call_def Some Let_def)
    have m': "\<And>r'. managed_at r' m' = (if r' = r then (managed_at r m)\<lparr>ms_deleting := True\<rparr> else managed_at r' m)"
      "objects m' = objects m"
      "mg_pool m' = (if worker_of r m \<noteq> None
         then release_for_workspace (si_user (info_of r m)) (ms_attached (managed_at r m)) (mg_pool m) else mg_pool m)"
      using step Some False r by (auto simp: physical_call_def Let_def release_worker_quota_def split: if_splits)
    have c: "changes_only r m m'" using r by (simp add: changes_only_def m')
    show ?thesis
    proof (cases "worker_of r m = None")
      case True
      have "held S m' = held S m" by (rule held_unchanged [OF c]) (simp_all add: m' True)
      then show ?thesis by (simp add: Some True f' m' pays_same)
    next
      case w: False
      have s: "settles (PhysicalCall i) m @ S = r # S" using Some False w by simp
      have "held S m = add_mset (ticket_for r m) (held (r # S) m')"
        by (rule held_dropped [OF c w]) (use S False in auto)
      then show ?thesis using w unfolding s by (simp add: f' m' pays_give)
    qed
  qed
qed

text \<open>The object a goroutine pins its worker to belongs to the user it has acquired the quota for.\<close>

fun pins_own_user :: "frame \<Rightarrow> manager \<Rightarrow> bool" where
  "pins_own_user (AttachPin i w u ws) m =
     (case mg_index m i of None \<Rightarrow> True | Some r \<Rightarrow> ms_deleting (managed_at r m) \<or> si_user (info_of r m) = u)"
| "pins_own_user _ m = True"

lemma section_pays:
  assumes io: "index_ok m" and fo: "frame_ok S m f" and step: "section_step cfg ev f m = (m', f')"
    and S: "\<And>r. r \<in> set S \<Longrightarrow> ms_deleting (managed_at r m) \<and> (owner f = Some r \<longrightarrow> physical_frame f)"
    and kept: "\<And>r. r \<in> set S \<Longrightarrow> worker_of r m' \<noteq> None" and pin: "pins_own_user f m"
  shows "pays (held S m + ticket_of f) (mg_pool m) (held (settles f m @ S) m' + ticket_of f') (mg_pool m')"
proof (cases "quiet f")
  case True
  have q: "held S m' = held S m" "mg_pool m' = mg_pool m" "ticket_of f' = {#}" "ticket_of f = {#}" "settles f m = []"
    using quiet_held [OF io fo step True] by simp_all
  show ?thesis unfolding q append_Nil by (rule pays_same)
next
  case False
  then show ?thesis
  proof (cases f)
    case (Locked i r op)
    have r: "r < objects m" using fo by (simp add: Locked)
    have "pays (held S m) (mg_pool m) (held S m' + ticket_of f') (mg_pool m')"
      using False step do_input_pays [OF r _ kept] do_detach_pays [OF r _ kept]
      by (cases op) (simp_all add: Locked locked_section_def)
    then show ?thesis by (simp add: Locked)
  next
    case (TransCommit t e)
    then show ?thesis using transition_commit_pays [OF _ _ kept] fo step by simp
  next
    case (TransGuarded t e)
    then show ?thesis using transition_guarded_pays [OF _ _ kept] fo step by simp
  next
    case (AttachAcquire i w u ws)
    then show ?thesis using attach_acquire_pays step by simp
  next
    case (AttachPin i w u ws)
    have "pays (add_mset (u, ws) (held S m)) (mg_pool m) (held S m' + ticket_of f') (mg_pool m')"
      by (rule attach_pin_pays [OF io, of i w u ws]) (use step S pin in \<open>auto simp: AttachPin\<close>)
    then show ?thesis by (simp add: AttachPin)
  next
    case (AttachGiveBack u ws e)
    then show ?thesis using give_back_pays step by simp
  next
    case (DetachRelease u ws)
    then show ?thesis using give_back_pays step by simp
  next
    case (DeleteCommit i r cand run)
    have "r \<notin> set S" using S [of r] by (auto simp: DeleteCommit)
    then show ?thesis using delete_commit_pays [of S m i r cand run m' f'] fo step
      by (simp add: DeleteCommit del: settles.simps)
  next
    case (PhysicalCall i)
    then show ?thesis using physical_call_pays [OF io _ conjunct1 [OF S]] step
      by (simp del: settles.simps)
  qed simp_all
qed

lemma held_frame:
  "objects m' = objects m \<Longrightarrow> (\<And>r. managed_at r m' = managed_at r m) \<Longrightarrow> held S m' = held S m"
  by (intro held_same) (simp_all add: ticket_at_def)

text \<open>A run in which every pinned worker's user is the one that paid.\<close>

fun steady_users :: "mgr_config \<Rightarrow> world_op list \<Rightarrow> world \<Rightarrow> bool" where
  "steady_users cfg [] w = True"
| "steady_users cfg (op # ops) w =
     ((case op of Section k ev \<Rightarrow> k < length (w_threads w) \<longrightarrow> pins_own_user (w_threads w ! k) (w_mgr w) | _ \<Rightarrow> True) \<and>
      steady_users cfg ops (world_step cfg op w))"

text \<open>
  A deletion gives the quota back and leaves the worker in its object.  A goroutine that still takes
  the worker out of such an object - detaching it, or ending the session - gives the same quota back
  again: it returns a ticket nobody holds.  \<open>spent\<close> are the objects this happened to.
\<close>

definition spent :: "world \<Rightarrow> mref set" where
  "spent w = {r \<in> set (w_settled w). worker_of r (w_mgr w) = None}"

definition lost_workers :: "mref list \<Rightarrow> manager \<Rightarrow> manager \<Rightarrow> mref set" where
  "lost_workers S m m' = {r \<in> set S. worker_of r m \<noteq> None \<and> worker_of r m' = None}"

definition forged :: "mref list \<Rightarrow> manager \<Rightarrow> manager \<Rightarrow> ticket multiset" where
  "forged S m m' = (\<Sum>r < objects m. if r \<in> lost_workers S m m' then {#ticket_for r m#} else {#})"

lemma held_forged:
  "held (filter (\<lambda>r. worker_of r m' \<noteq> None) S) m = held S m + forged S m m'"
  unfolding held_def forged_def sum.distrib [symmetric]
  by (rule sum.cong) (auto simp: ticket_at_def lost_workers_def)

lemma held_forget:
  "held (S0 @ filter (\<lambda>r. worker_of r m' \<noteq> None) S) m' = held (S0 @ S) m'"
  unfolding held_def by (rule sum.cong) (auto simp: ticket_at_def)

lemma size_forged:
  assumes "\<And>r. r \<in> set S \<Longrightarrow> r < objects m"
  shows "size (forged S m m') = card (lost_workers S m m')"
proof -
  have l: "{r. r < objects m \<and> r \<in> lost_workers S m m'} = lost_workers S m m'"
    using assms by (auto simp: lost_workers_def)
  have "size (forged S m m') = (\<Sum>r < objects m. if r \<in> lost_workers S m m' then 1 else 0)"
    unfolding forged_def size_multiset_sum by (rule sum.cong) simp_all
  also have "\<dots> = card (lost_workers S m m')" by (simp add: sum.If_cases l Int_def)
  finally show ?thesis .
qed

lemma frame_ok_loud: "\<not> quiet f \<Longrightarrow> frame_ok S m f \<Longrightarrow> frame_ok S' m f"
  by (cases f) simp_all

lemma section_pays_forged:
  assumes io: "index_ok m" and fo: "frame_ok S m f" and step: "section_step cfg ev f m = (m', f')"
    and S: "\<And>r. r \<in> set S \<Longrightarrow> r < objects m \<and> ms_deleting (managed_at r m) \<and> (owner f = Some r \<longrightarrow> physical_frame f)"
    and pin: "pins_own_user f m"
  shows "pays (held S m + forged S m m' + ticket_of f) (mg_pool m) (held (settles f m @ S) m' + ticket_of f') (mg_pool m')"
proof (cases "quiet f")
  case True
  have q: "held S m' = held S m" "mg_pool m' = mg_pool m" "ticket_of f' = {#}" "ticket_of f = {#}" "settles f m = []"
    using quiet_held [OF io fo step True] by simp_all
  have "keeps_workers m m'" using quiet_section [OF True, of m cfg ev] by (simp add: step quiet_step_def)
  then have "lost_workers S m m' = {}" using S by (auto simp: lost_workers_def keeps_workers_def)
  then have "forged S m m' = {#}" by (simp add: forged_def)
  then show ?thesis unfolding q append_Nil by (simp add: pays_same)
next
  case False
  let ?S = "filter (\<lambda>r. worker_of r m' \<noteq> None) S"
  have "pays (held ?S m + ticket_of f) (mg_pool m) (held (settles f m @ ?S) m' + ticket_of f') (mg_pool m')"
    by (rule section_pays [OF io frame_ok_loud [OF False fo] step]) (use S pin in auto)
  then show ?thesis by (simp only: held_forged held_forget)
qed

text \<open>A client that may also return tickets it does not hold.\<close>

datatype debt_op = Fair client_op | Forge ticket

fun debt_step :: "debt_op \<Rightarrow> ticket multiset \<times> pool \<Rightarrow> ticket multiset \<times> pool" where
  "debt_step (Fair op) s = client_step op s"
| "debt_step (Forge t) s = (add_mset t (fst s), snd s)"

definition forgeries :: "debt_op list \<Rightarrow> nat" where
  "forgeries ops = length (filter (\<lambda>op. \<exists>t. op = Forge t) ops)"

lemma forgeries_append [simp]: "forgeries (a @ b) = forgeries a + forgeries b"
  by (simp add: forgeries_def)

lemma fold_fair: "fold debt_step (map Fair ops) s = fold client_step ops s" "forgeries (map Fair ops) = 0"
  by (induction ops arbitrary: s) (auto simp: forgeries_def)

lemma fold_forge:
  "\<exists>ops. forgeries ops = size X \<and> (\<forall>T p. fold debt_step ops (T, p) = (T + X, p))"
proof (induction X)
  case empty
  then show ?case by (intro exI [of _ "[]"]) (simp add: forgeries_def)
next
  case (add t X)
  then obtain ops where o: "forgeries ops = size X" "\<forall>T p. fold debt_step ops (T, p) = (T + X, p)" by blast
  then show ?case by (intro exI [of _ "Forge t # ops"]) (simp add: forgeries_def)
qed

lemma no_forgery: "forgeries ops = 0 \<Longrightarrow> \<exists>cops. fold debt_step ops s = fold client_step cops s"
proof (induction ops arbitrary: s)
  case Nil
  show ?case by (intro exI [of _ "[]"]) simp
next
  case (Cons op ops)
  obtain c where c: "op = Fair c" "forgeries ops = 0" using Cons.prems by (cases op) (auto simp: forgeries_def)
  obtain cops where "fold debt_step ops (client_step c s) = fold client_step cops (client_step c s)"
    using Cons.IH [OF c(2)] by blast
  then show ?case by (intro exI [of _ "c # cops"]) (simp add: c(1))
qed

text \<open>Each forged ticket makes the pool count at most one too few.\<close>

lemma total_steps:
  "p_total (release_for_workspace u w p) \<ge> p_total p - 1"
  "acquire_for_workspace u w p = (p', None) \<Longrightarrow> p_total p' = p_total p + 1"
  "acquire_for_workspace u w p = (p', Some e) \<Longrightarrow> p' = p"
  "p_total (update_limits l p) = p_total p"
  by (auto simp: release_for_workspace_def release_core_locked_def release_memory_locked_def acquire_for_workspace_def
      acquire_locked_def take_slot_def reserve_memory_def update_limits_def Let_def split: if_splits)

lemma client_total:
  assumes "int (size T) - d \<le> p_total p" "client_step op (T, p) = (T', p')"
  shows "int (size T') - d \<le> p_total p'"
proof (cases op)
  case (Take t)
  obtain u w where t: "t = (u, w)" by (cases t)
  obtain q e where a: "acquire_for_workspace u w p = (q, e)" by (cases "acquire_for_workspace u w p")
  show ?thesis
    using assms total_steps(2,3) [of u w p q] by (cases e) (auto simp: Take t a)
next
  case (Return t)
  obtain u w where t: "t = (u, w)" by (cases t)
  show ?thesis
    using assms total_steps(1) [of p u w] size_Suc_Diff1 [of "(u, w)" T]
    by (cases "(u, w) \<in># T") (auto simp: Return t)
next
  case (Reconfigure l)
  then show ?thesis using assms by (auto simp: total_steps(4))
qed

lemma debt_total:
  "int (size (fst s)) - d \<le> p_total (snd s) \<Longrightarrow>
   int (size (fst (fold debt_step ops s))) - (d + int (forgeries ops)) \<le> p_total (snd (fold debt_step ops s))"
proof (induction ops arbitrary: s d)
  case Nil
  then show ?case by (simp add: forgeries_def)
next
  case (Cons op ops)
  show ?case
  proof (cases op)
    case (Fair c)
    then have "int (size (fst (debt_step op s))) - d \<le> p_total (snd (debt_step op s))"
      using client_total [of "fst s" d "snd s" c] Cons.prems by simp
    from Cons.IH [OF this] show ?thesis by (simp add: Fair forgeries_def)
  next
    case (Forge t)
    then have "int (size (fst (debt_step op s))) - (d + 1) \<le> p_total (snd (debt_step op s))" using Cons.prems by simp
    from Cons.IH [OF this] show ?thesis by (simp add: Forge forgeries_def algebra_simps)
  qed
qed

text \<open>What is spent stays spent, and a step adds what it takes out.\<close>

lemma spent_step:
  assumes inv: "world_inv w" and k: "k < length (w_threads w)"
    and step: "section_step cfg ev (w_threads w ! k) (w_mgr w) = (m', f')"
  shows "spent (world_step cfg (Section k ev) w) = spent w \<union> lost_workers (w_settled w) (w_mgr w) m'"
    "spent w \<inter> lost_workers (w_settled w) (w_mgr w) m' = {}"
proof -
  let ?m = "w_mgr w" and ?S = "w_settled w" and ?f = "w_threads w ! k"
  have I: "index_ok ?m" "frame_ok ?S ?m ?f" "settled_ok ?S ?m (w_threads w)"
    using inv k by (auto simp: world_inv_def threads_ok_def)
  have w': "world_step cfg (Section k ev) w =
      w\<lparr>w_mgr := m', w_threads := (w_threads w)[k := f'], w_settled := settles ?f ?m @ ?S\<rparr>"
    using k by (simp add: run_section_def step)
  have ev: "evolves (owner ?f) ?m m'"
    using section_step_ok [OF I(1,2) step] by (simp add: section_ok_def)
  have new: "worker_of r m' \<noteq> None" if "r \<in> set (settles ?f ?m)" for r
  proof (cases ?f)
    case (PhysicalCall i)
    then show ?thesis
      using that step by (auto simp: physical_call_def Let_def split: option.splits if_splits)
  next
    case (DeleteCommit i r' cand run)
    then show ?thesis
      using that step by (auto simp: delete_commit_def Let_def split: if_splits)
  qed (use that in simp_all)
  have old: "worker_of r m' = None" if "r \<in> set ?S" "worker_of r ?m = None" for r
    using that I(3) ev by (auto simp: settled_ok_def evolves_def)
  show "spent (world_step cfg (Section k ev) w) = spent w \<union> lost_workers ?S ?m m'"
    unfolding w' by (auto simp: spent_def lost_workers_def old dest: new)
  show "spent w \<inter> lost_workers ?S ?m m' = {}" by (auto simp: spent_def lost_workers_def)
qed

lemma finite_spent: "finite (spent w)" "finite (lost_workers S m m')"
  by (simp_all add: spent_def lost_workers_def)

lemma world_step_client:
  assumes inv: "world_inv w" and st: "steady_users cfg [op] w"
  shows "\<exists>cops. fold debt_step cops (tickets w, mg_pool (w_mgr w)) =
           (tickets (world_step cfg op w), mg_pool (w_mgr (world_step cfg op w))) \<and>
         card (spent (world_step cfg op w)) = card (spent w) + forgeries cops"
proof (cases op)
  case (Spawn f)
  have "ticket_of f = {#}" if "method_call f" using that by (cases f) simp_all
  then show ?thesis
    by (intro exI [of _ "[]"]) (simp add: Spawn tickets_def in_flight_tickets_def spent_def forgeries_def)
next
  case (Evict now)
  then show ?thesis
    by (intro exI [of _ "[]"])
      (simp add: tickets_def held_frame [of "gc_evict now (w_mgr w)" "w_mgr w"] spent_def forgeries_def)
next
  case (Resize l)
  then show ?thesis
    by (intro exI [of _ "[Fair (Reconfigure l)]"])
      (simp add: tickets_def held_frame [of "(w_mgr w)\<lparr>mg_pool := p\<rparr>" "w_mgr w" for p] spent_def forgeries_def)
next
  case (Elsewhere sop)
  then show ?thesis
    by (intro exI [of _ "[]"])
      (simp add: tickets_def held_frame [of "(w_mgr w)\<lparr>mg_db := db\<rparr>" "w_mgr w" for db] spent_def forgeries_def)
next
  case (Section k ev)
  show ?thesis
  proof (cases "k < length (w_threads w)")
    case False
    then show ?thesis by (intro exI [of _ "[]"]) (simp add: Section forgeries_def)
  next
    case k: True
    let ?m = "w_mgr w" and ?T = "w_threads w" and ?S = "w_settled w"
    let ?f = "?T ! k"
    obtain m' f' where step: "section_step cfg ev ?f ?m = (m', f')" by fastforce
    have w': "world_step cfg op w = w\<lparr>w_mgr := m', w_threads := ?T[k := f'], w_settled := settles ?f ?m @ ?S\<rparr>"
      using k by (simp add: Section run_section_def step)
    have I: "index_ok ?m" "frame_ok ?S ?m ?f" "settled_ok ?S ?m ?T"
      using inv k by (auto simp: world_inv_def threads_ok_def)
    have S: "r < objects ?m \<and> ms_deleting (managed_at r ?m) \<and> (owner ?f = Some r \<longrightarrow> physical_frame ?f)" if "r \<in> set ?S" for r
      using I(3) that k by (auto simp: settled_ok_def)
    have "pins_own_user ?f ?m" using st k by (simp add: Section)
    note pay = section_pays_forged [OF I(1,2) step S this]
    define X where "X = in_flight_tickets (?T[k := Returned Ok])"
    obtain cops where c: "fold client_step cops (held ?S ?m + forged ?S ?m m' + ticket_of ?f + X, mg_pool ?m) =
        (held (settles ?f ?m @ ?S) m' + ticket_of f' + X, mg_pool m')"
      using pays_client [OF pay] by blast
    obtain fops where f: "forgeries fops = size (forged ?S ?m m')"
      "\<forall>T p. fold debt_step fops (T, p) = (T + forged ?S ?m m', p)" using fold_forge by blast
    have fl: "in_flight_tickets ?T = ticket_of ?f + X" "in_flight_tickets (?T[k := f']) = ticket_of f' + X"
      using in_flight_update [OF k, of "Returned Ok"] in_flight_update [of k "?T[k := Returned Ok]" f'] k
      by (simp_all add: X_def ac_simps)
    have "fold debt_step (fops @ map Fair cops) (tickets w, mg_pool ?m) =
        (tickets (world_step cfg op w), mg_pool (w_mgr (world_step cfg op w)))"
      using c unfolding w' tickets_def by (simp add: f(2) fold_fair fl ac_simps)
    moreover have "card (spent (world_step cfg op w)) = card (spent w) + forgeries (fops @ map Fair cops)"
      using spent_step [OF inv k step] card_Un_disjoint [OF finite_spent, of w ?S ?m m'] size_forged [of ?S ?m m'] S
      by (simp add: Section f(1) fold_fair)
    ultimately show ?thesis by blast
  qed
qed

lemma run_client:
  assumes "world_inv w" "steady_users cfg ops w"
  shows "\<exists>cops. fold debt_step cops (tickets w, mg_pool (w_mgr w)) =
           (tickets (fold (world_step cfg) ops w), mg_pool (w_mgr (fold (world_step cfg) ops w))) \<and>
         card (spent (fold (world_step cfg) ops w)) = card (spent w) + forgeries cops"
  using assms
proof (induction ops arbitrary: w)
  case Nil
  then show ?case by (intro exI [of _ "[]"]) (simp add: forgeries_def)
next
  case (Cons op ops)
  let ?w = "world_step cfg op w"
  have "world_inv ?w" "steady_users cfg ops ?w" using Cons.prems world_step_inv by simp_all
  from Cons.IH [OF this] obtain c2 where c2: "fold debt_step c2 (tickets ?w, mg_pool (w_mgr ?w)) =
      (tickets (fold (world_step cfg) ops ?w), mg_pool (w_mgr (fold (world_step cfg) ops ?w)))"
    "card (spent (fold (world_step cfg) ops ?w)) = card (spent ?w) + forgeries c2" by blast
  obtain c1 where c1: "fold debt_step c1 (tickets w, mg_pool (w_mgr w)) = (tickets ?w, mg_pool (w_mgr ?w))"
    "card (spent ?w) = card (spent w) + forgeries c1"
    using world_step_client [OF Cons.prems(1), of cfg op] Cons.prems(2) by auto
  then have "fold debt_step (c1 @ c2) (tickets w, mg_pool (w_mgr w)) =
      (tickets (fold (world_step cfg) (op # ops) w), mg_pool (w_mgr (fold (world_step cfg) (op # ops) w)))"
    by (simp add: c2(1))
  then show ?case using c1(2) c2(2) by (intro exI [of _ "c1 @ c2"]) simp
qed

lemma reachable_client:
  assumes "w0 = new_world (new_manager l u mem ws db)" "w = fold (world_step cfg) ops w0"
    and "steady_users cfg ops w0"
  shows "\<exists>cops. fold debt_step cops ({#}, new_pool_with_workspace l u mem ws) = (tickets w, mg_pool (w_mgr w)) \<and>
    forgeries cops = card (spent w)"
proof -
  have "world_inv w0" by (simp add: assms(1) new_world_inv new_manager_def)
  moreover have "tickets w0 = {#}" "mg_pool (w_mgr w0) = new_pool_with_workspace l u mem ws" "spent w0 = {}"
    by (simp_all add: assms(1) new_world_def new_manager_def tickets_def held_def in_flight_tickets_def spent_def)
  ultimately show ?thesis
    using run_client [of w0 cfg ops] assms(2,3) by (auto intro: exI)
qed

lemma reachable_tickets:
  assumes "w0 = new_world (new_manager l u mem ws db)" "w = fold (world_step cfg) ops w0"
    and "steady_users cfg ops w0" "spent w = {}"
  shows "holds_tickets (tickets w) (mg_pool (w_mgr w)) \<and> pool_inv (mg_pool (w_mgr w))"
proof -
  obtain dops where d: "fold debt_step dops ({#}, new_pool_with_workspace l u mem ws) = (tickets w, mg_pool (w_mgr w))"
    "forgeries dops = 0"
    using reachable_client [OF assms(1-3)] assms(4) by auto
  obtain cops where "fold client_step cops ({#}, new_pool_with_workspace l u mem ws) = (tickets w, mg_pool (w_mgr w))"
    using no_forgery [OF d(2)] d(1) by metis
  then have "client_inv (tickets w, mg_pool (w_mgr w))"
    using pool_clients.run_inv [OF new_pool_client_inv, of cops l u mem ws] by simp
  then show ?thesis by (simp add: client_inv_def)
qed

definition one_deleted :: "world_op list" where
  "one_deleted = two_attached @ [Spawn (DeleteCall ''s''), Section 4 (the_env 2), Section 4 (the_env 2),
     Section 4 (the_env 2)]"

text \<open>
  C11. The pool counts the workers.  Whatever the interleaving of the manager's goroutines, garbage
  collection, changes of the limits and writes from elsewhere, deletions included: the pool is what
  a client makes of it that acquires and returns tickets and reconfigures, where the tickets it
  holds in the end are those of the attached workers and of the goroutines between acquiring and
  pinning or returning, and where it returns a ticket it does not hold exactly once for every
  object whose worker is taken out after its deletion has given the quota back.  So the pool
  counts at most that many workers too few; and while there is no such object, the total is the
  number of the tickets and each user's and workspace's count the number of its tickets.  Assumed of
  the run: when a goroutine pins its worker, the session still belongs to the user it has acquired
  the quota for.
\<close>

theorem manager_is_a_ticket_client:
  assumes "w0 = new_world (new_manager l u mem ws db)" "w = fold (world_step cfg) ops w0"
    and "steady_users cfg ops w0"
  shows "(\<exists>cops. fold debt_step cops ({#}, new_pool_with_workspace l u mem ws) = (tickets w, mg_pool (w_mgr w)) \<and>
      forgeries cops = card (spent w)) \<and>
    int (size (tickets w)) - int (card (spent w)) \<le> p_total (mg_pool (w_mgr w)) \<and>
    (spent w = {} \<longrightarrow> holds_tickets (tickets w) (mg_pool (w_mgr w)))"
proof -
  obtain cops where c: "fold debt_step cops ({#}, new_pool_with_workspace l u mem ws) = (tickets w, mg_pool (w_mgr w))"
    "forgeries cops = card (spent w)" using reachable_client [OF assms] by blast
  have "p_total (new_pool_with_workspace l u mem ws) = 0" by (simp add: new_pool_with_workspace_def new_pool_def)
  then have "int (size (tickets w)) - (0 + int (forgeries cops)) \<le> p_total (mg_pool (w_mgr w))"
    using debt_total [of "({#}, new_pool_with_workspace l u mem ws)" 0 cops] by (simp add: c(1))
  then show ?thesis using c reachable_tickets [OF assms] by auto
qed

theorem manager_is_a_ticket_client_witness:
  "p_total (mg_pool (w_mgr (run_world one_deleted))) = 1"
proof -
  have s: "steady_users a_config one_deleted start_world" by code_simp
  have n: "spent (run_world one_deleted) = {}" by code_simp
  have t: "tickets (run_world one_deleted) = {#(''u'', [])#}" by code_simp
  have "holds_tickets (tickets (run_world one_deleted)) (mg_pool (w_mgr (run_world one_deleted)))"
    using manager_is_a_ticket_client [OF start_world_def refl s] n by blast
  then show ?thesis by (simp add: t holds_tickets_def)
qed

section \<open>A quota returned twice\<close>

text \<open>
  C21. A physical deletion and a detach return the quota of one worker twice.  The deletion
  gives the quota back but leaves the worker in the cached session until its rows are gone; the
  goroutine that notices the killed worker detaches it from the session in between and gives the
  same ticket back again.  What the pool then counts is one worker less than there is, as soon as
  the user holds another one in the workspace.
\<close>

theorem physical_delete_pays_twice:
  assumes "k < length (w_threads w)" "d < length (w_threads w)" "k \<noteq> d"
    and "w_threads w ! k = PhysicalCall i" "w_threads w ! d = Lookup i (DoDetach (Some x))"
    and "mg_index (w_mgr w) i = Some r" "r < objects (w_mgr w)" "\<not> ms_deleting (managed_at r (w_mgr w))"
    and "worker_of r (w_mgr w) = Some x" "ticket_for r (w_mgr w) = (u, ws)"
    and "pool_inv (mg_pool (w_mgr w))" "holds_tickets (add_mset (u, ws) (add_mset (u, ws) T)) (mg_pool (w_mgr w))"
    and "w' = fold (world_step cfg) [Section k e1, Section d e2, Section d e3, Section d e4] w"
  shows "mg_pool (w_mgr w') = release_for_workspace u ws (release_for_workspace u ws (mg_pool (w_mgr w))) \<and>
    holds_tickets T (mg_pool (w_mgr w')) \<and> w_threads w' ! d = Returned Ok"
proof -
  let ?m = "w_mgr w"
  obtain m1 where s1: "physical_call i ?m = (m1, PhysicalStore i r)"
    and m1: "mg_pool m1 = release_for_workspace u ws (mg_pool ?m)" "mg_index m1 i = Some r"
      "objects m1 = objects ?m" "worker_of r m1 = Some x" "ticket_for r m1 = (u, ws)"
    using assms(6-10) by (simp add: physical_call_def Let_def release_worker_quota_def)
  obtain m2 where s2: "do_detach r (Some x) m1 = (m2, DetachRelease u ws)" "mg_pool m2 = mg_pool m1"
    using m1(4,5) by (simp add: do_detach_def)
  have r: "mg_pool (w_mgr w') = release_for_workspace u ws (release_for_workspace u ws (mg_pool ?m)) \<and>
      w_threads w' ! d = Returned Ok"
    using assms(1-5) by (simp add: assms(13) run_section_def s1 lookup_managed_def m1(2) locked_section_def s2
      give_back_def m1(1))
  have "holds_tickets (add_mset (u, ws) T) (release_for_workspace u ws (mg_pool ?m))"
    using return_ticket [OF assms(11,12), of u ws] by simp
  then have "holds_tickets T (release_for_workspace u ws (release_for_workspace u ws (mg_pool ?m)))"
    using return_ticket [OF release_for_workspace_inv [OF assms(11)], where T = "add_mset (u, ws) T" and u = u and w = ws] by simp
  then show ?thesis using r by simp
qed

text \<open>Two sessions of one user; the worker of the first is deleted and detached.\<close>

definition deleted_and_detached :: "world_op list" where
  "deleted_and_detached = [Section 4 (the_env 2), Section 5 (the_env 2), Section 5 (the_env 2), Section 5 (the_env 2)]"

lemma quota_of_other_session_lost:
  "p_total (mg_pool (w_mgr (run_world (two_attached @ [Spawn (PhysicalCall ''s''),
     Spawn (Lookup ''s'' (DoDetach (Some 7)))] @ deleted_and_detached)))) = 0"
  "tickets (run_world (two_attached @ [Spawn (PhysicalCall ''s''),
     Spawn (Lookup ''s'' (DoDetach (Some 7)))] @ deleted_and_detached)) = {#(''u'', [])#}"
  by code_simp+

theorem physical_delete_pays_twice_witness:
  "w_threads (fold (world_step a_config) deleted_and_detached
     (run_world (two_attached @ [Spawn (PhysicalCall ''s''), Spawn (Lookup ''s'' (DoDetach (Some 7)))]))) ! 5 = Returned Ok"
proof -
  let ?w = "run_world (two_attached @ [Spawn (PhysicalCall ''s''), Spawn (Lookup ''s'' (DoDetach (Some 7)))])"
  have n: "length (w_threads (run_world two_attached)) = 4" by code_simp
  have f: "mg_index (w_mgr ?w) ''s'' = Some 0" "0 < objects (w_mgr ?w)" "\<not> ms_deleting (managed_at 0 (w_mgr ?w))"
    "worker_of 0 (w_mgr ?w) = Some 7" "ticket_for 0 (w_mgr ?w) = (''u'', [])"
    by code_simp+
  have s: "steady_users a_config (two_attached @ [Spawn (PhysicalCall ''s''), Spawn (Lookup ''s'' (DoDetach (Some 7)))]) start_world"
    by code_simp
  have p: "spent ?w = {}" "tickets ?w = {#(''u'', []), (''u'', [])#}" by code_simp+
  have "holds_tickets (tickets ?w) (mg_pool (w_mgr ?w)) \<and> pool_inv (mg_pool (w_mgr ?w))"
    by (rule reachable_tickets [OF start_world_def refl s p(1)])
  then have h: "pool_inv (mg_pool (w_mgr ?w))" "holds_tickets {#(''u'', []), (''u'', [])#} (mg_pool (w_mgr ?w))"
    by (simp_all only: p(2))
  show ?thesis
    using physical_delete_pays_twice [OF _ _ _ _ _ f h refl, of 4 5 a_config "the_env 2" "the_env 2" "the_env 2" "the_env 2"]
    by (simp add: n nth_append deleted_and_detached_def del: fold_simps)
qed

end
