(* ===== verification/ManagerLost.thy ===== *)
theory ManagerLost
  imports ManagerProps
begin

text \<open>
  Cached sessions that no id leads to any more: no section can change them, so a worker that is
  attached to one is lost.
\<close>

section \<open>Objects nobody can reach\<close>

text \<open>The object a goroutine keeps a pointer to.\<close>

fun points_to :: "frame \<Rightarrow> mref option" where
  "points_to (Locked i r op) = Some r"
| "points_to (TransStore t) = Some (tr_ref t)"
| "points_to (TransCommit t e) = Some (tr_ref t)"
| "points_to (TransGuard t) = Some (tr_ref t)"
| "points_to (TransGuarded t e) = Some (tr_ref t)"
| "points_to (WorkDirCheck r d) = Some r"
| "points_to (Mutate r edit undo) = Some r"
| "points_to (MutateStore r info undo) = Some r"
| "points_to (MutateBack r undo e) = Some r"
| "points_to (WorkerSessionSet i r w) = Some r"
| "points_to (WorkerSessionStore i r w prev) = Some r"
| "points_to (WorkerSessionBack r prev e) = Some r"
| "points_to f = owner f"

text \<open>A section that reaches object \<open>r\<close> neither through its frame nor through the map.\<close>

definition away :: "mref \<Rightarrow> manager \<Rightarrow> manager \<times> frame \<Rightarrow> bool" where
  "away r m res \<longleftrightarrow> managed_at r (fst res) = managed_at r m \<and> objects m \<le> objects (fst res) \<and>
     (\<forall>i. mg_index (fst res) i \<noteq> Some r) \<and> points_to (snd res) \<noteq> Some r"

lemma away_store_call:
  "store_call ev g m = (m', e) \<Longrightarrow> managed_at r m' = managed_at r m \<and> objects m' = objects m \<and> mg_index m' = mg_index m"
  by (simp add: store_call_frame)

lemmas away_simps = away_def Let_def store_call_frame force_terminate_managed commit_managed commit_frame

text \<open>An object the map of sessions does not lead to.\<close>

definition lost :: "mref \<Rightarrow> manager \<Rightarrow> bool" where
  "lost r m \<longleftrightarrow> r < objects m \<and> (\<forall>i. mg_index m i \<noteq> Some r)"

lemma lostD: "lost r m \<Longrightarrow> r < objects m" "lost r m \<Longrightarrow> mg_index m i \<noteq> Some r"
  by (simp_all add: lost_def)

lemma away_create:
  assumes "lost r m"
  shows "away r m (create_call cfg ev a m)" "away r m (create_store ev i' m)"
  "away r m (create_install i' m)"
  "away r m (get_call i m)" "away r m (get_load ev i m)" "away r m (get_install i row m)"
  using lostD [OF assms]
  by (auto simp: create_call_def create_store_def create_install_def get_call_def get_load_def
      get_install_def away_simps split: option.splits sum.splits prod.splits)

lemma away_lookup:
  assumes "lost r m"
  shows "away r m (lookup_managed i op m)" "away r m (load_managed ev i op m)"
  "away r m (install_managed i row op m)" "away r m (record_call cfg i t lc m)"
  using lostD [OF assms]
  by (auto simp: lookup_managed_def load_managed_def install_managed_def record_call_def away_simps
      split: option.splits sum.splits)

lemma away_locked:
  assumes "lost r m" "q \<noteq> r"
  shows "away r m (locked_section cfg ev i q op m)"
proof (cases op)
  case (DoRecordInput accepted l)
  have "away r m (m', f)" if "do_record_input ev i q accepted l m = (m', f)" for m' f
    using that lostD [OF assms(1)] assms(2) by (cases rule: do_record_cases) (auto simp: away_def)
  then show ?thesis
    by (cases "do_record_input ev i q accepted l m") (simp add: DoRecordInput locked_section_def)
qed (use lostD [OF assms(1)] assms(2) in \<open>auto simp: locked_section_def do_transition_def transition_state_def do_input_def
      do_detach_def do_clear_context_def do_worker_session_def away_simps\<close>)

lemma away_commit:
  assumes "lost r m" "tr_ref t \<noteq> r"
  shows "away r m (commit_transition t m)"
  using lostD [OF assms(1)] assms(2) by (auto simp: away_simps)

lemma away_trans:
  assumes "lost r m" "tr_ref t \<noteq> r"
  shows "away r m (transition_store ev t m)" "away r m (transition_guard ev t m)"
    "away r m (transition_commit ev t e m)" "away r m (transition_guarded t e m)"
proof -
  show "away r m (transition_store ev t m)" "away r m (transition_guard ev t m)"
    using lostD [OF assms(1)] assms(2) by (auto simp: transition_store_def transition_guard_def away_simps split: prod.splits)
  show "away r m (transition_guarded t e m)"
    unfolding transition_guarded_def Let_def by (rule away_commit) (simp_all add: assms)
  show "away r m (transition_commit ev t e m)"
    using lostD [OF assms(1)] assms(2) away_commit [OF assms]
    by (auto simp: transition_commit_def force_terminate_managed away_def Let_def split: option.split)
qed

lemma away_attach:
  assumes "lost r m"
  shows "away r m (attach_check i w m)" "away r m (attach_acquire i w u ws m)"
  "away r m (attach_pin i w u ws m)" "away r m (give_back u ws a m)"
  using lostD [OF assms]
  by (auto simp: attach_check_def attach_acquire_def attach_pin_def give_back_def away_simps
      split: option.splits prod.splits)

lemma away_calls:
  assumes "lost r m"
  shows "away r m (bind_workspace i ws m)" "away r m (work_dir_call i d m)" "away r m (reset_expiry_call cfg i m)"
  "away r m (delete_call ev i m)" "away r m (physical_call i m)" "away r m (retire_call i m)"
  using lostD [OF assms]
  by (auto simp: bind_workspace_def work_dir_call_def reset_expiry_call_def delete_call_def physical_call_def
      retire_call_def away_simps split: option.splits)

lemma away_update:
  assumes "lost r m" "q \<noteq> r"
  shows "away r m (work_dir_check q d m)" "away r m (mutate ev q edit undo m)"
    "away r m (mutate_store ev q info undo' m)" "away r m (mutate_back q undo' e m)"
    "away r m (worker_session_set i q w' m)" "away r m (worker_session_store ev i q w' prev m)"
    "away r m (worker_session_back q prev e m)"
  using lostD [OF assms(1)] assms(2)
  by (auto simp: work_dir_check_def mutate_def mutate_store_def mutate_back_def worker_session_set_def
      worker_session_store_def worker_session_back_def away_simps split: option.splits prod.splits)

lemma away_delete:
  assumes "lost r m" "q \<noteq> r"
  shows "away r m (delete_load ev i q m)"
    "away r m (delete_abort i q e m)" "away r m (delete_store ev i q cand orig run m)"
    "away r m (delete_restore i q orig e m)" "away r m (delete_commit i q cand run m)"
  using lostD [OF assms(1)] assms(2)
  by (auto simp: delete_load_def delete_abort_def delete_store_def delete_restore_def drop_own_def
      delete_commit_def away_simps split: option.splits prod.splits sum.splits)

lemma away_retire:
  assumes "lost r m" "q \<noteq> r"
  shows "away r m (physical_store ev i q m)" "away r m (physical_unmark i q e' m)"
    "away r m (retire_store ev i q cached m)"
    "away r m (retire_undo i q cached e' m)" "away r m (retire_commit ev i q m)"
  using lostD [OF assms(1)] assms(2)
  by (auto simp: physical_store_def physical_unmark_def drop_own_def
      retire_store_def retire_undo_def retire_commit_def away_simps split: option.splits prod.splits sum.splits)

lemma away_section:
  assumes "lost r m" "points_to f \<noteq> Some r"
  shows "away r m (section_step cfg ev f m)"
  using assms
  by (cases f) (simp_all add: away_create away_lookup away_locked away_trans away_attach away_calls away_update
      away_delete away_retire, simp add: away_def lostD)

definition lost_in :: "mref \<Rightarrow> world \<Rightarrow> bool" where
  "lost_in r w \<longleftrightarrow> lost r (w_mgr w) \<and> (\<forall>f \<in> set (w_threads w). points_to f \<noteq> Some r)"

lemma lost_settles: "lost r m \<Longrightarrow> r \<notin> set (settles f m)"
  by (cases f) (auto simp: lost_def split: option.splits)

lemma lost_step:
  assumes "lost_in r w"
  shows "lost_in r (world_step cfg op w) \<and> managed_at r (w_mgr (world_step cfg op w)) = managed_at r (w_mgr w) \<and>
    (r \<in> set (w_settled (world_step cfg op w)) \<longleftrightarrow> r \<in> set (w_settled w))"
proof (cases op)
  case (Spawn f)
  have "points_to f = None" if "method_call f" using that by (cases f) simp_all
  then show ?thesis using assms by (auto simp: Spawn lost_in_def)
next
  case (Section k ev)
  have l: "lost r (w_mgr w)" "\<And>f. f \<in> set (w_threads w) \<Longrightarrow> points_to f \<noteq> Some r"
    using assms by (auto simp: lost_in_def)
  obtain m' f' where step: "section_step cfg ev (w_threads w ! k) (w_mgr w) = (m', f')" by fastforce
  have a: "away r (w_mgr w) (m', f')" if "k < length (w_threads w)"
    using away_section [OF l(1) l(2) [OF nth_mem [OF that]], of cfg ev] by (simp add: step)
  show ?thesis
    using l a lost_settles [OF l(1)]
    by (auto simp: Section run_section_def step lost_in_def lost_def away_def dest: subsetD [OF set_update_subset_insert])
next
  case (Evict now)
  then show ?thesis using assms by (auto simp: lost_in_def lost_def dest: gc_evict_index)
qed (use assms in \<open>simp_all add: lost_in_def lost_def\<close>)

lemma lost_run:
  assumes "lost_in r w"
  shows "lost_in r (fold (world_step cfg) ops w) \<and> managed_at r (w_mgr (fold (world_step cfg) ops w)) = managed_at r (w_mgr w) \<and>
    (r \<in> set (w_settled (fold (world_step cfg) ops w)) \<longleftrightarrow> r \<in> set (w_settled w))"
  using assms by (induction ops arbitrary: w) (simp_all add: lost_step)

text \<open>The id a goroutine is about to install a created session under.\<close>

fun creates :: "frame \<Rightarrow> session_id option" where
  "creates (CreateInstall i) = Some (si_id i)"
| "creates f = None"

lemma creates_Some: "creates f = Some i \<Longrightarrow> \<exists>row. f = CreateInstall row \<and> si_id row = i"
  by (cases f) simp_all

text \<open>
  C22. Creating over a session with a worker loses the worker for good.  The install of a created
  session replaces the cached object of its id without looking at it.  If nobody else is inside an
  operation on the old object, then whatever happens afterwards, no id leads to it any more and it
  keeps its worker: no call finds the worker to terminate or detach it, and its ticket of the quota
  pool is never returned.
\<close>

theorem create_over_worker_loses_it:
  assumes w: "w = fold (world_step cfg) ops0 (new_world (new_manager l u mem ws db))"
    and k: "k < length (w_threads w)" "w_threads w ! k = CreateInstall row"
    and r: "mg_index (w_mgr w) (si_id row) = Some r" "\<forall>f \<in> set (w_threads w). points_to f \<noteq> Some r"
    and w': "w' = fold (world_step cfg) (Section k ev # ops) w"
  shows "worker_of r (w_mgr w') = worker_of r (w_mgr w) \<and> (\<forall>i. mg_index (w_mgr w') i \<noteq> Some r) \<and>
    (r \<notin> set (w_settled w) \<longrightarrow> r \<notin> set (w_settled w'))"
proof -
  have "world_inv w" by (simp only: w reachable_inv)
  then have io: "index_ok (w_mgr w)" by (simp add: world_inv_def)
  let ?w = "world_step cfg (Section k ev) w"
  have s: "?w = w\<lparr>w_mgr := install (si_id row) (fresh_managed row) (w_mgr w), w_threads := (w_threads w)[k := Returned Ok]\<rparr>"
    using k by (simp add: run_section_def create_install_def)
  have at: "r < objects (w_mgr w)" "\<And>i. mg_index (w_mgr w) i = Some r \<Longrightarrow> i = si_id row"
    using io r(1) by (auto simp: index_ok_def)
  have "lost_in r ?w"
    unfolding lost_in_def lost_def s using at r(2) set_update_subset_insert [of "w_threads w" k "Returned Ok"] by auto
  moreover have "managed_at r (w_mgr ?w) = managed_at r (w_mgr w)" "w_settled ?w = w_settled w"
    unfolding s by (simp_all add: at)
  ultimately show ?thesis
    using lost_run [of r ?w cfg ops] by (simp add: w' lost_in_def lost_def del: world_step.simps)
qed

theorem create_over_worker_loses_it_witness:
  "worker_of 0 (w_mgr (fold (world_step a_config) (Section 4 (the_env 3) # alone 5 3 (Lookup ''s'' (DoDetach (Some 7))))
     (run_world (two_attached @ alone 4 2 (CreateCall (chat_args ''s'')))))) = Some 7"
proof -
  let ?ops = "two_attached @ alone 4 2 (CreateCall (chat_args ''s''))"
  have "creates (w_threads (run_world ?ops) ! 4) = Some ''s''" by code_simp
  then obtain row where f: "w_threads (run_world ?ops) ! 4 = CreateInstall row" "si_id row = ''s''"
    by (auto dest: creates_Some)
  have g: "length (w_threads (run_world ?ops)) = 5" "mg_index (w_mgr (run_world ?ops)) ''s'' = Some 0"
    "\<forall>f \<in> set (w_threads (run_world ?ops)). points_to f \<noteq> Some 0"
    "worker_of 0 (w_mgr (run_world ?ops)) = Some 7"
    by code_simp+
  show ?thesis
    using create_over_worker_loses_it [OF _ _ f(1) _ g(3) refl, of a_config ?ops 9 9 0 9 empty_sess_db "the_env 3"
        "alone 5 3 (Lookup ''s'' (DoDetach (Some 7)))"] f(2) g(1,2,4)
    by (simp only: start_world_def)
qed

end
