(* ===== verification/Supplements.thy ===== *)
theory Supplements
  imports ExecStore Cron "HOL-Library.AList"
begin

text \<open>
  The buffer for inputs that arrive while a session is busy, \<open>internal/gateway/pending_buffer.go\<close>.
  It has three parts per session: the entries waiting for the end of the turn, the recent client
  message ids with what became of them, and the lifecycle, which is replaced when the session is
  cleared.  Lifecycles and id records are shared by pointer with goroutines that outlive their
  entry in the maps, so they are objects of a store, addressed by their position.  Every function
  is one section under \<open>p.mu\<close>; waiting for the attempt that owns a record is a function of its own.
  \<open>'e\<close> is the type of envelopes, which are only carried along.
\<close>

section \<open>State\<close>

datatype disposition =
    SdNew | SdInjected | SdBuffered | SdQueued | SdNormal | SdConflict | SdCapacity

record 'e pending_entry =
  pe_content :: string
  pe_envelope :: 'e
  pe_received :: instant
  pe_count :: int

type_synonym life_ref = nat
type_synonym rec_ref = nat
type_synonym message_id = string

record pending_lifecycle =
  lf_cancelled :: bool
  lf_in_flight :: int

record supplement_record =
  sr_hash :: string
  sr_state :: disposition
  sr_locked :: bool

record accepted_supplements =
  as_records :: "(message_id \<times> rec_ref) list"
  as_order :: "message_id list"

record 'e pending_buffer =
  pb_items :: "session_id \<Rightarrow> 'e pending_entry list"
  pb_accepted :: "session_id \<Rightarrow> accepted_supplements option"
  pb_lifecycles :: "session_id \<Rightarrow> life_ref option"
  pb_lives :: "pending_lifecycle list"
  pb_records :: "supplement_record list"

record replay_token =
  rt_lifecycle :: "life_ref option"
  rt_count :: int

record supplement_lease =
  sl_session :: session_id
  sl_message :: message_id
  sl_record :: rec_ref

definition max_pending :: int where
  "max_pending = 20"

definition max_accepted :: nat where
  "max_accepted = 128"

definition new_pending_buffer :: "'e pending_buffer" where
  "new_pending_buffer = \<lparr>pb_items = (\<lambda>_. []), pb_accepted = Map.empty, pb_lifecycles = Map.empty,
     pb_lives = [], pb_records = []\<rparr>"

definition ensure_lifecycle :: "session_id \<Rightarrow> 'e pending_buffer \<Rightarrow> 'e pending_buffer" where
  "ensure_lifecycle s p =
     (if pb_lifecycles p s = None
      then p\<lparr>pb_lives := pb_lives p @ [\<lparr>lf_cancelled = False, lf_in_flight = 0\<rparr>],
             pb_lifecycles := (pb_lifecycles p)(s \<mapsto> length (pb_lives p))\<rparr>
      else p)"

section \<open>Client message ids\<close>

text \<open>Drops the oldest committed ids while the set is full.\<close>

fun reclaim :: "message_id list \<Rightarrow> (message_id \<times> rec_ref) list \<Rightarrow> accepted_supplements" where
  "reclaim [] rs = \<lparr>as_records = rs, as_order = []\<rparr>"
| "reclaim (oldest # order) rs =
     (if max_accepted \<le> length rs then reclaim order (AList.delete oldest rs)
      else \<lparr>as_records = rs, as_order = oldest # order\<rparr>)"

text \<open>What a call finds: its own lease, an answer, or a record it has to wait for.\<close>

datatype begin_result = BrLease supplement_lease | BrAnswer disposition | BrWait rec_ref

text \<open>The part of \<open>BeginSupplement\<close> under \<open>p.mu\<close>; the new record is locked by its owner.\<close>

definition begin_supplement ::
    "session_id \<Rightarrow> message_id \<Rightarrow> string \<Rightarrow> 'e pending_buffer \<Rightarrow> 'e pending_buffer \<times> begin_result" where
  "begin_supplement s i hash p0 =
     (let p = ensure_lifecycle s p0;
          set0 = (case pb_accepted p s of Some a \<Rightarrow> a | None \<Rightarrow> \<lparr>as_records = [], as_order = []\<rparr>)
      in case map_of (as_records set0) i of
           Some r \<Rightarrow> (p\<lparr>pb_accepted := (pb_accepted p)(s \<mapsto> set0)\<rparr>, BrWait r)
         | None \<Rightarrow>
             (let a = reclaim (as_order set0) (as_records set0)
              in if max_accepted \<le> length (as_records a)
                 then (p\<lparr>pb_accepted := (pb_accepted p)(s \<mapsto> a)\<rparr>, BrAnswer SdCapacity)
                 else
                   (let r = length (pb_records p)
                    in (p\<lparr>pb_records := pb_records p @ [\<lparr>sr_hash = hash, sr_state = SdNew, sr_locked = True\<rparr>],
                          pb_accepted := (pb_accepted p)(s \<mapsto> a\<lparr>as_records := (i, r) # as_records a\<rparr>)\<rparr>,
                        BrLease \<lparr>sl_session = s, sl_message = i, sl_record = r\<rparr>))))"

text \<open>The part under \<open>record.mu\<close>: blocked while the owner holds it, else an answer or a new try.\<close>

datatype await_result = AwBlocked | AwRetry | AwAnswer disposition

definition await_record :: "rec_ref \<Rightarrow> string \<Rightarrow> 'e pending_buffer \<Rightarrow> await_result" where
  "await_record r hash p =
     (let rec = pb_records p ! r
      in if sr_locked rec then AwBlocked
         else if sr_state rec = SdNew then AwRetry
         else if sr_hash rec \<noteq> hash then AwAnswer SdConflict
         else AwAnswer (sr_state rec))"

definition set_record ::
    "rec_ref \<Rightarrow> (supplement_record \<Rightarrow> supplement_record) \<Rightarrow> 'e pending_buffer \<Rightarrow> 'e pending_buffer" where
  "set_record r f p = p\<lparr>pb_records := (pb_records p)[r := f (pb_records p ! r)]\<rparr>"

text \<open>The commit loop: it drops the oldest ids beyond the bound.\<close>

fun trim_order :: "message_id list \<Rightarrow> (message_id \<times> rec_ref) list \<Rightarrow> accepted_supplements" where
  "trim_order [] rs = \<lparr>as_records = rs, as_order = []\<rparr>"
| "trim_order (oldest # order) rs =
     (if max_accepted < length (oldest # order) then trim_order order (AList.delete oldest rs)
      else \<lparr>as_records = rs, as_order = oldest # order\<rparr>)"

text \<open>Does the session's set still hold this lease's record?\<close>

definition lease_current :: "supplement_lease \<Rightarrow> 'e pending_buffer \<Rightarrow> bool" where
  "lease_current l p \<longleftrightarrow>
     (case pb_accepted p (sl_session l) of
        None \<Rightarrow> False
      | Some a \<Rightarrow> map_of (as_records a) (sl_message l) = Some (sl_record l))"

definition commit_supplement :: "supplement_lease \<Rightarrow> disposition \<Rightarrow> 'e pending_buffer \<Rightarrow> 'e pending_buffer" where
  "commit_supplement l state p =
     (let p1 = (if lease_current l p
                then p\<lparr>pb_accepted := (pb_accepted p)(sl_session l \<mapsto>
                       (let a = the (pb_accepted p (sl_session l))
                        in trim_order (as_order a @ [sl_message l]) (as_records a)))\<rparr>
                else p)
      in set_record (sl_record l) (\<lambda>r. r\<lparr>sr_state := state, sr_locked := False\<rparr>) p1)"

definition abort_supplement :: "supplement_lease \<Rightarrow> 'e pending_buffer \<Rightarrow> 'e pending_buffer" where
  "abort_supplement l p =
     (let p1 = (if lease_current l p
                then
                  (let a = the (pb_accepted p (sl_session l));
                       rs = AList.delete (sl_message l) (as_records a)
                   in p\<lparr>pb_accepted := (pb_accepted p)(sl_session l :=
                        if rs = [] then None else Some (a\<lparr>as_records := rs\<rparr>))\<rparr>)
                else p)
      in set_record (sl_record l) (\<lambda>r. r\<lparr>sr_state := SdNew, sr_locked := False\<rparr>) p1)"

section \<open>Waiting entries\<close>

definition pending_count :: "'e pending_entry list \<Rightarrow> int" where
  "pending_count items = (\<Sum>e \<leftarrow> items. pe_count e)"

definition in_flight_of :: "session_id \<Rightarrow> 'e pending_buffer \<Rightarrow> int" where
  "in_flight_of s p = (case pb_lifecycles p s of Some l \<Rightarrow> lf_in_flight (pb_lives p ! l) | None \<Rightarrow> 0)"

definition append_pending ::
    "instant \<Rightarrow> session_id \<Rightarrow> string \<Rightarrow> 'e \<Rightarrow> 'e pending_buffer \<Rightarrow> 'e pending_buffer \<times> bool" where
  "append_pending now s content env p0 =
     (let p = ensure_lifecycle s p0
      in if max_pending \<le> pending_count (pb_items p s) + in_flight_of s p then (p, False)
         else (p\<lparr>pb_items := (pb_items p)(s := pb_items p s @
                 [\<lparr>pe_content = content, pe_envelope = env, pe_received = now, pe_count = 1\<rparr>])\<rparr>, True))"

definition add_in_flight :: "life_ref option \<Rightarrow> int \<Rightarrow> 'e pending_buffer \<Rightarrow> 'e pending_buffer" where
  "add_in_flight l n p =
     (case l of
        None \<Rightarrow> p
      | Some l \<Rightarrow> p\<lparr>pb_lives := (pb_lives p)[l := (pb_lives p ! l)
           \<lparr>lf_in_flight := lf_in_flight (pb_lives p ! l) + n\<rparr>]\<rparr>)"

text \<open>
  The text of several entries: a header with their number, then one numbered line each; \<open>trim\<close> is
  \<open>strings.TrimSpace\<close>.
\<close>

definition merge_header :: "nat \<Rightarrow> string" where
  "merge_header n =
     [CHR 0xEF, CHR 0xBC, CHR 0x88, CHR 0xE4, CHR 0xBB, CHR 0xA5, CHR 0xE4, CHR 0xB8, CHR 0x8B,
     CHR 0xE6, CHR 0x98, CHR 0xAF, CHR 0xE4, CHR 0xB8, CHR 0x8A, CHR 0xE4, CHR 0xB8, CHR 0x80,
     CHR 0xE8, CHR 0xBD, CHR 0xAE, CHR 0xE6, CHR 0x89, CHR 0xA7, CHR 0xE8, CHR 0xA1, CHR 0x8C,
     CHR 0xE6, CHR 0x9C, CHR 0x9F, CHR 0xE9, CHR 0x97, CHR 0xB4, CHR 0xE8, CHR 0xBF, CHR 0xBD,
     CHR 0xE5, CHR 0x8A, CHR 0xA0, CHR 0xE7, CHR 0x9A, CHR 0x84, CHR 0x20]
     @ dec_digits n @
     [CHR 0x20, CHR 0xE6, CHR 0x9D, CHR 0xA1, CHR 0xE6, CHR 0xB6, CHR 0x88, CHR 0xE6, CHR 0x81,
     CHR 0xAF, CHR 0xEF, CHR 0xBC, CHR 0x8C, CHR 0xE8, CHR 0xAF, CHR 0xB7, CHR 0xE4, CHR 0xB8,
     CHR 0x80, CHR 0xE5, CHR 0xB9, CHR 0xB6, CHR 0xE5, CHR 0xA4, CHR 0x84, CHR 0xE7, CHR 0x90,
     CHR 0x86, CHR 0xEF, CHR 0xBC, CHR 0x89, CHR 0x0A]"

definition merge_line :: "(string \<Rightarrow> string) \<Rightarrow> nat \<times> 'e pending_entry \<Rightarrow> string" where
  "merge_line trim = (\<lambda>(i, e). dec_digits (i + 1) @ ''. '' @ trim (pe_content e) @ [CHR 0x0A])"

definition merged_content :: "(string \<Rightarrow> string) \<Rightarrow> 'e pending_entry list \<Rightarrow> string" where
  "merged_content trim items =
     (case items of
        [e] \<Rightarrow> pe_content e
      | _ \<Rightarrow> merge_header (length items) @ concat (map (merge_line trim) (enumerate 0 items)))"

definition drain_for_replay ::
    "(string \<Rightarrow> string) \<Rightarrow> session_id \<Rightarrow> 'e pending_buffer \<Rightarrow>
       'e pending_buffer \<times> replay_token \<times> (string \<times> 'e) option" where
  "drain_for_replay trim s p =
     (let l = pb_lifecycles p s; items = pb_items p s; p1 = p\<lparr>pb_items := (pb_items p)(s := [])\<rparr>
      in if items = [] then (p1, \<lparr>rt_lifecycle = l, rt_count = 0\<rparr>, None)
         else
           (add_in_flight l (pending_count items) p1,
            \<lparr>rt_lifecycle = l, rt_count = pending_count items\<rparr>,
            Some (merged_content trim items, pe_envelope (last items))))"

definition token_current :: "session_id \<Rightarrow> replay_token \<Rightarrow> 'e pending_buffer \<Rightarrow> bool" where
  "token_current s t p \<longleftrightarrow> rt_lifecycle t \<noteq> None \<and> rt_lifecycle t = pb_lifecycles p s"

definition requeue_if_current ::
    "instant \<Rightarrow> session_id \<Rightarrow> replay_token \<Rightarrow> string \<Rightarrow> 'e \<Rightarrow> 'e pending_buffer \<Rightarrow> 'e pending_buffer \<times> bool" where
  "requeue_if_current now s t content env p =
     (if \<not> token_current s t p then (p, False)
      else
        (let p1 = add_in_flight (rt_lifecycle t) (- rt_count t) p
         in (p1\<lparr>pb_items := (pb_items p1)(s :=
               \<lparr>pe_content = content, pe_envelope = env, pe_received = now, pe_count = rt_count t\<rparr> # pb_items p1 s)\<rparr>, True)))"

definition complete_replay :: "session_id \<Rightarrow> replay_token \<Rightarrow> 'e pending_buffer \<Rightarrow> 'e pending_buffer" where
  "complete_replay s t p =
     (if token_current s t p then add_in_flight (rt_lifecycle t) (- rt_count t) p else p)"

definition drain_and_merge ::
    "(string \<Rightarrow> string) \<Rightarrow> session_id \<Rightarrow> 'e pending_buffer \<Rightarrow> 'e pending_buffer \<times> (string \<times> 'e) option" where
  "drain_and_merge trim s p =
     (case drain_for_replay trim s p of
        (p', t, None) \<Rightarrow> (p', None)
      | (p', t, Some x) \<Rightarrow> (complete_replay s t p', Some x))"

text \<open>The context of a replay, given as whether it is cancelled.\<close>

definition replay_context :: "session_id \<Rightarrow> replay_token \<Rightarrow> 'e pending_buffer \<Rightarrow> bool option" where
  "replay_context s t p =
     (if token_current s t p then Some (lf_cancelled (pb_lives p ! the (rt_lifecycle t))) else None)"

definition cancel_life :: "life_ref \<Rightarrow> 'e pending_buffer \<Rightarrow> 'e pending_buffer" where
  "cancel_life l p = p\<lparr>pb_lives := (pb_lives p)[l := (pb_lives p ! l)\<lparr>lf_cancelled := True\<rparr>]\<rparr>"

definition clear_pending :: "session_id \<Rightarrow> 'e pending_buffer \<Rightarrow> 'e pending_buffer" where
  "clear_pending s p =
     (let p1 = (case pb_lifecycles p s of Some l \<Rightarrow> cancel_life l p | None \<Rightarrow> p)
      in p1\<lparr>pb_items := (pb_items p1)(s := []), pb_accepted := (pb_accepted p1)(s := None),
           pb_lifecycles := (pb_lifecycles p1)(s := None)\<rparr>)"

text \<open>\<open>ClearAll\<close>; \<open>ids\<close> are the sessions the loop over the lifecycles visits.\<close>

definition clear_all_pending :: "session_id list \<Rightarrow> 'e pending_buffer \<Rightarrow> 'e pending_buffer" where
  "clear_all_pending ids p =
     (fold (\<lambda>s p. case pb_lifecycles p s of Some l \<Rightarrow> cancel_life l p | None \<Rightarrow> p) ids p)
       \<lparr>pb_items := (\<lambda>_. []), pb_accepted := Map.empty, pb_lifecycles := Map.empty\<rparr>"

end
