(* ===== verification/SupplementProps.thy ===== *)
theory SupplementProps
  imports Supplements
begin

text \<open>
  The buffer for busy inputs under concurrent use: waiting inputs are bounded and accounted for, a
  client message id is taken once, and what was cleared does not come back.
\<close>

section \<open>Clients of the buffer\<close>

text \<open>
  The goroutines of the gateway: a lease is committed or aborted once by its owner, the token of a
  replay is used once, for its own session.  A handler never commits the state of a fresh record.
\<close>

record 'e supp_world =
  sw_buf :: "'e pending_buffer"
  sw_leases :: "supplement_lease list"
  sw_tokens :: "(session_id \<times> replay_token) list"

datatype 'e supp_op =
    OpBegin session_id message_id string
  | OpCommit nat disposition
  | OpAbort nat
  | OpAppend instant session_id string 'e
  | OpDrain session_id
  | OpMerge session_id
  | OpRequeue nat instant string 'e
  | OpComplete nat
  | OpClear session_id
  | OpClearAll "session_id list"

definition remove_nth :: "nat \<Rightarrow> 'a list \<Rightarrow> 'a list" where
  "remove_nth k xs = take k xs @ drop (Suc k) xs"

fun supp_step :: "(string \<Rightarrow> string) \<Rightarrow> 'e supp_op \<Rightarrow> 'e supp_world \<Rightarrow> 'e supp_world" where
  "supp_step trim (OpBegin s i hash) w =
     (case begin_supplement s i hash (sw_buf w) of
        (p, BrLease l) \<Rightarrow> w\<lparr>sw_buf := p, sw_leases := sw_leases w @ [l]\<rparr>
      | (p, _) \<Rightarrow> w\<lparr>sw_buf := p\<rparr>)"
| "supp_step trim (OpCommit k st) w =
     (if k < length (sw_leases w) \<and> st \<noteq> SdNew
      then w\<lparr>sw_buf := commit_supplement (sw_leases w ! k) st (sw_buf w), sw_leases := remove_nth k (sw_leases w)\<rparr>
      else w)"
| "supp_step trim (OpAbort k) w =
     (if k < length (sw_leases w)
      then w\<lparr>sw_buf := abort_supplement (sw_leases w ! k) (sw_buf w), sw_leases := remove_nth k (sw_leases w)\<rparr>
      else w)"
| "supp_step trim (OpAppend now s c e) w = w\<lparr>sw_buf := fst (append_pending now s c e (sw_buf w))\<rparr>"
| "supp_step trim (OpDrain s) w =
     (case drain_for_replay trim s (sw_buf w) of
        (p, t, None) \<Rightarrow> w\<lparr>sw_buf := p\<rparr>
      | (p, t, Some x) \<Rightarrow> w\<lparr>sw_buf := p, sw_tokens := sw_tokens w @ [(s, t)]\<rparr>)"
| "supp_step trim (OpMerge s) w = w\<lparr>sw_buf := fst (drain_and_merge trim s (sw_buf w))\<rparr>"
| "supp_step trim (OpRequeue k now c e) w =
     (if k < length (sw_tokens w)
      then w\<lparr>sw_buf := fst (requeue_if_current now (fst (sw_tokens w ! k)) (snd (sw_tokens w ! k)) c e (sw_buf w)),
             sw_tokens := remove_nth k (sw_tokens w)\<rparr>
      else w)"
| "supp_step trim (OpComplete k) w =
     (if k < length (sw_tokens w)
      then w\<lparr>sw_buf := complete_replay (fst (sw_tokens w ! k)) (snd (sw_tokens w ! k)) (sw_buf w),
             sw_tokens := remove_nth k (sw_tokens w)\<rparr>
      else w)"
| "supp_step trim (OpClear s) w = w\<lparr>sw_buf := clear_pending s (sw_buf w)\<rparr>"
| "supp_step trim (OpClearAll ids) w = w\<lparr>sw_buf := clear_all_pending ids (sw_buf w)\<rparr>"

definition new_supp_world :: "'e supp_world" where
  "new_supp_world = \<lparr>sw_buf = new_pending_buffer, sw_leases = [], sw_tokens = []\<rparr>"

section \<open>Waiting entries and replays\<close>

text \<open>What the outstanding tokens of a lifecycle still carry.\<close>

definition token_sum :: "life_ref \<Rightarrow> (session_id \<times> replay_token) list \<Rightarrow> int" where
  "token_sum l toks = (\<Sum>(s, t) \<leftarrow> toks. if rt_lifecycle t = Some l then rt_count t else 0)"

lemma token_sum_simps [simp]:
  "token_sum l [] = 0"
  "token_sum l (toks @ toks') = token_sum l toks + token_sum l toks'"
  "token_sum l ((s, t) # toks) = (if rt_lifecycle t = Some l then rt_count t else 0) + token_sum l toks"
  by (simp_all add: token_sum_def)

lemma token_sum_remove:
  assumes "k < length toks"
  shows "token_sum l (remove_nth k toks) =
    token_sum l toks - (if rt_lifecycle (snd (toks ! k)) = Some l then rt_count (snd (toks ! k)) else 0)"
proof -
  have "token_sum l toks = token_sum l (take k toks @ toks ! k # drop (Suc k) toks)"
    by (simp only: id_take_nth_drop [OF assms, symmetric])
  then show ?thesis by (cases "toks ! k") (simp add: remove_nth_def)
qed

lemma set_remove_nth: "set (remove_nth k xs) \<subseteq> set xs"
  unfolding remove_nth_def using set_take_subset set_drop_subset by fastforce

lemma pending_count_simps [simp]:
  "pending_count [] = 0" "pending_count (e # es) = pe_count e + pending_count es"
  "pending_count (es @ es') = pending_count es + pending_count es'"
  by (simp_all add: pending_count_def)

lemma pending_count_pos: "(\<And>e. e \<in> set es \<Longrightarrow> 1 \<le> pe_count e) \<Longrightarrow> int (length es) \<le> pending_count es"
  by (induction es) (auto simp: add_mono)

definition token_ok :: "(session_id \<Rightarrow> life_ref option) \<Rightarrow> nat \<Rightarrow> session_id \<times> replay_token \<Rightarrow> bool" where
  "token_ok life n = (\<lambda>(s, t). 1 \<le> rt_count t \<and> (\<exists>l < n. rt_lifecycle t = Some l) \<and>
     (\<forall>s'. life s' \<noteq> None \<longrightarrow> life s' = rt_lifecycle t \<longrightarrow> s' = s))"

lemma token_ok_mono:
  assumes "token_ok life n x" "n \<le> n'"
    and "\<And>s' l. life' s' = Some l \<Longrightarrow> l < n \<Longrightarrow> life s' = Some l"
  shows "token_ok life' n' x"
  using assms(1,2) assms(3) unfolding token_ok_def by (fastforce split: prod.splits)

definition waiting_inv ::
    "(session_id \<Rightarrow> 'e pending_entry list) \<Rightarrow> (session_id \<Rightarrow> life_ref option) \<Rightarrow> pending_lifecycle list \<Rightarrow>
       (session_id \<times> replay_token) list \<Rightarrow> bool" where
  "waiting_inv items life lives toks \<longleftrightarrow>
     (\<forall>s l. life s = Some l \<longrightarrow> l < length lives \<and> lf_in_flight (lives ! l) = token_sum l toks \<and>
        pending_count (items s) + token_sum l toks \<le> max_pending \<and> (\<forall>s'. life s' = Some l \<longrightarrow> s' = s)) \<and>
     (\<forall>s. life s = None \<longrightarrow> items s = []) \<and>
     (\<forall>s. \<forall>e \<in> set (items s). 1 \<le> pe_count e) \<and>
     (\<forall>x \<in> set toks. token_ok life (length lives) x)"

lemma waitingI:
  assumes "\<And>s l. life s = Some l \<Longrightarrow> l < length lives"
    and "\<And>s l. life s = Some l \<Longrightarrow> lf_in_flight (lives ! l) = token_sum l toks"
    and "\<And>s l. life s = Some l \<Longrightarrow> pending_count (items s) + token_sum l toks \<le> max_pending"
    and "\<And>s s' l. life s = Some l \<Longrightarrow> life s' = Some l \<Longrightarrow> s' = s"
    and "\<And>s. life s = None \<Longrightarrow> items s = []"
    and "\<And>s e. e \<in> set (items s) \<Longrightarrow> 1 \<le> pe_count e"
    and "\<And>x. x \<in> set toks \<Longrightarrow> token_ok life (length lives) x"
  shows "waiting_inv items life lives toks"
  unfolding waiting_inv_def using assms by blast

lemma waitingD:
  assumes "waiting_inv items life lives toks"
  shows "life s = Some l \<Longrightarrow> l < length lives"
    and "life s = Some l \<Longrightarrow> lf_in_flight (lives ! l) = token_sum l toks"
    and "life s = Some l \<Longrightarrow> pending_count (items s) + token_sum l toks \<le> max_pending"
    and "life s = Some l \<Longrightarrow> life s' = Some l \<Longrightarrow> s' = s"
    and "life s = None \<Longrightarrow> items s = []"
    and "e \<in> set (items s) \<Longrightarrow> 1 \<le> pe_count e"
    and "x \<in> set toks \<Longrightarrow> token_ok life (length lives) x"
  using assms unfolding waiting_inv_def by blast+

lemma token_sum_fresh: "\<forall>x \<in> set toks. rt_lifecycle (snd x) \<noteq> Some n \<Longrightarrow> token_sum n toks = 0"
  by (induction toks) auto

lemma waiting_life:
  assumes inv: "waiting_inv items life lives toks" and s: "life s = None"
  shows "waiting_inv items (life(s \<mapsto> length lives)) (lives @ [\<lparr>lf_cancelled = False, lf_in_flight = 0\<rparr>]) toks"
proof -
  note D = waitingD [OF inv]
  have tok: "rt_lifecycle (snd x) \<noteq> Some (length lives)" if "x \<in> set toks" for x
    using D(7) [OF that] by (auto simp: token_ok_def split: prod.splits)
  have fresh: "token_sum (length lives) toks = 0" using tok by (intro token_sum_fresh) simp
  have old: "life s' \<noteq> Some (length lives)" for s' using D(1) [of s' "length lives"] by auto
  show ?thesis
  proof (rule waitingI, goal_cases)
    case (1 s' l) then show ?case using D(1) by (auto split: if_splits intro: less_SucI)
  next
    case (2 s' l) then show ?case using D(1,2) by (auto simp: nth_append fresh split: if_splits)
  next
    case (3 s' l) then show ?case using D(1,3) D(5) [OF s] fresh by (auto simp: max_pending_def split: if_splits)
  next
    case (4 s' s'' l) then show ?case using D(4) old by (auto split: if_splits)
  next
    case (5 s') then show ?case using D(5) by (auto split: if_splits)
  next
    case (6 s' e) then show ?case by (rule D(6))
  next
    case (7 x)
    show ?case by (rule token_ok_mono [OF D(7) [OF 7]]) (auto split: if_splits)
  qed
qed

lemma waiting_append:
  assumes inv: "waiting_inv items life lives toks" and s: "life s = Some l" "pe_count e = 1"
    and room: "pending_count (items s) + lf_in_flight (lives ! l) < max_pending"
  shows "waiting_inv (items(s := items s @ [e])) life lives toks"
  by (rule waitingI) (use waitingD [OF inv] s room in \<open>auto split: if_splits\<close>)

lemma waiting_drain:
  assumes inv: "waiting_inv items life lives toks" and s: "life s = Some l" "items s \<noteq> []"
  shows "waiting_inv (items(s := [])) life
    (lives[l := (lives ! l)\<lparr>lf_in_flight := lf_in_flight (lives ! l) + pending_count (items s)\<rparr>])
    (toks @ [(s, \<lparr>rt_lifecycle = Some l, rt_count = pending_count (items s)\<rparr>)])"
proof -
  note D = waitingD [OF inv]
  have "int (length (items s)) \<le> pending_count (items s)" by (intro pending_count_pos D(6))
  then have c: "1 \<le> pending_count (items s)" using s(2) by (cases "items s") auto
  have same: "s' = s" if "life s' = Some l" for s' using D(4) [OF s(1) that] .
  show ?thesis
  proof (rule waitingI, goal_cases)
    case (2 s' l') then show ?case using D(1,2) by (auto simp: nth_list_update)
  next
    case (3 s' l')
    show ?case
    proof (cases "s' = s")
      case True
      then show ?thesis using D(3) [OF s(1)] 3 s(1) by simp
    next
      case False
      then have "l' \<noteq> l" using same [of s'] 3 by blast
      then show ?thesis using D(3) [OF 3] False by simp
    qed
  next
    case (7 x)
    have "token_ok life (length lives) (s, \<lparr>rt_lifecycle = Some l, rt_count = pending_count (items s)\<rparr>)"
      using D(1) [OF s(1)] c same by (simp add: token_ok_def)
    with 7 D(7) [of x] show ?case by auto
  next
    case (1 s' l') then show ?case using D(1) by simp
  next
    case (4 s' s'' l') then show ?case using D(4) by simp
  next
    case (5 s') then show ?case using D(5) by simp
  next
    case (6 s' e) then show ?case using D(6) by (simp split: if_splits)
  qed
qed

lemma waiting_give_back:
  assumes inv: "waiting_inv items life lives toks" and k: "k < length toks" "toks ! k = (s, t)"
    and t: "rt_lifecycle t = Some l" "life s = Some l"
    and items: "\<forall>s'. s' \<noteq> s \<longrightarrow> items' s' = items s'" "set (items' s) \<subseteq> insert e (set (items s))"
      "pe_count e = rt_count t" "pending_count (items' s) \<le> pending_count (items s) + rt_count t"
  shows "waiting_inv items' life (lives[l := (lives ! l)\<lparr>lf_in_flight := lf_in_flight (lives ! l) - rt_count t\<rparr>]) (remove_nth k toks)"
proof -
  note D = waitingD [OF inv]
  have m: "(s, t) \<in> set toks" using k nth_mem [OF k(1)] by simp
  have sum: "token_sum l' (remove_nth k toks) = token_sum l' toks - (if l' = l then rt_count t else 0)" for l'
    using token_sum_remove [OF k(1), of l'] k(2) t by auto
  have c: "1 \<le> rt_count t" using D(7) [OF m] by (simp add: token_ok_def)
  show ?thesis
  proof (rule waitingI, goal_cases)
    case (2 s' l') then show ?case using D(1,2) by (auto simp: nth_list_update sum)
  next
    case (3 s' l')
    then show ?case using D(3) [OF 3] items t(2) D(4) [OF 3, of s] by (cases "s' = s") (auto simp: sum)
  next
    case (5 s')
    then have "s' \<noteq> s" using t(2) by auto
    then show ?case using D(5) [OF 5] items(1) by simp
  next
    case (6 s' x) then show ?case using D(6) c items by (cases "s' = s") auto
  next
    case (7 x)
    then have "x \<in> set toks" using set_remove_nth by fast
    then show ?case using D(7) by simp
  qed (use D in auto)
qed

lemma waiting_drop_token:
  assumes inv: "waiting_inv items life lives toks" and k: "k < length toks" "toks ! k = (s, t)"
    and t: "rt_lifecycle t \<noteq> life s"
  shows "waiting_inv items life lives (remove_nth k toks)"
proof -
  note D = waitingD [OF inv]
  have m: "(s, t) \<in> set toks" using k nth_mem [OF k(1)] by simp
  have sum: "token_sum l (remove_nth k toks) = token_sum l toks" if "life s' = Some l" for s' l
    using token_sum_remove [OF k(1), of l] k(2) t D(7) [OF m] that by (auto simp: token_ok_def)
  show ?thesis
  proof (rule waitingI, goal_cases)
    case (2 s' l) then show ?case using D(2) sum by simp
  next
    case (3 s' l) then show ?case using D(3) sum by simp
  next
    case (7 x)
    then have "x \<in> set toks" using set_remove_nth by fast
    then show ?case using D(7) by simp
  qed (use D in auto)
qed

lemma waiting_clear:
  assumes "waiting_inv items life lives toks"
  shows "waiting_inv (items(s := [])) (life(s := None)) lives toks"
proof (rule waitingI, goal_cases)
  case (7 x)
  show ?case by (rule token_ok_mono [OF waitingD(7) [OF assms 7]]) (auto split: if_splits)
qed (use waitingD [OF assms] in \<open>auto split: if_splits\<close>)

lemma waiting_cancel:
  assumes "waiting_inv items life lives toks"
  shows "waiting_inv items life (lives[l := (lives ! l)\<lparr>lf_cancelled := True\<rparr>]) toks"
proof (rule waitingI, goal_cases)
  case (2 s' l')
  then show ?case using waitingD(1,2) [OF assms, of s' l'] by (cases "l' = l") auto
qed (use waitingD [OF assms] in auto)

lemma waiting_clear_all:
  assumes "waiting_inv items life lives toks"
  shows "waiting_inv (\<lambda>_. []) Map.empty lives toks"
proof (rule waitingI, goal_cases)
  case (7 x)
  show ?case by (rule token_ok_mono [OF waitingD(7) [OF assms 7]]) auto
qed auto

definition buffer_waiting :: "'e pending_buffer \<Rightarrow> (session_id \<times> replay_token) list \<Rightarrow> bool" where
  "buffer_waiting p toks \<longleftrightarrow> waiting_inv (pb_items p) (pb_lifecycles p) (pb_lives p) toks"

lemma ensure_lifecycle_sel [simp]:
  "pb_items (ensure_lifecycle s p) = pb_items p" "pb_accepted (ensure_lifecycle s p) = pb_accepted p"
  "pb_records (ensure_lifecycle s p) = pb_records p" "pb_lifecycles (ensure_lifecycle s p) s \<noteq> None"
  by (auto simp: ensure_lifecycle_def)

lemma ensure_waiting: "buffer_waiting p toks \<Longrightarrow> buffer_waiting (ensure_lifecycle s p) toks"
  unfolding buffer_waiting_def by (simp add: ensure_lifecycle_def waiting_life)

lemma begin_waiting: "buffer_waiting p toks \<Longrightarrow> buffer_waiting (fst (begin_supplement s i hash p)) toks"
  using ensure_waiting [of p toks s]
  by (simp add: begin_supplement_def buffer_waiting_def Let_def split: option.split)

lemma set_record_sel [simp]:
  "pb_items (set_record r f p) = pb_items p" "pb_lifecycles (set_record r f p) = pb_lifecycles p"
  "pb_lives (set_record r f p) = pb_lives p" "pb_accepted (set_record r f p) = pb_accepted p"
  by (simp_all add: set_record_def)

lemma commit_waiting: "buffer_waiting p toks \<Longrightarrow> buffer_waiting (commit_supplement l st p) toks"
  by (simp add: commit_supplement_def buffer_waiting_def Let_def)

lemma abort_waiting: "buffer_waiting p toks \<Longrightarrow> buffer_waiting (abort_supplement l p) toks"
  by (simp add: abort_supplement_def buffer_waiting_def Let_def)

lemma append_waiting:
  assumes "buffer_waiting p0 toks"
  shows "buffer_waiting (fst (append_pending now s content env p0)) toks"
proof -
  let ?p = "ensure_lifecycle s p0"
  have w: "buffer_waiting ?p toks" by (rule ensure_waiting [OF assms])
  obtain l where l: "pb_lifecycles ?p s = Some l" using ensure_lifecycle_sel(4) by blast
  show ?thesis
    using w waiting_append [OF w [unfolded buffer_waiting_def] l]
    by (auto simp: append_pending_def Let_def buffer_waiting_def in_flight_of_def l)
qed

lemma drain_waiting:
  assumes "buffer_waiting p toks" "drain_for_replay trim s p = (p', t, x)"
  shows "buffer_waiting p' (if x = None then toks else toks @ [(s, t)])"
    and "x \<noteq> None \<Longrightarrow> \<exists>l. pb_lifecycles p' s = Some l \<and> rt_lifecycle t = Some l"
proof -
  note w = assms(1) [unfolded buffer_waiting_def]
  have empty: "pb_items p s = [] \<Longrightarrow> (pb_items p)(s := []) = pb_items p" by auto
  obtain l where l: "pb_lifecycles p s = Some l" if "pb_items p s \<noteq> []"
    using waitingD(5) [OF w, of s] by (cases "pb_lifecycles p s") auto
  show "buffer_waiting p' (if x = None then toks else toks @ [(s, t)])"
    using assms(2) w waiting_drain [OF w l] l
    by (auto simp: drain_for_replay_def Let_def buffer_waiting_def add_in_flight_def empty split: if_splits)
  show "\<exists>l. pb_lifecycles p' s = Some l \<and> rt_lifecycle t = Some l" if "x \<noteq> None"
    using assms(2) that l by (auto simp: drain_for_replay_def Let_def add_in_flight_def split: if_splits)
qed

lemma requeue_waiting:
  assumes "buffer_waiting p toks" "k < length toks" "toks ! k = (s, t)"
  shows "buffer_waiting (fst (requeue_if_current now s t c e p)) (remove_nth k toks)"
proof (cases "token_current s t p")
  case True
  then obtain l where l: "rt_lifecycle t = Some l" "pb_lifecycles p s = Some l"
    by (cases "rt_lifecycle t") (auto simp: token_current_def)
  let ?e = "\<lparr>pe_content = c, pe_envelope = e, pe_received = now, pe_count = rt_count t\<rparr>"
  have "waiting_inv ((pb_items p)(s := ?e # pb_items p s)) (pb_lifecycles p)
      ((pb_lives p)[l := (pb_lives p ! l)\<lparr>lf_in_flight := lf_in_flight (pb_lives p ! l) - rt_count t\<rparr>]) (remove_nth k toks)"
    by (rule waiting_give_back [OF assms(1) [unfolded buffer_waiting_def] assms(2,3) l, where e = ?e]) auto
  then show ?thesis using True l by (simp add: requeue_if_current_def buffer_waiting_def add_in_flight_def Let_def)
next
  case False
  have "waiting_inv (pb_items p) (pb_lifecycles p) (pb_lives p) toks" using assms(1) by (simp add: buffer_waiting_def)
  moreover have "rt_lifecycle t \<noteq> None"
    using waitingD(7) [OF calculation, of "(s, t)"] nth_mem [OF assms(2)] assms(3) by (auto simp: token_ok_def)
  ultimately show ?thesis
    using waiting_drop_token [OF _ assms(2,3)] False by (auto simp: requeue_if_current_def buffer_waiting_def token_current_def)
qed

lemma complete_waiting:
  assumes "buffer_waiting p toks" "k < length toks" "toks ! k = (s, t)"
  shows "buffer_waiting (complete_replay s t p) (remove_nth k toks)"
proof (cases "token_current s t p")
  case True
  then obtain l where l: "rt_lifecycle t = Some l" "pb_lifecycles p s = Some l"
    by (cases "rt_lifecycle t") (auto simp: token_current_def)
  have w: "waiting_inv (pb_items p) (pb_lifecycles p) (pb_lives p) toks" using assms(1) by (simp add: buffer_waiting_def)
  have "1 \<le> rt_count t" using waitingD(7) [OF w, of "(s, t)"] nth_mem [OF assms(2)] assms(3) by (auto simp: token_ok_def)
  then have "waiting_inv (pb_items p) (pb_lifecycles p)
      ((pb_lives p)[l := (pb_lives p ! l)\<lparr>lf_in_flight := lf_in_flight (pb_lives p ! l) - rt_count t\<rparr>]) (remove_nth k toks)"
    by (intro waiting_give_back [OF w assms(2,3) l,
          where e = "\<lparr>pe_content = c, pe_envelope = e, pe_received = n, pe_count = rt_count t\<rparr>" for c e n]) auto
  then show ?thesis using True l by (simp add: complete_replay_def buffer_waiting_def add_in_flight_def)
next
  case False
  then show ?thesis
    using requeue_waiting [OF assms, of 0 "[]" undefined] by (simp add: complete_replay_def requeue_if_current_def)
qed

lemma merge_waiting: "buffer_waiting p toks \<Longrightarrow> buffer_waiting (fst (drain_and_merge trim s p)) toks"
proof (cases "drain_for_replay trim s p")
  case (fields p' t x)
  assume inv: "buffer_waiting p toks"
  have "remove_nth (length toks) (toks @ [(s, t)]) = toks" by (simp add: remove_nth_def)
  then show ?thesis
    using drain_waiting(1) [OF inv fields] complete_waiting [of p' "toks @ [(s, t)]" "length toks" s t]
    by (cases x) (simp_all add: drain_and_merge_def fields)
qed

lemma cancel_waiting: "buffer_waiting p toks \<Longrightarrow> buffer_waiting (cancel_life l p) toks"
  using waiting_cancel by (simp add: cancel_life_def buffer_waiting_def)

lemma clear_waiting: "buffer_waiting p toks \<Longrightarrow> buffer_waiting (clear_pending s p) toks"
proof -
  define p1 where "p1 = (case pb_lifecycles p s of Some l \<Rightarrow> cancel_life l p | None \<Rightarrow> p)"
  assume "buffer_waiting p toks"
  then have "buffer_waiting p1 toks" by (simp add: p1_def cancel_waiting split: option.split)
  then show ?thesis
    unfolding clear_pending_def p1_def [symmetric] Let_def by (simp add: buffer_waiting_def waiting_clear)
qed

lemma clear_all_waiting:
  assumes "buffer_waiting p toks"
  shows "buffer_waiting (clear_all_pending ids p) toks"
proof -
  let ?c = "\<lambda>s p. case pb_lifecycles p s of Some l \<Rightarrow> cancel_life l p | None \<Rightarrow> p"
  have "buffer_waiting (fold ?c ids p) toks"
    using assms cancel_waiting by (induction ids arbitrary: p) (auto split: option.split)
  then show ?thesis
    using waiting_clear_all by (auto simp: clear_all_pending_def buffer_waiting_def)
qed

definition entries_inv :: "'e supp_world \<Rightarrow> bool" where
  "entries_inv w \<longleftrightarrow> buffer_waiting (sw_buf w) (sw_tokens w)"

lemma supp_step_entries: "entries_inv w \<Longrightarrow> entries_inv (supp_step trim op w)"
proof (cases op)
  case (OpBegin s i hash)
  assume "entries_inv w"
  then show ?thesis
    using begin_waiting [of "sw_buf w" "sw_tokens w" s i hash]
    by (cases "begin_supplement s i hash (sw_buf w)")
      (simp add: OpBegin entries_inv_def split: begin_result.split)
next
  case (OpDrain s)
  assume inv: "entries_inv w"
  obtain p t x where d: "drain_for_replay trim s (sw_buf w) = (p, t, x)" by (metis prod_cases3)
  show ?thesis
    using drain_waiting(1) [OF inv [unfolded entries_inv_def] d]
    by (cases x) (simp_all add: OpDrain d entries_inv_def)
qed (auto simp: entries_inv_def commit_waiting abort_waiting append_waiting merge_waiting clear_waiting clear_all_waiting
      requeue_waiting complete_waiting)

interpretation pending_entries: invariant_machine "supp_step trim" entries_inv
  by unfold_locales (rule supp_step_entries)

lemma new_supp_entries: "entries_inv new_supp_world"
  by (simp add: entries_inv_def buffer_waiting_def new_supp_world_def new_pending_buffer_def waiting_inv_def)

text \<open>
  C16. Busy inputs are bounded and none is lost.  For goroutines that use the token of a replay
  once, whatever is appended, drained, requeued, completed and cleared in any order: the entries
  that wait for a session and those of its replays under way are together at most 20 inputs, the
  counter of inputs in flight is exactly what the outstanding tokens carry, so it returns to zero
  when all replays have ended, and a session without a lifecycle has nothing waiting.
\<close>

theorem pending_inputs_bounded:
  assumes "w = fold (supp_step trim) ops new_supp_world"
  shows "pending_count (pb_items (sw_buf w) s) + in_flight_of s (sw_buf w) \<le> 20 \<and>
    int (length (pb_items (sw_buf w) s)) \<le> 20 \<and>
    in_flight_of s (sw_buf w) = (\<Sum>(s', t) \<leftarrow> sw_tokens w. if token_current s t (sw_buf w) then rt_count t else 0) \<and>
    (pb_lifecycles (sw_buf w) s = None \<longrightarrow> pb_items (sw_buf w) s = [])"
proof -
  have "entries_inv w" unfolding assms by (rule pending_entries.run_inv [OF new_supp_entries])
  then have inv: "waiting_inv (pb_items (sw_buf w)) (pb_lifecycles (sw_buf w)) (pb_lives (sw_buf w)) (sw_tokens w)"
    by (simp add: entries_inv_def buffer_waiting_def)
  note D = waitingD [OF inv]
  let ?b = "sw_buf w"
  have len: "int (length (pb_items ?b s)) \<le> pending_count (pb_items ?b s)" by (intro pending_count_pos D(6))
  show ?thesis
  proof (cases "pb_lifecycles ?b s")
    case None
    then have "\<not> token_current s t ?b" for t by (auto simp: token_current_def)
    then show ?thesis using D(5) [OF None] None by (simp add: in_flight_of_def case_prod_unfold)
  next
    case (Some l)
    have pos: "0 \<le> token_sum l toks" if "set toks \<subseteq> set (sw_tokens w)" for toks
      using that
    proof (induction toks)
      case (Cons x toks)
      then show ?case using D(7) [of x] by (cases x) (auto simp: token_ok_def)
    qed simp
    have cond: "token_current s t ?b \<longleftrightarrow> rt_lifecycle t = Some l" for t
      by (auto simp: token_current_def Some)
    show ?thesis
      using D(2,3) [OF Some] len pos [OF subset_refl]
      by (simp add: in_flight_of_def Some cond max_pending_def) (simp add: token_sum_def)
  qed
qed

theorem pending_inputs_bounded_witness:
  "pending_count (pb_items (sw_buf (fold (supp_step id) [OpAppend 1 ''s'' ''a'' (), OpAppend 2 ''s'' ''b'' (), OpDrain ''s'',
     OpAppend 3 ''s'' ''c'' (), OpRequeue 0 4 ''ab'' ()] new_supp_world)) ''s'') \<le> 20"
  using pending_inputs_bounded [OF refl, of id "[OpAppend 1 ''s'' ''a'' (), OpAppend 2 ''s'' ''b'' (), OpDrain ''s'',
     OpAppend 3 ''s'' ''c'' (), OpRequeue 0 4 ''ab'' ()]" "''s''"]
  by code_simp

section \<open>Client message ids\<close>

lemma delete_facts:
  assumes "distinct (map fst rs)"
  shows "distinct (map fst (AList.delete k rs))"
    and "fst ` set (AList.delete k rs) = fst ` set rs - {k}"
    and "map_of (AList.delete k rs) i = (if i = k then None else map_of rs i)"
    and "k \<in> fst ` set rs \<Longrightarrow> length (AList.delete k rs) = length rs - 1"
    and "(i, r) \<in> set (AList.delete k rs) \<longleftrightarrow> (i, r) \<in> set rs \<and> i \<noteq> k"
proof -
  show d: "distinct (map fst (AList.delete k rs))" using assms by (rule AList.distinct_delete)
  show f: "fst ` set (AList.delete k rs) = fst ` set rs - {k}" by (auto simp: AList.delete_eq)
  show "map_of (AList.delete k rs) i = (if i = k then None else map_of rs i)" by (simp add: AList.delete_conv)
  show "length (AList.delete k rs) = length rs - 1" if "k \<in> fst ` set rs"
  proof -
    have n: "length xs = card (fst ` set xs)" if "distinct (map fst xs)" for xs :: "('a \<times> 'b) list"
      using distinct_card [OF that] by simp
    show ?thesis using n [OF d] n [OF assms] that by (simp add: f card_Diff_singleton)
  qed
  show "(i, r) \<in> set (AList.delete k rs) \<longleftrightarrow> (i, r) \<in> set rs \<and> i \<noteq> k" by (auto simp: AList.delete_eq)
qed

definition set_ok :: "accepted_supplements \<Rightarrow> bool" where
  "set_ok a \<longleftrightarrow> distinct (map fst (as_records a)) \<and> distinct (as_order a) \<and>
     set (as_order a) \<subseteq> fst ` set (as_records a) \<and> length (as_records a) \<le> max_accepted"

lemma order_short: "set_ok a \<Longrightarrow> length (as_order a) \<le> length (as_records a)"
proof -
  assume a: "set_ok a"
  have "length (as_order a) = card (set (as_order a))" using a by (simp add: set_ok_def distinct_card)
  also have "\<dots> \<le> card (fst ` set (as_records a))" using a by (intro card_mono) (auto simp: set_ok_def)
  also have "\<dots> \<le> length (as_records a)" by (metis card_image_le card_length finite_set le_trans)
  finally show ?thesis .
qed

text \<open>A full set gives up its oldest committed id, and one only.\<close>

lemma reclaim_spec:
  assumes "set_ok a"
  shows "reclaim (as_order a) (as_records a) =
    (if max_accepted \<le> length (as_records a) \<and> as_order a \<noteq> []
     then \<lparr>as_records = AList.delete (hd (as_order a)) (as_records a), as_order = tl (as_order a)\<rparr> else a)"
proof (cases "as_order a")
  case (Cons k ks)
  have "length (AList.delete k (as_records a)) = length (as_records a) - 1"
    using assms by (intro delete_facts) (auto simp: set_ok_def Cons)
  moreover have "length (as_records a) \<le> 128" using assms by (simp add: set_ok_def max_accepted_def)
  ultimately have "length (AList.delete k (as_records a)) < max_accepted"
    unfolding max_accepted_def by linarith
  then have "reclaim ks (AList.delete k (as_records a)) = \<lparr>as_records = AList.delete k (as_records a), as_order = ks\<rparr>"
    by (cases ks) simp_all
  then show ?thesis by (simp add: Cons)
qed simp

lemma reclaim_ok:
  assumes "set_ok a"
  shows "set_ok (reclaim (as_order a) (as_records a))"
proof (cases "max_accepted \<le> length (as_records a) \<and> as_order a \<noteq> []")
  case True
  then obtain k ks where k: "as_order a = k # ks" by (cases "as_order a") auto
  have "length (AList.delete k (as_records a)) \<le> length (as_records a)" by (rule AList.length_delete_le)
  then have "set_ok \<lparr>as_records = AList.delete k (as_records a), as_order = ks\<rparr>"
    using assms delete_facts(1,2) [of "as_records a" k] by (auto simp: set_ok_def k)
  moreover have "reclaim (as_order a) (as_records a) = \<lparr>as_records = AList.delete k (as_records a), as_order = ks\<rparr>"
    by (subst reclaim_spec [OF assms]) (use True in \<open>simp add: k\<close>)
  ultimately show ?thesis by (simp only:)
next
  case False
  then have "reclaim (as_order a) (as_records a) = a" by (subst reclaim_spec [OF assms]) auto
  then show ?thesis using assms by (simp only:)
qed

lemma trim_short: "length ks \<le> max_accepted \<Longrightarrow> trim_order ks rs = \<lparr>as_records = rs, as_order = ks\<rparr>"
  by (cases ks) simp_all

definition ids_ok :: "'e pending_buffer \<Rightarrow> supplement_lease list \<Rightarrow> bool" where
  "ids_ok p leases \<longleftrightarrow>
     (\<forall>s a. pb_accepted p s = Some a \<longrightarrow> set_ok a) \<and>
     (\<forall>l \<in> set leases. sl_record l < length (pb_records p) \<and> sr_locked (pb_records p ! sl_record l)) \<and>
     distinct (map sl_record leases) \<and>
     (\<forall>s a i r. pb_accepted p s = Some a \<longrightarrow> (i, r) \<in> set (as_records a) \<longrightarrow>
        r < length (pb_records p) \<and>
        (if i \<in> set (as_order a) then \<not> sr_locked (pb_records p ! r) \<and> sr_state (pb_records p ! r) \<noteq> SdNew
         else \<lparr>sl_session = s, sl_message = i, sl_record = r\<rparr> \<in> set leases))"

lemma ids_okD:
  assumes "ids_ok p leases"
  shows "pb_accepted p s = Some a \<Longrightarrow> set_ok a"
    and "l \<in> set leases \<Longrightarrow> sl_record l < length (pb_records p)"
    and "l \<in> set leases \<Longrightarrow> sr_locked (pb_records p ! sl_record l)"
    and "distinct (map sl_record leases)"
    and "pb_accepted p s = Some a \<Longrightarrow> (i, r) \<in> set (as_records a) \<Longrightarrow> r < length (pb_records p)"
    and "pb_accepted p s = Some a \<Longrightarrow> (i, r) \<in> set (as_records a) \<Longrightarrow> i \<in> set (as_order a) \<Longrightarrow>
          \<not> sr_locked (pb_records p ! r) \<and> sr_state (pb_records p ! r) \<noteq> SdNew"
    and "pb_accepted p s = Some a \<Longrightarrow> (i, r) \<in> set (as_records a) \<Longrightarrow> i \<notin> set (as_order a) \<Longrightarrow>
          \<lparr>sl_session = s, sl_message = i, sl_record = r\<rparr> \<in> set leases"
  using assms unfolding ids_ok_def by (auto split: if_splits)

lemma ids_okI:
  assumes "\<And>s a. pb_accepted p s = Some a \<Longrightarrow> set_ok a"
    and "\<And>l. l \<in> set leases \<Longrightarrow> sl_record l < length (pb_records p) \<and> sr_locked (pb_records p ! sl_record l)"
    and "distinct (map sl_record leases)"
    and "\<And>s a i r. pb_accepted p s = Some a \<Longrightarrow> (i, r) \<in> set (as_records a) \<Longrightarrow> r < length (pb_records p) \<and>
        (if i \<in> set (as_order a) then \<not> sr_locked (pb_records p ! r) \<and> sr_state (pb_records p ! r) \<noteq> SdNew
         else \<lparr>sl_session = s, sl_message = i, sl_record = r\<rparr> \<in> set leases)"
  shows "ids_ok p leases"
  unfolding ids_ok_def using assms by blast

text \<open>Buffers that agree on the ids.\<close>

lemma ids_ok_same:
  "pb_accepted p' = pb_accepted p \<Longrightarrow> pb_records p' = pb_records p \<Longrightarrow> ids_ok p leases \<Longrightarrow> ids_ok p' leases"
  by (simp add: ids_ok_def)

definition accepted_of :: "session_id \<Rightarrow> 'e pending_buffer \<Rightarrow> accepted_supplements" where
  "accepted_of s p = (case pb_accepted p s of Some a \<Rightarrow> a | None \<Rightarrow> \<lparr>as_records = [], as_order = []\<rparr>)"

lemma accepted_ok: "ids_ok p leases \<Longrightarrow> set_ok (accepted_of s p)"
  by (cases "pb_accepted p s") (simp_all add: accepted_of_def ids_okD(1), simp add: set_ok_def)

lemma accepted_of_ensure [simp]: "accepted_of s (ensure_lifecycle s' p) = accepted_of s p"
  by (simp add: accepted_of_def)

definition reclaimed :: "session_id \<Rightarrow> 'e pending_buffer \<Rightarrow> accepted_supplements" where
  "reclaimed s p = reclaim (as_order (accepted_of s p)) (as_records (accepted_of s p))"

lemma begin_cases:
  obtains (wait) r where "map_of (as_records (accepted_of s p)) i = Some r"
      "pb_accepted (fst (begin_supplement s i h p)) = (pb_accepted p)(s \<mapsto> accepted_of s p)"
      "pb_records (fst (begin_supplement s i h p)) = pb_records p" "snd (begin_supplement s i h p) = BrWait r"
  | (full) "map_of (as_records (accepted_of s p)) i = None" "max_accepted \<le> length (as_records (reclaimed s p))"
      "pb_accepted (fst (begin_supplement s i h p)) = (pb_accepted p)(s \<mapsto> reclaimed s p)"
      "pb_records (fst (begin_supplement s i h p)) = pb_records p" "snd (begin_supplement s i h p) = BrAnswer SdCapacity"
  | (lease) "map_of (as_records (accepted_of s p)) i = None" "length (as_records (reclaimed s p)) < max_accepted"
      "pb_accepted (fst (begin_supplement s i h p)) = (pb_accepted p)(s \<mapsto>
         (reclaimed s p)\<lparr>as_records := (i, length (pb_records p)) # as_records (reclaimed s p)\<rparr>)"
      "pb_records (fst (begin_supplement s i h p)) = pb_records p @ [\<lparr>sr_hash = h, sr_state = SdNew, sr_locked = True\<rparr>]"
      "snd (begin_supplement s i h p) = BrLease \<lparr>sl_session = s, sl_message = i, sl_record = length (pb_records p)\<rparr>"
  by (cases "map_of (as_records (accepted_of s p)) i"; cases "max_accepted \<le> length (as_records (reclaimed s p))")
    (simp_all add: begin_supplement_def Let_def accepted_of_def [symmetric] reclaimed_def del: reclaim.simps)

lemma accepted_entry:
  assumes inv: "ids_ok p leases" and e: "(i, r) \<in> set (as_records (accepted_of s p))"
  shows "r < length (pb_records p) \<and>
    (if i \<in> set (as_order (accepted_of s p)) then \<not> sr_locked (pb_records p ! r) \<and> sr_state (pb_records p ! r) \<noteq> SdNew
     else \<lparr>sl_session = s, sl_message = i, sl_record = r\<rparr> \<in> set leases)"
  using e ids_okD(5-7) [OF inv] by (cases "pb_accepted p s") (auto simp: accepted_of_def)

lemma reclaimed_entry:
  assumes inv: "ids_ok p leases" and e: "(i, r) \<in> set (as_records (reclaimed s p))"
  shows "(i, r) \<in> set (as_records (accepted_of s p))"
    and "i \<in> set (as_order (reclaimed s p)) \<longleftrightarrow> i \<in> set (as_order (accepted_of s p))"
proof -
  have ok: "set_ok (accepted_of s p)" by (rule accepted_ok [OF inv])
  then have d: "distinct (map fst (as_records (accepted_of s p)))" "distinct (as_order (accepted_of s p))"
    by (simp_all add: set_ok_def)
  have eq: "reclaimed s p = (if max_accepted \<le> length (as_records (accepted_of s p)) \<and> as_order (accepted_of s p) \<noteq> []
     then \<lparr>as_records = AList.delete (hd (as_order (accepted_of s p))) (as_records (accepted_of s p)),
           as_order = tl (as_order (accepted_of s p))\<rparr> else accepted_of s p)"
    unfolding reclaimed_def by (rule reclaim_spec [OF ok])
  show "(i, r) \<in> set (as_records (accepted_of s p))"
    using e unfolding eq by (auto simp: delete_facts(5) [OF d(1)] split: if_splits)
  show "i \<in> set (as_order (reclaimed s p)) \<longleftrightarrow> i \<in> set (as_order (accepted_of s p))"
    using e d(2) unfolding eq
    by (cases "as_order (accepted_of s p)") (auto simp: delete_facts(5) [OF d(1)] split: if_splits)
qed

lemma ids_ok_set:
  assumes inv: "ids_ok p leases" and ok: "set_ok a"
    and e: "\<And>i r. (i, r) \<in> set (as_records a) \<Longrightarrow> (i, r) \<in> set (as_records (accepted_of s p)) \<and>
      (i \<in> set (as_order a) \<longleftrightarrow> i \<in> set (as_order (accepted_of s p)))"
    and p': "pb_accepted p' = (pb_accepted p)(s \<mapsto> a)" "pb_records p' = pb_records p"
  shows "ids_ok p' leases"
proof (rule ids_okI)
  fix s' b i r assume b: "pb_accepted p' s' = Some b" "(i, r) \<in> set (as_records b)"
  show "r < length (pb_records p') \<and> (if i \<in> set (as_order b)
      then \<not> sr_locked (pb_records p' ! r) \<and> sr_state (pb_records p' ! r) \<noteq> SdNew
      else \<lparr>sl_session = s', sl_message = i, sl_record = r\<rparr> \<in> set leases)"
  proof (cases "s' = s")
    case True
    then have "b = a" using b(1) by (simp add: p')
    then show ?thesis using accepted_entry [OF inv, of i r s] e [of i r] b(2) True by (simp add: p')
  next
    case False
    then show ?thesis using ids_okD(5-7) [OF inv, of s' b i r] b by (simp add: p')
  qed
qed (use inv ok p' in \<open>auto simp: ids_ok_def split: if_splits\<close>)

lemma begin_ids:
  assumes inv: "ids_ok p leases"
  shows "ids_ok (fst (begin_supplement s i h p))
    (case snd (begin_supplement s i h p) of BrLease l \<Rightarrow> leases @ [l] | _ \<Rightarrow> leases)"
proof (cases rule: begin_cases [of s p i h])
  case (wait r)
  then show ?thesis using ids_ok_set [OF inv accepted_ok [OF inv], of s s "fst (begin_supplement s i h p)"] by simp
next
  case full
  have "set_ok (reclaimed s p)" unfolding reclaimed_def by (rule reclaim_ok [OF accepted_ok [OF inv]])
  then show ?thesis using ids_ok_set [OF inv _ _ full(3,4)] reclaimed_entry [OF inv] full(5) by simp
next
  case lease
  let ?l = "\<lparr>sl_session = s, sl_message = i, sl_record = length (pb_records p)\<rparr>"
  have ok: "set_ok (reclaimed s p)" unfolding reclaimed_def by (rule reclaim_ok [OF accepted_ok [OF inv]])
  have new: "i \<notin> fst ` set (as_records (reclaimed s p))"
    using lease(1) reclaimed_entry(1) [OF inv, of i] by (force simp: map_of_eq_None_iff)
  have "ids_ok (fst (begin_supplement s i h p)) (leases @ [?l])"
  proof (rule ids_okI)
    fix s' a assume "pb_accepted (fst (begin_supplement s i h p)) s' = Some a"
    then show "set_ok a"
      using ids_okD(1) [OF inv, of s' a] ok new lease(2) by (auto simp: lease(3) set_ok_def split: if_splits)
  next
    fix l assume "l \<in> set (leases @ [?l])"
    then show "sl_record l < length (pb_records (fst (begin_supplement s i h p))) \<and>
        sr_locked (pb_records (fst (begin_supplement s i h p)) ! sl_record l)"
      using ids_okD(2,3) [OF inv, of l] by (auto simp: lease(4) nth_append)
  next
    show "distinct (map sl_record (leases @ [?l]))"
      using ids_okD(4) [OF inv] ids_okD(2) [OF inv] by fastforce
  next
    fix s' a j r assume a: "pb_accepted (fst (begin_supplement s i h p)) s' = Some a" "(j, r) \<in> set (as_records a)"
    show "r < length (pb_records (fst (begin_supplement s i h p))) \<and>
        (if j \<in> set (as_order a)
         then \<not> sr_locked (pb_records (fst (begin_supplement s i h p)) ! r) \<and>
           sr_state (pb_records (fst (begin_supplement s i h p)) ! r) \<noteq> SdNew
         else \<lparr>sl_session = s', sl_message = j, sl_record = r\<rparr> \<in> set (leases @ [?l]))"
    proof (cases "s' = s")
      case False
      then show ?thesis using a ids_okD(5-7) [OF inv, of s' a j r] by (auto simp: lease(3,4) nth_append)
    next
      case True
      then have a': "as_order a = as_order (reclaimed s p)" "as_records a = (i, length (pb_records p)) # as_records (reclaimed s p)"
        using a(1) by (auto simp: lease(3))
      show ?thesis
      proof (cases "(j, r) = (i, length (pb_records p))")
        case True
        then show ?thesis using ok new \<open>s' = s\<close> by (auto simp: a' set_ok_def lease(4))
      next
        case False
        then have "(j, r) \<in> set (as_records (reclaimed s p))" using a(2) a'(2) by auto
        then show ?thesis
          using reclaimed_entry [OF inv, of j r s] accepted_entry [OF inv, of j r s] \<open>s' = s\<close>
          by (auto simp: a' lease(4) nth_append)
      qed
    qed
  qed
  then show ?thesis by (simp add: lease(5))
qed

lemma lease_entry:
  assumes inv: "ids_ok p leases" and l: "l \<in> set leases"
    and e: "pb_accepted p s = Some a" "(i, sl_record l) \<in> set (as_records a)"
  shows "s = sl_session l \<and> i = sl_message l \<and> i \<notin> set (as_order a)"
proof -
  have n: "i \<notin> set (as_order a)" using ids_okD(3,6) [OF inv] l e by blast
  then have "\<lparr>sl_session = s, sl_message = i, sl_record = sl_record l\<rparr> \<in> set leases"
    using ids_okD(7) [OF inv e] by simp
  then have "\<lparr>sl_session = s, sl_message = i, sl_record = sl_record l\<rparr> = l"
    using ids_okD(4) [OF inv] l by (auto simp: distinct_map inj_on_def)
  then show ?thesis using n by (cases l) auto
qed

lemma leases_without:
  assumes "ids_ok p leases" "k < length leases"
  shows "set (remove_nth k leases) = set leases - {leases ! k}" "distinct (map sl_record (remove_nth k leases))"
    "l \<in> set (remove_nth k leases) \<Longrightarrow> sl_record l \<noteq> sl_record (leases ! k)"
proof -
  have m: "leases = take k leases @ leases ! k # drop (Suc k) leases" using id_take_nth_drop [OF assms(2)] .
  have "distinct (map sl_record (take k leases @ leases ! k # drop (Suc k) leases))"
    using ids_okD(4) [OF assms(1)] m by simp
  then have d: "distinct (map sl_record (take k leases @ drop (Suc k) leases))"
      "sl_record (leases ! k) \<notin> sl_record ` set (take k leases @ drop (Suc k) leases)"
    by auto
  show "distinct (map sl_record (remove_nth k leases))" using d(1) by (simp only: remove_nth_def)
  show o: "sl_record l \<noteq> sl_record (leases ! k)" if "l \<in> set (remove_nth k leases)" for l
    using d(2) imageI [OF that [unfolded remove_nth_def], of sl_record] by metis
  have "set leases = insert (leases ! k) (set (remove_nth k leases))"
    by (subst m) (auto simp: remove_nth_def)
  then show "set (remove_nth k leases) = set leases - {leases ! k}" using o by auto
qed

lemma other_entry:
  assumes inv: "ids_ok p leases" and k: "k < length leases"
    and e: "pb_accepted p s = Some a" "(i, r) \<in> set (as_records a)" and r: "r \<noteq> sl_record (leases ! k)"
  shows "if i \<in> set (as_order a) then \<not> sr_locked (pb_records p ! r) \<and> sr_state (pb_records p ! r) \<noteq> SdNew
    else \<lparr>sl_session = s, sl_message = i, sl_record = r\<rparr> \<in> set (remove_nth k leases)"
proof (cases "i \<in> set (as_order a)")
  case True
  then show ?thesis using ids_okD(6) [OF inv e] by simp
next
  case False
  then have "\<lparr>sl_session = s, sl_message = i, sl_record = r\<rparr> \<in> set leases" by (rule ids_okD(7) [OF inv e])
  moreover have "\<lparr>sl_session = s, sl_message = i, sl_record = r\<rparr> \<noteq> leases ! k" using r by (cases "leases ! k") auto
  ultimately show ?thesis using False by (simp add: leases_without(1) [OF inv k])
qed

lemma commit_set:
  assumes inv: "ids_ok p leases" and l: "l \<in> set leases" "lease_current l p" and a: "pb_accepted p (sl_session l) = Some a"
  shows "trim_order (as_order a @ [sl_message l]) (as_records a) = a\<lparr>as_order := as_order a @ [sl_message l]\<rparr>"
    and "set_ok (a\<lparr>as_order := as_order a @ [sl_message l]\<rparr>)"
proof -
  have e: "(sl_message l, sl_record l) \<in> set (as_records a)"
    using l(2) a by (auto simp: lease_current_def dest: map_of_SomeD)
  have n: "sl_message l \<notin> set (as_order a)" using lease_entry [OF inv l(1) a e] by simp
  have "sl_message l \<in> fst ` set (as_records a)" using e by force
  then show ok: "set_ok (a\<lparr>as_order := as_order a @ [sl_message l]\<rparr>)"
    using ids_okD(1) [OF inv a] n by (simp add: set_ok_def)
  have "length (as_order a @ [sl_message l]) \<le> max_accepted"
    using order_short [OF ok] ok by (simp add: set_ok_def)
  then show "trim_order (as_order a @ [sl_message l]) (as_records a) = a\<lparr>as_order := as_order a @ [sl_message l]\<rparr>"
    by (cases a) (simp only: trim_short accepted_supplements.simps)
qed

lemma commit_accepted:
  assumes inv: "ids_ok p leases" and l: "l \<in> set leases"
  shows "pb_accepted (commit_supplement l st p) s =
    (if s = sl_session l \<and> lease_current l p
     then map_option (\<lambda>a. a\<lparr>as_order := as_order a @ [sl_message l]\<rparr>) (pb_accepted p s) else pb_accepted p s)"
proof (cases "lease_current l p")
  case True
  then obtain a where a: "pb_accepted p (sl_session l) = Some a" by (auto simp: lease_current_def split: option.splits)
  show ?thesis
    using commit_set(1) [OF inv l True a] True a by (simp add: commit_supplement_def Let_def)
qed (simp add: commit_supplement_def Let_def)

lemma finish_records:
  "pb_records (commit_supplement l st p) = (pb_records p)
     [sl_record l := (pb_records p ! sl_record l)\<lparr>sr_state := st, sr_locked := False\<rparr>]"
  "pb_records (abort_supplement l p) = (pb_records p)
     [sl_record l := (pb_records p ! sl_record l)\<lparr>sr_state := SdNew, sr_locked := False\<rparr>]"
  by (simp_all add: commit_supplement_def abort_supplement_def set_record_def Let_def)

lemma commit_ids:
  assumes inv: "ids_ok p leases" and k: "k < length leases" and st: "st \<noteq> SdNew"
  shows "ids_ok (commit_supplement (leases ! k) st p) (remove_nth k leases)"
proof (rule ids_okI)
  let ?l = "leases ! k" and ?p = "commit_supplement (leases ! k) st p"
  have l: "?l \<in> set leases" using k by simp
  note acc = commit_accepted [OF inv l] and rec = finish_records(1) and D = ids_okD [OF inv]
  fix s a assume a: "pb_accepted ?p s = Some a"
  obtain a0 where a0: "pb_accepted p s = Some a0"
      "a = (if s = sl_session ?l \<and> lease_current ?l p then a0\<lparr>as_order := as_order a0 @ [sl_message ?l]\<rparr> else a0)"
    using a by (auto simp: acc split: if_splits)
  show "set_ok a" using a0 commit_set(2) [OF inv l] D(1) [OF a0(1)] by auto
  fix i r assume e: "(i, r) \<in> set (as_records a)"
  then have e0: "(i, r) \<in> set (as_records a0)" by (simp add: a0(2) split: if_splits)
  have lt: "r < length (pb_records p)" by (rule D(5) [OF a0(1) e0])
  show "r < length (pb_records ?p) \<and> (if i \<in> set (as_order a)
      then \<not> sr_locked (pb_records ?p ! r) \<and> sr_state (pb_records ?p ! r) \<noteq> SdNew
      else \<lparr>sl_session = s, sl_message = i, sl_record = r\<rparr> \<in> set (remove_nth k leases))"
  proof (cases "r = sl_record ?l")
    case True
    have same: "s = sl_session ?l" "i = sl_message ?l" using lease_entry [OF inv l a0(1)] e0 True by simp_all
    have "distinct (map fst (as_records a0))" using D(1) [OF a0(1)] by (simp add: set_ok_def)
    then have "lease_current ?l p"
      using a0(1) e0 same True by (simp add: lease_current_def)
    then show ?thesis using lt st by (simp add: a0(2) same rec True)
  next
    case False
    have i: "i \<in> set (as_order a) \<longleftrightarrow> i \<in> set (as_order a0)"
    proof (cases "s = sl_session ?l \<and> lease_current ?l p \<and> i = sl_message ?l")
      case True
      then have "map_of (as_records a0) i = Some (sl_record ?l)" using a0(1) by (simp add: lease_current_def)
      moreover have "map_of (as_records a0) i = Some r"
        using e0 D(1) [OF a0(1)] by (simp add: set_ok_def)
      ultimately show ?thesis using False by simp
    qed (auto simp: a0(2))
    show ?thesis using other_entry [OF inv k a0(1) e0 False] lt False by (simp add: i rec)
  qed
next
  fix l assume l: "l \<in> set (remove_nth k leases)"
  then have "l \<in> set leases" "sl_record l \<noteq> sl_record (leases ! k)"
    using leases_without(1,3) [OF inv k] by blast+
  then show "sl_record l < length (pb_records (commit_supplement (leases ! k) st p)) \<and>
      sr_locked (pb_records (commit_supplement (leases ! k) st p) ! sl_record l)"
    using ids_okD(2,3) [OF inv, of l] by (simp add: finish_records)
qed (rule leases_without(2) [OF inv k])

lemma abort_ids:
  assumes inv: "ids_ok p leases" and k: "k < length leases"
  shows "ids_ok (abort_supplement (leases ! k) p) (remove_nth k leases)"
proof (rule ids_okI)
  let ?l = "leases ! k" and ?p = "abort_supplement (leases ! k) p"
  have l: "?l \<in> set leases" using k by simp
  note rec = finish_records(2) and D = ids_okD [OF inv]
  fix s a assume a: "pb_accepted ?p s = Some a"
  obtain a0 where a0: "pb_accepted p s = Some a0"
      "a = (if s = sl_session ?l \<and> lease_current ?l p then a0\<lparr>as_records := AList.delete (sl_message ?l) (as_records a0)\<rparr> else a0)"
    using a by (auto simp: abort_supplement_def Let_def lease_current_def split: if_splits option.splits)
  have d: "distinct (map fst (as_records a0))" using D(1) [OF a0(1)] by (simp add: set_ok_def)
  have n: "sl_message ?l \<notin> set (as_order a0)" if "s = sl_session ?l" "lease_current ?l p"
    using lease_entry [OF inv l a0(1), of "sl_message ?l"] that a0(1) by (auto simp: lease_current_def dest: map_of_SomeD)
  show "set_ok a"
    using D(1) [OF a0(1)] n AList.length_delete_le [of "sl_message ?l" "as_records a0"]
    by (auto simp: a0(2) set_ok_def delete_facts(1,2) [OF d])
  fix i r assume e: "(i, r) \<in> set (as_records a)"
  then have e0: "(i, r) \<in> set (as_records a0)" by (auto simp: a0(2) delete_facts(5) [OF d] split: if_splits)
  have lt: "r < length (pb_records p)" by (rule D(5) [OF a0(1) e0])
  have i: "as_order a = as_order a0" by (simp add: a0(2))
  have r': "r \<noteq> sl_record ?l"
  proof
    assume r: "r = sl_record ?l"
    have same: "s = sl_session ?l" "i = sl_message ?l" using lease_entry [OF inv l a0(1)] e0 r by simp_all
    have "lease_current ?l p" using a0(1) e0 same r d by (simp add: lease_current_def)
    then show False using e same by (simp add: a0(2) delete_facts(5) [OF d])
  qed
  show "r < length (pb_records ?p) \<and> (if i \<in> set (as_order a)
      then \<not> sr_locked (pb_records ?p ! r) \<and> sr_state (pb_records ?p ! r) \<noteq> SdNew
      else \<lparr>sl_session = s, sl_message = i, sl_record = r\<rparr> \<in> set (remove_nth k leases))"
    using other_entry [OF inv k a0(1) e0 r'] lt r' by (simp add: i rec)
next
  fix l assume l: "l \<in> set (remove_nth k leases)"
  then have "l \<in> set leases" "sl_record l \<noteq> sl_record (leases ! k)"
    using leases_without(1,3) [OF inv k] by blast+
  then show "sl_record l < length (pb_records (abort_supplement (leases ! k) p)) \<and>
      sr_locked (pb_records (abort_supplement (leases ! k) p) ! sl_record l)"
    using ids_okD(2,3) [OF inv, of l] by (simp add: finish_records)
qed (rule leases_without(2) [OF inv k])

lemma ids_ok_fewer:
  assumes "ids_ok p leases" "\<And>s a. pb_accepted p' s = Some a \<Longrightarrow> pb_accepted p s = Some a" "pb_records p' = pb_records p"
  shows "ids_ok p' leases"
proof (rule ids_okI)
  fix s a assume "pb_accepted p' s = Some a"
  then have a: "pb_accepted p s = Some a" by (rule assms(2))
  show "set_ok a" by (rule ids_okD(1) [OF assms(1) a])
  fix i r assume "(i, r) \<in> set (as_records a)"
  then show "r < length (pb_records p') \<and>
        (if i \<in> set (as_order a) then \<not> sr_locked (pb_records p' ! r) \<and> sr_state (pb_records p' ! r) \<noteq> SdNew
         else \<lparr>sl_session = s, sl_message = i, sl_record = r\<rparr> \<in> set leases)"
    using ids_okD(5-7) [OF assms(1) a, of i r] by (simp add: assms(3))
qed (use ids_okD(2-4) [OF assms(1)] assms(3) in simp_all)

lemma entries_ids [simp]:
  "pb_accepted (fst (append_pending now s c e p)) = pb_accepted p" "pb_records (fst (append_pending now s c e p)) = pb_records p"
  "pb_accepted (add_in_flight l n p) = pb_accepted p" "pb_records (add_in_flight l n p) = pb_records p"
  "pb_accepted (fst (requeue_if_current now s t c e p)) = pb_accepted p"
  "pb_records (fst (requeue_if_current now s t c e p)) = pb_records p"
  "pb_accepted (complete_replay s t p) = pb_accepted p" "pb_records (complete_replay s t p) = pb_records p"
  "pb_accepted (fst (drain_for_replay trim s p)) = pb_accepted p" "pb_records (fst (drain_for_replay trim s p)) = pb_records p"
proof -
  show a: "pb_accepted (add_in_flight l n p) = pb_accepted p" "pb_records (add_in_flight l n p) = pb_records p" for l n p
    by (simp_all add: add_in_flight_def split: option.split)
  show "pb_accepted (fst (append_pending now s c e p)) = pb_accepted p" "pb_records (fst (append_pending now s c e p)) = pb_records p"
    by (simp_all add: append_pending_def Let_def)
  show "pb_accepted (fst (requeue_if_current now s t c e p)) = pb_accepted p"
    "pb_records (fst (requeue_if_current now s t c e p)) = pb_records p"
    "pb_accepted (complete_replay s t p) = pb_accepted p" "pb_records (complete_replay s t p) = pb_records p"
    "pb_accepted (fst (drain_for_replay trim s p)) = pb_accepted p" "pb_records (fst (drain_for_replay trim s p)) = pb_records p"
    by (simp_all add: requeue_if_current_def complete_replay_def drain_for_replay_def Let_def a)
qed

lemma merge_ids [simp]:
  "pb_accepted (fst (drain_and_merge trim s p)) = pb_accepted p" "pb_records (fst (drain_and_merge trim s p)) = pb_records p"
proof -
  obtain p' t x where d: "drain_for_replay trim s p = (p', t, x)" by (metis prod_cases3)
  then have "pb_accepted p' = pb_accepted p" "pb_records p' = pb_records p"
    using entries_ids(9,10) [of trim s p] by simp_all
  then show "pb_accepted (fst (drain_and_merge trim s p)) = pb_accepted p"
    "pb_records (fst (drain_and_merge trim s p)) = pb_records p"
    by (cases x; simp add: drain_and_merge_def d)+
qed

lemma clear_ids:
  "pb_accepted (clear_pending s p) = (pb_accepted p)(s := None)" "pb_records (clear_pending s p) = pb_records p"
  by (simp_all add: clear_pending_def Let_def cancel_life_def split: option.split)

lemma clear_all_ids:
  "pb_accepted (clear_all_pending ids p) = Map.empty" "pb_records (clear_all_pending ids p) = pb_records p"
proof -
  have "pb_records (fold (\<lambda>s p. case pb_lifecycles p s of Some l \<Rightarrow> cancel_life l p | None \<Rightarrow> p) ids p) = pb_records p"
    by (induction ids arbitrary: p) (simp_all add: cancel_life_def split: option.split)
  then show "pb_accepted (clear_all_pending ids p) = Map.empty" "pb_records (clear_all_pending ids p) = pb_records p"
    by (simp_all add: clear_all_pending_def)
qed

definition ids_inv :: "'e supp_world \<Rightarrow> bool" where
  "ids_inv w \<longleftrightarrow> ids_ok (sw_buf w) (sw_leases w)"

lemma supp_step_ids: "ids_inv w \<Longrightarrow> ids_inv (supp_step trim op w)"
proof (cases op)
  case (OpBegin s i hash)
  assume "ids_inv w"
  then show ?thesis
    using begin_ids [of "sw_buf w" "sw_leases w" s i hash]
    by (cases "begin_supplement s i hash (sw_buf w)") (simp add: OpBegin ids_inv_def split: begin_result.splits)
next
  case (OpDrain s)
  assume inv: "ids_inv w"
  obtain p t x where d: "drain_for_replay trim s (sw_buf w) = (p, t, x)" by (metis prod_cases3)
  have "ids_ok p (sw_leases w)"
    by (rule ids_ok_same [OF _ _ inv [unfolded ids_inv_def]])
      (use entries_ids(9,10) [of trim s "sw_buf w"] in \<open>simp_all add: d\<close>)
  then show ?thesis by (cases x) (simp_all add: OpDrain d ids_inv_def)
next
  case (OpClear s)
  assume "ids_inv w"
  then show ?thesis
    by (auto simp: OpClear ids_inv_def clear_ids elim!: ids_ok_fewer split: if_splits)
next
  case (OpClearAll ids)
  assume "ids_inv w"
  then show ?thesis by (auto simp: OpClearAll ids_inv_def clear_all_ids elim!: ids_ok_fewer)
qed (auto simp: ids_inv_def commit_ids abort_ids elim!: ids_ok_same [rotated -1])

interpretation supplement_ids: invariant_machine "supp_step trim" ids_inv
  by unfold_locales (rule supp_step_ids)

lemma new_supp_ids: "ids_inv new_supp_world"
  by (simp add: ids_inv_def ids_ok_def new_supp_world_def new_pending_buffer_def)

text \<open>
  The answer \<open>st\<close> of id \<open>i\<close> is on record, with at most \<open>n\<close> ids that are younger.
\<close>

definition answered ::
    "session_id \<Rightarrow> message_id \<Rightarrow> rec_ref \<Rightarrow> string \<Rightarrow> disposition \<Rightarrow> nat \<Rightarrow> 'e pending_buffer \<Rightarrow> bool" where
  "answered s i r h st n p \<longleftrightarrow>
     (\<exists>a xs ys. pb_accepted p s = Some a \<and> as_order a = xs @ i # ys \<and> map_of (as_records a) i = Some r \<and>
        r < length (pb_records p) \<and> pb_records p ! r = \<lparr>sr_hash = h, sr_state = st, sr_locked = False\<rparr> \<and>
        length (as_records a) \<le> length xs + 1 + n)"

fun clears :: "session_id \<Rightarrow> 'e supp_op \<Rightarrow> bool" where
  "clears s (OpClear s') = (s' = s)"
| "clears s (OpClearAll ids) = True"
| "clears s op = False"

fun begins :: "session_id \<Rightarrow> 'e supp_op \<Rightarrow> nat" where
  "begins s (OpBegin s' i h) = (if s' = s then 1 else 0)"
| "begins s op = 0"

lemma answered_same:
  "answered s i r h st n p \<Longrightarrow> pb_accepted p' s = pb_accepted p s \<Longrightarrow> pb_records p' = pb_records p \<Longrightarrow> answered s i r h st n p'"
  by (simp add: answered_def)

lemma answered_begin:
  assumes inv: "ids_ok p leases" and ans: "answered s i r h st n p" and n: "s' = s \<Longrightarrow> n < 127"
  shows "answered s i r h st (n + (if s' = s then 1 else 0)) (fst (begin_supplement s' j h' p))"
proof -
  obtain a xs ys where a: "pb_accepted p s = Some a" "as_order a = xs @ i # ys" "map_of (as_records a) i = Some r"
      "r < length (pb_records p)" "pb_records p ! r = \<lparr>sr_hash = h, sr_state = st, sr_locked = False\<rparr>"
      "length (as_records a) \<le> length xs + 1 + n"
    using ans by (auto simp: answered_def)
  have ok: "set_ok a" by (rule ids_okD(1) [OF inv a(1)])
  have acc: "accepted_of s p = a" using a(1) by (simp add: accepted_of_def)
  have rec: "\<exists>xs ys. as_order (reclaimed s p) = xs @ i # ys \<and> map_of (as_records (reclaimed s p)) i = Some r \<and>
      length (as_records (reclaimed s p)) \<le> length xs + 1 + n" if s: "s' = s"
  proof (cases "max_accepted \<le> length (as_records a)")
    case True
    then have "xs \<noteq> []" using a(6) n [OF s] by (auto simp: max_accepted_def)
    then obtain x xs' where xs: "xs = x # xs'" by (cases xs) auto
    have eq: "reclaimed s p = \<lparr>as_records = AList.delete x (as_records a), as_order = xs' @ i # ys\<rparr>"
      unfolding reclaimed_def acc by (subst reclaim_spec [OF ok]) (use True in \<open>simp add: a(2) xs\<close>)
    have d: "distinct (map fst (as_records a))" "x \<noteq> i" "x \<in> fst ` set (as_records a)"
      using ok a(2) xs by (auto simp: set_ok_def)
    show ?thesis
      unfolding eq using a(3,6) d(2) delete_facts(3,4) [OF d(1)] d(3) by (intro exI [of _ xs'] exI [of _ ys]) (simp add: xs)
  next
    case False
    then have "reclaimed s p = a" unfolding reclaimed_def acc by (subst reclaim_spec [OF ok]) simp
    then show ?thesis using a by auto
  qed
  show ?thesis
  proof (cases "s' = s")
    case False
    then have "pb_accepted (fst (begin_supplement s' j h' p)) s = Some a \<and>
        r < length (pb_records (fst (begin_supplement s' j h' p))) \<and>
        pb_records (fst (begin_supplement s' j h' p)) ! r = pb_records p ! r"
      using a by (cases rule: begin_cases [of s' p j h']) (simp_all add: nth_append)
    then show ?thesis
      unfolding answered_def using a False by (intro exI [of _ a] exI [of _ xs] exI [of _ ys]) simp
  next
    case True
    show ?thesis
    proof (cases rule: begin_cases [of s' p j h'])
      case (wait r')
      then show ?thesis using a by (auto simp: answered_def True acc)
    next
      case full
      then show ?thesis using a(4,5) rec [OF True] by (auto simp: answered_def True)
    next
      case lease
      have "j \<noteq> i" using lease(1) a(3) by (auto simp: True acc)
      then show ?thesis using lease a(4,5) rec [OF True] by (auto simp: answered_def True nth_append)
    qed
  qed
qed

lemma answered_commit:
  assumes inv: "ids_ok p leases" and ans: "answered s i r h st n p" and l: "l \<in> set leases"
  shows "answered s i r h st n (commit_supplement l st' p)"
proof -
  obtain a xs ys where a: "pb_accepted p s = Some a" "as_order a = xs @ i # ys" "map_of (as_records a) i = Some r"
      "r < length (pb_records p)" "pb_records p ! r = \<lparr>sr_hash = h, sr_state = st, sr_locked = False\<rparr>"
      "length (as_records a) \<le> length xs + 1 + n"
    using ans by (auto simp: answered_def)
  have r: "r \<noteq> sl_record l" using ids_okD(3) [OF inv l] a(5) by auto
  show ?thesis
    unfolding answered_def commit_accepted [OF inv l] finish_records
    using a r by (cases "s = sl_session l \<and> lease_current l p") auto
qed

lemma answered_abort:
  assumes inv: "ids_ok p leases" and ans: "answered s i r h st n p" and l: "l \<in> set leases"
  shows "answered s i r h st n (abort_supplement l p)"
proof -
  obtain a xs ys where a: "pb_accepted p s = Some a" "as_order a = xs @ i # ys" "map_of (as_records a) i = Some r"
      "r < length (pb_records p)" "pb_records p ! r = \<lparr>sr_hash = h, sr_state = st, sr_locked = False\<rparr>"
      "length (as_records a) \<le> length xs + 1 + n"
    using ans by (auto simp: answered_def)
  have r: "r \<noteq> sl_record l" using ids_okD(3) [OF inv l] a(5) by auto
  have rec: "pb_records (abort_supplement l p) ! r = pb_records p ! r" "length (pb_records (abort_supplement l p)) = length (pb_records p)"
    using r by (simp_all add: finish_records)
  show ?thesis
  proof (cases "s = sl_session l \<and> lease_current l p")
    case True
    then have m: "(sl_message l, sl_record l) \<in> set (as_records a)"
      using a(1) by (auto simp: lease_current_def dest: map_of_SomeD)
    have "sl_message l \<notin> set (as_order a)" using lease_entry [OF inv l a(1) m] by simp
    then have i: "sl_message l \<noteq> i" using a(2) by auto
    have d: "distinct (map fst (as_records a))" using ids_okD(1) [OF inv a(1)] by (simp add: set_ok_def)
    have mi: "map_of (AList.delete (sl_message l) (as_records a)) i = Some r"
      using a(3) i by (simp add: delete_facts(3) [OF d])
    then have "AList.delete (sl_message l) (as_records a) \<noteq> []" by auto
    then have "pb_accepted (abort_supplement l p) s = Some (a\<lparr>as_records := AList.delete (sl_message l) (as_records a)\<rparr>)"
      using True a(1) by (simp add: abort_supplement_def Let_def)
    then show ?thesis
      using a mi rec AList.length_delete_le [of "sl_message l" "as_records a"] by (auto simp: answered_def)
  next
    case False
    then have "pb_accepted (abort_supplement l p) s = pb_accepted p s"
      by (auto simp: abort_supplement_def Let_def)
    then show ?thesis using a rec by (auto simp: answered_def)
  qed
qed

lemma answered_step:
  assumes inv: "ids_inv w" and ans: "answered s i r h st n (sw_buf w)" and n: "n + begins s op \<le> 127" and c: "\<not> clears s op"
  shows "answered s i r h st (n + begins s op) (sw_buf (supp_step trim op w))"
proof (cases op)
  case (OpBegin s' j h')
  then show ?thesis
    using answered_begin [OF inv [unfolded ids_inv_def] ans, of s' j h'] n
    by (cases "begin_supplement s' j h' (sw_buf w)"; cases "s' = s") (simp_all split: begin_result.split)
next
  case (OpDrain s')
  obtain p t x where d: "drain_for_replay trim s' (sw_buf w) = (p, t, x)" by (metis prod_cases3)
  have "answered s i r h st n p"
    by (rule answered_same [OF ans]) (use entries_ids(9,10) [of trim s' "sw_buf w"] in \<open>simp_all add: d\<close>)
  then show ?thesis by (cases x) (simp_all add: OpDrain d)
next
  case (OpCommit k st')
  then show ?thesis using answered_commit [OF inv [unfolded ids_inv_def] ans] ans by simp
next
  case (OpAbort k)
  then show ?thesis using answered_abort [OF inv [unfolded ids_inv_def] ans] ans by simp
qed (use ans c in \<open>auto simp: clear_ids elim!: answered_same\<close>)

lemma answered_run:
  assumes "ids_inv w" "answered s i r h st n (sw_buf w)" "n + sum_list (map (begins s) ops) \<le> 127" "\<forall>op \<in> set ops. \<not> clears s op"
  shows "answered s i r h st (n + sum_list (map (begins s) ops)) (sw_buf (fold (supp_step trim) ops w))"
  using assms
proof (induction ops arbitrary: w n)
  case (Cons op ops)
  have "answered s i r h st (n + begins s op) (sw_buf (supp_step trim op w))"
    using answered_step [OF Cons.prems(1,2)] Cons.prems(3,4) by simp
  then have "answered s i r h st ((n + begins s op) + sum_list (map (begins s) ops))
      (sw_buf (fold (supp_step trim) ops (supp_step trim op w)))"
    using Cons.prems(3,4) by (intro Cons.IH [OF supp_step_ids [OF Cons.prems(1)]]) simp_all
  then show ?case by (simp add: add.assoc)
qed simp

text \<open>
  C15. A busy input is taken once.  When the attempt that owns a client message id has committed
  what became of the input, every retry of the id is answered from the record: the same payload
  with the same disposition, another payload with a conflict, and no retry becomes the owner of a
  new attempt - whatever else is begun, committed, aborted, appended or replayed, each attempt
  being ended once by its owner - until the session is cleared or its memory of 128 ids is
  exhausted: the attempts of the session that are open beside this one when it commits and those
  that begin later may together be 127.
\<close>

theorem supplement_answered_once:
  assumes w: "w = fold (supp_step trim) ops0 new_supp_world"
    and k: "k < length (sw_leases w)" "l = sw_leases w ! k" "lease_current l (sw_buf w)" "st \<noteq> SdNew"
    and w': "w' = fold (supp_step trim) (OpCommit k st # ops) w" "\<forall>op \<in> set ops. \<not> clears (sl_session l) op"
    and few: "length (as_records (accepted_of (sl_session l) (sw_buf w))) + sum_list (map (begins (sl_session l)) ops)
      \<le> length (as_order (accepted_of (sl_session l) (sw_buf w))) + 128"
  shows "snd (begin_supplement (sl_session l) (sl_message l) hash (sw_buf w')) = BrWait (sl_record l) \<and>
    await_record (sl_record l) hash (sw_buf w') =
      AwAnswer (if hash = sr_hash (pb_records (sw_buf w) ! sl_record l) then st else SdConflict)"
proof -
  have inv: "ids_inv w" unfolding w by (rule supplement_ids.run_inv [OF new_supp_ids])
  let ?p = "sw_buf w" and ?s = "sl_session l" and ?i = "sl_message l" and ?r = "sl_record l"
  let ?h = "sr_hash (pb_records ?p ! ?r)"
  have i: "ids_ok ?p (sw_leases w)" and m: "l \<in> set (sw_leases w)" using inv k by (simp_all add: ids_inv_def)
  obtain a where a: "pb_accepted ?p ?s = Some a" "map_of (as_records a) ?i = Some ?r"
    using k(3) by (auto simp: lease_current_def split: option.splits)
  define n where "n = length (as_records a) - (length (as_order a) + 1)"
  have acc: "accepted_of ?s ?p = a" by (simp add: accepted_of_def a(1))
  have "length (as_records a) \<le> length (as_order a) + 1 + n" by (simp add: n_def)
  then have "answered ?s ?i ?r ?h st n (commit_supplement l st ?p)"
    using a k(3) ids_okD(2) [OF i m]
    unfolding answered_def commit_accepted [OF i m] finish_records
    by (intro exI [of _ "a\<lparr>as_order := as_order a @ [?i]\<rparr>"] exI [of _ "as_order a"] exI [of _ "[]"]) simp
  moreover have "sw_buf (supp_step trim (OpCommit k st) w) = commit_supplement l st ?p" using k by simp
  ultimately have ans: "answered ?s ?i ?r ?h st n (sw_buf (supp_step trim (OpCommit k st) w))" by simp
  have "length (as_order (a\<lparr>as_order := as_order a @ [?i]\<rparr>)) \<le> length (as_records (a\<lparr>as_order := as_order a @ [?i]\<rparr>))"
    by (rule order_short [OF commit_set(2) [OF i m k(3) a(1)]])
  then have "n + sum_list (map (begins ?s) ops) \<le> 127" using few by (simp add: acc n_def)
  then have "answered ?s ?i ?r ?h st (n + sum_list (map (begins ?s) ops)) (sw_buf w')"
    using answered_run [OF supp_step_ids [OF inv] ans _ w'(2)] by (simp add: w'(1))
  then obtain a' where a': "pb_accepted (sw_buf w') ?s = Some a'" "map_of (as_records a') ?i = Some ?r"
      "pb_records (sw_buf w') ! ?r = \<lparr>sr_hash = ?h, sr_state = st, sr_locked = False\<rparr>"
    by (auto simp: answered_def)
  have "snd (begin_supplement ?s ?i hash (sw_buf w')) = BrWait ?r"
    using a'(1,2) by (cases rule: begin_cases [of ?s "sw_buf w'" ?i hash]) (simp_all add: accepted_of_def)
  then show ?thesis using k(4) by (simp add: await_record_def a'(3))
qed

theorem supplement_answered_once_witness:
  "snd (begin_supplement ''s'' ''m'' ''h'' (sw_buf (fold (supp_step id) [OpCommit 0 SdBuffered, OpBegin ''s'' ''n'' ''g'']
     (fold (supp_step id) [OpBegin ''s'' ''m'' ''h''] (new_supp_world :: unit supp_world))))) = BrWait 0"
proof -
  let ?w = "fold (supp_step id) [OpBegin ''s'' ''m'' ''h''] (new_supp_world :: unit supp_world)"
  have f: "0 < length (sw_leases ?w)" "lease_current (sw_leases ?w ! 0) (sw_buf ?w)" "sl_session (sw_leases ?w ! 0) = ''s''"
    "sl_message (sw_leases ?w ! 0) = ''m''" "sl_record (sw_leases ?w ! 0) = 0"
    "length (as_records (accepted_of ''s'' (sw_buf ?w))) = 1"
    by code_simp+
  show ?thesis
    using supplement_answered_once [where l = "sw_leases ?w ! 0" and w = ?w and hash = "''h''" and st = SdBuffered,
        OF refl f(1) refl f(2) _ refl, of "[OpBegin ''s'' ''n'' ''g'']"] f(3-6)
    by (simp add: begins.simps del: supp_step.simps)
qed

section \<open>Cleared sessions\<close>

definition dead_token :: "session_id \<Rightarrow> replay_token \<Rightarrow> 'e pending_buffer \<Rightarrow> bool" where
  "dead_token s t p \<longleftrightarrow> (\<forall>l. rt_lifecycle t = Some l \<longrightarrow> l < length (pb_lives p) \<and> pb_lifecycles p s \<noteq> Some l)"

lemma dead_ensure: "dead_token s t p \<Longrightarrow> dead_token s t (ensure_lifecycle s' p)"
  by (auto simp: dead_token_def ensure_lifecycle_def)

lemma dead_same:
  "dead_token s t p \<Longrightarrow> length (pb_lives p') = length (pb_lives p) \<Longrightarrow>
   (\<And>l. pb_lifecycles p' s = Some l \<Longrightarrow> pb_lifecycles p s = Some l) \<Longrightarrow> dead_token s t p'"
  by (auto simp: dead_token_def)

lemma dead_begin: "dead_token s t p \<Longrightarrow> dead_token s t (fst (begin_supplement s' i h p))"
  by (auto simp: begin_supplement_def Let_def split: option.split dest: dead_ensure elim!: dead_same [OF dead_ensure])

lemma lifecycle_frame:
  "pb_lifecycles (add_in_flight l n p) = pb_lifecycles p" "length (pb_lives (add_in_flight l n p)) = length (pb_lives p)"
  "pb_lifecycles (fst (requeue_if_current now s t c e p)) = pb_lifecycles p"
  "length (pb_lives (fst (requeue_if_current now s t c e p))) = length (pb_lives p)"
  "pb_lifecycles (complete_replay s t p) = pb_lifecycles p" "length (pb_lives (complete_replay s t p)) = length (pb_lives p)"
  "pb_lifecycles (fst (drain_for_replay trim s p)) = pb_lifecycles p"
  "length (pb_lives (fst (drain_for_replay trim s p))) = length (pb_lives p)"
  "pb_lifecycles (commit_supplement le st p) = pb_lifecycles p" "pb_lives (commit_supplement le st p) = pb_lives p"
  "pb_lifecycles (abort_supplement le p) = pb_lifecycles p" "pb_lives (abort_supplement le p) = pb_lives p"
  by (simp_all add: add_in_flight_def requeue_if_current_def complete_replay_def drain_for_replay_def
      commit_supplement_def abort_supplement_def Let_def split: option.split)

lemma dead_append: "dead_token s t p \<Longrightarrow> dead_token s t (fst (append_pending now s' c e p))"
  by (auto simp: append_pending_def Let_def intro: dead_ensure elim!: dead_same [OF dead_ensure])

lemma dead_merge: "dead_token s t p \<Longrightarrow> dead_token s t (fst (drain_and_merge trim s' p))"
proof -
  obtain p' t' x where d: "drain_for_replay trim s' p = (p', t', x)" by (metis prod_cases3)
  then have "pb_lifecycles p' = pb_lifecycles p" "length (pb_lives p') = length (pb_lives p)"
    using lifecycle_frame(7,8) [of trim s' p] by simp_all
  then show "dead_token s t p \<Longrightarrow> dead_token s t (fst (drain_and_merge trim s' p))"
    by (cases x) (auto simp: drain_and_merge_def d lifecycle_frame elim!: dead_same)
qed

lemma clear_lifecycles:
  "pb_lifecycles (clear_pending s' p) = (pb_lifecycles p)(s' := None)" "length (pb_lives (clear_pending s' p)) = length (pb_lives p)"
  by (simp_all add: clear_pending_def Let_def cancel_life_def split: option.split)

lemma clear_all_lifecycles:
  "pb_lifecycles (clear_all_pending ids p) = Map.empty" "length (pb_lives (clear_all_pending ids p)) = length (pb_lives p)"
proof -
  have "length (pb_lives (fold (\<lambda>s p. case pb_lifecycles p s of Some l \<Rightarrow> cancel_life l p | None \<Rightarrow> p) ids p)) = length (pb_lives p)"
    by (induction ids arbitrary: p) (simp_all add: cancel_life_def split: option.split)
  then show "pb_lifecycles (clear_all_pending ids p) = Map.empty" "length (pb_lives (clear_all_pending ids p)) = length (pb_lives p)"
    by (simp_all add: clear_all_pending_def)
qed

lemma dead_step:
  assumes "dead_token s t (sw_buf w)"
  shows "dead_token s t (sw_buf (supp_step trim op w))"
proof (cases op)
  case (OpBegin s' i h)
  then show ?thesis
    using dead_begin [OF assms, of s' i h]
    by (cases "begin_supplement s' i h (sw_buf w)") (simp split: begin_result.split)
next
  case (OpDrain s')
  obtain p t' x where d: "drain_for_replay trim s' (sw_buf w) = (p, t', x)" by (metis prod_cases3)
  have "dead_token s t p"
    by (rule dead_same [OF assms]) (use lifecycle_frame(7,8) [of trim s' "sw_buf w"] in \<open>simp_all add: d\<close>)
  then show ?thesis by (cases x) (simp_all add: OpDrain d)
qed (use assms in \<open>auto simp: dead_append dead_merge lifecycle_frame clear_lifecycles clear_all_lifecycles
      elim!: dead_same split: if_splits\<close>)

lemma dead_run: "dead_token s t (sw_buf w) \<Longrightarrow> dead_token s t (sw_buf (fold (supp_step trim) ops w))"
  by (induction ops arbitrary: w) (simp_all add: dead_step)

text \<open>
  C13. What was cleared does not come back.  The token of a replay that was drained before its
  session was cleared is dead for ever after, if tokens are used once: it can never be put back, is no longer counted and
  has no context to be delivered under, whatever is appended and drained later.
\<close>

theorem cleared_replay_is_dead:
  assumes "w = fold (supp_step trim) ops0 new_supp_world" "(s, t) \<in> set (sw_tokens w)"
    and "w' = fold (supp_step trim) (OpClear s # ops) w"
  shows "requeue_if_current now s t c e (sw_buf w') = (sw_buf w', False) \<and>
    complete_replay s t (sw_buf w') = sw_buf w' \<and> replay_context s t (sw_buf w') = None"
proof -
  have "entries_inv w" unfolding assms(1) by (rule pending_entries.run_inv [OF new_supp_entries])
  then have "token_ok (pb_lifecycles (sw_buf w)) (length (pb_lives (sw_buf w))) (s, t)"
    using assms(2) waitingD(7) by (auto simp: entries_inv_def buffer_waiting_def)
  then have "dead_token s t (sw_buf (supp_step trim (OpClear s) w))"
    by (auto simp: dead_token_def token_ok_def clear_lifecycles)
  then have "dead_token s t (sw_buf w')" unfolding assms(3) fold_simps by (rule dead_run)
  then have "\<not> token_current s t (sw_buf w')" by (auto simp: dead_token_def token_current_def)
  then show ?thesis by (simp add: requeue_if_current_def complete_replay_def replay_context_def)
qed

theorem cleared_replay_is_dead_witness:
  "\<exists>t. (''s'', t) \<in> set (sw_tokens (fold (supp_step id) [OpAppend 1 ''s'' ''a'' (), OpDrain ''s''] new_supp_world)) \<and>
    replay_context ''s'' t (sw_buf (fold (supp_step id) [OpClear ''s'', OpAppend 2 ''s'' ''b'' ()]
      (fold (supp_step id) [OpAppend 1 ''s'' ''a'' (), OpDrain ''s''] new_supp_world))) = None"
proof -
  let ?w = "fold (supp_step id) [OpAppend 1 ''s'' ''a'' (), OpDrain ''s''] new_supp_world"
  have t: "sw_tokens ?w = [(''s'', \<lparr>rt_lifecycle = Some 0, rt_count = 1\<rparr>)]" by code_simp
  then have m: "(''s'', \<lparr>rt_lifecycle = Some 0, rt_count = 1\<rparr>) \<in> set (sw_tokens ?w)" by simp
  show ?thesis
    using m conjunct2 [OF conjunct2 [OF cleared_replay_is_dead [OF refl m refl, where ops = "[OpAppend 2 ''s'' ''b'' ()]"]]] by blast
qed

end
