(* ===== verification/Repair.thy ===== *)
theory Repair
  imports ExecQueue "HOL-Library.AList"
begin

text \<open>
  What keeps the ledger truthful when a write fails: \<open>internal/execution/repairer.go\<close> retries
  terminal writes from a bounded backlog, \<open>internal/execution/lease.go\<close> renews the leases of this
  gateway's live executions, except those whose repair was given up, and fences executions whose
  lease ran out.  The backlog holds pointers which the processing loop keeps while the map entry
  may be replaced, so intents are objects of a store, addressed by their position; the map is an
  association list and its iteration order the list order.  Every stretch under \<open>r.mu\<close> and every
  call of the store is one function here.
\<close>

section \<open>Intents\<close>

datatype repair_kind = RepairDelivery | RepairRuntime

definition repair_kind_string :: "repair_kind \<Rightarrow> string" where
  "repair_kind_string k = (if k = RepairRuntime then ''runtime'' else ''delivery'')"

record repair_intent =
  ri_exec :: execution_id
  ri_session :: session_id
  ri_owner :: string
  ri_run :: string
  ri_kind :: repair_kind
  ri_status :: string
  ri_code :: string
  ri_enqueued :: instant
  ri_attempts :: nat
  ri_next :: instant

record repair_config =
  rc_capacity :: int
  rc_initial :: duration
  rc_max :: duration
  rc_lifetime :: duration
  rc_shutdown :: duration
  rc_sync :: duration
  rc_tick :: duration

definition default_repair_config :: "int \<Rightarrow> repair_config" where
  "default_repair_config pool_max =
     \<lparr>rc_capacity = (if pool_max * 2 < 2 then 2 else pool_max * 2), rc_initial = 100 * millisecond,
      rc_max = 5 * second, rc_lifetime = 30 * second, rc_shutdown = 5 * second,
      rc_sync = 50 * millisecond, rc_tick = 50 * millisecond\<rparr>"

type_synonym intent_ref = nat

record repairer =
  rp_config :: repair_config
  rp_objects :: "repair_intent list"
  rp_intents :: "(string \<times> intent_ref) list"
  rp_abandoned :: "execution_id list"
  rp_enqueued :: int
  rp_succeeded :: int
  rp_timed_out :: int
  rp_dropped :: int

definition new_repairer :: "repair_config \<Rightarrow> repairer" where
  "new_repairer cfg =
     \<lparr>rp_config = (if rc_capacity cfg < 2 then cfg\<lparr>rc_capacity := 2\<rparr> else cfg),
      rp_objects = [], rp_intents = [], rp_abandoned = [],
      rp_enqueued = 0, rp_succeeded = 0, rp_timed_out = 0, rp_dropped = 0\<rparr>"

definition intent_key :: "repair_intent \<Rightarrow> string" where
  "intent_key i = ri_exec i @ '':'' @ repair_kind_string (ri_kind i)"

section \<open>The backlog\<close>

definition terminal_string :: "string \<Rightarrow> bool" where
  "terminal_string s \<longleftrightarrow> s = ''completed'' \<or> s = ''failed''"

definition is_more_terminal :: "repair_intent \<Rightarrow> repair_intent \<Rightarrow> bool" where
  "is_more_terminal old new \<longleftrightarrow>
     (if ri_kind old \<noteq> ri_kind new then False
      else if ri_kind old = RepairRuntime then terminal_string (ri_status old) \<and> ri_status new = ''unknown''
      else False)"

text \<open>\<open>abandoned\<close> is a set; an id is put in front unless it is there.\<close>

definition abandon :: "execution_id \<Rightarrow> repairer \<Rightarrow> repairer" where
  "abandon i r = r\<lparr>rp_abandoned := List.insert i (rp_abandoned r)\<rparr>"

definition unabandon :: "execution_id \<Rightarrow> repairer \<Rightarrow> repairer" where
  "unabandon i r = r\<lparr>rp_abandoned := removeAll i (rp_abandoned r)\<rparr>"

definition enqueue_repair :: "instant \<Rightarrow> repair_intent \<Rightarrow> repairer \<Rightarrow> repairer" where
  "enqueue_repair now intent0 r =
     (let intent = intent0\<lparr>ri_enqueued := now, ri_next := now\<rparr>;
          key = intent_key intent;
          kept = (let r1 = (if ri_kind intent = RepairRuntime then unabandon (ri_exec intent) r else r)
                  in r1\<lparr>rp_objects := rp_objects r1 @ [intent],
                        rp_intents := AList.update key (length (rp_objects r1)) (rp_intents r1),
                        rp_enqueued := rp_enqueued r1 + 1\<rparr>)
      in case map_of (rp_intents r) key of
           Some old \<Rightarrow> if is_more_terminal (rp_objects r ! old) intent then r else kept
         | None \<Rightarrow>
             if rc_capacity (rp_config r) \<le> int (length (rp_intents r))
             then
               (let r1 = r\<lparr>rp_dropped := rp_dropped r + 1\<rparr>
                in if ri_kind intent = RepairRuntime then abandon (ri_exec intent) r1 else r1)
             else kept)"

definition lookup_repair :: "execution_id \<Rightarrow> repairer \<Rightarrow> (string \<times> string) option" where
  "lookup_repair i r =
     (case find (\<lambda>(_, o'). ri_exec (rp_objects r ! o') = i) (rp_intents r) of
        None \<Rightarrow> None
      | Some (_, o') \<Rightarrow> Some (ri_status (rp_objects r ! o'), repair_kind_string (ri_kind (rp_objects r ! o'))))"

definition backlog :: "repairer \<Rightarrow> int" where
  "backlog r = int (length (rp_intents r))"

section \<open>Processing\<close>

text \<open>
  The part of \<open>processDue\<close> under the mutex: intents past their lifetime leave the backlog, the
  runtime ones are abandoned; the due ones are collected.
\<close>

definition outlived :: "instant \<Rightarrow> repairer \<Rightarrow> repair_intent \<Rightarrow> bool" where
  "outlived now r i \<longleftrightarrow> rc_lifetime (rp_config r) < now - ri_enqueued i"

definition expire_entry :: "instant \<Rightarrow> string \<times> intent_ref \<Rightarrow> repairer \<Rightarrow> repairer" where
  "expire_entry now = (\<lambda>(key, o') r.
     (let i = rp_objects r ! o'
      in if outlived now r i
         then
           (let r1 = r\<lparr>rp_intents := AList.delete key (rp_intents r), rp_timed_out := rp_timed_out r + 1\<rparr>
            in if ri_kind i = RepairRuntime then abandon (ri_exec i) r1 else r1)
         else r))"

definition process_due :: "instant \<Rightarrow> repairer \<Rightarrow> repairer \<times> intent_ref list" where
  "process_due now r =
     (fold (expire_entry now) (rp_intents r) r,
      filter (\<lambda>o'. \<not> outlived now r (rp_objects r ! o') \<and> ri_next (rp_objects r ! o') \<le> now)
        (map snd (rp_intents r)))"

definition set_intent :: "intent_ref \<Rightarrow> (repair_intent \<Rightarrow> repair_intent) \<Rightarrow> repairer \<Rightarrow> repairer" where
  "set_intent o' f r = r\<lparr>rp_objects := (rp_objects r)[o' := f (rp_objects r ! o')]\<rparr>"

definition begin_attempt :: "intent_ref \<Rightarrow> repairer \<Rightarrow> repairer" where
  "begin_attempt o' r = set_intent o' (\<lambda>i. i\<lparr>ri_attempts := ri_attempts i + 1\<rparr>) r"

text \<open>The statuses are strings in an intent; a string that is no status is refused by the store.\<close>

definition delivery_of_string :: "string \<Rightarrow> delivery_status option" where
  "delivery_of_string s =
     (if s = ''accepted'' then Some StAccepted else if s = ''delivered'' then Some StDelivered
      else if s = ''unknown'' then Some StUnknown else if s = ''failed'' then Some StFailed else None)"

definition runtime_of_string :: "string \<Rightarrow> runtime_status option" where
  "runtime_of_string s =
     (if s = ''queued'' then Some RtQueued else if s = ''pending'' then Some RtPending
      else if s = ''running'' then Some RtRunning else if s = ''completed'' then Some RtCompleted
      else if s = ''failed'' then Some RtFailed else if s = ''unknown'' then Some RtUnknown else None)"

definition process_intent :: "millis \<Rightarrow> millis \<Rightarrow> repair_intent \<Rightarrow> exec_db \<Rightarrow> exec_db \<times> exec_error option" where
  "process_intent now dbnow i db =
     (case ri_kind i of
        RepairDelivery \<Rightarrow>
          (case delivery_of_string (ri_status i) of
             None \<Rightarrow> (db, Some (if ri_exec i = [] \<or> ri_owner i = [] then ErrRequired else ErrInvalidStatus))
           | Some s \<Rightarrow> set_delivery (ri_exec i) (ri_owner i) s (ri_code i) now db)
      | RepairRuntime \<Rightarrow>
          (case runtime_of_string (ri_status i) of
             None \<Rightarrow> (db, Some (if ri_exec i = [] \<or> ri_run i = [] then ErrRequired else ErrInvalidStatus))
           | Some s \<Rightarrow> finish_runtime (ri_exec i) (ri_run i) s (ri_code i) now dbnow db))"

text \<open>\<open>InitialBackoff << uint(attempts)\<close> at 64 bits, clamped from both sides.\<close>

definition repair_backoff :: "repair_config \<Rightarrow> nat \<Rightarrow> duration" where
  "repair_backoff cfg attempts =
     (let b = sint (push_bit attempts (word_of_int (rc_initial cfg) :: 64 word));
          b1 = (if b > rc_max cfg then rc_max cfg else b)
      in if b1 < rc_initial cfg then rc_initial cfg else b1)"

text \<open>What follows an attempt: the entry goes if it still is this intent, or a new try is set.\<close>

definition repair_succeeded :: "intent_ref \<Rightarrow> repairer \<Rightarrow> repairer" where
  "repair_succeeded o' r =
     (let i = rp_objects r ! o'; key = intent_key i;
          r1 = (if map_of (rp_intents r) key = Some o'
                then
                  (let r2 = r\<lparr>rp_intents := AList.delete key (rp_intents r)\<rparr>
                   in if ri_kind i = RepairRuntime then unabandon (ri_exec i) r2 else r2)
                else r)
      in r1\<lparr>rp_succeeded := rp_succeeded r1 + 1\<rparr>)"

definition repair_failed :: "instant \<Rightarrow> intent_ref \<Rightarrow> repairer \<Rightarrow> repairer" where
  "repair_failed now o' r =
     set_intent o' (\<lambda>i. i\<lparr>ri_next := now + repair_backoff (rp_config r) (ri_attempts i)\<rparr>) r"

definition clear_abandoned :: "execution_id list \<Rightarrow> repairer \<Rightarrow> repairer" where
  "clear_abandoned ids r = fold unabandon ids r"

definition repair_stats :: "repairer \<Rightarrow> int \<times> int \<times> int \<times> int" where
  "repair_stats r = (rp_enqueued r, rp_succeeded r, rp_timed_out r, rp_dropped r)"

section \<open>The lease manager\<close>

record lease_config =
  lc_renew :: duration
  lc_recover :: duration
  lc_shutdown :: duration

definition default_lease_config :: lease_config where
  "default_lease_config = \<lparr>lc_renew = 20 * second, lc_recover = 20 * second, lc_shutdown = 5 * second\<rparr>"

text \<open>One interval left at zero replaces all three.\<close>

definition new_lease_config :: "lease_config \<Rightarrow> lease_config" where
  "new_lease_config cfg =
     (if lc_renew cfg = 0 \<or> lc_recover cfg = 0 \<or> lc_shutdown cfg = 0 then default_lease_config else cfg)"

text \<open>One turn of the renewal loop after its snapshot of the abandoned ids.\<close>

definition renew_tick :: "string \<Rightarrow> execution_id list \<Rightarrow> millis \<Rightarrow> exec_db \<Rightarrow> exec_db" where
  "renew_tick owner excluded dbnow db = fst (renew_leases owner lease_ttl excluded dbnow db)"

text \<open>\<open>recoverOnce\<close>: the store call on the snapshot, then the release of the ids that converged.\<close>

definition recover_store :: "execution_id list \<Rightarrow> millis \<Rightarrow> exec_db \<Rightarrow> exec_db \<times> execution_id list" where
  "recover_store tracked dbnow db =
     (case recover_expired_leases tracked dbnow db of (db', _, converged) \<Rightarrow> (db', converged))"

definition recover_clear :: "execution_id list \<Rightarrow> repairer \<Rightarrow> repairer" where
  "recover_clear converged r = (if converged = [] then r else clear_abandoned converged r)"

definition shutdown_leases :: "string \<Rightarrow> millis \<Rightarrow> millis \<Rightarrow> exec_db \<Rightarrow> exec_db" where
  "shutdown_leases owner now dbnow db = fst (terminate_owner_leases owner ''GATEWAY_SHUTDOWN'' now dbnow db)"

end
