(* ===== verification/RepairProps.thy ===== *)
theory RepairProps
  imports Repair ExecProps "HOL-Library.Multiset"
begin

text \<open>
  What the repairer and the lease manager achieve together over the ledger: the goroutine that
  processes repairs, the renewal loop, the recovery loop, callers that enqueue repairs and all
  other ledger transactions, interleaved by mutex section and store call.
\<close>

section \<open>The machine\<close>

text \<open>
  A store call of a repair is heard, is lost before it reaches the database, or commits while its
  answer is lost.  \<open>rw_due\<close> are the intents the processing loop still holds, \<open>rw_tried\<close> its store
  call that has returned; \<open>rw_renew\<close>, \<open>rw_recover\<close>, \<open>rw_converged\<close> are the snapshots the loops of
  the lease manager carry from one section to the next: either loop is one goroutine, so a section
  that is not its next does nothing.  The map of intents is ranged over in any order, so the due
  intents of \<open>RwDue\<close> come in any order.  \<open>rw_owed\<close> is a history: the executions for which a runtime
  repair was ever asked.
\<close>

datatype store_reach = Heard | Lost | Late

record repair_world =
  rw_db :: exec_db
  rw_rep :: repairer
  rw_due :: "intent_ref list"
  rw_tried :: "(intent_ref \<times> bool) option"
  rw_renew :: "execution_id list option"
  rw_recover :: "execution_id list option"
  rw_converged :: "execution_id list option"
  rw_owed :: "execution_id list"

datatype repair_op =
    RwEnqueue repair_intent instant
  | RwDue instant "intent_ref list"
  | RwTry store_reach millis millis
  | RwSettle instant
  | RwRenewRead
  | RwRenewStore store_reach millis
  | RwRecoverRead
  | RwRecoverStore store_reach millis
  | RwRecoverClear
  | RwLedger exec_op

text \<open>No row of the execution is left, or only a terminal one.\<close>

definition settled :: "execution_id \<Rightarrow> exec_db \<Rightarrow> bool" where
  "settled i db \<longleftrightarrow>
     (\<forall>r \<in> set (t_exec db). x_id r = i \<longrightarrow> x_runtime r \<noteq> RtQueued \<and> \<not> live_runtime (x_runtime r))"

definition waits :: "execution_id \<Rightarrow> exec_db \<Rightarrow> bool" where
  "waits i db \<longleftrightarrow> (\<exists>r \<in> set (t_exec db). x_id r = i \<and> x_runtime r = RtQueued)"

fun repair_step :: "string \<Rightarrow> repair_op \<Rightarrow> repair_world \<Rightarrow> repair_world" where
  "repair_step me (RwEnqueue i now) w =
     w\<lparr>rw_rep := enqueue_repair now i (rw_rep w),
       rw_owed := (if ri_kind i = RepairRuntime then ri_exec i # rw_owed w else rw_owed w)\<rparr>"
| "repair_step me (RwDue now order) w =
     (if rw_due w = [] \<and> rw_tried w = None \<and> mset order = mset (snd (process_due now (rw_rep w)))
      then w\<lparr>rw_rep := fst (process_due now (rw_rep w)), rw_due := order\<rparr>
      else w)"
| "repair_step me (RwTry reach now dbnow) w =
     (case (rw_due w, rw_tried w) of
        (o' # due, None) \<Rightarrow>
          (let r = begin_attempt o' (rw_rep w)
           in (case process_intent now dbnow (rp_objects r ! o') (rw_db w) of
                 (db, err) \<Rightarrow>
                   w\<lparr>rw_rep := r, rw_db := (if reach = Lost then rw_db w else db),
                     rw_tried := Some (o', reach = Heard \<and> err = None)\<rparr>))
      | _ \<Rightarrow> w)"
| "repair_step me (RwSettle now) w =
     (case rw_tried w of
        Some (o', ok) \<Rightarrow>
          w\<lparr>rw_rep := (if ok then repair_succeeded o' (rw_rep w) else repair_failed now o' (rw_rep w)),
            rw_due := tl (rw_due w), rw_tried := None\<rparr>
      | None \<Rightarrow> w)"
| "repair_step me RwRenewRead w =
     (if rw_renew w = None then w\<lparr>rw_renew := Some (rp_abandoned (rw_rep w))\<rparr> else w)"
| "repair_step me (RwRenewStore reach dbnow) w =
     (case rw_renew w of
        Some excluded \<Rightarrow>
          w\<lparr>rw_renew := None,
            rw_db := (if reach = Lost then rw_db w else renew_tick me excluded dbnow (rw_db w))\<rparr>
      | None \<Rightarrow> w)"
| "repair_step me RwRecoverRead w =
     (if rw_recover w = None \<and> rw_converged w = None
      then w\<lparr>rw_recover := Some (rp_abandoned (rw_rep w))\<rparr> else w)"
| "repair_step me (RwRecoverStore reach dbnow) w =
     (case rw_recover w of
        Some tracked \<Rightarrow>
          (case recover_store tracked dbnow (rw_db w) of
             (db, converged) \<Rightarrow>
               w\<lparr>rw_recover := None, rw_db := (if reach = Lost then rw_db w else db),
                 rw_converged := (if reach = Heard then Some converged else None)\<rparr>)
      | None \<Rightarrow> w)"
| "repair_step me RwRecoverClear w =
     (case rw_converged w of
        Some ids \<Rightarrow> w\<lparr>rw_rep := recover_clear ids (rw_rep w), rw_converged := None\<rparr>
      | None \<Rightarrow> w)"
| "repair_step me (RwLedger op) w = w\<lparr>rw_db := exec_step op (rw_db w)\<rparr>"

declare repair_step.simps [simp del]
lemmas repair_steps = repair_step.simps

definition start_repairs :: "repair_config \<Rightarrow> exec_db \<Rightarrow> repair_world" where
  "start_repairs cfg db =
     \<lparr>rw_db = db, rw_rep = new_repairer cfg, rw_due = [], rw_tried = None, rw_renew = None,
      rw_recover = None, rw_converged = None, rw_owed = []\<rparr>"

text \<open>
  What the callers and the generator of ids are relied on for: a runtime repair is asked for
  executions that do not wait in a queue - the gateway writes the outcome of what it has accepted
  or claimed - and no new execution gets the id of one a repair was asked for.
\<close>

fun new_id :: "exec_op \<Rightarrow> execution_id option" where
  "new_id (OpAccept cfg q now tnow dbnow i) = Some i"
| "new_id (OpAcceptQueued enc cfg q l tnow now i pid) = Some i"
| "new_id _ = None"

fun in_order :: "repair_op \<Rightarrow> repair_world \<Rightarrow> bool" where
  "in_order (RwEnqueue i now) w = (ri_kind i = RepairRuntime \<longrightarrow> \<not> waits (ri_exec i) (rw_db w))"
| "in_order (RwLedger op) w = (\<forall>i \<in> set (rw_owed w). new_id op \<noteq> Some i)"
| "in_order _ w = True"

fun orderly :: "string \<Rightarrow> repair_op list \<Rightarrow> repair_world \<Rightarrow> bool" where
  "orderly me [] w = True"
| "orderly me (op # ops) w = (in_order op w \<and> orderly me ops (repair_step me op w))"

lemma orderly_append: "orderly me (a @ b) w \<longleftrightarrow> orderly me a w \<and> orderly me b (fold (repair_step me) a w)"
  by (induction a arbitrary: w) auto

section \<open>Facts of the ledger\<close>

lemma id_unique: "exec_inv db \<Longrightarrow> r \<in> set (t_exec db) \<Longrightarrow> r' \<in> set (t_exec db) \<Longrightarrow> x_id r = x_id r' \<Longrightarrow> r = r'"
  by (auto simp: exec_inv_def unique_index_def distinct_map dest: inj_onD)

lemma snd_pair:
  assumes "snd p = n"
  obtains d where "p = (d, n)"
  using assms by (cases p) simp

lemma sql_update_member: "r \<in> set t \<Longrightarrow> (if P r then f r else r) \<in> set (sql_update P f t)"
  by (simp add: set_sql_update)

text \<open>A runtime write that is answered without an error has settled its execution.\<close>

definition settles_by :: "execution_id \<Rightarrow> exec_db \<Rightarrow> bool" where
  "settles_by i db \<longleftrightarrow>
     (\<exists>r \<in> set (t_exec db). x_id r = i \<and> x_runtime r \<noteq> RtQueued \<and> \<not> live_runtime (x_runtime r))"

lemma settles_by_settled: "exec_inv db \<Longrightarrow> settles_by i db \<Longrightarrow> settled i db"
  unfolding settles_by_def settled_def using id_unique by blast

lemma finish_runtime_settles:
  assumes "finish_runtime i run s code now dbnow db = (db', None)"
  shows "settles_by i db'"
proof -
  have s: "i \<noteq> [] \<and> run \<noteq> [] \<and> s \<in> {RtCompleted, RtFailed, RtUnknown}"
    using assms by (auto simp: finish_runtime_def split: if_splits)
  let ?from = "if s = RtCompleted \<or> s = RtFailed then {RtPending, RtRunning, RtUnknown} else {RtPending, RtRunning}"
  let ?P = "\<lambda>r. x_id r = i \<and> x_run r = run \<and> x_runtime r \<in> ?from"
  let ?f = "\<lambda>r. (if (if s = RtUnknown then ''RUNTIME_AMBIGUOUS'' else []) \<noteq> [] then fence_entry_bump dbnow r else r)
     \<lparr>x_runtime := s, x_runtime_error := code, x_finished := Some now,
      x_fence := (if s = RtUnknown then ''RUNTIME_AMBIGUOUS'' else []), x_updated := now\<rparr>"
  have e: "finish_runtime i run s code now dbnow db =
     (case update_exec ?P ?f db of
        (db', 0) \<Rightarrow>
          (case get_by_id i db' of
             None \<Rightarrow> (db', Some ErrNotFound)
           | Some r \<Rightarrow>
               (db', if x_runtime r = s \<and> x_run r = run then None
                     else if x_run r \<noteq> run then Some ErrRunMismatch
                     else Some (ErrRuntimeStatus (x_runtime r))))
      | (db', _) \<Rightarrow> (db', None))"
    using s by (auto simp: finish_runtime_def Let_def)
  show ?thesis
  proof (cases "snd (update_exec ?P ?f db)")
    case 0
    then obtain db1 where u: "update_exec ?P ?f db = (db1, 0)" by (rule snd_pair)
    note a = assms [unfolded e u]
    obtain r where g: "get_by_id i db1 = Some r" using a by (cases "get_by_id i db1") simp_all
    then have r: "x_runtime r = s" "db' = db1" using a by (simp_all split: if_splits)
    have "r \<in> set (t_exec db1) \<and> x_id r = i" using sql_row_Some [OF g [unfolded get_by_id_def]] .
    moreover have "s \<noteq> RtQueued" "\<not> live_runtime s" using s by (auto simp: live_runtime_def)
    ultimately show ?thesis using r unfolding settles_by_def by blast
  next
    case (Suc n)
    then obtain db1 where u: "update_exec ?P ?f db = (db1, Suc n)" by (rule snd_pair)
    then have d: "db' = db1" using assms e by simp
    have "sql_count ?P (t_exec db) \<noteq> 0" using Suc by simp
    then obtain r where r: "r \<in> set (t_exec db)" "?P r" by (auto simp: sql_count_0_iff)
    have "t_exec db' = sql_update ?P ?f (t_exec db)" using u d update_exec_sel(1) [of ?P ?f db] by simp
    then have m: "?f r \<in> set (t_exec db')" using sql_update_member [OF r(1), of ?P ?f] r(2) by simp
    have "x_id (?f r) = i" "x_runtime (?f r) = s" using r(2) by (simp_all add: fence_entry_bump_def)
    moreover have "s \<noteq> RtQueued" "\<not> live_runtime s" using s by (auto simp: live_runtime_def)
    ultimately show ?thesis unfolding settles_by_def using m by (metis (no_types, lifting))
  qed
qed

lemma process_intent_good:
  assumes "exec_inv db" "queue_inv db"
  shows "good db (fst (process_intent now dbnow i db))"
  using assms
  by (auto simp: process_intent_def set_delivery_good finish_runtime_good good_refl split: repair_kind.splits option.splits)

lemma process_intent_settles:
  assumes "process_intent now dbnow i db = (db', None)" "ri_kind i = RepairRuntime" "exec_inv db" "queue_inv db"
  shows "settled (ri_exec i) db'"
proof -
  have "settles_by (ri_exec i) db'"
    using assms(1,2) by (auto simp: process_intent_def finish_runtime_settles split: option.splits)
  moreover have "exec_inv db'" using process_intent_good [OF assms(3,4), of now dbnow i] assms(1) by (simp add: good_def)
  ultimately show ?thesis by (simp add: settles_by_settled)
qed

lemma renew_tick_good: "exec_inv db \<Longrightarrow> queue_inv db \<Longrightarrow> good db (renew_tick me excluded dbnow db)"
  by (simp add: renew_tick_def renew_leases_good)

lemma recover_store_db: "fst (recover_store tracked dbnow db) = fst (recover_expired_leases tracked dbnow db)"
  by (simp add: recover_store_def case_prod_unfold)

lemma recover_store_good: "exec_inv db \<Longrightarrow> queue_inv db \<Longrightarrow> good db (fst (recover_store tracked dbnow db))"
  by (simp add: recover_store_db recover_good)
subsection \<open>Where rows come from\<close>

text \<open>
  Every row after a transaction comes from a row before it or has a new id; a row that left the
  queue does not return to it and does not become live again, and unless it is renewed its lease
  and owner stay.
\<close>

definition lease_kept :: "exec_row \<Rightarrow> exec_row \<Rightarrow> bool" where
  "lease_kept r r' \<longleftrightarrow> x_id r' = x_id r \<and>
     (x_runtime r \<noteq> RtQueued \<longrightarrow> x_runtime r' \<noteq> RtQueued \<and>
        (live_runtime (x_runtime r') \<longrightarrow>
           live_runtime (x_runtime r) \<and> x_lease r' = x_lease r \<and> x_owner r' = x_owner r))"

definition leases_kept :: "execution_id set \<Rightarrow> exec_row list \<Rightarrow> exec_row list \<Rightarrow> bool" where
  "leases_kept N t t' \<longleftrightarrow> (\<forall>r' \<in> set t'. x_id r' \<in> N \<or> (\<exists>r \<in> set t. lease_kept r r'))"

lemma lease_kept_refl [simp]: "lease_kept r r"
  by (simp add: lease_kept_def)

lemma leases_kept_subset: "set t' \<subseteq> set t \<Longrightarrow> leases_kept N t t'"
  unfolding leases_kept_def by (blast intro: lease_kept_refl)

lemma leases_kept_insert: "set t' \<subseteq> insert r (set t) \<Longrightarrow> x_id r \<in> N \<Longrightarrow> leases_kept N t t'"
  unfolding leases_kept_def by (blast intro: lease_kept_refl)

lemma leases_kept_refl [simp]: "leases_kept N t t"
  by (simp add: leases_kept_subset)

lemma lease_kept_trans: "lease_kept a b \<Longrightarrow> lease_kept b c \<Longrightarrow> lease_kept a c"
  unfolding lease_kept_def by simp

lemma leases_kept_trans:
  assumes "leases_kept N a b" "leases_kept N b c"
  shows "leases_kept N a c"
  unfolding leases_kept_def
proof (intro ballI)
  fix r'' assume r'': "r'' \<in> set c"
  show "x_id r'' \<in> N \<or> (\<exists>r \<in> set a. lease_kept r r'')"
  proof (cases "x_id r'' \<in> N")
    case False
    then obtain r' where r': "r' \<in> set b" "lease_kept r' r''" using assms(2) r'' by (auto simp: leases_kept_def)
    then have "x_id r' \<notin> N" using False by (simp add: lease_kept_def)
    then obtain r where "r \<in> set a" "lease_kept r r'" using assms(1) r'(1) by (auto simp: leases_kept_def)
    then show ?thesis using lease_kept_trans r'(2) by blast
  qed simp
qed

lemma leases_kept_update:
  assumes "\<And>r. r \<in> set t \<Longrightarrow> P r \<Longrightarrow> lease_kept r (f r)"
  shows "leases_kept N t (sql_update P f t)"
  unfolding leases_kept_def set_sql_update
proof (intro ballI)
  fix r' assume "r' \<in> (\<lambda>r. if P r then f r else r) ` set t"
  then obtain r where r: "r \<in> set t" "r' = (if P r then f r else r)" by blast
  then have "lease_kept r r'" using assms by simp
  then show "x_id r' \<in> N \<or> (\<exists>r \<in> set t. lease_kept r r')" using r(1) by blast
qed

lemma leases_kept_update_exec:
  assumes "\<And>r. P r \<Longrightarrow> lease_kept r (f r)"
  shows "leases_kept N (t_exec db) (t_exec (fst (update_exec P f db)))"
  unfolding update_exec_sel by (rule leases_kept_update) (rule assms)

text \<open>The pattern of most transactions: one update, then reads.\<close>

lemma fst_case_read:
  "fst (case u of (db', 0) \<Rightarrow> (case g db' of None \<Rightarrow> (db', a) | Some r \<Rightarrow> (db', b db' r)) | (db', Suc n) \<Rightarrow> (db', c db' n)) = fst u"
  by (cases u; cases "snd u"; cases "g (fst u)") auto

lemmas lease_defs = lease_kept_def live_runtime_def

lemma set_status_leases: "leases_kept N (t_exec db) (t_exec (fst (set_status i s code now db)))"
proof -
  have "leases_kept N (t_exec db) (t_exec (fst (update_exec (\<lambda>r. x_id r = i \<and> x_status r = StAccepted) (stamp_delivery s code now) db)))"
    by (rule leases_kept_update_exec) (simp add: lease_defs stamp_delivery_def)
  then show ?thesis unfolding set_status_def by (simp add: fst_case_read)
qed

lemma set_delivery_leases: "leases_kept N (t_exec db) (t_exec (fst (set_delivery i owner s code now db)))"
proof -
  have "leases_kept N (t_exec db) (t_exec (fst (update_exec (\<lambda>r. x_id r = i \<and> x_owner r = owner \<and> x_status r = StAccepted) (stamp_delivery s code now) db)))"
    by (rule leases_kept_update_exec) (simp add: lease_defs stamp_delivery_def)
  then show ?thesis unfolding set_delivery_def by (simp add: fst_case_read)
qed

lemma mark_running_leases: "leases_kept N (t_exec db) (t_exec (fst (mark_running i owner run now db)))"
proof -
  have "leases_kept N (t_exec db) (t_exec (fst (update_exec (\<lambda>r. x_id r = i \<and> x_owner r = owner \<and> x_runtime r = RtPending)
      (\<lambda>r. r\<lparr>x_runtime := RtRunning, x_run := run, x_started := Some now, x_updated := now\<rparr>) db)))"
    by (rule leases_kept_update_exec) (simp add: lease_defs)
  then show ?thesis unfolding mark_running_def by (simp add: fst_case_read)
qed

lemma set_turn_deadline_leases: "leases_kept N (t_exec db) (t_exec (fst (set_turn_deadline i owner st dl rv now db)))"
proof -
  have k: "leases_kept N (t_exec db) (t_exec (fst (update_exec P
      (\<lambda>r. r\<lparr>x_turn_started := coalesce (x_turn_started r) st, x_turn_deadline := coalesce (x_turn_deadline r) dl,
             x_turn_revision := (if x_turn_revision r = [] then rv else x_turn_revision r), x_updated := now\<rparr>) db)))" for P
    by (rule leases_kept_update_exec) (simp add: lease_defs)
  show ?thesis unfolding set_turn_deadline_def if_distrib [of fst] fst_conv fst_case_read by (simp add: k del: update_exec_sel)
qed

lemma converge_leases: "leases_kept N (t_exec db) (t_exec (fst (converge_delivery_failed i run now db)))"
proof -
  have "leases_kept N (t_exec db) (t_exec (fst (update_exec
      (\<lambda>r. x_id r = i \<and> x_run r = run \<and> x_status r = StFailed \<and> x_runtime r = RtCompleted)
      (\<lambda>r. r\<lparr>x_status := StUnknown, x_updated := now\<rparr>) db)))"
    by (rule leases_kept_update_exec) (simp add: lease_defs)
  then show ?thesis by (simp add: converge_delivery_failed_def)
qed

lemma finish_runtime_leases: "leases_kept N (t_exec db) (t_exec (fst (finish_runtime i run s code now dbnow db)))"
proof (cases "i = [] \<or> run = [] \<or> (s \<noteq> RtCompleted \<and> s \<noteq> RtFailed \<and> s \<noteq> RtUnknown)")
  case True
  then show ?thesis by (auto simp: finish_runtime_def)
next
  case False
  have k: "leases_kept N (t_exec db) (t_exec (fst (update_exec P
      (\<lambda>r. (if F \<noteq> [] then fence_entry_bump dbnow r else r)
        \<lparr>x_runtime := s, x_runtime_error := code, x_finished := Some now, x_fence := F, x_updated := now\<rparr>) db)))" for P F
    by (rule leases_kept_update_exec) (use False in \<open>auto simp: lease_defs fence_entry_bump_def\<close>)
  have c: "(i = [] \<or> run = []) = False" "(s \<noteq> RtCompleted \<and> s \<noteq> RtFailed \<and> s \<noteq> RtUnknown) = False" using False by auto
  show ?thesis unfolding finish_runtime_def Let_def c if_False fst_case_read by (rule k)
qed

lemma clear_fence_leases: "leases_kept N (t_exec db) (t_exec (fst (clear_fence_after_fresh_start i reason run now db)))"
proof -
  have "leases_kept N (t_exec db) (t_exec (fst (update_exec (\<lambda>r. x_id r = i \<and> x_fence r = reason)
      (\<lambda>r. r\<lparr>x_fence := [], x_run := run, x_updated := now\<rparr>) db)))"
    by (rule leases_kept_update_exec) (simp add: lease_defs)
  then show ?thesis unfolding clear_fence_after_fresh_start_def by (simp add: fst_case_read)
qed

lemma apply_fence_leases: "leases_kept N (t_exec db) (t_exec (fst (apply_fence_decision i v d now db)))"
proof -
  have k: "leases_kept N (t_exec db) (t_exec (fst (update_exec P (\<lambda>r. r\<lparr>x_fence := [], x_updated := now\<rparr>) db)))" for P
    by (rule leases_kept_update_exec) (simp add: lease_defs)
  have l: "leases_kept N (t_exec db) (t_exec (fst (update_exec P (\<lambda>r. r\<lparr>x_fence := [], x_runtime := RtFailed,
      x_runtime_error := operator_abandoned, x_finished := Some now, x_updated := now\<rparr>) db)))" for P
    by (rule leases_kept_update_exec) (simp add: lease_defs)
  have f: "fst (case u of (db', n) \<Rightarrow> (case g db' of None \<Rightarrow> (db', a) | Some r \<Rightarrow> (db', b db' n r))) = fst u" for u g a b
    by (cases u; cases "g (fst u)") auto
  show ?thesis unfolding apply_fence_decision_def if_distrib [of fst] fst_conv f
    using k l by (simp only: if_split leases_kept_refl if_distrib [of t_exec] if_distrib [of "leases_kept N (t_exec db)"] simp_thms)
qed

lemma recover_leases: "leases_kept N (t_exec db) (t_exec (fst (recover_expired_leases tracked dbnow db)))"
proof -
  have "leases_kept N (t_exec db) (t_exec (fst (update_exec (\<lambda>r. live_runtime (x_runtime r) \<and> x_lease r \<le> dbnow)
      (fence_row lease_expired_reason dbnow dbnow) db)))"
    by (rule leases_kept_update_exec) (auto simp: lease_defs fence_row_def fence_entry_bump_def)
  then show ?thesis by (simp add: recover_expired_leases_def update_exec_def Let_def)
qed

lemma terminate_leases: "leases_kept N (t_exec db) (t_exec (fst (terminate_owner_leases owner reason now dbnow db)))"
proof -
  have "leases_kept N (t_exec db) (t_exec (fst (update_exec (renewable owner)
      (fence_row (if reason = [] then ''GATEWAY_SHUTDOWN'' else reason) now dbnow) db)))"
    by (rule leases_kept_update_exec) (auto simp: lease_defs fence_row_def fence_entry_bump_def)
  then show ?thesis by (auto simp: terminate_owner_leases_def Let_def map_prod_def case_prod_unfold)
qed

lemma compact_leases:
  assumes "exec_inv db"
  shows "leases_kept N (t_exec db) (t_exec (fst (compact_settled_facts cutoff limit db)))"
proof (cases "limit \<le> 0")
  case False
  let ?v = "take (nat limit) (sql_select (compactable cutoff db) compact_order (t_exec db))"
  have "leases_kept N (t_exec db) (sql_update (\<lambda>r. x_id r \<in> set (map x_id ?v)) compact_row (t_exec db))"
  proof (rule leases_kept_update)
    fix r assume r: "r \<in> set (t_exec db)" "x_id r \<in> set (map x_id ?v)"
    then obtain r' where r': "r' \<in> set ?v" "x_id r' = x_id r" by auto
    from in_set_takeD [OF r'(1)] have m: "r' \<in> set (t_exec db)" "compactable cutoff db r'" by simp_all
    have "r' = r" by (rule id_unique [OF assms m(1) r(1) r'(2)])
    then have "terminal_runtime (x_runtime r)" using m(2) by (simp add: compactable_def)
    then show "lease_kept r (compact_row r)" by (auto simp: lease_defs compact_row_def terminal_runtime_def)
  qed
  then show ?thesis using False by (simp add: compact_settled_facts_def Let_def)
qed (simp add: compact_settled_facts_def)

lemma insert_leases: "x_id r \<in> N \<Longrightarrow> leases_kept N (t_exec db) (t_exec (fst (insert_ignoring r db)))"
  by (auto simp: insert_ignoring_def intro: leases_kept_insert)

lemma accept_leases: "leases_kept {i} (t_exec db) (t_exec (fst (accept cfg q now tnow dbnow i db)))"
proof -
  have "leases_kept {i} (t_exec db) (t_exec (fst (accept_tx cfg q now tnow dbnow i db)))"
    using insert_leases [of "accept_row cfg q now dbnow i" "{i}" db]
    by (auto simp: accept_tx_def accept_row_def split: option.splits prod.splits insert_outcome.splits)
  then show ?thesis by (auto simp: accept_def split: option.splits prod.splits sum.splits)
qed

lemma accept_queued_leases: "leases_kept {i} (t_exec db) (t_exec (fst (accept_queued enc cfg q l tnow now i pid db)))"
proof -
  have k: "leases_kept {i} (t_exec db) (t_exec (fst (queue_insert enc cfg q l now i pid db)))" for l
    by (auto simp: queue_insert_def Let_def queued_row_def intro: leases_kept_insert split: sum.split)
  have "leases_kept {i} (t_exec db) (t_exec (fst (accept_queued_tx enc cfg q l tnow now i pid db)))" for l
    using k by (auto simp: accept_queued_tx_def split: option.splits)
  then have "leases_kept {i} (t_exec db) (t_exec db')" if "accept_queued_tx enc cfg q l tnow now i pid db = (db', tx)" for l db' tx
    using that by (metis fst_conv)
  then show ?thesis
    by (cases "accept_queued_tx enc cfg q (with_defaults l) tnow now i pid db")
       (auto simp: accept_queued_def split: option.splits queue_tx.splits)
qed

lemma queued_update_leases:
  "(\<And>r. P r \<Longrightarrow> x_runtime r = RtQueued \<and> x_id (f r) = x_id r) \<Longrightarrow>
   leases_kept N (t_exec db) (t_exec (fst (update_exec P f db)))"
  by (rule leases_kept_update_exec) (simp add: lease_kept_def)

lemma remove_queue_row_exec [simp]: "t_exec (remove_queue_row i db) = t_exec db"
  by (simp add: remove_queue_row_def)

lemma claim_leases: "leases_kept N (t_exec db) (t_exec (fst (claim_queued q now db)))"
proof (cases "queue_head (cq_session q) db")
  case (Some h)
  let ?u = "update_exec (\<lambda>r. x_id r = q_id h \<and> x_runtime r = RtQueued) (claim_row q now) db"
  have k: "leases_kept N (t_exec db) (t_exec (fst ?u))" by (rule queued_update_leases) (simp add: claim_row_def settle_queued_row_def)
  obtain db' n where u: "?u = (db', n)" by (cases ?u)
  show ?thesis
    using k u by (cases n) (auto simp: claim_queued_def Some Let_def split: option.split)
qed (simp add: claim_queued_def)

lemma settle_tx_leases: "leases_kept N (t_exec db) (t_exec (fst (settle_queued_tx i reason now db)))"
proof -
  let ?u = "update_exec (\<lambda>r. x_id r = i \<and> x_runtime r = RtQueued) (settle_queued_row reason now) db"
  have k: "leases_kept N (t_exec db) (t_exec (fst ?u))" by (rule queued_update_leases) (simp add: claim_row_def settle_queued_row_def)
  obtain db' n where u: "?u = (db', n)" by (cases ?u)
  show ?thesis using k u by (cases n) (auto simp: settle_queued_tx_def)
qed

lemma settle_all_leases: "leases_kept N (t_exec db) (t_exec (fst (settle_all reason now ids db)))"
proof (induction ids arbitrary: db)
  case (Cons i ids)
  obtain db1 ok where s: "settle_queued_tx i reason now db = (db1, ok)" by (cases "settle_queued_tx i reason now db")
  have "leases_kept N (t_exec db) (t_exec db1)" using settle_tx_leases [where db = db and i = i and reason = reason and now = now] by (simp add: s)
  from leases_kept_trans [OF this Cons.IH] show ?case by (simp add: s case_prod_unfold)
qed simp

lemma cancel_leases: "leases_kept N (t_exec db) (t_exec (fst (cancel_queued i reason now db)))"
proof -
  let ?s = "settle_queued_tx i (if reason = [] then queue_reason_cancelled else reason) now db"
  obtain db1 ok where s: "?s = (db1, ok)" by (cases ?s)
  have "leases_kept N (t_exec db) (t_exec db1)" using settle_tx_leases [where db = db and i = i and now = now] s by (metis fst_conv)
  then show ?thesis using s by (cases ok) (auto simp: cancel_queued_def split: option.split)
qed

lemma clear_leases: "leases_kept N (t_exec db) (t_exec (fst (clear_queue s reason now db)))"
  using settle_all_leases by (simp add: clear_queue_def map_prod_def case_prod_unfold)

lemma expire_leases: "leases_kept N (t_exec db) (t_exec (fst (expire_queued now limit db)))"
  using settle_all_leases by (simp add: expire_queued_def case_prod_unfold)

lemmas ledger_leases = set_status_leases set_delivery_leases mark_running_leases set_turn_deadline_leases
  converge_leases finish_runtime_leases clear_fence_leases apply_fence_leases recover_leases terminate_leases
  compact_leases accept_leases accept_queued_leases claim_leases cancel_leases clear_leases expire_leases

fun renews :: "exec_op \<Rightarrow> string option" where
  "renews (OpRenew owner ttl ids dbnow) = Some owner"
| "renews _ = None"

lemma session_delete_leases: "leases_kept N (t_exec db) (t_exec (session_delete s db))"
  by (rule leases_kept_subset) (auto simp: session_delete_def Let_def sql_delete_def)

lemma exec_step_leases:
  "exec_inv db \<Longrightarrow> renews op = None \<Longrightarrow> leases_kept (set_option (new_id op)) (t_exec db) (t_exec (exec_step op db))"
  by (cases op) (simp_all add: ledger_leases session_delete_leases)

text \<open>A renewal is one update of rows its owner may renew and the exclusion does not name.\<close>

lemma renew_shape:
  assumes "exec_inv db"
  obtains P where "t_exec (fst (renew_leases owner ttl excluded dbnow db)) = sql_update P (renew_row dbnow ttl) (t_exec db)"
    "\<And>r. P r \<Longrightarrow> renewable owner r \<and> owner \<noteq> [] \<and> x_id r \<notin> set excluded"
proof -
  define ids where "ids = filter (\<lambda>i. i \<notin> set excluded) (map x_id (filter (renewable owner) (t_exec db)))"
  have "distinct (map x_id (t_exec db))" using assms(1) by (simp add: exec_inv_def unique_index_def)
  then have "distinct ids" by (simp add: ids_def distinct_map inj_on_def)
  then have d: "distinct (concat (batches ids))" by (simp add: concat_batches)
  consider "owner = []" | "owner \<noteq> []" "excluded = []" | "owner \<noteq> []" "excluded \<noteq> []" by blast
  then show ?thesis
  proof cases
    case 1
    then show ?thesis using that [of "\<lambda>_. False"] by (simp add: renew_leases_def sql_update_def)
  next
    case 2
    then show ?thesis using that [of "renewable owner"] by (simp add: renew_leases_def)
  next
    case 3
    then have "t_exec (fst (renew_leases owner ttl excluded dbnow db)) =
        sql_update (\<lambda>r. renewable owner r \<and> x_id r \<in> set ids) (renew_row dbnow ttl) (t_exec db)"
      using renew_batches_fold [OF d, of owner ttl dbnow db 0]
      by (simp add: renew_leases_def renew_leases_excluding_def ids_def [symmetric] concat_batches)
    then show ?thesis by (rule that) (use 3 in \<open>auto simp: ids_def\<close>)
  qed
qed

text \<open>Leases apart, a renewal keeps rows as every other transaction does.\<close>

definition states_kept :: "execution_id set \<Rightarrow> exec_db \<Rightarrow> exec_db \<Rightarrow> bool" where
  "states_kept N db db' \<longleftrightarrow> (\<forall>r' \<in> set (t_exec db'). x_id r' \<in> N \<or>
     (\<exists>r \<in> set (t_exec db). x_id r = x_id r' \<and>
        (x_runtime r \<noteq> RtQueued \<longrightarrow> x_runtime r' \<noteq> RtQueued \<and>
           (live_runtime (x_runtime r') \<longrightarrow> live_runtime (x_runtime r)))))"

lemma states_keptE:
  assumes "states_kept N db db'" "r' \<in> set (t_exec db')" "x_id r' \<notin> N"
  obtains r where "r \<in> set (t_exec db)" "x_id r = x_id r'"
    "x_runtime r \<noteq> RtQueued \<Longrightarrow> x_runtime r' \<noteq> RtQueued"
    "x_runtime r \<noteq> RtQueued \<Longrightarrow> live_runtime (x_runtime r') \<Longrightarrow> live_runtime (x_runtime r)"
  using assms unfolding states_kept_def by blast

lemma leases_states:
  assumes "leases_kept N (t_exec db) (t_exec db')"
  shows "states_kept N db db'"
  unfolding states_kept_def
proof (intro ballI)
  fix r' assume r': "r' \<in> set (t_exec db')"
  then consider "x_id r' \<in> N" | r where "r \<in> set (t_exec db)" "lease_kept r r'" using assms by (auto simp: leases_kept_def)
  then show "x_id r' \<in> N \<or> (\<exists>r \<in> set (t_exec db). x_id r = x_id r' \<and>
      (x_runtime r \<noteq> RtQueued \<longrightarrow> x_runtime r' \<noteq> RtQueued \<and>
         (live_runtime (x_runtime r') \<longrightarrow> live_runtime (x_runtime r))))"
  proof cases
    case (2 r)
    then show ?thesis by (intro disjI2 bexI [of _ r]) (auto simp: lease_kept_def)
  qed simp
qed

lemma renew_states: "exec_inv db \<Longrightarrow> states_kept N db (fst (renew_leases owner ttl excluded dbnow db))"
proof -
  assume "exec_inv db"
  from renew_shape [OF this, of owner ttl excluded dbnow] obtain P where
    e: "t_exec (fst (renew_leases owner ttl excluded dbnow db)) = sql_update P (renew_row dbnow ttl) (t_exec db)" by blast
  show ?thesis
    unfolding states_kept_def e set_sql_update
  proof (intro ballI)
    fix r' assume "r' \<in> (\<lambda>r. if P r then renew_row dbnow ttl r else r) ` set (t_exec db)"
    then obtain r where r: "r \<in> set (t_exec db)" "r' = (if P r then renew_row dbnow ttl r else r)" by blast
    then have "x_id r = x_id r'" "x_runtime r' = x_runtime r" by (simp_all add: renew_row_def)
    then show "x_id r' \<in> N \<or> (\<exists>r \<in> set (t_exec db). x_id r = x_id r' \<and>
        (x_runtime r \<noteq> RtQueued \<longrightarrow> x_runtime r' \<noteq> RtQueued \<and>
           (live_runtime (x_runtime r') \<longrightarrow> live_runtime (x_runtime r))))"
      using r(1) by (intro disjI2 bexI [of _ r]) simp_all
  qed
qed

lemma exec_step_states: "exec_inv db \<Longrightarrow> states_kept (set_option (new_id op)) db (exec_step op db)"
proof (cases "renews op")
  case None
  assume "exec_inv db"
  then show ?thesis by (rule leases_states [OF exec_step_leases [OF _ None]])
next
  case (Some owner)
  assume "exec_inv db"
  moreover obtain ttl ids dbnow where "op = OpRenew owner ttl ids dbnow" using Some by (cases op) simp_all
  ultimately show ?thesis using renew_states by simp
qed

lemma process_intent_leases: "leases_kept N (t_exec db) (t_exec (fst (process_intent now dbnow i db)))"
  by (auto simp: process_intent_def set_delivery_leases finish_runtime_leases split: repair_kind.split option.split)

lemma recover_store_leases: "leases_kept N (t_exec db) (t_exec (fst (recover_store tracked dbnow db)))"
  unfolding recover_store_db by (rule recover_leases)

text \<open>So a settled execution stays settled, and one out of the queue stays out of it.\<close>

lemma settled_up:
  assumes "states_kept N db db'" "x \<notin> N" "settled x db"
  shows "settled x db'"
  unfolding settled_def
proof (intro ballI impI)
  fix r' assume r': "r' \<in> set (t_exec db')" "x_id r' = x"
  obtain r where "r \<in> set (t_exec db)" "x_id r = x_id r'"
    "x_runtime r \<noteq> RtQueued \<Longrightarrow> x_runtime r' \<noteq> RtQueued"
    "x_runtime r \<noteq> RtQueued \<Longrightarrow> live_runtime (x_runtime r') \<Longrightarrow> live_runtime (x_runtime r)"
    using states_keptE [OF assms(1) r'(1)] assms(2) r'(2) by metis
  then show "x_runtime r' \<noteq> RtQueued \<and> \<not> live_runtime (x_runtime r')"
    using assms(3) r'(2) unfolding settled_def by metis
qed

lemma waits_up:
  assumes "states_kept N db db'" "x \<notin> N" "\<not> waits x db"
  shows "\<not> waits x db'"
  using assms unfolding waits_def states_kept_def by metis

lemma settled_unless_live: "\<not> waits x db \<Longrightarrow>
   (\<And>r. r \<in> set (t_exec db) \<Longrightarrow> x_id r = x \<Longrightarrow> \<not> live_runtime (x_runtime r)) \<Longrightarrow> settled x db"
  unfolding waits_def settled_def by blast

section \<open>The backlog\<close>

definition pending :: "execution_id \<Rightarrow> repairer \<Rightarrow> bool" where
  "pending x r \<longleftrightarrow> (\<exists>(k, o') \<in> set (rp_intents r).
     ri_kind (rp_objects r ! o') = RepairRuntime \<and> ri_exec (rp_objects r ! o') = x)"

text \<open>
  Keys are those of the intents they lead to, the bound holds, and an execution whose runtime
  repair is in the backlog is not abandoned.
\<close>

definition rep_ok :: "repairer \<Rightarrow> bool" where
  "rep_ok r \<longleftrightarrow> distinct (map fst (rp_intents r)) \<and>
     (\<forall>(k, o') \<in> set (rp_intents r). o' < length (rp_objects r) \<and> k = intent_key (rp_objects r ! o')) \<and>
     int (length (rp_intents r)) \<le> rc_capacity (rp_config r) \<and>
     (\<forall>x. pending x r \<longrightarrow> x \<notin> set (rp_abandoned r))"

lemma rep_okD:
  assumes "rep_ok r"
  shows "distinct (map fst (rp_intents r))"
    "(k, o') \<in> set (rp_intents r) \<Longrightarrow> o' < length (rp_objects r)"
    "(k, o') \<in> set (rp_intents r) \<Longrightarrow> k = intent_key (rp_objects r ! o')"
    "int (length (rp_intents r)) \<le> rc_capacity (rp_config r)"
    "pending x r \<Longrightarrow> x \<notin> set (rp_abandoned r)"
  using assms by (auto simp: rep_ok_def)

lemma kind_string: "repair_kind_string k = repair_kind_string k' \<longleftrightarrow> k = k'"
  by (cases k; cases k') (simp_all add: repair_kind_string_def)

text \<open>A key determines the execution and the kind: no kind is a suffix of \<open>':' @\<close> the other.\<close>

lemma key_inj: "i @ '':'' @ repair_kind_string k = j @ '':'' @ repair_kind_string l \<longleftrightarrow> i = j \<and> k = l"
proof
  assume e: "i @ '':'' @ repair_kind_string k = j @ '':'' @ repair_kind_string l"
  have last: "last (i @ '':'' @ repair_kind_string k) = last (repair_kind_string k)"
    "last (j @ '':'' @ repair_kind_string l) = last (repair_kind_string l)"
    by (simp_all add: repair_kind_string_def)
  have "last (repair_kind_string k) = last (repair_kind_string l)" using e last by metis
  then have "k = l" by (cases k; cases l) (simp_all add: repair_kind_string_def)
  then show "i = j \<and> k = l" using e by simp
qed simp

lemma intent_key_inj: "intent_key a = intent_key b \<longleftrightarrow> ri_exec a = ri_exec b \<and> ri_kind a = ri_kind b"
  unfolding intent_key_def by (rule key_inj)

lemma pendingI: "(k, o') \<in> set (rp_intents r) \<Longrightarrow> ri_kind (rp_objects r ! o') = RepairRuntime \<Longrightarrow>
    ri_exec (rp_objects r ! o') = x \<Longrightarrow> pending x r"
  unfolding pending_def by blast

lemma pendingE:
  assumes "pending x r"
  obtains k o' where "(k, o') \<in> set (rp_intents r)" "ri_kind (rp_objects r ! o') = RepairRuntime"
    "ri_exec (rp_objects r ! o') = x"
  using assms unfolding pending_def by blast

lemma abandon_sel [simp]:
  "rp_objects (abandon i r) = rp_objects r" "rp_intents (abandon i r) = rp_intents r"
  "rp_config (abandon i r) = rp_config r" "set (rp_abandoned (abandon i r)) = insert i (set (rp_abandoned r))"
  "rp_objects (unabandon i r) = rp_objects r" "rp_intents (unabandon i r) = rp_intents r"
  "rp_config (unabandon i r) = rp_config r" "set (rp_abandoned (unabandon i r)) = set (rp_abandoned r) - {i}"
  by (simp_all add: abandon_def unabandon_def)

lemma pending_frame [simp]: "pending x (abandon i r) = pending x r" "pending x (unabandon i r) = pending x r"
  by (simp_all add: pending_def)

text \<open>A step of the repairer may forget no runtime repair but of settled executions.\<close>

definition forgets_none :: "(execution_id \<Rightarrow> bool) \<Rightarrow> repairer \<Rightarrow> repairer \<Rightarrow> bool" where
  "forgets_none gone r r' \<longleftrightarrow>
     (\<forall>x. pending x r \<or> x \<in> set (rp_abandoned r) \<longrightarrow> pending x r' \<or> x \<in> set (rp_abandoned r') \<or> gone x)"

lemma forgets_noneI: "(\<And>x. pending x r \<Longrightarrow> pending x r' \<or> x \<in> set (rp_abandoned r') \<or> gone x) \<Longrightarrow>
    (\<And>x. x \<in> set (rp_abandoned r) \<Longrightarrow> pending x r' \<or> x \<in> set (rp_abandoned r') \<or> gone x) \<Longrightarrow> forgets_none gone r r'"
  unfolding forgets_none_def by blast

lemma forgets_noneD: "forgets_none gone r r' \<Longrightarrow> pending x r \<or> x \<in> set (rp_abandoned r) \<Longrightarrow>
    pending x r' \<or> x \<in> set (rp_abandoned r') \<or> gone x"
  unfolding forgets_none_def by blast

lemma forgets_none_trans: "forgets_none gone a b \<Longrightarrow> forgets_none gone b c \<Longrightarrow> forgets_none gone a c"
  unfolding forgets_none_def by blast

lemma forgets_none_refl [simp]: "forgets_none gone r r"
  unfolding forgets_none_def by blast

subsection \<open>Enqueueing\<close>

definition keep_repair :: "repair_intent \<Rightarrow> repairer \<Rightarrow> repairer" where
  "keep_repair i r =
     (let r1 = (if ri_kind i = RepairRuntime then unabandon (ri_exec i) r else r)
      in r1\<lparr>rp_objects := rp_objects r1 @ [i],
            rp_intents := AList.update (intent_key i) (length (rp_objects r1)) (rp_intents r1),
            rp_enqueued := rp_enqueued r1 + 1\<rparr>)"

lemma keep_sel:
  "rp_objects (keep_repair i r) = rp_objects r @ [i]"
  "rp_intents (keep_repair i r) = AList.update (intent_key i) (length (rp_objects r)) (rp_intents r)"
  "rp_config (keep_repair i r) = rp_config r"
  "set (rp_abandoned (keep_repair i r)) = set (rp_abandoned r) - (if ri_kind i = RepairRuntime then {ri_exec i} else {})"
  by (simp_all add: keep_repair_def Let_def)

lemma update_mem:
  "distinct (map fst l) \<Longrightarrow> p \<in> set (AList.update k v l) \<longleftrightarrow> p = (k, v) \<or> (fst p \<noteq> k \<and> p \<in> set l)"
  by (induction l) force+

lemma update_distinct: "distinct (map fst l) \<Longrightarrow> distinct (map fst (AList.update k v l))"
  by (rule distinct_update)

lemma update_length: "length (AList.update k v l) = (if k \<in> fst ` set l then length l else Suc (length l))"
  by (induction l) (auto simp: image_iff split: prod.splits)

lemma delete_mem: "p \<in> set (AList.delete k l) \<longleftrightarrow> fst p \<noteq> k \<and> p \<in> set l"
  by (auto simp: AList.delete_eq)

lemma delete_distinct: "distinct (map fst l) \<Longrightarrow> distinct (map fst (AList.delete k l))"
  by (rule distinct_delete)

lemma keep_pending:
  assumes "rep_ok r"
  shows "pending x (keep_repair i r) \<longleftrightarrow> (ri_kind i = RepairRuntime \<and> ri_exec i = x) \<or> pending x r"
proof
  assume "pending x (keep_repair i r)"
  then obtain k o' where m: "(k, o') \<in> set (rp_intents (keep_repair i r))"
      "ri_kind (rp_objects (keep_repair i r) ! o') = RepairRuntime" "ri_exec (rp_objects (keep_repair i r) ! o') = x"
    by (rule pendingE)
  then show "(ri_kind i = RepairRuntime \<and> ri_exec i = x) \<or> pending x r"
    using rep_okD(2) [OF assms] by (auto simp: keep_sel update_mem [OF rep_okD(1) [OF assms]] nth_append intro: pendingI)
next
  assume a: "(ri_kind i = RepairRuntime \<and> ri_exec i = x) \<or> pending x r"
  show "pending x (keep_repair i r)"
  proof (cases "ri_kind i = RepairRuntime \<and> ri_exec i = x")
    case True
    have "(intent_key i, length (rp_objects r)) \<in> set (rp_intents (keep_repair i r))"
      by (simp add: keep_sel update_mem [OF rep_okD(1) [OF assms]])
    then show ?thesis by (rule pendingI) (use True in \<open>simp_all add: keep_sel\<close>)
  next
    case False
    then obtain k o' where m: "(k, o') \<in> set (rp_intents r)" "ri_kind (rp_objects r ! o') = RepairRuntime"
        "ri_exec (rp_objects r ! o') = x" using a by (blast elim: pendingE)
    have l: "o' < length (rp_objects r)" and k: "k = intent_key (rp_objects r ! o')"
      using rep_okD(2,3) [OF assms m(1)] .
    have "k \<noteq> intent_key i" using False m(2,3) k by (auto simp: intent_key_inj)
    then have "(k, o') \<in> set (rp_intents (keep_repair i r))"
      using m(1) by (simp add: keep_sel update_mem [OF rep_okD(1) [OF assms]])
    then show ?thesis by (rule pendingI) (use m l in \<open>simp_all add: keep_sel nth_append\<close>)
  qed
qed

lemma keep_ok:
  assumes ok: "rep_ok r"
    and room: "intent_key i \<in> fst ` set (rp_intents r) \<or> int (length (rp_intents r)) < rc_capacity (rp_config r)"
  shows "rep_ok (keep_repair i r)"
  unfolding rep_ok_def
proof (intro conjI)
  note D = rep_okD [OF ok]
  show "distinct (map fst (rp_intents (keep_repair i r)))" unfolding keep_sel by (rule update_distinct [OF D(1)])
  show "\<forall>(k, o') \<in> set (rp_intents (keep_repair i r)). o' < length (rp_objects (keep_repair i r)) \<and>
      k = intent_key (rp_objects (keep_repair i r) ! o')"
    using D(2,3) by (auto simp: keep_sel update_mem [OF D(1)] nth_append less_Suc_eq)
  show "int (length (rp_intents (keep_repair i r))) \<le> rc_capacity (rp_config (keep_repair i r))"
    using room D(4) by (auto simp: keep_sel update_length)
  show "\<forall>x. pending x (keep_repair i r) \<longrightarrow> x \<notin> set (rp_abandoned (keep_repair i r))"
    using D(5) by (auto simp: keep_pending [OF ok] keep_sel)
qed

lemma enqueue_cases:
  fixes now i r
  defines "n \<equiv> i\<lparr>ri_enqueued := now, ri_next := now\<rparr>"
  obtains (older) o' where "enqueue_repair now i r = r" "map_of (rp_intents r) (intent_key n) = Some o'"
    | (dropped) "enqueue_repair now i r =
        (let r1 = r\<lparr>rp_dropped := rp_dropped r + 1\<rparr>
         in if ri_kind n = RepairRuntime then abandon (ri_exec n) r1 else r1)"
        "intent_key n \<notin> fst ` set (rp_intents r)"
    | (kept) "enqueue_repair now i r = keep_repair n r"
        "intent_key n \<in> fst ` set (rp_intents r) \<or> int (length (rp_intents r)) < rc_capacity (rp_config r)"
proof (cases "map_of (rp_intents r) (intent_key n)")
  case None
  then have m: "intent_key n \<notin> fst ` set (rp_intents r)" by (simp add: map_of_eq_None_iff)
  show ?thesis
  proof (cases "rc_capacity (rp_config r) \<le> int (length (rp_intents r))")
    case True
    have "enqueue_repair now i r =
        (let r1 = r\<lparr>rp_dropped := rp_dropped r + 1\<rparr>
         in if ri_kind n = RepairRuntime then abandon (ri_exec n) r1 else r1)"
      using None True unfolding enqueue_repair_def n_def by (simp add: Let_def)
    then show ?thesis using m by (rule dropped)
  next
    case False
    have "enqueue_repair now i r = keep_repair n r"
      using None False unfolding enqueue_repair_def n_def keep_repair_def by (simp add: Let_def)
    then show ?thesis using False by (intro kept) auto
  qed
next
  case (Some o')
  show ?thesis
  proof (cases "is_more_terminal (rp_objects r ! o') n")
    case True
    have "enqueue_repair now i r = r" using Some True unfolding enqueue_repair_def n_def by (simp add: Let_def)
    then show ?thesis using Some by (rule older)
  next
    case False
    have "enqueue_repair now i r = keep_repair n r"
      using Some False unfolding enqueue_repair_def n_def keep_repair_def by (simp add: Let_def)
    moreover have "intent_key n \<in> fst ` set (rp_intents r)" using map_of_SomeD [OF Some] by force
    ultimately show ?thesis by (intro kept) auto
  qed
qed

lemma pending_map_of:
  "rep_ok r \<Longrightarrow> pending x r \<longleftrightarrow> (\<exists>o'. map_of (rp_intents r) (x @ '':'' @ repair_kind_string RepairRuntime) = Some o')"
proof
  assume ok: "rep_ok r" and "pending x r"
  then obtain k o' where m: "(k, o') \<in> set (rp_intents r)" "ri_kind (rp_objects r ! o') = RepairRuntime"
      "ri_exec (rp_objects r ! o') = x" by (blast elim: pendingE)
  then have "k = x @ '':'' @ repair_kind_string RepairRuntime" using rep_okD(3) [OF ok m(1)] by (simp add: intent_key_def)
  then show "\<exists>o'. map_of (rp_intents r) (x @ '':'' @ repair_kind_string RepairRuntime) = Some o'"
    using m(1) rep_okD(1) [OF ok] by auto
next
  assume ok: "rep_ok r" and "\<exists>o'. map_of (rp_intents r) (x @ '':'' @ repair_kind_string RepairRuntime) = Some o'"
  then obtain o' where m: "(x @ '':'' @ repair_kind_string RepairRuntime, o') \<in> set (rp_intents r)"
    by (blast dest: map_of_SomeD)
  then have "x @ '':'' @ repair_kind_string RepairRuntime = intent_key (rp_objects r ! o')"
    by (rule rep_okD(3) [OF ok])
  then have "x = ri_exec (rp_objects r ! o')" "RepairRuntime = ri_kind (rp_objects r ! o')"
    unfolding intent_key_def key_inj by simp_all
  then show "pending x r" using m by (auto intro: pendingI)
qed

lemma enqueue_ok:
  assumes ok: "rep_ok r"
  shows "rep_ok (enqueue_repair now i r) \<and> forgets_none gone r (enqueue_repair now i r) \<and>
    (ri_kind i = RepairRuntime \<longrightarrow> pending (ri_exec i) (enqueue_repair now i r) \<or>
       ri_exec i \<in> set (rp_abandoned (enqueue_repair now i r)))"
proof (cases rule: enqueue_cases [where now = now and i = i and r = r])
  case (older o')
  then have "ri_kind i = RepairRuntime \<longrightarrow> pending (ri_exec i) r"
    by (auto simp: pending_map_of [OF ok] intent_key_def)
  then show ?thesis using ok by (simp add: older)
next
  case dropped
  have "ri_kind i = RepairRuntime \<Longrightarrow> \<not> pending (ri_exec i) r"
    using dropped(2) by (simp add: pending_map_of [OF ok] intent_key_def map_of_eq_None_iff)
  then have "rep_ok (enqueue_repair now i r)"
    using rep_okD [OF ok] unfolding dropped(1) rep_ok_def
    by (auto simp: Let_def pending_def)
  then show ?thesis
    unfolding dropped(1) by (auto simp: Let_def pending_def intro!: forgets_noneI)
next
  case kept
  have "rep_ok (enqueue_repair now i r)" unfolding kept(1) by (rule keep_ok [OF ok kept(2)])
  then show ?thesis
    unfolding kept(1) by (auto simp: keep_pending [OF ok] keep_sel intro!: forgets_noneI)
qed

subsection \<open>Processing\<close>

lemma drop_entry_pending:
  assumes "rep_ok r" "rp_objects r' = rp_objects r" "rp_intents r' = AList.delete (intent_key i) (rp_intents r)"
  shows "pending x r' \<longleftrightarrow> pending x r \<and> \<not> (ri_kind i = RepairRuntime \<and> ri_exec i = x)"
proof
  assume "pending x r'"
  then obtain k o' where "(k, o') \<in> set (rp_intents r')" "ri_kind (rp_objects r' ! o') = RepairRuntime"
      "ri_exec (rp_objects r' ! o') = x" by (rule pendingE)
  then have m: "(k, o') \<in> set (rp_intents r)" "k \<noteq> intent_key i" "ri_kind (rp_objects r ! o') = RepairRuntime"
      "ri_exec (rp_objects r ! o') = x" by (auto simp: assms(2,3) delete_mem)
  then show "pending x r \<and> \<not> (ri_kind i = RepairRuntime \<and> ri_exec i = x)"
    using rep_okD(3) [OF assms(1) m(1)] by (auto simp: intent_key_inj intro: pendingI)
next
  assume a: "pending x r \<and> \<not> (ri_kind i = RepairRuntime \<and> ri_exec i = x)"
  then obtain k o' where m: "(k, o') \<in> set (rp_intents r)" "ri_kind (rp_objects r ! o') = RepairRuntime"
      "ri_exec (rp_objects r ! o') = x" by (blast elim: pendingE)
  have "k \<noteq> intent_key i" using a m rep_okD(3) [OF assms(1) m(1)] by (auto simp: intent_key_inj)
  then have "(k, o') \<in> set (rp_intents r')" using m(1) by (simp add: assms(3) delete_mem)
  then show "pending x r'" by (rule pendingI) (use m in \<open>simp_all add: assms(2)\<close>)
qed

lemma drop_entry_ok:
  assumes ok: "rep_ok r" and r': "rp_objects r' = rp_objects r" "rp_intents r' = AList.delete (intent_key i) (rp_intents r)"
      "rp_config r' = rp_config r"
    and ab: "set (rp_abandoned r') \<subseteq> set (rp_abandoned r) \<union> (if ri_kind i = RepairRuntime then {ri_exec i} else {})"
  shows "rep_ok r'"
  unfolding rep_ok_def
proof (intro conjI)
  note D = rep_okD [OF ok]
  show "distinct (map fst (rp_intents r'))" unfolding r' by (rule delete_distinct [OF D(1)])
  show "\<forall>(k, o') \<in> set (rp_intents r'). o' < length (rp_objects r') \<and> k = intent_key (rp_objects r' ! o')"
    using D(2,3) by (auto simp: r' delete_mem)
  show "int (length (rp_intents r')) \<le> rc_capacity (rp_config r')"
    using D(4) length_delete_le [of "intent_key i" "rp_intents r"] by (simp add: r')
  show "\<forall>x. pending x r' \<longrightarrow> x \<notin> set (rp_abandoned r')"
    using D(5) ab by (auto simp: drop_entry_pending [OF ok r'(1,2)] split: if_splits)
qed

lemma expire_entry_ok:
  assumes ok: "rep_ok r" and k: "key = intent_key (rp_objects r ! o')"
  shows "rep_ok (expire_entry now (key, o') r) \<and> forgets_none gone r (expire_entry now (key, o') r) \<and>
    rp_objects (expire_entry now (key, o') r) = rp_objects r"
proof (cases "outlived now r (rp_objects r ! o')")
  case True
  let ?i = "rp_objects r ! o'" and ?r = "expire_entry now (key, o') r"
  let ?r1 = "r\<lparr>rp_intents := AList.delete key (rp_intents r), rp_timed_out := rp_timed_out r + 1\<rparr>"
  have e: "?r = (if ri_kind ?i = RepairRuntime then abandon (ri_exec ?i) ?r1 else ?r1)"
    using True by (simp add: expire_entry_def Let_def)
  have s: "rp_objects ?r = rp_objects r" "rp_intents ?r = AList.delete (intent_key ?i) (rp_intents r)"
      "rp_config ?r = rp_config r"
      "set (rp_abandoned ?r) = set (rp_abandoned r) \<union> (if ri_kind ?i = RepairRuntime then {ri_exec ?i} else {})"
    unfolding e by (simp_all add: k)
  have "rep_ok ?r" by (rule drop_entry_ok [OF ok s(1-3)]) (simp add: s(4))
  moreover have "forgets_none gone r ?r"
    by (rule forgets_noneI) (auto simp: drop_entry_pending [OF ok s(1,2)] s(4))
  ultimately show ?thesis using s(1) by simp
next
  case False
  then show ?thesis using ok by (simp add: expire_entry_def Let_def)
qed

lemma expire_all_ok:
  assumes "rep_ok r" "\<forall>(k, o') \<in> set es. k = intent_key (rp_objects r ! o')"
  shows "rep_ok (fold (expire_entry now) es r) \<and> forgets_none gone r (fold (expire_entry now) es r) \<and>
    rp_objects (fold (expire_entry now) es r) = rp_objects r"
  using assms
proof (induction es arbitrary: r)
  case (Cons e es)
  obtain k o' where e: "e = (k, o')" by (cases e)
  have "k = intent_key (rp_objects r ! o')" using Cons.prems(2) by (simp add: e)
  from expire_entry_ok [OF Cons.prems(1) this, of now gone] Cons.prems(2) Cons.IH [of "expire_entry now (k, o') r"]
  show ?case by (auto simp: e intro: forgets_none_trans)
qed simp

lemma process_due_ok:
  assumes ok: "rep_ok r" and d: "process_due now r = (r', due)"
  shows "rep_ok r'" "forgets_none gone r r'" "rp_objects r' = rp_objects r" "o' \<in> set due \<Longrightarrow> o' < length (rp_objects r)"
proof -
  have r': "r' = fold (expire_entry now) (rp_intents r) r"
    and due: "set due \<subseteq> snd ` set (rp_intents r)" using d by (auto simp: process_due_def)
  have "\<forall>(k, o') \<in> set (rp_intents r). k = intent_key (rp_objects r ! o')" using rep_okD(3) [OF ok] by blast
  from expire_all_ok [OF ok this, of now gone] show "rep_ok r'" "forgets_none gone r r'" "rp_objects r' = rp_objects r"
    by (simp_all add: r')
  show "o' \<in> set due \<Longrightarrow> o' < length (rp_objects r)" using due rep_okD(2) [OF ok] by fastforce
qed

lemma set_intent_sel [simp]:
  "rp_intents (set_intent o' f r) = rp_intents r" "rp_config (set_intent o' f r) = rp_config r"
  "rp_abandoned (set_intent o' f r) = rp_abandoned r" "length (rp_objects (set_intent o' f r)) = length (rp_objects r)"
  by (simp_all add: set_intent_def)

definition same_target :: "repair_intent \<Rightarrow> repair_intent \<Rightarrow> bool" where
  "same_target a b \<longleftrightarrow> ri_exec b = ri_exec a \<and> ri_kind b = ri_kind a"

lemma set_intent_same:
  assumes "\<And>i. same_target i (f i)"
  shows "same_target (rp_objects r ! p) (rp_objects (set_intent o' f r) ! p)"
  using assms by (cases "p = o'"; cases "o' < length (rp_objects r)") (auto simp: set_intent_def same_target_def list_update_beyond)

lemma set_intent_ok:
  assumes ok: "rep_ok r" and f: "\<And>i. same_target i (f i)"
  shows "rep_ok (set_intent o' f r)" "pending x (set_intent o' f r) = pending x r"
proof -
  have s: "ri_exec (rp_objects (set_intent o' f r) ! p) = ri_exec (rp_objects r ! p)"
    "ri_kind (rp_objects (set_intent o' f r) ! p) = ri_kind (rp_objects r ! p)" for p
    using set_intent_same [OF f, of r p o'] by (simp_all add: same_target_def)
  have p: "pending x (set_intent o' f r) = pending x r" for x by (simp add: pending_def s)
  then show "pending x (set_intent o' f r) = pending x r" .
  show "rep_ok (set_intent o' f r)"
    using ok unfolding rep_ok_def p by (simp add: intent_key_def s)
qed

lemma attempt_ok:
  assumes "rep_ok r"
  shows "rep_ok (begin_attempt o' r)" "pending x (begin_attempt o' r) = pending x r"
    "rp_abandoned (begin_attempt o' r) = rp_abandoned r" "length (rp_objects (begin_attempt o' r)) = length (rp_objects r)"
    "same_target (rp_objects r ! p) (rp_objects (begin_attempt o' r) ! p)"
proof -
  have f: "same_target i (i\<lparr>ri_attempts := ri_attempts i + 1\<rparr>)" for i by (simp add: same_target_def)
  show "rep_ok (begin_attempt o' r)" "pending x (begin_attempt o' r) = pending x r"
    unfolding begin_attempt_def by (rule set_intent_ok [OF assms f])+
  show "same_target (rp_objects r ! p) (rp_objects (begin_attempt o' r) ! p)"
    unfolding begin_attempt_def by (rule set_intent_same [OF f])
qed (simp_all add: begin_attempt_def)

lemma failed_ok:
  assumes "rep_ok r"
  shows "rep_ok (repair_failed now o' r)" "pending x (repair_failed now o' r) = pending x r"
    "rp_abandoned (repair_failed now o' r) = rp_abandoned r" "length (rp_objects (repair_failed now o' r)) = length (rp_objects r)"
proof -
  have f: "same_target i (i\<lparr>ri_next := now + repair_backoff (rp_config r) (ri_attempts i)\<rparr>)" for i
    by (simp add: same_target_def)
  show "rep_ok (repair_failed now o' r)" "pending x (repair_failed now o' r) = pending x r"
    unfolding repair_failed_def by (rule set_intent_ok [OF assms f])+
qed (simp_all add: repair_failed_def)

lemma succeeded_ok:
  assumes ok: "rep_ok r" and g: "ri_kind (rp_objects r ! o') = RepairRuntime \<Longrightarrow> gone (ri_exec (rp_objects r ! o'))"
  shows "rep_ok (repair_succeeded o' r)" "forgets_none gone r (repair_succeeded o' r)"
    "rp_objects (repair_succeeded o' r) = rp_objects r"
proof -
  let ?i = "rp_objects r ! o'" and ?r = "repair_succeeded o' r"
  have "rep_ok ?r \<and> forgets_none gone r ?r \<and> rp_objects ?r = rp_objects r"
  proof (cases "map_of (rp_intents r) (intent_key ?i) = Some o'")
    case True
    have s: "rp_objects ?r = rp_objects r" "rp_intents ?r = AList.delete (intent_key ?i) (rp_intents r)"
        "rp_config ?r = rp_config r"
        "set (rp_abandoned ?r) = set (rp_abandoned r) - (if ri_kind ?i = RepairRuntime then {ri_exec ?i} else {})"
      using True by (simp_all add: repair_succeeded_def Let_def)
    have "rep_ok ?r" by (rule drop_entry_ok [OF ok s(1-3)]) (auto simp: s(4))
    moreover have "forgets_none gone r ?r"
      by (rule forgets_noneI) (use g in \<open>auto simp: drop_entry_pending [OF ok s(1,2)] s(4)\<close>)
    ultimately show ?thesis using s(1) by simp
  next
    case False
    then have s: "rp_objects ?r = rp_objects r" "rp_intents ?r = rp_intents r" "rp_config ?r = rp_config r"
        "rp_abandoned ?r = rp_abandoned r" by (simp_all add: repair_succeeded_def Let_def)
    have p: "pending x ?r = pending x r" for x by (simp add: pending_def s)
    show ?thesis using ok by (simp add: rep_ok_def forgets_none_def p s)
  qed
  then show "rep_ok ?r" "forgets_none gone r ?r" "rp_objects ?r = rp_objects r" by simp_all
qed

lemma clear_abandoned_sel:
  "rp_intents (clear_abandoned ids r) = rp_intents r" "rp_config (clear_abandoned ids r) = rp_config r"
  "rp_objects (clear_abandoned ids r) = rp_objects r" "set (rp_abandoned (clear_abandoned ids r)) = set (rp_abandoned r) - set ids"
  unfolding clear_abandoned_def by (induction ids arbitrary: r) auto

lemma recover_clear_sel:
  "rp_intents (recover_clear ids r) = rp_intents r" "rp_config (recover_clear ids r) = rp_config r"
  "rp_objects (recover_clear ids r) = rp_objects r" "set (rp_abandoned (recover_clear ids r)) = set (rp_abandoned r) - set ids"
  by (auto simp: recover_clear_def clear_abandoned_sel)

lemma recover_clear_ok:
  assumes "rep_ok r"
  shows "rep_ok (recover_clear ids r)" "pending x (recover_clear ids r) = pending x r"
proof -
  have p: "pending x (recover_clear ids r) = pending x r" for x by (simp add: pending_def recover_clear_sel)
  then show "pending x (recover_clear ids r) = pending x r" .
  show "rep_ok (recover_clear ids r)" using assms by (simp add: rep_ok_def p recover_clear_sel)
qed

section \<open>The invariant of the machine\<close>

text \<open>
  The executions of the backlog's objects, the abandoned ones and those a recovery round tracks are
  owed; no owed execution waits in a queue; what a round is about to release is settled; and an
  owed execution is in the backlog, abandoned or settled.
\<close>

definition objects_owed :: "repairer \<Rightarrow> execution_id list \<Rightarrow> bool" where
  "objects_owed r owed \<longleftrightarrow> (\<forall>i \<in> set (rp_objects r). ri_kind i = RepairRuntime \<longrightarrow> ri_exec i \<in> set owed)"

definition repair_inv :: "repair_world \<Rightarrow> bool" where
  "repair_inv w \<longleftrightarrow> (exec_inv (rw_db w) \<and> queue_inv (rw_db w)) \<and> rep_ok (rw_rep w) \<and>
     (\<forall>o' \<in> set (rw_due w). o' < length (rp_objects (rw_rep w))) \<and>
     (\<forall>o'. rw_tried w = Some (o', True) \<longrightarrow> ri_kind (rp_objects (rw_rep w) ! o') = RepairRuntime \<longrightarrow>
        settled (ri_exec (rp_objects (rw_rep w) ! o')) (rw_db w)) \<and>
     (\<forall>o' ok. rw_tried w = Some (o', ok) \<longrightarrow> o' < length (rp_objects (rw_rep w))) \<and>
     (\<forall>ids. rw_recover w = Some ids \<longrightarrow> set ids \<subseteq> set (rw_owed w)) \<and>
     (\<forall>ids. rw_converged w = Some ids \<longrightarrow> (\<forall>x \<in> set ids. x \<in> set (rw_owed w) \<and> settled x (rw_db w))) \<and>
     (objects_owed (rw_rep w) (rw_owed w) \<and> set (rp_abandoned (rw_rep w)) \<subseteq> set (rw_owed w)) \<and>
     (\<forall>x \<in> set (rw_owed w). \<not> waits x (rw_db w) \<and>
        (pending x (rw_rep w) \<or> x \<in> set (rp_abandoned (rw_rep w)) \<or> settled x (rw_db w)))"

lemma repair_invI:
  assumes "exec_inv (rw_db w) \<and> queue_inv (rw_db w)" "rep_ok (rw_rep w)"
    "\<And>o'. o' \<in> set (rw_due w) \<Longrightarrow> o' < length (rp_objects (rw_rep w))"
    "\<And>o'. rw_tried w = Some (o', True) \<Longrightarrow> ri_kind (rp_objects (rw_rep w) ! o') = RepairRuntime \<Longrightarrow>
        settled (ri_exec (rp_objects (rw_rep w) ! o')) (rw_db w)"
    "\<And>o' ok. rw_tried w = Some (o', ok) \<Longrightarrow> o' < length (rp_objects (rw_rep w))"
    "\<And>ids. rw_recover w = Some ids \<Longrightarrow> set ids \<subseteq> set (rw_owed w)"
    "\<And>ids x. rw_converged w = Some ids \<Longrightarrow> x \<in> set ids \<Longrightarrow> x \<in> set (rw_owed w) \<and> settled x (rw_db w)"
    "objects_owed (rw_rep w) (rw_owed w) \<and> set (rp_abandoned (rw_rep w)) \<subseteq> set (rw_owed w)"
    "\<And>x. x \<in> set (rw_owed w) \<Longrightarrow> \<not> waits x (rw_db w) \<and>
        (pending x (rw_rep w) \<or> x \<in> set (rp_abandoned (rw_rep w)) \<or> settled x (rw_db w))"
  shows "repair_inv w"
  unfolding repair_inv_def using assms by blast

lemma repair_invD:
  assumes "repair_inv w"
  shows "exec_inv (rw_db w)" "queue_inv (rw_db w)" "rep_ok (rw_rep w)"
    "o' \<in> set (rw_due w) \<Longrightarrow> o' < length (rp_objects (rw_rep w))"
    "rw_tried w = Some (o', True) \<Longrightarrow> ri_kind (rp_objects (rw_rep w) ! o') = RepairRuntime \<Longrightarrow>
        settled (ri_exec (rp_objects (rw_rep w) ! o')) (rw_db w)"
    "rw_tried w = Some (o', ok) \<Longrightarrow> o' < length (rp_objects (rw_rep w))"
    "rw_recover w = Some ids \<Longrightarrow> set ids \<subseteq> set (rw_owed w)"
    "rw_converged w = Some ids \<Longrightarrow> x \<in> set ids \<Longrightarrow> x \<in> set (rw_owed w) \<and> settled x (rw_db w)"
    "objects_owed (rw_rep w) (rw_owed w)" "set (rp_abandoned (rw_rep w)) \<subseteq> set (rw_owed w)"
    "x \<in> set (rw_owed w) \<Longrightarrow> pending x (rw_rep w) \<or> x \<in> set (rp_abandoned (rw_rep w)) \<or> settled x (rw_db w)"
    "x \<in> set (rw_owed w) \<Longrightarrow> \<not> waits x (rw_db w)"
  using assms unfolding repair_inv_def by blast+

lemma object_owed: "objects_owed r owed \<Longrightarrow> o' < length (rp_objects r) \<Longrightarrow>
    ri_kind (rp_objects r ! o') = RepairRuntime \<Longrightarrow> ri_exec (rp_objects r ! o') \<in> set owed"
  by (simp add: objects_owed_def)

text \<open>A transaction of the ledger that makes no new row of an owed execution.\<close>

lemma repair_inv_ledger:
  assumes inv: "repair_inv w" and i: "exec_inv db \<and> queue_inv db"
    and s: "states_kept N (rw_db w) db" and n: "\<And>x. x \<in> set (rw_owed w) \<Longrightarrow> x \<notin> N"
  shows "repair_inv (w\<lparr>rw_db := db\<rparr>)"
proof -
  note D = repair_invD [OF inv]
  have up: "settled x db" if "x \<in> set (rw_owed w)" "settled x (rw_db w)" for x
    by (rule settled_up [OF s n [OF that(1)] that(2)])
  have q: "\<not> waits x db" if "x \<in> set (rw_owed w)" for x
    by (rule waits_up [OF s n [OF that] D(12) [OF that]])
  show ?thesis
  proof (rule repair_invI, goal_cases)
    case (4 o')
    then have t: "rw_tried w = Some (o', True)" "ri_kind (rp_objects (rw_rep w) ! o') = RepairRuntime" by simp_all
    show ?case using up [OF object_owed [OF D(9) D(6) [OF t(1)] t(2)] D(5) [OF t]] by simp
  next
    case (7 ids x) then show ?case using D(8) [of ids x] up by simp
  next
    case (9 x) then show ?case using D(11) [of x] up q by auto
  qed (use i D in \<open>simp_all\<close>)
qed

text \<open>A section of the repairer that targets the same objects and forgets only settled repairs.\<close>

lemma repair_inv_section:
  assumes inv: "repair_inv w" and ok: "rep_ok r"
    and len: "length (rp_objects (rw_rep w)) \<le> length (rp_objects r)"
    and obj: "\<And>o'. o' < length (rp_objects (rw_rep w)) \<Longrightarrow> same_target (rp_objects (rw_rep w) ! o') (rp_objects r ! o')"
    and none: "forgets_none (\<lambda>x. settled x (rw_db w)) (rw_rep w) r"
    and fresh: "objects_owed r owed" "set (rp_abandoned r) \<subseteq> set owed" "set (rw_owed w) \<subseteq> set owed"
    and owed: "\<And>x. x \<in> set owed \<Longrightarrow> x \<in> set (rw_owed w) \<or> \<not> waits x (rw_db w) \<and> (pending x r \<or> x \<in> set (rp_abandoned r))"
  shows "repair_inv (w\<lparr>rw_rep := r, rw_owed := owed\<rparr>)"
proof (rule repair_invI, goal_cases)
  case 1 show ?case using repair_invD(1,2) [OF inv] by simp
next
  case 2 show ?case using ok by simp
next
  case (3 o')
  then have "o' < length (rp_objects (rw_rep w))" using repair_invD(4) [OF inv, of o'] by simp
  then show ?case using len by simp
next
  case (4 o')
  then have t: "rw_tried w = Some (o', True)" by simp
  have "same_target (rp_objects (rw_rep w) ! o') (rp_objects r ! o')" using obj repair_invD(6) [OF inv t] .
  then show ?case using 4 repair_invD(5) [OF inv t] by (simp add: same_target_def)
next
  case (5 o' b)
  then have "o' < length (rp_objects (rw_rep w))" using repair_invD(6) [OF inv, of o' b] by simp
  then show ?case using len by simp
next
  case (6 ids) then show ?case using repair_invD(7) [OF inv, of ids] fresh(3) by auto
next
  case (7 ids x) then show ?case using repair_invD(8) [OF inv, of ids x] fresh(3) by auto
next
  case 8 then show ?case using fresh by simp
next
  case (9 x)
  then have "x \<in> set (rw_owed w) \<or> \<not> waits x (rw_db w) \<and> (pending x r \<or> x \<in> set (rp_abandoned r))" using owed by simp
  then show ?case
    using repair_invD(11,12) [OF inv, of x] forgets_noneD [OF none, of x] by auto
qed

lemma repair_inv_fields:
  assumes inv: "repair_inv w"
    and due: "\<And>o'. o' \<in> set due \<Longrightarrow> o' < length (rp_objects (rw_rep w))"
  shows "repair_inv (w\<lparr>rw_due := due, rw_tried := None\<rparr>)"
  using inv due by (simp add: repair_inv_def)

lemma recover_store_conv:
  assumes "recover_store tracked dbnow db = (db', conv)" "x \<in> set conv" "\<And>x. x \<in> set tracked \<Longrightarrow> \<not> waits x db'"
  shows "x \<in> set tracked \<and> settled x db'"
proof -
  obtain n where e: "recover_expired_leases tracked dbnow db = (db', n, conv)"
    using assms(1) by (auto simp: recover_store_def split: prod.splits)
  have c: "x \<in> set tracked" "\<not> (\<exists>r \<in> set (t_exec db'). x_id r = x \<and> live_runtime (x_runtime r))"
    using recover_expired_spec [OF e] assms(2) by auto
  then show ?thesis using settled_unless_live [OF assms(3) [OF c(1)]] by blast
qed

lemma same_target_refl [simp]: "same_target a a"
  by (simp add: same_target_def)

lemma enqueue_abandoned_fresh:
  "set (rp_abandoned (enqueue_repair now i r)) \<subseteq>
     set (rp_abandoned r) \<union> (if ri_kind i = RepairRuntime then {ri_exec i} else {})"
  by (cases rule: enqueue_cases [where now = now and i = i and r = r]) (auto simp: Let_def keep_sel split: if_splits)

lemma enqueue_objects:
  "length (rp_objects r) \<le> length (rp_objects (enqueue_repair now i r))"
  "o' < length (rp_objects r) \<Longrightarrow> rp_objects (enqueue_repair now i r) ! o' = rp_objects r ! o'"
  "set (rp_objects (enqueue_repair now i r)) \<subseteq> insert (i\<lparr>ri_enqueued := now, ri_next := now\<rparr>) (set (rp_objects r))"
  by (cases rule: enqueue_cases [where now = now and i = i and r = r]; auto simp: Let_def keep_sel nth_append)+

lemma expire_all_abandoned:
  assumes "\<forall>(k, o') \<in> set es. o' < length (rp_objects r)" "objects_owed r owed" "set (rp_abandoned r) \<subseteq> set owed"
  shows "set (rp_abandoned (fold (expire_entry now) es r)) \<subseteq> set owed"
  using assms
proof (induction es arbitrary: r)
  case (Cons e es)
  obtain k o' where e: "e = (k, o')" by (cases e)
  let ?r = "expire_entry now (k, o') r"
  have ob: "rp_objects ?r = rp_objects r" by (simp add: expire_entry_def Let_def)
  have "o' < length (rp_objects r)" using Cons.prems(1) by (simp add: e)
  then have "set (rp_abandoned ?r) \<subseteq> set owed"
    using Cons.prems(3) object_owed [OF Cons.prems(2), of o'] by (auto simp: expire_entry_def Let_def split: if_splits)
  then have "set (rp_abandoned (fold (expire_entry now) es ?r)) \<subseteq> set owed"
    by (intro Cons.IH) (use Cons.prems(1,2) in \<open>simp_all add: ob objects_owed_def\<close>)
  then show ?case by (simp add: e)
qed simp

lemma succeeded_fresh: "set (rp_abandoned (repair_succeeded o' r)) \<subseteq> set (rp_abandoned r)"
  by (auto simp: repair_succeeded_def Let_def)

lemma repair_inv_tried:
  assumes inv: "repair_inv w" and o': "o' < length (rp_objects (rw_rep w))"
    and ok: "ok \<Longrightarrow> ri_kind (rp_objects (rw_rep w) ! o') = RepairRuntime \<Longrightarrow>
      settled (ri_exec (rp_objects (rw_rep w) ! o')) (rw_db w)"
  shows "repair_inv (w\<lparr>rw_tried := Some (o', ok)\<rparr>)"
proof (rule repair_invI, goal_cases)
  case (7 ids x) then show ?case using repair_invD(8) [OF inv, of ids x] by simp
next
  case (9 x) then show ?case using repair_invD(11,12) [OF inv, of x] by simp
qed (use o' ok repair_invD [OF inv] in \<open>simp_all\<close>)

lemma repair_inv_rep:
  assumes "repair_inv w" "rep_ok r" "length (rp_objects r) = length (rp_objects (rw_rep w))"
    "\<And>o'. same_target (rp_objects (rw_rep w) ! o') (rp_objects r ! o')"
    "forgets_none (\<lambda>x. settled x (rw_db w)) (rw_rep w) r" "set (rp_abandoned r) \<subseteq> set (rw_owed w)"
  shows "repair_inv (w\<lparr>rw_rep := r\<rparr>)"
proof -
  have "objects_owed r (rw_owed w)"
    unfolding objects_owed_def
  proof (intro ballI impI)
    fix i assume i: "i \<in> set (rp_objects r)" "ri_kind i = RepairRuntime"
    then obtain p where p: "p < length (rp_objects r)" "i = rp_objects r ! p" by (auto simp: in_set_conv_nth)
    then show "ri_exec i \<in> set (rw_owed w)"
      using assms(4) [of p] object_owed [OF repair_invD(9) [OF assms(1)], of p] assms(3) i(2) by (simp add: same_target_def)
  qed
  from repair_inv_section [OF assms(1,2) _ _ assms(5) this assms(6), OF _ assms(4)] assms(3) show ?thesis by simp
qed

lemma forgets_none_same: "(\<And>x. pending x r' = pending x r) \<Longrightarrow> rp_abandoned r' = rp_abandoned r \<Longrightarrow> forgets_none gone r r'"
  by (simp add: forgets_none_def)

lemma enqueue_step_inv:
  assumes inv: "repair_inv w" and op: "in_order (RwEnqueue i now) w"
  shows "repair_inv (repair_step me (RwEnqueue i now) w)"
proof -
  note ok = repair_invD(3) [OF inv]
  let ?r = "enqueue_repair now i (rw_rep w)"
  let ?owed = "if ri_kind i = RepairRuntime then ri_exec i # rw_owed w else rw_owed w"
  note e = enqueue_ok [OF ok, of now i "\<lambda>x. settled x (rw_db w)"]
  have "repair_inv (w\<lparr>rw_rep := ?r, rw_owed := ?owed\<rparr>)"
  proof (rule repair_inv_section [OF inv])
    show "rep_ok ?r" "forgets_none (\<lambda>x. settled x (rw_db w)) (rw_rep w) ?r" using e by simp_all
    show "length (rp_objects (rw_rep w)) \<le> length (rp_objects ?r)" by (rule enqueue_objects)
    show "objects_owed ?r ?owed"
      using repair_invD(9) [OF inv] enqueue_objects(3) [of now i "rw_rep w"] by (force simp: objects_owed_def)
    show "set (rp_abandoned ?r) \<subseteq> set ?owed"
      using enqueue_abandoned_fresh [of now i "rw_rep w"] repair_invD(10) [OF inv] by auto
    show "set (rw_owed w) \<subseteq> set ?owed" by auto
    show "x \<in> set (rw_owed w) \<or> \<not> waits x (rw_db w) \<and> (pending x ?r \<or> x \<in> set (rp_abandoned ?r))"
      if "x \<in> set ?owed" for x
      using that e op by (auto split: if_splits)
  qed (simp add: enqueue_objects(2))
  then show ?thesis by (simp add: repair_steps)
qed

lemma due_step_inv:
  assumes inv: "repair_inv w"
  shows "repair_inv (repair_step me (RwDue now order) w)"
proof (cases "rw_due w = [] \<and> rw_tried w = None \<and> mset order = mset (snd (process_due now (rw_rep w)))")
  case True
  note D = repair_invD [OF inv]
  obtain r due where d: "process_due now (rw_rep w) = (r, due)" by (cases "process_due now (rw_rep w)")
  note p = process_due_ok [OF D(3) d]
  have "r = fold (expire_entry now) (rp_intents (rw_rep w)) (rw_rep w)" using d by (simp add: process_due_def)
  moreover have "\<forall>(k, o') \<in> set (rp_intents (rw_rep w)). o' < length (rp_objects (rw_rep w))" using rep_okD(2) [OF D(3)] by blast
  ultimately have "set (rp_abandoned r) \<subseteq> set (rw_owed w)" using expire_all_abandoned D(9,10) by simp
  then have 1: "repair_inv (w\<lparr>rw_rep := r\<rparr>)"
    by (intro repair_inv_rep [OF inv p(1)]) (use p(2,3) in \<open>simp_all\<close>)
  have "set order = set due" using True by (metis d set_mset_mset snd_conv)
  then have "repair_inv ((w\<lparr>rw_rep := r\<rparr>)\<lparr>rw_due := order, rw_tried := None\<rparr>)"
    by (intro repair_inv_fields [OF 1]) (use p(3,4) in simp)
  moreover have "w\<lparr>rw_rep := r, rw_due := order, rw_tried := None\<rparr> = w\<lparr>rw_rep := r, rw_due := order\<rparr>"
    using True by (cases w) simp
  ultimately show ?thesis using True by (simp add: repair_steps d)
next
  case False
  then show ?thesis unfolding repair_steps by (simp only: if_False inv)
qed

lemma try_step_inv:
  assumes inv: "repair_inv w"
  shows "repair_inv (repair_step me (RwTry reach now dbnow) w)"
proof (cases "\<exists>o' due. rw_due w = o' # due \<and> rw_tried w = None")
  case True
  then obtain o' due where o: "rw_due w = o' # due" "rw_tried w = None" by blast
  note D = repair_invD [OF inv]
  let ?r = "begin_attempt o' (rw_rep w)" and ?i = "rp_objects (begin_attempt o' (rw_rep w)) ! o'"
  obtain db err where d: "process_intent now dbnow ?i (rw_db w) = (db, err)" by (cases "process_intent now dbnow ?i (rw_db w)")
  let ?db = "if reach = Lost then rw_db w else db"
  have 1: "repair_inv (w\<lparr>rw_rep := ?r\<rparr>)"
    by (rule repair_inv_rep [OF inv attempt_ok(1) [OF D(3)]])
       (simp_all add: attempt_ok [OF D(3)] forgets_none_same D(10))
  have i: "exec_inv ?db \<and> queue_inv ?db"
    using process_intent_good [OF D(1,2), of now dbnow ?i] D(1,2) by (simp add: d good_def)
  have "states_kept {} (rw_db w) ?db"
    using leases_states [OF process_intent_leases [of "{}" "rw_db w" now dbnow ?i]] leases_states [OF leases_kept_refl, of "{}" "rw_db w"]
    by (simp add: d)
  then have "states_kept {} (rw_db (w\<lparr>rw_rep := ?r\<rparr>)) ?db" by simp
  from repair_inv_ledger [OF 1 i this]
  have 2: "repair_inv (w\<lparr>rw_rep := ?r, rw_db := ?db\<rparr>)" by simp
  have l: "o' < length (rp_objects (rw_rep w))" using D(4) [of o'] o by simp
  have "repair_inv ((w\<lparr>rw_rep := ?r, rw_db := ?db\<rparr>)\<lparr>rw_tried := Some (o', reach = Heard \<and> err = None)\<rparr>)"
  proof (rule repair_inv_tried [OF 2])
    show "o' < length (rp_objects (rw_rep (w\<lparr>rw_rep := ?r, rw_db := ?db\<rparr>)))" using l by (simp add: attempt_ok(4) [OF D(3)])
  next
    assume a: "reach = Heard \<and> err = None"
      "ri_kind (rp_objects (rw_rep (w\<lparr>rw_rep := ?r, rw_db := ?db\<rparr>)) ! o') = RepairRuntime"
    then have "settled (ri_exec ?i) db" using process_intent_settles [of now dbnow ?i "rw_db w" db] d D(1,2) by simp
    then show "settled (ri_exec (rp_objects (rw_rep (w\<lparr>rw_rep := ?r, rw_db := ?db\<rparr>)) ! o'))
        (rw_db (w\<lparr>rw_rep := ?r, rw_db := ?db\<rparr>))" using a(1) by simp
  qed
  then show ?thesis using o by (simp add: repair_steps Let_def d)
next
  case False
  then have "repair_step me (RwTry reach now dbnow) w = w"
    by (cases "rw_due w"; cases "rw_tried w") (simp_all add: repair_steps)
  then show ?thesis using inv by simp
qed

lemma settle_step_inv:
  assumes inv: "repair_inv w"
  shows "repair_inv (repair_step me (RwSettle now) w)"
proof (cases "rw_tried w")
  case (Some t)
  obtain o' ok where t: "rw_tried w = Some (o', ok)" using Some by (cases t) simp
  note D = repair_invD [OF inv]
  let ?r = "if ok then repair_succeeded o' (rw_rep w) else repair_failed now o' (rw_rep w)"
  have tgt: "same_target (rp_objects (rw_rep w) ! p) (rp_objects (repair_failed now o' (rw_rep w)) ! p)" for p
    unfolding repair_failed_def by (rule set_intent_same) (simp add: same_target_def)
  have "repair_inv (w\<lparr>rw_rep := ?r\<rparr>)"
  proof (cases ok)
    case True
    then have g: "ri_kind (rp_objects (rw_rep w) ! o') = RepairRuntime \<Longrightarrow>
        settled (ri_exec (rp_objects (rw_rep w) ! o')) (rw_db w)" using D(5) t by simp
    note s = succeeded_ok [OF D(3), of o' "\<lambda>x. settled x (rw_db w)", OF g]
    have "set (rp_abandoned (repair_succeeded o' (rw_rep w))) \<subseteq> set (rw_owed w)"
      using succeeded_fresh D(10) by blast
    then have "repair_inv (w\<lparr>rw_rep := repair_succeeded o' (rw_rep w)\<rparr>)"
      by (intro repair_inv_rep [OF inv s(1)]) (use s in \<open>simp_all\<close>)
    then show ?thesis using True by simp
  next
    case False
    have "repair_inv (w\<lparr>rw_rep := repair_failed now o' (rw_rep w)\<rparr>)"
      by (rule repair_inv_rep [OF inv failed_ok(1) [OF D(3)]])
         (simp_all add: failed_ok [OF D(3)] forgets_none_same tgt D(10))
    then show ?thesis using False by simp
  qed
  note 1 = this
  have len: "length (rp_objects ?r) = length (rp_objects (rw_rep w))"
    by (simp add: failed_ok(4) [OF D(3)] repair_succeeded_def Let_def)
  have "repair_inv ((w\<lparr>rw_rep := ?r\<rparr>)\<lparr>rw_due := tl (rw_due w), rw_tried := None\<rparr>)"
  proof (rule repair_inv_fields [OF 1])
    show "p < length (rp_objects (rw_rep (w\<lparr>rw_rep := ?r\<rparr>)))" if "p \<in> set (tl (rw_due w))" for p
      using D(4) [of p] that len by (cases "rw_due w") simp_all
  qed
  then show ?thesis by (simp add: repair_steps t)
qed (use inv in \<open>simp add: repair_steps\<close>)

lemma ledger_step_inv:
  assumes inv: "repair_inv w" and op: "in_order (RwLedger op) w"
  shows "repair_inv (repair_step me (RwLedger op) w)"
  unfolding repair_steps
proof (rule repair_inv_ledger [OF inv])
  show "exec_inv (exec_step op (rw_db w)) \<and> queue_inv (exec_step op (rw_db w))"
    by (rule exec_step_inv) (use repair_invD(1,2) [OF inv] in simp)
  show "states_kept (set_option (new_id op)) (rw_db w) (exec_step op (rw_db w))"
    by (rule exec_step_states [OF repair_invD(1) [OF inv]])
  show "x \<notin> set_option (new_id op)" if "x \<in> set (rw_owed w)" for x using op that by auto
qed

lemma renew_step_inv:
  assumes inv: "repair_inv w"
  shows "repair_inv (repair_step me (RwRenewStore reach dbnow) w)"
proof (cases "rw_renew w")
  case (Some excluded)
  note D = repair_invD [OF inv]
  let ?db = "if reach = Lost then rw_db w else renew_tick me excluded dbnow (rw_db w)"
  have i: "exec_inv ?db \<and> queue_inv ?db"
    using renew_tick_good [OF D(1,2), of me excluded dbnow] D(1,2) by (simp add: good_def)
  have "states_kept {} (rw_db w) ?db"
    using renew_states [OF D(1)] leases_states [OF leases_kept_refl, of "{}" "rw_db w"] by (simp add: renew_tick_def)
  from repair_inv_ledger [OF inv i this]
  have "repair_inv (w\<lparr>rw_renew := None, rw_db := ?db\<rparr>)" by (simp add: repair_inv_def)
  then show ?thesis by (simp add: repair_steps Some)
qed (use inv in \<open>simp add: repair_steps\<close>)

lemma recover_step_inv:
  assumes inv: "repair_inv w"
  shows "repair_inv (repair_step me (RwRecoverStore reach dbnow) w)"
proof (cases "rw_recover w")
  case (Some tracked)
  note D = repair_invD [OF inv]
  obtain db conv where d: "recover_store tracked dbnow (rw_db w) = (db, conv)" by (cases "recover_store tracked dbnow (rw_db w)")
  let ?db = "if reach = Lost then rw_db w else db"
  have i: "exec_inv ?db \<and> queue_inv ?db"
    using recover_store_good [OF D(1,2), of tracked dbnow] D(1,2) by (simp add: d good_def)
  have "states_kept {} (rw_db w) ?db"
    using leases_states [OF recover_store_leases [of "{}" "rw_db w" tracked dbnow]] leases_states [OF leases_kept_refl, of "{}" "rw_db w"]
    by (simp add: d)
  from repair_inv_ledger [OF inv i this]
  have 1: "repair_inv (w\<lparr>rw_db := ?db\<rparr>)" by simp
  have "x \<in> set (rw_owed w) \<and> settled x db" if "reach = Heard" "x \<in> set conv" for x
    using recover_store_conv [OF d that(2)] repair_invD(12) [OF 1] D(7) [OF Some] that(1) by auto
  then have "repair_inv (w\<lparr>rw_recover := None, rw_db := ?db, rw_converged := (if reach = Heard then Some conv else None)\<rparr>)"
    using 1 by (auto simp: repair_inv_def)
  then show ?thesis by (simp add: repair_steps Some d)
qed (use inv in \<open>simp add: repair_steps\<close>)

lemma clear_step_inv:
  assumes inv: "repair_inv w"
  shows "repair_inv (repair_step me RwRecoverClear w)"
proof (cases "rw_converged w")
  case (Some ids)
  note rok = repair_invD(3) [OF inv]
  have "repair_inv (w\<lparr>rw_rep := recover_clear ids (rw_rep w)\<rparr>)"
    by (rule repair_inv_rep [OF inv recover_clear_ok(1) [OF rok]])
       (use repair_invD(8) [OF inv Some] repair_invD(10) [OF inv] in
        \<open>auto simp: recover_clear_sel recover_clear_ok(2) [OF rok] intro!: forgets_noneI\<close>)
  then have "repair_inv (w\<lparr>rw_rep := recover_clear ids (rw_rep w), rw_converged := None\<rparr>)" by (simp add: repair_inv_def)
  then show ?thesis by (simp add: repair_steps Some)
qed (use inv in \<open>simp add: repair_steps\<close>)

lemma repair_step_inv: "repair_inv w \<Longrightarrow> in_order op w \<Longrightarrow> repair_inv (repair_step me op w)"
proof (cases op)
  case RwRecoverRead
  assume inv: "repair_inv w"
  then show ?thesis using repair_invD(10) [OF inv] by (simp add: RwRecoverRead repair_steps repair_inv_def)
next
  case RwRenewRead
  assume inv: "repair_inv w"
  then show ?thesis by (simp add: RwRenewRead repair_steps repair_inv_def)
qed (simp_all add: enqueue_step_inv due_step_inv try_step_inv settle_step_inv ledger_step_inv renew_step_inv
    recover_step_inv clear_step_inv)

lemma repair_run_inv: "repair_inv w \<Longrightarrow> orderly me ops w \<Longrightarrow> repair_inv (fold (repair_step me) ops w)"
  by (induction ops arbitrary: w) (simp_all add: repair_step_inv)

lemma start_repairs_inv:
  assumes "exec_inv db \<and> queue_inv db"
  shows "repair_inv (start_repairs cfg db)"
  using assms by (simp add: repair_inv_def start_repairs_def rep_ok_def new_repairer_def pending_def objects_owed_def)

section \<open>No repair is lost\<close>

lemma owed_step: "set (rw_owed w) \<subseteq> set (rw_owed (repair_step me op w))"
  by (cases op) (auto simp: repair_steps Let_def split: option.split list.split prod.split)

lemma owed_fold: "set (rw_owed w) \<subseteq> set (rw_owed (fold (repair_step me) ops w))"
proof (induction ops arbitrary: w)
  case (Cons op ops)
  show ?case using owed_step [of w me op] Cons.IH [of "repair_step me op w"] by simp
qed simp

lemma owed_run:
  "RwEnqueue i now \<in> set ops \<Longrightarrow> ri_kind i = RepairRuntime \<Longrightarrow> ri_exec i \<in> set (rw_owed (fold (repair_step me) ops w))"
proof (induction ops arbitrary: w)
  case (Cons op ops)
  show ?case
  proof (cases "op = RwEnqueue i now")
    case True
    then have "ri_exec i \<in> set (rw_owed (repair_step me op w))" using Cons.prems(2) by (simp add: repair_steps)
    then show ?thesis using owed_fold [of "repair_step me op w" me ops] by auto
  qed (use Cons in simp)
qed simp

lemma capacity_step: "rc_capacity (rp_config (rw_rep (repair_step me op w))) = rc_capacity (rp_config (rw_rep w))"
proof -
  have e: "rp_config (fold (expire_entry now) es r) = rp_config r" for now es r
    by (induction es arbitrary: r) (auto simp: expire_entry_def Let_def split: prod.split)
  show ?thesis
    by (cases op)
       (auto simp: repair_steps enqueue_repair_def Let_def process_due_def begin_attempt_def e
          repair_succeeded_def repair_failed_def recover_clear_sel split: option.split list.split prod.split)
qed

lemma capacity_run: "rc_capacity (rp_config (rw_rep (fold (repair_step me) ops w))) = rc_capacity (rp_config (rw_rep w))"
  by (induction ops arbitrary: w) (simp_all add: capacity_step)

text \<open>
  C17. No terminal outcome is lost while the gateway runs.  Whatever the interleaving of callers,
  the processing loop with store calls that fail or whose answer is lost, renewals, recoveries and
  all other ledger transactions, session deletions included: an execution for which a runtime
  repair was ever asked has no row any more or a terminal one, or still waits in the backlog, or is
  excluded from lease renewal.  The backlog keeps its bound, and an execution whose repair is still
  tried is not excluded.  Assumed of the run: a runtime repair is asked only for executions that do
  not wait in a queue, and no new execution gets the id of one a repair was asked for.
\<close>

theorem no_repair_lost:
  assumes w0: "w0 = start_repairs cfg (fold exec_step ops0 (empty_db m))"
    and run: "w = fold (repair_step me) ops w0" "orderly me ops w0"
  shows "(\<forall>i now. RwEnqueue i now \<in> set ops \<and> ri_kind i = RepairRuntime \<longrightarrow>
      settled (ri_exec i) (rw_db w) \<or> pending (ri_exec i) (rw_rep w) \<or> ri_exec i \<in> set (rp_abandoned (rw_rep w))) \<and>
    (\<forall>x. \<not> (pending x (rw_rep w) \<and> x \<in> set (rp_abandoned (rw_rep w)))) \<and>
    backlog (rw_rep w) \<le> max 2 (rc_capacity cfg)"
proof -
  have "repair_inv w0" unfolding w0 by (rule start_repairs_inv) (use run_db_inv in blast)
  from repair_run_inv [OF this run(2)] have inv: "repair_inv w" by (simp add: run(1))
  have c: "rc_capacity (rp_config (rw_rep w)) = max 2 (rc_capacity cfg)"
    unfolding run(1) w0 capacity_run by (simp add: start_repairs_def new_repairer_def max_def)
  show ?thesis
    using owed_run [of _ _ ops me w0] repair_invD(11) [OF inv] rep_okD(4,5) [OF repair_invD(3) [OF inv]] c by (auto simp: backlog_def run(1))
qed

section \<open>Given-up repairs converge\<close>

text \<open>The rows of the execution that hold its session are its gateway's, with leases up to \<open>t\<close>.\<close>

definition lease_by :: "string \<Rightarrow> execution_id \<Rightarrow> millis \<Rightarrow> exec_db \<Rightarrow> bool" where
  "lease_by me x t db \<longleftrightarrow>
     (\<forall>r \<in> set (t_exec db). x_id r = x \<longrightarrow> live_runtime (x_runtime r) \<longrightarrow> x_owner r = me \<and> x_lease r \<le> t)"

lemma lease_by_kept:
  assumes "leases_kept N (t_exec db) (t_exec db')" "x \<notin> N" "\<not> waits x db" "lease_by me x t db"
  shows "lease_by me x t db'"
  unfolding lease_by_def
proof (intro ballI impI)
  fix r' assume r': "r' \<in> set (t_exec db')" "x_id r' = x" "live_runtime (x_runtime r')"
  then obtain r where r: "r \<in> set (t_exec db)" "lease_kept r r'" using assms(1,2) unfolding leases_kept_def by blast
  then have "x_id r = x" using r'(2) by (simp add: lease_kept_def)
  moreover from this have "x_runtime r \<noteq> RtQueued" using assms(3) r(1) unfolding waits_def by blast
  ultimately show "x_owner r' = me \<and> x_lease r' \<le> t"
    using assms(4) r r'(3) unfolding lease_by_def lease_kept_def by metis
qed

lemma lease_by_settled: "settled x db \<Longrightarrow> lease_by me x t db"
  unfolding settled_def lease_by_def by blast

text \<open>A renewal that excludes the execution, is another owner's or ends by \<open>t\<close> does no harm.\<close>

lemma lease_by_renew:
  assumes "exec_inv db" "lease_by me x t db" "x \<in> set excluded \<or> owner \<noteq> me \<or> dbnow + ttl * 1000 \<le> t"
  shows "lease_by me x t (fst (renew_leases owner ttl excluded dbnow db))"
proof -
  obtain P where e: "t_exec (fst (renew_leases owner ttl excluded dbnow db)) = sql_update P (renew_row dbnow ttl) (t_exec db)"
    and P: "\<And>r. P r \<Longrightarrow> renewable owner r \<and> owner \<noteq> [] \<and> x_id r \<notin> set excluded"
    using renew_shape [OF assms(1)] by blast
  show ?thesis
    unfolding lease_by_def e set_sql_update
  proof (intro ballI impI)
    fix r' assume r': "r' \<in> (\<lambda>r. if P r then renew_row dbnow ttl r else r) ` set (t_exec db)" "x_id r' = x"
      "live_runtime (x_runtime r')"
    then obtain r where r: "r \<in> set (t_exec db)" "r' = (if P r then renew_row dbnow ttl r else r)" by blast
    then have same: "x_id r = x" "live_runtime (x_runtime r)" "x_owner r' = x_owner r"
      using r'(2,3) by (simp_all add: renew_row_def split: if_splits)
    then have old: "x_owner r = me" "x_lease r \<le> t" using assms(2) r(1) by (auto simp: lease_by_def)
    have "x_lease r' \<le> t"
    proof (cases "P r")
      case True
      then have "dbnow + ttl * 1000 \<le> t" using P [OF True] assms(3) same(1) old(1) by (auto simp: renewable_def)
      then show ?thesis using True r(2) by (simp add: renew_row_def)
    qed (use r(2) old in simp)
    then show "x_owner r' = me \<and> x_lease r' \<le> t" using same(3) old(1) by simp
  qed
qed

text \<open>Given up: nothing is tried for the execution any more, and it is settled or excluded.\<close>

definition given_up :: "string \<Rightarrow> execution_id \<Rightarrow> millis \<Rightarrow> repair_world \<Rightarrow> bool" where
  "given_up me x t w \<longleftrightarrow> repair_inv w \<and> x \<in> set (rw_owed w) \<and> \<not> pending x (rw_rep w) \<and>
     lease_by me x t (rw_db w) \<and> (settled x (rw_db w) \<or> x \<in> set (rp_abandoned (rw_rep w)))"

definition left_out :: "execution_id \<Rightarrow> repair_world \<Rightarrow> bool" where
  "left_out x w \<longleftrightarrow> settled x (rw_db w) \<or> (\<forall>ids. rw_renew w = Some ids \<longrightarrow> x \<in> set ids)"

text \<open>Nobody asks for a new repair of it, and its owner renews only through this gateway's loop.\<close>

fun leaves_alone :: "string \<Rightarrow> execution_id \<Rightarrow> repair_op \<Rightarrow> bool" where
  "leaves_alone me x (RwEnqueue i now) = (ri_kind i = RepairRuntime \<longrightarrow> ri_exec i \<noteq> x)"
| "leaves_alone me x (RwLedger op) = (renews op \<noteq> Some me)"
| "leaves_alone me x _ = True"

text \<open>The database time of the first renewal of the loop.\<close>

fun renewed_at :: "repair_op list \<Rightarrow> millis option" where
  "renewed_at [] = None"
| "renewed_at (RwRenewStore reach dbnow # ops) = Some dbnow"
| "renewed_at (_ # ops) = renewed_at ops"

lemma enqueue_abandoned:
  "x \<in> set (rp_abandoned r) \<Longrightarrow> (ri_kind i = RepairRuntime \<longrightarrow> ri_exec i \<noteq> x) \<Longrightarrow>
   x \<in> set (rp_abandoned (enqueue_repair now i r))"
  by (cases rule: enqueue_cases [where now = now and i = i and r = r]) (auto simp: Let_def keep_sel)

lemma enqueue_pending:
  assumes "rep_ok r" "ri_kind i = RepairRuntime \<longrightarrow> ri_exec i \<noteq> x" "\<not> pending x r"
  shows "\<not> pending x (enqueue_repair now i r)"
proof (cases rule: enqueue_cases [where now = now and i = i and r = r])
  case (older o') then show ?thesis using assms by simp
next
  case dropped then show ?thesis using assms by (auto simp: Let_def pending_def)
next
  case kept then show ?thesis using assms by (simp add: keep_pending [OF assms(1)])
qed

lemma expire_all_pending:
  assumes "pending x (fold (expire_entry now) es r)"
  shows "pending x r"
  using assms
proof (induction es arbitrary: r)
  case (Cons e es)
  obtain k o' where e: "e = (k, o')" by (cases e)
  let ?r = "expire_entry now (k, o') r"
  have o: "rp_objects ?r = rp_objects r" by (simp add: expire_entry_def Let_def)
  have "set (rp_intents ?r) \<subseteq> set (rp_intents r)" by (auto simp: expire_entry_def Let_def delete_mem)
  moreover have "pending x ?r" using Cons by (simp add: e)
  ultimately show ?case by (rule_tac pendingE [OF \<open>pending x ?r\<close>]) (auto simp: o intro: pendingI)
qed simp

lemma process_due_pending: "pending x (fst (process_due now r)) \<Longrightarrow> pending x r"
  using expire_all_pending by (simp add: process_due_def)

lemma process_due_abandoned: "x \<in> set (rp_abandoned r) \<Longrightarrow> x \<in> set (rp_abandoned (fst (process_due now r)))"
proof -
  have "x \<in> set (rp_abandoned r) \<Longrightarrow> x \<in> set (rp_abandoned (fold (expire_entry now) es r))" for es
    by (induction es arbitrary: r) (auto simp: expire_entry_def Let_def split: prod.split)
  then show "x \<in> set (rp_abandoned r) \<Longrightarrow> x \<in> set (rp_abandoned (fst (process_due now r)))" by (simp add: process_due_def)
qed

lemma succeeded_abandoned:
  "x \<in> set (rp_abandoned r) \<Longrightarrow> (ri_kind (rp_objects r ! o') = RepairRuntime \<Longrightarrow> ri_exec (rp_objects r ! o') \<noteq> x) \<Longrightarrow>
   x \<in> set (rp_abandoned (repair_succeeded o' r))"
  by (auto simp: repair_succeeded_def Let_def)

lemma succeeded_pending: "pending x (repair_succeeded o' r) \<Longrightarrow> pending x r"
  by (auto simp: repair_succeeded_def Let_def pending_def delete_mem split: if_splits)

lemma try_rep:
  "rw_rep (repair_step me (RwTry reach now dbnow) w) = rw_rep w \<or>
   (\<exists>o'. rw_rep (repair_step me (RwTry reach now dbnow) w) = begin_attempt o' (rw_rep w))"
proof (cases "\<exists>o' due. rw_due w = o' # due \<and> rw_tried w = None")
  case True
  then obtain o' due where o: "rw_due w = o' # due" "rw_tried w = None" by blast
  then show ?thesis by (auto simp: repair_steps Let_def case_prod_unfold)
next
  case False
  then have "repair_step me (RwTry reach now dbnow) w = w"
    by (cases "rw_due w"; cases "rw_tried w") (simp_all add: repair_steps)
  then show ?thesis by simp
qed

lemma settle_rep:
  "rw_rep (repair_step me (RwSettle now) w) = rw_rep w \<or>
   (\<exists>o'. rw_rep (repair_step me (RwSettle now) w) = repair_succeeded o' (rw_rep w)) \<or>
   (\<exists>o'. rw_rep (repair_step me (RwSettle now) w) = repair_failed now o' (rw_rep w))"
proof (cases "rw_tried w")
  case (Some p)
  then show ?thesis by (cases p; cases "snd p") (auto simp: repair_steps)
qed (simp add: repair_steps)

lemma try_db:
  "rw_db (repair_step me (RwTry reach now dbnow) w) = rw_db w \<or>
   (\<exists>i. rw_db (repair_step me (RwTry reach now dbnow) w) = fst (process_intent now dbnow i (rw_db w)))"
proof (cases "\<exists>o' due. rw_due w = o' # due \<and> rw_tried w = None")
  case True
  then obtain o' due where o: "rw_due w = o' # due" "rw_tried w = None" by blast
  then show ?thesis by (cases "reach = Lost") (auto simp: repair_steps Let_def case_prod_unfold)
next
  case False
  then have "repair_step me (RwTry reach now dbnow) w = w"
    by (cases "rw_due w"; cases "rw_tried w") (simp_all add: repair_steps)
  then show ?thesis by simp
qed

lemma recover_db:
  "rw_db (repair_step me (RwRecoverStore reach dbnow) w) = rw_db w \<or>
   (\<exists>ids. rw_db (repair_step me (RwRecoverStore reach dbnow) w) = fst (recover_store ids dbnow (rw_db w)))"
  by (cases "rw_recover w"; cases "reach = Lost") (auto simp: repair_steps case_prod_unfold)

lemma settled_step:
  assumes inv: "repair_inv w" and op: "in_order op w" and x: "x \<in> set (rw_owed w)" and s: "settled x (rw_db w)"
  shows "settled x (rw_db (repair_step me op w))"
proof -
  note D = repair_invD [OF inv]
  have up: "settled x db" if "states_kept {} (rw_db w) db" for db by (rule settled_up [OF that _ s]) simp
  have lk: "settled x db" if "leases_kept {} (t_exec (rw_db w)) (t_exec db)" for db by (rule up [OF leases_states [OF that]])
  show ?thesis
  proof (cases op)
    case (RwTry reach now dbnow)
    then show ?thesis using try_db [of me reach now dbnow w] s lk [OF process_intent_leases] by metis
  next
    case (RwRenewStore reach dbnow)
    show ?thesis
      using s up [OF renew_states [OF D(1)]]
      by (auto simp: RwRenewStore repair_steps renew_tick_def split: option.split)
  next
    case (RwRecoverStore reach dbnow)
    then show ?thesis using recover_db [of me reach dbnow w] s lk [OF recover_store_leases] by metis
  next
    case (RwLedger op')
    have "x \<notin> set_option (new_id op')" using op x by (auto simp: RwLedger)
    then show ?thesis
      using settled_up [OF exec_step_states [OF D(1), of op'] _ s] by (simp add: RwLedger repair_steps)
  qed (use s in \<open>auto simp: repair_steps split: option.split\<close>)
qed

lemma lease_step:
  assumes inv: "repair_inv w" and op: "in_order op w" "leaves_alone me x op" and x: "x \<in> set (rw_owed w)"
    and l: "lease_by me x t (rw_db w)"
    and out: "left_out x w \<or> (\<forall>reach d. op = RwRenewStore reach d \<longrightarrow> d + lease_ttl * 1000 \<le> t)"
  shows "lease_by me x t (rw_db (repair_step me op w))"
proof (cases "settled x (rw_db w)")
  case True
  then show ?thesis by (rule lease_by_settled [OF settled_step [OF inv op(1) x]])
next
  case False
  note D = repair_invD [OF inv]
  have lk: "lease_by me x t db" if "leases_kept {} (t_exec (rw_db w)) (t_exec db)" for db
    by (rule lease_by_kept [OF that _ D(12) [OF x] l]) simp
  show ?thesis
  proof (cases op)
    case (RwTry reach now dbnow)
    then show ?thesis using try_db [of me reach now dbnow w] l lk [OF process_intent_leases] by metis
  next
    case (RwRenewStore reach dbnow)
    show ?thesis
    proof (cases "rw_renew w")
      case (Some ids)
      then have "x \<in> set ids \<or> dbnow + lease_ttl * 1000 \<le> t"
        using out False by (auto simp: left_out_def RwRenewStore)
      then have "lease_by me x t (renew_tick me ids dbnow (rw_db w))"
        unfolding renew_tick_def by (intro lease_by_renew [OF D(1) l]) blast
      then show ?thesis using l by (simp add: RwRenewStore repair_steps Some)
    qed (use l in \<open>simp add: RwRenewStore repair_steps\<close>)
  next
    case (RwRecoverStore reach dbnow)
    then show ?thesis using recover_db [of me reach dbnow w] l lk [OF recover_store_leases] by metis
  next
    case (RwLedger op')
    show ?thesis
    proof (cases "renews op'")
      case None
      have "x \<notin> set_option (new_id op')" using op(1) x by (auto simp: RwLedger)
      then show ?thesis
        using lease_by_kept [OF exec_step_leases [OF D(1) None] _ D(12) [OF x] l] by (simp add: RwLedger repair_steps)
    next
      case (Some owner)
      then obtain ttl ids dbnow where r: "op' = OpRenew owner ttl ids dbnow" by (cases op') simp_all
      have "owner \<noteq> me" using op(2) Some by (simp add: RwLedger)
      then show ?thesis using lease_by_renew [OF D(1) l, of ids owner] by (simp add: RwLedger repair_steps r)
    qed
  qed (use l in \<open>auto simp: repair_steps split: option.split\<close>)
qed

lemma pending_step:
  assumes inv: "repair_inv w" and op: "leaves_alone me x op" and p: "\<not> pending x (rw_rep w)"
  shows "\<not> pending x (rw_rep (repair_step me op w))"
proof -
  note ok = repair_invD(3) [OF inv]
  show ?thesis
  proof (cases op)
    case (RwEnqueue i now)
    then show ?thesis using enqueue_pending [OF ok _ p] op by (simp add: repair_steps)
  next
    case (RwDue now order)
    then show ?thesis using process_due_pending [of x now "rw_rep w"] p by (auto simp: repair_steps)
  next
    case (RwTry reach now dbnow)
    then show ?thesis using try_rep [of me reach now dbnow w] p attempt_ok(2) [OF ok] by metis
  next
    case (RwSettle now)
    then show ?thesis using settle_rep [of me now w] p succeeded_pending failed_ok(2) [OF ok] by metis
  next
    case RwRecoverClear
    then show ?thesis using p by (simp add: repair_steps recover_clear_ok(2) [OF ok] split: option.split)
  qed (use p in \<open>auto simp: repair_steps split: option.split prod.split\<close>)
qed

text \<open>Only a settled execution loses its exclusion, and none gets one without a repair.\<close>

lemma abandoned_step:
  assumes inv: "repair_inv w" and op: "leaves_alone me x op" and s: "\<not> settled x (rw_db w)"
    and a: "x \<in> set (rp_abandoned (rw_rep w))"
  shows "x \<in> set (rp_abandoned (rw_rep (repair_step me op w)))"
proof -
  note D = repair_invD [OF inv]
  show ?thesis
  proof (cases op)
    case (RwEnqueue i now)
    then show ?thesis using enqueue_abandoned [OF a] op by (simp add: repair_steps)
  next
    case (RwDue now order)
    then show ?thesis using process_due_abandoned [OF a] a by (simp add: repair_steps)
  next
    case (RwTry reach now dbnow)
    then show ?thesis using try_rep [of me reach now dbnow w] a attempt_ok(3) [OF D(3)] by metis
  next
    case (RwSettle now)
    show ?thesis
    proof (cases "rw_tried w")
      case (Some p)
      then obtain o' ok where t: "rw_tried w = Some (o', ok)" by (cases p) simp
      then have "ok \<Longrightarrow> ri_kind (rp_objects (rw_rep w) ! o') = RepairRuntime \<Longrightarrow> ri_exec (rp_objects (rw_rep w) ! o') \<noteq> x"
        using D(5) s by auto
      then show ?thesis using succeeded_abandoned [OF a, of o'] a failed_ok(3) [OF D(3)] by (simp add: RwSettle repair_steps t)
    qed (use a in \<open>simp add: RwSettle repair_steps\<close>)
  next
    case RwRecoverClear
    then show ?thesis using a s D(8) [of _ x] by (auto simp: repair_steps recover_clear_sel split: option.split)
  qed (use a in \<open>auto simp: repair_steps split: option.split prod.split\<close>)
qed

lemma expire_all_fresh:
  assumes "rep_ok r" "x \<notin> set (rp_abandoned r)" "\<not> pending x r" "set es \<subseteq> set (rp_intents r)" "distinct (map fst es)"
  shows "x \<notin> set (rp_abandoned (fold (expire_entry now) es r))"
  using assms
proof (induction es arbitrary: r)
  case (Cons e es)
  obtain k o' where e: "e = (k, o')" by (cases e)
  let ?r = "expire_entry now (k, o') r"
  have m: "(k, o') \<in> set (rp_intents r)" using Cons.prems(4) by (simp add: e)
  have k: "k = intent_key (rp_objects r ! o')" by (rule rep_okD(3) [OF Cons.prems(1) m])
  have ok: "rep_ok ?r" "rp_objects ?r = rp_objects r" using expire_entry_ok [OF Cons.prems(1) k, of now "\<lambda>_. False"] by simp_all
  have "\<not> (ri_kind (rp_objects r ! o') = RepairRuntime \<and> ri_exec (rp_objects r ! o') = x)"
    using Cons.prems(3) pendingI [OF m, of x] by blast
  then have a: "x \<notin> set (rp_abandoned ?r)" using Cons.prems(2) by (auto simp: expire_entry_def Let_def)
  have p: "\<not> pending x ?r"
    using Cons.prems(3) expire_all_pending [of x now "[(k, o')]" r] by auto
  have "set es \<subseteq> set (rp_intents ?r)"
    using Cons.prems(4,5) by (force simp: e expire_entry_def Let_def delete_mem)
  then have "x \<notin> set (rp_abandoned (fold (expire_entry now) es ?r))"
    by (intro Cons.IH [OF ok(1) a p]) (use Cons.prems(5) in \<open>simp_all add: e\<close>)
  then show ?case by (simp add: e)
qed simp

lemma free_step:
  assumes inv: "repair_inv w" and op: "leaves_alone me x op" and p: "\<not> pending x (rw_rep w)"
    and a: "x \<notin> set (rp_abandoned (rw_rep w))"
  shows "x \<notin> set (rp_abandoned (rw_rep (repair_step me op w)))"
proof -
  note D = repair_invD [OF inv]
  show ?thesis
  proof (cases op)
    case (RwEnqueue i now)
    then show ?thesis using enqueue_abandoned_fresh [of now i "rw_rep w"] op a by (auto simp: repair_steps split: if_splits)
  next
    case (RwDue now order)
    have "x \<notin> set (rp_abandoned (fst (process_due now (rw_rep w))))"
      using expire_all_fresh [OF D(3) a p subset_refl rep_okD(1) [OF D(3)], of now] by (simp add: process_due_def)
    then show ?thesis using a by (simp add: RwDue repair_steps)
  next
    case (RwTry reach now dbnow)
    then show ?thesis using try_rep [of me reach now dbnow w] a attempt_ok(3) [OF D(3)] by metis
  next
    case (RwSettle now)
    then show ?thesis using settle_rep [of me now w] a succeeded_fresh failed_ok(3) [OF D(3)] by (metis subsetD)
  next
    case RwRecoverClear
    then show ?thesis using a by (simp add: repair_steps recover_clear_sel split: option.split)
  qed (use a in \<open>auto simp: repair_steps split: option.split prod.split\<close>)
qed

lemma given_up_step:
  assumes gu: "given_up me x t w" and op: "in_order op w" "leaves_alone me x op"
    and out: "left_out x w \<or> (\<forall>reach d. op = RwRenewStore reach d \<longrightarrow> d + lease_ttl * 1000 \<le> t)"
  shows "given_up me x t (repair_step me op w)"
proof -
  have g: "repair_inv w" "x \<in> set (rw_owed w)" "\<not> pending x (rw_rep w)" "lease_by me x t (rw_db w)"
    "settled x (rw_db w) \<or> x \<in> set (rp_abandoned (rw_rep w))" using gu by (simp_all add: given_up_def)
  have "settled x (rw_db (repair_step me op w)) \<or> x \<in> set (rp_abandoned (rw_rep (repair_step me op w)))"
    using g(5) settled_step [OF g(1) op(1) g(2)] abandoned_step [OF g(1) op(2)] by blast
  then show ?thesis
    using repair_step_inv [OF g(1) op(1)] owed_step [of w me op] g(2) pending_step [OF g(1) op(2) g(3)]
      lease_step [OF g(1) op g(2,4) out] by (auto simp: given_up_def)
qed

lemma left_out_step:
  assumes gu: "given_up me x t w" and op: "in_order op w" and out: "left_out x w"
  shows "left_out x (repair_step me op w)"
proof (cases "settled x (rw_db w)")
  case True
  then show ?thesis using settled_step [OF _ op, of x me] gu by (simp add: left_out_def given_up_def)
next
  case False
  then have a: "x \<in> set (rp_abandoned (rw_rep w))" using gu by (simp add: given_up_def)
  have "\<forall>ids. rw_renew (repair_step me op w) = Some ids \<longrightarrow> x \<in> set ids"
    using out False a
    by (cases op) (auto simp: left_out_def repair_steps Let_def split: list.split option.split prod.split)
  then show ?thesis by (simp add: left_out_def)
qed

lemma left_out_store: "left_out x (repair_step me (RwRenewStore reach d) w)"
  by (auto simp: left_out_def repair_steps split: option.split)

lemma renewed_at_Cons:
  "renewed_at (op # ops) = (case op of RwRenewStore reach d \<Rightarrow> Some d | _ \<Rightarrow> renewed_at ops)"
  by (cases op) simp_all

lemma renewed_at_append: "renewed_at a = Some d \<Longrightarrow> renewed_at (a @ b) = Some d"
  by (induction a) (auto simp: renewed_at_Cons split: repair_op.splits)

lemma given_up_run:
  assumes "given_up me x t w" "orderly me ops w" "\<forall>op \<in> set ops. leaves_alone me x op"
    "left_out x w \<or> (\<forall>d. renewed_at ops = Some d \<longrightarrow> d + lease_ttl * 1000 \<le> t)"
  shows "given_up me x t (fold (repair_step me) ops w)"
  using assms
proof (induction ops arbitrary: w)
  case (Cons op ops)
  let ?w = "repair_step me op w"
  have op: "in_order op w" "orderly me ops ?w" "leaves_alone me x op" using Cons.prems(2,3) by simp_all
  have gu: "given_up me x t ?w"
    by (rule given_up_step [OF Cons.prems(1) op(1,3)]) (use Cons.prems(4) in \<open>auto simp: renewed_at_Cons\<close>)
  have "left_out x ?w \<or> (\<forall>d. renewed_at ops = Some d \<longrightarrow> d + lease_ttl * 1000 \<le> t)"
    using Cons.prems(4) left_out_step [OF Cons.prems(1) op(1)] left_out_store [of x me]
    by (cases op) (auto simp: renewed_at_Cons)
  then have "given_up me x t (fold (repair_step me) ops ?w)" using Cons.IH [OF gu op(2)] Cons.prems(3) by simp
  then show ?case by simp
qed simp

text \<open>A round of the recovery loop keeps its place while other sections run.\<close>

lemma round_open:
  assumes "rw_recover w = Some tr" "rw_converged w = None" "\<forall>reach d. RwRecoverStore reach d \<notin> set ops"
  shows "rw_recover (fold (repair_step me) ops w) = Some tr \<and> rw_converged (fold (repair_step me) ops w) = None"
  using assms
proof (induction ops arbitrary: w)
  case (Cons op ops)
  have "rw_recover (repair_step me op w) = Some tr \<and> rw_converged (repair_step me op w) = None"
    using Cons.prems by (cases op) (auto simp: repair_steps Let_def split: list.split option.split prod.split)
  then show ?case using Cons.IH [of "repair_step me op w"] Cons.prems(3) by simp
qed simp

lemma round_closing:
  assumes "rw_recover w = None" "rw_converged w = Some ids" "RwRecoverClear \<notin> set ops"
  shows "rw_recover (fold (repair_step me) ops w) = None \<and> rw_converged (fold (repair_step me) ops w) = Some ids"
  using assms
proof (induction ops arbitrary: w)
  case (Cons op ops)
  have "rw_recover (repair_step me op w) = None \<and> rw_converged (repair_step me op w) = Some ids"
    using Cons.prems by (cases op) (auto simp: repair_steps Let_def split: list.split option.split prod.split)
  then show ?case using Cons.IH [of "repair_step me op w"] Cons.prems(3) by simp
qed simp

lemma settled_run:
  assumes "repair_inv w" "orderly me ops w" "x \<in> set (rw_owed w)" "settled x (rw_db w)"
  shows "settled x (rw_db (fold (repair_step me) ops w))"
  using assms
proof (induction ops arbitrary: w)
  case (Cons op ops)
  let ?w = "repair_step me op w"
  have op: "in_order op w" "orderly me ops ?w" using Cons.prems(2) by simp_all
  have "settled x (rw_db (fold (repair_step me) ops ?w))"
    by (rule Cons.IH [OF repair_step_inv [OF Cons.prems(1) op(1)] op(2) _ settled_step [OF Cons.prems(1) op(1) Cons.prems(3,4)]])
       (use owed_step [of w me op] Cons.prems(3) in blast)
  then show ?case by simp
qed simp

lemma free_run:
  assumes "repair_inv w" "orderly me ops w" "\<forall>op \<in> set ops. leaves_alone me x op" "\<not> pending x (rw_rep w)"
    "x \<notin> set (rp_abandoned (rw_rep w))"
  shows "x \<notin> set (rp_abandoned (rw_rep (fold (repair_step me) ops w)))"
  using assms
proof (induction ops arbitrary: w)
  case (Cons op ops)
  let ?w = "repair_step me op w"
  have op: "in_order op w" "orderly me ops ?w" "leaves_alone me x op" using Cons.prems(2,3) by simp_all
  have "x \<notin> set (rp_abandoned (rw_rep (fold (repair_step me) ops ?w)))"
    by (rule Cons.IH [OF repair_step_inv [OF Cons.prems(1) op(1)] op(2) _
          pending_step [OF Cons.prems(1) op(3) Cons.prems(4)] free_step [OF Cons.prems(1) op(3) Cons.prems(4,5)]])
       (use Cons.prems(3) in simp)
  then show ?case by simp
qed simp

text \<open>The recovery at \<open>t\<close> leaves no live row whose lease ended by then.\<close>

lemma recover_settles:
  assumes inv: "repair_inv w" and x: "x \<in> set (rw_owed w)" and l: "lease_by me x t (rw_db w)"
    and r: "recover_store tracked t (rw_db w) = (db, conv)"
  shows "settled x db \<and> (x \<in> set tracked \<longrightarrow> x \<in> set conv)"
proof -
  obtain n where e: "recover_expired_leases tracked t (rw_db w) = (db, n, conv)"
    using r by (auto simp: recover_store_def split: prod.splits)
  note spec = recover_expired_spec [OF e]
  have dead: "\<not> live_runtime (x_runtime r)" if "r \<in> set (t_exec db)" "x_id r = x" for r
    using spec that l unfolding lease_by_def by fastforce
  have "states_kept {} (rw_db w) db"
    using leases_states [OF recover_store_leases [of "{}" "rw_db w" tracked t]] by (simp add: r)
  then have "\<not> waits x db" using waits_up [of "{}" "rw_db w" db x] repair_invD(12) [OF inv x] by simp
  then show ?thesis using settled_unless_live [of x db] dead spec by auto
qed

text \<open>
  C18. An execution whose repair was given up does not hold its session for ever.  Let the runtime
  repair of an execution be abandoned and its live rows be this gateway's with leases up to \<open>t\<close>.  A
  recovery round that begins later, when none is open, and whose store call is heard at the database
  time \<open>t\<close> leaves the execution without a row or with a terminal one, and it is no longer excluded.
  That is so whatever else happens before the round and between its sections - renewals of the loop,
  of which one already under way must end by \<open>t\<close>, failed rounds, other repairs, session deletions
  - as long as nobody asks for its runtime repair again and leases of this gateway are renewed by
  the loop only.  Assumed of the run as for the backlog: runtime repairs are asked
  for executions that do not wait in a queue, and ids are not reused.
\<close>

theorem given_up_execution_converges:
  assumes w: "w = fold (repair_step me) ops0 (start_repairs cfg (fold exec_step led (empty_db m)))"
      "x \<in> set (rp_abandoned (rw_rep w))"
    and lease: "\<forall>r \<in> set (t_exec (rw_db w)). x_id r = x \<longrightarrow> live_runtime (x_runtime r) \<longrightarrow> x_owner r = me \<and> x_lease r \<le> t"
    and under_way: "\<forall>ids d. rw_renew w = Some ids \<and> renewed_at (ops @ RwRecoverRead # ops1) = Some d \<longrightarrow>
      x \<in> set ids \<or> d + lease_ttl * 1000 \<le> t"
    and alone: "\<forall>op \<in> set (ops @ ops1 @ ops2). leaves_alone me x op"
    and w1: "w1 = fold (repair_step me) ops w" "rw_recover w1 = None" "rw_converged w1 = None"
    and round: "\<forall>reach d. RwRecoverStore reach d \<notin> set ops1" "RwRecoverClear \<notin> set ops2"
    and rest: "rest = ops @ RwRecoverRead # ops1 @ RwRecoverStore Heard t # ops2 @ [RwRecoverClear]"
    and order: "orderly me (ops0 @ rest) (start_repairs cfg (fold exec_step led (empty_db m)))"
    and w': "w' = fold (repair_step me) rest w"
  shows "settled x (rw_db w') \<and> x \<notin> set (rp_abandoned (rw_rep w'))"
proof -
  let ?f = "fold (repair_step me)"
  define w2 where "w2 = ?f (RwRecoverRead # ops1) w1"
  define w3 where "w3 = repair_step me (RwRecoverStore Heard t) w2"
  define w4 where "w4 = ?f ops2 w3"
  have w'4: "w' = repair_step me RwRecoverClear w4" by (simp add: w' rest w1 w2_def w3_def w4_def)
  have o: "orderly me ops0 (start_repairs cfg (fold exec_step led (empty_db m)))"
    "orderly me (ops @ RwRecoverRead # ops1) w" "orderly me (RwRecoverRead # ops1) w1" "orderly me ops w"
    "orderly me ops2 w3"
    using order by (simp_all add: rest orderly_append w(1) [symmetric] w1(1) [symmetric] w2_def w3_def)
  have "repair_inv (start_repairs cfg (fold exec_step led (empty_db m)))"
    by (rule start_repairs_inv) (use run_db_inv in blast)
  from repair_run_inv [OF this o(1)] have inv: "repair_inv w" by (simp add: w(1))
  have gu: "given_up me x t w"
    using inv w(2) repair_invD(10) [OF inv] rep_okD(5) [OF repair_invD(3) [OF inv], of x] lease
    by (auto simp: given_up_def lease_by_def)
  have out: "left_out x w \<or> (\<forall>d. renewed_at (ops @ RwRecoverRead # ops1) = Some d \<longrightarrow> d + lease_ttl * 1000 \<le> t)"
    using under_way by (auto simp: left_out_def)
  have "left_out x w \<or> (\<forall>d. renewed_at ops = Some d \<longrightarrow> d + lease_ttl * 1000 \<le> t)"
    using out renewed_at_append by metis
  from given_up_run [OF gu o(4) _ this] alone have gu1: "given_up me x t w1" by (simp add: w1(1))
  have "w2 = ?f (ops @ RwRecoverRead # ops1) w" by (simp add: w2_def w1(1))
  moreover have "\<forall>op \<in> set (ops @ RwRecoverRead # ops1). leaves_alone me x op" using alone by auto
  ultimately have gu2: "given_up me x t w2" using given_up_run [OF gu o(2) _ out] by simp
  have "rw_recover (repair_step me RwRecoverRead w1) = Some (rp_abandoned (rw_rep w1))"
    "rw_converged (repair_step me RwRecoverRead w1) = None" using w1(2,3) by (simp_all add: repair_steps)
  from round_open [OF this round(1)] have r2: "rw_recover w2 = Some (rp_abandoned (rw_rep w1))" by (simp add: w2_def)
  obtain db conv where d: "recover_store (rp_abandoned (rw_rep w1)) t (rw_db w2) = (db, conv)"
    by (cases "recover_store (rp_abandoned (rw_rep w1)) t (rw_db w2)")
  have e3: "rw_db w3 = db" "rw_recover w3 = None" "rw_converged w3 = Some conv" "rw_rep w3 = rw_rep w2" "rw_owed w3 = rw_owed w2"
    by (simp_all add: w3_def repair_steps r2 d)
  have inv2: "repair_inv w2" "x \<in> set (rw_owed w2)" "lease_by me x t (rw_db w2)" "\<not> pending x (rw_rep w2)"
    using gu2 by (simp_all add: given_up_def)
  from recover_settles [OF inv2(1-3) d] have s3: "settled x (rw_db w3)" "x \<in> set (rp_abandoned (rw_rep w1)) \<Longrightarrow> x \<in> set conv"
    by (simp_all add: e3)
  have inv3: "repair_inv w3" unfolding w3_def by (rule repair_step_inv [OF inv2(1)]) simp
  have s4: "settled x (rw_db w4)" unfolding w4_def by (rule settled_run [OF inv3 o(5) _ s3(1)]) (simp add: e3 inv2(2))
  have c4: "rw_converged w4 = Some conv" using round_closing [OF e3(2,3) round(2)] by (simp add: w4_def)
  have e': "rw_db w' = rw_db w4" "rw_rep w' = recover_clear conv (rw_rep w4)" by (simp_all add: w'4 repair_steps c4)
  have "x \<notin> set (rp_abandoned (rw_rep w'))"
  proof (cases "x \<in> set (rp_abandoned (rw_rep w1))")
    case True
    then show ?thesis using s3(2) by (simp add: e' recover_clear_sel)
  next
    case False
    have "x \<notin> set (rp_abandoned (rw_rep w2))"
      unfolding w2_def by (rule free_run [OF _ o(3) _ _ False]) (use gu1 alone in \<open>simp_all add: given_up_def\<close>)
    then have "x \<notin> set (rp_abandoned (rw_rep w4))"
      unfolding w4_def by (intro free_run [OF inv3 o(5)]) (use alone inv2(4) in \<open>simp_all add: e3\<close>)
    then show ?thesis by (simp add: e' recover_clear_sel)
  qed
  then show ?thesis using s4 by (simp add: e')
qed

definition a_session :: session_view where
  "a_session = \<lparr>sv_state = ''running'', sv_policy = ''v1'', sv_deleted_at = None, sv_conversation_expires = None\<rparr>"

definition accepted_ops :: "exec_op list" where
  "accepted_ops = [OpSessionSet ''s'' a_session,
     OpAccept \<lparr>sc_facts_ms = 0, sc_revision = []\<rparr>
       \<lparr>ar_session = ''s'', ar_client = ''c'', ar_hash = ''h'', ar_owner = ''gw'', ar_run = ''run''\<rparr> 1000 0 1000 ''x'']"

definition lost_outcome :: repair_intent where
  "lost_outcome = \<lparr>ri_exec = ''x'', ri_session = ''s'', ri_owner = ''gw'', ri_run = ''run'', ri_kind = RepairRuntime,
     ri_status = ''completed'', ri_code = [], ri_enqueued = 0, ri_attempts = 0, ri_next = 0\<rparr>"

definition repair_start :: repair_world where
  "repair_start = start_repairs (default_repair_config 1) (fold exec_step accepted_ops (empty_db Map.empty))"

text \<open>The renewal loop has read before the repair is given up, and stores afterwards.\<close>

definition lost_ops :: "repair_op list" where
  "lost_ops = [RwEnqueue lost_outcome 0, RwRenewRead, RwDue 0 [0], RwTry Lost 2000 2000, RwSettle 0, RwDue (31 * second) []]"

definition later_ops :: "repair_op list" where
  "later_ops = [RwRenewStore Heard 5000, RwLedger (OpSessionDelete ''other''), RwRecoverRead, RwRecoverStore Lost 30000]"

definition given_up_world :: repair_world where
  "given_up_world = fold (repair_step ''gw'') lost_ops repair_start"

theorem given_up_execution_converges_witness:
  "settled ''x'' (rw_db (fold (repair_step ''gw'')
     (later_ops @ RwRecoverRead # [RwRenewRead] @ RwRecoverStore Heard 65000 # [RwRenewStore Heard 65001] @ [RwRecoverClear])
     given_up_world)) \<and>
   \<not> settled ''x'' (rw_db given_up_world)"
proof -
  have f: "''x'' \<in> set (rp_abandoned (rw_rep given_up_world))"
    "\<forall>r \<in> set (t_exec (rw_db given_up_world)). x_id r = ''x'' \<longrightarrow> live_runtime (x_runtime r) \<longrightarrow> x_owner r = ''gw'' \<and> x_lease r \<le> 65000"
    "rw_recover (fold (repair_step ''gw'') later_ops given_up_world) = None"
    "rw_converged (fold (repair_step ''gw'') later_ops given_up_world) = None"
    by code_simp+
  have ren: "renewed_at (later_ops @ RwRecoverRead # [RwRenewRead]) = Some 5000" by (simp add: later_ops_def)
  have al: "\<forall>op \<in> set (later_ops @ [RwRenewRead] @ [RwRenewStore Heard 65001]). leaves_alone ''gw'' ''x'' op"
    by (simp add: later_ops_def)
  have o: "orderly ''gw'' (lost_ops @ later_ops @ RwRecoverRead # [RwRenewRead] @ RwRecoverStore Heard 65000 #
      [RwRenewStore Heard 65001] @ [RwRecoverClear]) (start_repairs (default_repair_config 1) (fold exec_step accepted_ops (empty_db Map.empty)))"
    by code_simp
  have "\<not> settled ''x'' (rw_db given_up_world)" by code_simp
  then show ?thesis
    using given_up_execution_converges [OF given_up_world_def [unfolded repair_start_def] f(1,2) _ al refl f(3,4) _ _ refl o refl]
    by (simp add: ren lease_ttl_def)
qed

text \<open>The same history without the time-out shows the other theorem at work.\<close>

theorem no_repair_lost_witness:
  "pending ''x'' (rw_rep (fold (repair_step ''gw'') [RwEnqueue lost_outcome 0, RwDue 0 [0], RwTry Lost 2000 2000, RwSettle 0]
     repair_start))"
proof -
  let ?ops = "[RwEnqueue lost_outcome 0, RwDue 0 [0], RwTry Lost 2000 2000, RwSettle 0]"
  have o: "orderly ''gw'' ?ops repair_start" by code_simp
  have n: "\<not> settled ''x'' (rw_db (fold (repair_step ''gw'') ?ops repair_start))"
    "''x'' \<notin> set (rp_abandoned (rw_rep (fold (repair_step ''gw'') ?ops repair_start)))" by code_simp+
  have "RwEnqueue lost_outcome 0 \<in> set ?ops \<and> ri_kind lost_outcome = RepairRuntime" "ri_exec lost_outcome = ''x''"
    by (simp_all add: lost_outcome_def)
  then show ?thesis using no_repair_lost [OF repair_start_def refl o] n by metis
qed

section \<open>Backoff\<close>

lemma repair_backoff_default:
  "repair_backoff (default_repair_config n) a =
     (let b = sint (push_bit a (100000000 :: 64 word)); b1 = (if b > 5 * second then 5 * second else b)
      in if b1 < 100000000 then 100000000 else b1)"
  by (simp add: repair_backoff_def default_repair_config_def Let_def)

lemma repair_backoff_table:
  "list_all (\<lambda>a. repair_backoff (default_repair_config 1) a = min (5 * second) (100000000 * 2 ^ a)) [0..<37]"
  by code_simp

text \<open>
  With the default settings an attempt doubles the pause up to five seconds, as far as the shift
  does not overflow; from the 37th attempt on it would fall back to the initial pause, which the
  lifetime of thirty seconds keeps out of reach.
\<close>

lemma repair_backoff_doubles:
  assumes "a < 37"
  shows "repair_backoff (default_repair_config n) a = min (5 * second) (100000000 * 2 ^ a)"
proof -
  have "repair_backoff (default_repair_config n) a = repair_backoff (default_repair_config 1) a"
    by (simp only: repair_backoff_default)
  then show ?thesis using repair_backoff_table assms by (simp add: list_all_iff)
qed

lemma repair_backoff_wraps: "repair_backoff (default_repair_config 1) 37 = 100000000"
  by code_simp

lemma repair_backoff_clamped:
  "rc_initial cfg \<le> rc_max cfg \<Longrightarrow> rc_initial cfg \<le> repair_backoff cfg a \<and> repair_backoff cfg a \<le> rc_max cfg"
  by (simp add: repair_backoff_def Let_def)

end
