(* ===== verification/Spec2Isabelle.thy ===== *)
theory Spec2Isabelle
  imports ExecProps EffectProps CronProps DeliverProps CleanupProps ManagerTickets ManagerLost SupplementProps
    RepairProps
begin

text \<open>
  HotPlex is a gateway that turns chat messages, web-socket inputs, webhooks and cron firings into
  runs of coding-agent workers.  This development models its durable core: what decides whether a
  worker may start, whether an accepted input is dispatched at most once, whether a firing runs at
  most once, whether the answer of a run is delivered at most once, and what becomes of a session
  and its content when it is deleted.

  \<^bold>\<open>The program.\<close>  An input becomes a row of the execution ledger
  (\<open>internal/execution\<close>): accepted into the session's one active slot, or put into the bounded
  durable queue and promoted later.  A worker for its session takes a slot of the quota pool
  (\<open>internal/session/pool.go\<close>).  A cron scheduler (\<open>internal/cron\<close>) fires jobs: a firing is claimed
  in the occurrence ledger, a session is started, its prompt dispatched, its outcome recorded.  The
  answer of a run is planned as an external delivery (\<open>internal/effect\<close>) and sent by the gateway's
  deliverer and recoverer (\<open>internal/gateway/effect_delivery.go\<close>, \<open>effect_recovery.go\<close>), under a
  lease and one numbered attempt at a time; the retry queue of \<open>internal/cron/delivery.go\<close> is the
  older owner of the same answer.  The components share the database; every operation modelled
  here is one mutex-protected section or one transaction of it, so concurrent use by goroutines
  and by several gateways is a sequence of operations, and the properties hold of every sequence.

  \<^bold>\<open>The theories.\<close>
  \<^item> \<open>Prelude\<close>, \<open>Tables\<close>, \<open>Interfaces\<close>: instants, Go maps with a missing key, SQL statements
    over tables as lists of rows, unique indexes; the collections \<open>table_simps\<close> and \<open>inv_intros\<close>;
    the contracts \<open>invariant_machine\<close>, \<open>monotone_machine\<close> and \<open>claim_ledger\<close> as locales.
  \<^item> \<open>Pool\<close>: \<open>PoolManager\<close>.  Record \<open>pool\<close> holds the four limits, the counters per user and
    workspace, the memory estimates and the gauge snapshot; one function per method.  The lemmas
    show the accounting, the limits, and that for clients that return what they hold the counters
    are the tickets they hold.
  \<^item> \<open>ExecStore\<close>, \<open>ExecQueue\<close>: \<open>SQLStore\<close> over \<open>execution_inputs\<close>, \<open>execution_queue\<close>,
    its payloads and counters.  \<open>ExecMachine\<close>: all its transactions as the steps of one machine,
    the invariant of the tables and the order a row can only climb.  \<open>ExecProps\<close>: dispatch at most
    once, idempotent acceptance, admission, fences, first in first out, queue bounds, leases,
    payload round trip, console pages.
  \<^item> \<open>Effects\<close>: the delivery ledger, planning to retention.  \<open>EffectMachine\<close>: the life of one
    effect as the step relation \<open>emove\<close>, and the simulation that every transaction moves each
    effect along it.  \<open>EffectProps\<close>: no blind resend, one send in flight, recorded outcomes, the
    attempt cap, owed content, idempotent planning, work lists, backoff, and the deliveries that
    get stuck in planned.
  \<^item> \<open>Cron\<close>: jobs, schedules, trigger keys, the occurrence ledger, \<open>Executor.Execute\<close>.
    \<open>CronSched\<close>: the job rows, the index, tick, run end, catch-up, reload, requested firings, the
    re-authorization of deliveries and the retry queue.  \<open>CronProps\<close>: one run per firing, distinct
    keys, one owner of the answer, jobs that stay off, bounds of the retry queue, the invariant of
    the scheduler, and what one-shot jobs, catch-ups and recovered gateway deliveries really do.
  \<^item> \<open>Deliver\<close>: the final answer, targets, \<open>sendClaimed\<close>, \<open>DeliverEffect\<close>, \<open>RecoverOnce\<close>.
    \<open>DeliverProps\<close>: the deliverer is a client of the protocol claim, call, record, and over any
    interleaving of its clients two provider calls for one delivery are two attempts of which the
    earlier was rejected as safe to repeat.

  \<^item> \<open>Session\<close>, \<open>Cleanup\<close>: the session rows of \<open>internal/session/store.go\<close>, the state machine
    of \<open>pkg/events\<close>, the lifecycle policies, the cleanup outbox and the purge jobs of
    \<open>cleanup_outbox.go\<close>, \<open>purge_store.go\<close> and \<open>purge_runner.go\<close>; record \<open>sess_db\<close> holds their tables
    beside those of the execution ledger.  \<open>CleanupMachine\<close>: all their transactions, the ledger's
    included, as one machine, and its invariant.  \<open>CleanupProps\<close>: deletion jobs tell the truth, a
    soft delete is final, retention keeps unsettled executions, cleanup leases exclude each other,
    and what becomes of an id that is deleted and created again.
  \<^item> \<open>Manager\<close>: the session manager of \<open>internal/session/manager.go\<close>, which keeps live sessions and
    their workers in memory over the store of \<open>Session\<close> and \<open>Cleanup\<close> and the pool of \<open>Pool\<close>.  Its
    methods release their mutexes around the store, so a method is a sequence of sections: the
    datatype \<open>frame\<close> says where a goroutine stands and what it carries, \<open>section_step\<close> runs its next
    section.  \<open>ManagerMachine\<close>: any number of goroutines, the collector and other writers of the
    database interleaved by section, and the invariant of all reachable worlds.  \<open>ManagerProps\<close>:
    attached workers belong to active sessions, deletions exclude each other;
    a transition that commits late, the zombie scan, the working directory.  \<open>ManagerTickets\<close>: the
    manager is a client of the quota pool that returns what it holds, but for one return too many
    for every worker that is taken out after a deletion gave its quota back, and the interleaving
    in which that happens.  \<open>ManagerLost\<close>: cached sessions no id leads to any more.
  \<^item> \<open>Supplements\<close>: the buffer of \<open>internal/gateway/pending_buffer.go\<close> for inputs that reach a busy
    session whose worker takes none; lifecycles and id records, which goroutines share by pointer,
    are objects of a store.  \<open>SupplementProps\<close>: attempts, replays and clears interleaved; the bound
    per session, one answer per client message id, and replays that outlive a clear.
  \<^item> \<open>Repair\<close>: \<open>internal/execution/repairer.go\<close>, the bounded backlog that retries terminal writes, and
    \<open>internal/execution/lease.go\<close>, renewal and recovery of leases; record \<open>repairer\<close> holds the intents as
    objects, the map to them and the abandoned executions.  \<open>RepairProps\<close>: callers, the processing
    loop, both lease loops and every other transaction of the ledger interleaved; no final status
    is lost, given-up executions converge, and the backoff doubles up to its bound.

  \<^bold>\<open>How the code is read.\<close>  A struct or a row is a record with the source's fields, a string
  constant set is a datatype with the constants and, where the code accepts any string, a
  constructor for the others.  Nullable columns and nil pointers are options.  Errors are values of
  an error datatype per package, in the answer of the operation.  Instants are nanoseconds since
  the epoch as \<open>int\<close>; \<open>time.Duration\<close> arithmetic that can wrap is written with words.  Counters
  that the source keeps in \<open>int\<close> and bounds by limits are \<open>int\<close>.  Ids and lease tokens that the
  code draws at random are arguments of the operations, and so are SHA-256, JSON encoding,
  RFC 3339 and cron-expression parsing, the Unicode tables and the provider of a platform; a law
  that is needed of one of them (an encoder that has a decoder, say) is a hypothesis of
  the property that uses it.  A read that is followed by a write in the same method is one step with
  it, except where the components above are split into sections; the batches of one lease renewal
  share one clock.

  \<^bold>\<open>Bounds.\<close>  No definition needs fuel: loops over rows, batches, pages and turns recurse on a
  list, and the doubling loops of the backoffs recurse on the attempt number.

  \<^bold>\<open>Not modelled.\<close>  A statement that fails in the driver leaves the tables as they were and is
  not an operation.  Log lines, metrics other than the quota gauges, timers, tickers, goroutine
  life cycles and recovered panics are left out.  The PostgreSQL stores run the statements modelled
  here in the other dialect.  Of the session manager, shutdown, the lists and snapshots for display
  and the permission ceiling are left out.  The bridge between workers and connections, the
  web-socket handler (its buffer for busy sessions apart) and the HTTP API are not modelled.  The messaging
  adapters, the worker processes, the language-model calls, configuration files, installation and
  the command line are input and output against other systems.
\<close>

end
